(* ===== verification/GoPrelude.thy ===== *)
theory GoPrelude
  imports Main "HOL-Library.Word" "HOL-Library.Signed_Division" "HOL-Library.State_Monad"
begin

text \<open>
  What every component of the development shares: Go's machine integers as words, Go's
  error values as a datatype, the outcome of a call that may panic, and the lemmas on
  signed words that keep the component proofs to linear integer arithmetic.

  An \<open>intN\<close> of Go is an \<open>N word\<close> read by \<^term>\<open>sint\<close>; \<open>+\<close> and \<open>-\<close> wrap around as
  in Go, and \<open>/\<close> and \<open>%\<close> truncate towards zero (\<open>quot_w\<close>, \<open>rem_w\<close> below).
\<close>

named_theorems sint_arith \<open>signed reading of word arithmetic that does not overflow\<close>
named_theorems model_defs \<open>definitions of the model that proofs and evaluations unfold\<close>

type_synonym int32 = "32 word"
type_synonym int64 = "64 word"
type_synonym uint32 = "32 word"

subsection \<open>Signed words\<close>

definition quot_w :: "'a::len word \<Rightarrow> 'a word \<Rightarrow> 'a word" where
  "quot_w a b = word_of_int (sint a sdiv sint b)"

definition rem_w :: "'a::len word \<Rightarrow> 'a word \<Rightarrow> 'a word" where
  "rem_w a b = word_of_int (sint a smod sint b)"

text \<open>The conversions \<open>int64(x)\<close> and \<open>int32(x)\<close> of a signed word keep its signed value
  where it fits and truncate otherwise.\<close>

definition conv_w :: "'a::len word \<Rightarrow> 'b::len word" where
  "conv_w a = word_of_int (sint a)"

lemma sint_of_int_fits:
  fixes k :: int
  assumes "- (2 ^ (LENGTH('a::len) - 1)) \<le> k" and "k < 2 ^ (LENGTH('a) - 1)"
  shows "sint (word_of_int k :: 'a word) = k"
  using assms by (simp add: signed_of_int signed_take_bit_int_eq_self)

lemma sint64_of_int [sint_arith]:
  "\<lbrakk>- 9223372036854775808 \<le> k; k \<le> 9223372036854775807\<rbrakk> \<Longrightarrow> sint (word_of_int k :: int64) = k"
  by (rule sint_of_int_fits) simp_all

lemma sint32_of_int [sint_arith]:
  "\<lbrakk>- 2147483648 \<le> k; k \<le> 2147483647\<rbrakk> \<Longrightarrow> sint (word_of_int k :: int32) = k"
  by (rule sint_of_int_fits) simp_all

lemma word_add_of_int: "(a :: 'a::len word) + b = word_of_int (sint a + sint b)"
  by simp

lemma word_diff_of_int: "(a :: 'a::len word) - b = word_of_int (sint a - sint b)"
  by simp

lemma word_minus_of_int: "- (a :: 'a::len word) = word_of_int (- sint a)"
  by simp

lemma sint64_bounds:
  "- 9223372036854775808 \<le> sint (a :: int64)" "sint (a :: int64) \<le> 9223372036854775807"
  using sint_range_size [of a] by (simp_all add: word_size)

lemma sint32_bounds:
  "- 2147483648 \<le> sint (a :: int32)" "sint (a :: int32) \<le> 2147483647"
  using sint_range_size [of a] by (simp_all add: word_size)

lemma sint64_add [sint_arith]:
  "\<lbrakk>- 9223372036854775808 \<le> sint a + sint b; sint a + sint b \<le> 9223372036854775807\<rbrakk>
     \<Longrightarrow> sint ((a :: int64) + b) = sint a + sint b"
  by (subst word_add_of_int) (rule sint64_of_int)

lemma sint32_add [sint_arith]:
  "\<lbrakk>- 2147483648 \<le> sint a + sint b; sint a + sint b \<le> 2147483647\<rbrakk>
     \<Longrightarrow> sint ((a :: int32) + b) = sint a + sint b"
  by (subst word_add_of_int) (rule sint32_of_int)

lemma sint64_diff [sint_arith]:
  "\<lbrakk>- 9223372036854775808 \<le> sint a - sint b; sint a - sint b \<le> 9223372036854775807\<rbrakk>
     \<Longrightarrow> sint ((a :: int64) - b) = sint a - sint b"
  by (subst word_diff_of_int) (rule sint64_of_int)

lemma sint32_diff [sint_arith]:
  "\<lbrakk>- 2147483648 \<le> sint a - sint b; sint a - sint b \<le> 2147483647\<rbrakk>
     \<Longrightarrow> sint ((a :: int32) - b) = sint a - sint b"
  by (subst word_diff_of_int) (rule sint32_of_int)

lemma sint64_minus [sint_arith]:
  "sint (a :: int64) \<noteq> - 9223372036854775808 \<Longrightarrow> sint (- a) = - sint a"
  using sint64_bounds [of a] by (subst word_minus_of_int) (rule sint64_of_int; linarith)

lemma sint32_minus [sint_arith]:
  "sint (a :: int32) \<noteq> - 2147483648 \<Longrightarrow> sint (- a) = - sint a"
  using sint32_bounds [of a] by (subst word_minus_of_int) (rule sint32_of_int; linarith)

lemma word_eq_0_sint: "(a :: 'a::len word) = 0 \<longleftrightarrow> sint a = 0"
proof
  assume "sint a = 0"
  then have "sint a = sint (0 :: 'a word)" by simp
  then show "a = 0" by (rule signed_word_eqI)
qed simp

lemmas word_cmp_sint = word_eq_0_sint word_sless_alt word_sle_eq

text \<open>Truncating division by a positive number, on the integers.\<close>

lemma sdiv_smod_pos:
  fixes a d :: int
  assumes "0 < d"
  shows "a sdiv d * d + a smod d = a"
    and "\<bar>a smod d\<bar> < d"
    and "0 \<le> a \<Longrightarrow> 0 \<le> a smod d \<and> 0 \<le> a sdiv d"
    and "a \<le> 0 \<Longrightarrow> a smod d \<le> 0 \<and> a sdiv d \<le> 0"
proof -
  show "a sdiv d * d + a smod d = a" by (rule sdiv_mult_smod_eq)
  have "\<bar>a\<bar> mod d < d" "0 \<le> \<bar>a\<bar> mod d" using assms by simp_all
  then show "\<bar>a smod d\<bar> < d"
    using assms by (cases a "0 :: int" rule: linorder_cases) (simp_all add: signed_modulo_int_def)
  show "0 \<le> a \<Longrightarrow> 0 \<le> a smod d \<and> 0 \<le> a sdiv d" "a \<le> 0 \<Longrightarrow> a smod d \<le> 0 \<and> a sdiv d \<le> 0"
    using assms \<open>0 \<le> \<bar>a\<bar> mod d\<close>
    by (auto simp: signed_modulo_int_def signed_divide_int_def sgn_if pos_imp_zdiv_nonneg_iff)
qed

subsection \<open>Errors and outcomes\<close>

text \<open>
  A Go \<open>error\<close> is kept as the expression that built it: the message of an opaque error
  of another package, a format with its arguments (\<open>fmt.Errorf\<close>), or a gRPC status with
  its code (\<open>status.Errorf\<close>), whose format may itself be the text of another error. The
  rendering of formats to text is not needed by any property and is not modelled.
\<close>

datatype grpc_code = Internal | NotFound | Unavailable | Unimplemented

datatype go_error =
    NewError string
  | Errorf string "fmt_arg list"
  | StatusErrorf grpc_code fmt_text "fmt_arg list"
and fmt_text = Lit string | ErrorText go_error
and fmt_arg = ArgS string | ArgE go_error

text \<open>The run-time panics of Go the model has to represent.\<close>

definition nil_deref :: go_error where
  "nil_deref = NewError ''runtime error: invalid memory address or nil pointer dereference''"

definition index_out_of_range :: go_error where
  "index_out_of_range = NewError ''runtime error: index out of range''"

text \<open>A call returns, panics with a value, or ends the process (\<open>log.Fatal\<close>).\<close>

datatype 'a outcome = Ret 'a | Panic go_error | Fatal string

primrec out_bind :: "'a outcome \<Rightarrow> ('a \<Rightarrow> 'b outcome) \<Rightarrow> 'b outcome" where
  "out_bind (Ret x) f = f x"
| "out_bind (Panic e) f = Panic e"
| "out_bind (Fatal s) f = Fatal s"

lemma out_bind_eq_Ret [simp]:
  "out_bind m f = Ret y \<longleftrightarrow> (\<exists>x. m = Ret x \<and> f x = Ret y)"
  by (cases m) simp_all

lemma out_bind_assoc: "out_bind (out_bind m f) g = out_bind m (\<lambda>x. out_bind (f x) g)"
  by (cases m) simp_all

text \<open>The environment of a process. \<open>os.Getenv\<close>: an unset variable reads as the empty string.\<close>

type_synonym environment = "string \<Rightarrow> string option"

definition getenv :: "environment \<Rightarrow> string \<Rightarrow> string" where
  "getenv env v = (case env v of Some x \<Rightarrow> x | None \<Rightarrow> '''')"

end
