(* ===== verification/AdderInterface.thy ===== *)
theory AdderInterface
  imports GoPrelude
begin

text \<open>
  The interface of an addition that may panic, as the checkout code relies on it: on the
  amounts it is used for (\<open>good\<close>), and below a limit, it returns, stays inside \<open>good\<close> and
  adds the values. What a client computes by repeated addition is proved here once, for any
  provider; \<open>Money\<close> interprets the interface with the code's \<open>Sum\<close>.
\<close>

text \<open>\<open>for _, x := range xs { total = add(total, x) }\<close>\<close>

primrec add_list :: "('m \<Rightarrow> 'm \<Rightarrow> 'm outcome) \<Rightarrow> 'm \<Rightarrow> 'm list \<Rightarrow> 'm outcome" where
  "add_list add t [] = Ret t"
| "add_list add t (x # xs) = out_bind (add t x) (\<lambda>t. add_list add t xs)"

locale adder =
  fixes add :: "'m \<Rightarrow> 'm \<Rightarrow> 'm outcome"
    and val :: "'m \<Rightarrow> int"
    and good :: "'m \<Rightarrow> bool"
    and limit :: int
  assumes add_good: "\<lbrakk>good a; good b; val a + val b < limit\<rbrakk>
      \<Longrightarrow> \<exists>c. add a b = Ret c \<and> good c \<and> val c = val a + val b"
    and val_nonneg: "good a \<Longrightarrow> 0 \<le> val a"
begin

lemma add_list_good:
  assumes "good t" and "\<forall>x\<in>set xs. good x" and "val t + sum_list (map val xs) < limit"
  shows "\<exists>c. add_list add t xs = Ret c \<and> good c \<and> val c = val t + sum_list (map val xs)"
  using assms
proof (induction xs arbitrary: t)
  case Nil
  then show ?case by simp
next
  case (Cons x xs)
  have "0 \<le> sum_list (map val xs)"
    using Cons.prems(2) by (intro sum_list_nonneg) (auto intro: val_nonneg)
  with Cons.prems obtain c where c: "add t x = Ret c" "good c" "val c = val t + val x"
    using add_good [of t x] by auto
  with Cons.prems Cons.IH [of c] show ?case by (simp add: add.assoc)
qed

lemma add_repeat_good:
  assumes "good m" and "int (Suc k) * val m < limit"
  shows "\<exists>c. add_list add m (replicate k m) = Ret c \<and> good c \<and> val c = int (Suc k) * val m"
  using add_list_good [of m "replicate k m"] assms
  by (simp add: sum_list_replicate algebra_simps set_replicate_conv_if)

end

end
