(* ===== verification/Money.thy ===== *)
theory Money
  imports AdderInterface
begin

text \<open>
  \<open>benchmarks/online-shop/checkoutservice/money/money.go\<close>: amounts of money as whole units
  (\<open>int64\<close>) and nano units (\<open>int32\<close>) of a currency, their validity and sign tests, addition
  and repeated addition. The arithmetic is the code's, on signed words that wrap around.
  \<open>money_val\<close> reads an amount as an integer number of nano units: the specification that
  \<open>Sum\<close> and \<open>MultiplySlow\<close> are measured against.
\<close>

text \<open>The struct \<open>pb.Money\<close>; its getters return the fields.\<close>

record money =
  CurrencyCode :: string
  Units :: int64
  Nanos :: int32

definition nanosMin :: int32 where "nanosMin = - 999999999"
definition nanosMax :: int32 where "nanosMax = 999999999"
definition nanosMod :: int32 where "nanosMod = 1000000000"

definition ErrInvalidValue :: go_error where
  "ErrInvalidValue = NewError ''one of the specified money values is invalid''"

definition ErrMismatchingCurrency :: go_error where
  "ErrMismatchingCurrency = NewError ''mismatching currency codes''"

subsection \<open>Predicates\<close>

definition signMatches :: "money \<Rightarrow> bool" where
  "signMatches m \<longleftrightarrow> Nanos m = 0 \<or> Units m = 0 \<or> (Nanos m <s 0) = (Units m <s 0)"

definition validNanos :: "int32 \<Rightarrow> bool" where
  "validNanos nanos \<longleftrightarrow> nanosMin \<le>s nanos \<and> nanos \<le>s nanosMax"

definition IsValid :: "money \<Rightarrow> bool" where
  "IsValid m \<longleftrightarrow> signMatches m \<and> validNanos (Nanos m)"

definition IsZero :: "money \<Rightarrow> bool" where
  "IsZero m \<longleftrightarrow> Units m = 0 \<and> Nanos m = 0"

definition IsPositive :: "money \<Rightarrow> bool" where
  "IsPositive m \<longleftrightarrow> (IsValid m \<and> 0 <s Units m) \<or> (Units m = 0 \<and> 0 <s Nanos m)"

definition IsNegative :: "money \<Rightarrow> bool" where
  "IsNegative m \<longleftrightarrow> (IsValid m \<and> Units m <s 0) \<or> (Units m = 0 \<and> Nanos m <s 0)"

definition AreSameCurrency :: "money \<Rightarrow> money \<Rightarrow> bool" where
  "AreSameCurrency l r \<longleftrightarrow> CurrencyCode l = CurrencyCode r \<and> CurrencyCode l \<noteq> ''''"

definition AreEquals :: "money \<Rightarrow> money \<Rightarrow> bool" where
  "AreEquals l r \<longleftrightarrow> CurrencyCode l = CurrencyCode r \<and> Units l = Units r \<and> Nanos l = Nanos r"

subsection \<open>Operations\<close>

definition Negate :: "money \<Rightarrow> money" where
  "Negate m = \<lparr>CurrencyCode = CurrencyCode m, Units = - Units m, Nanos = - Nanos m\<rparr>"

text \<open>\<open>Must(v, err)\<close> panics with the error; a pair with an error is \<^term>\<open>Inl\<close>.\<close>

definition Must :: "go_error + money \<Rightarrow> money outcome" where
  "Must r = (case r of Inl err \<Rightarrow> Panic err | Inr v \<Rightarrow> Ret v)"

definition sum_carry :: "int64 \<Rightarrow> int32 \<Rightarrow> int64 \<times> int32" where
  "sum_carry units nanos =
     (if (units = 0 \<and> nanos = 0) \<or> (0 <s units \<and> 0 \<le>s nanos) \<or> (units <s 0 \<and> nanos \<le>s 0)
      then (units + conv_w (quot_w nanos nanosMod), rem_w nanos nanosMod)
      else if 0 <s units then (units - 1, nanos + nanosMod)
      else (units + 1, nanos - nanosMod))"

definition Sum :: "money \<Rightarrow> money \<Rightarrow> go_error + money" where
  "Sum l r =
     (if \<not> IsValid l \<or> \<not> IsValid r then Inl ErrInvalidValue
      else if CurrencyCode l \<noteq> CurrencyCode r then Inl ErrMismatchingCurrency
      else let units = Units l + Units r;
               nanos = Nanos l + Nanos r;
               (units, nanos) = sum_carry units nanos
           in Inr \<lparr>CurrencyCode = CurrencyCode l, Units = units, Nanos = nanos\<rparr>)"

text \<open>The loop of \<open>MultiplySlow\<close>, on the value of the \<open>uint32\<close> counter.\<close>

fun multiply_loop :: "money \<Rightarrow> money \<Rightarrow> nat \<Rightarrow> money outcome" where
  "multiply_loop out m n =
     (if n > 1 then out_bind (Must (Sum out m)) (\<lambda>out. multiply_loop out m (n - 1)) else Ret out)"

declare multiply_loop.simps [simp del]

definition MultiplySlow :: "money \<Rightarrow> uint32 \<Rightarrow> money outcome" where
  "MultiplySlow m n = multiply_loop m m (unat n)"

subsection \<open>The specification: an amount is a number of nano units\<close>

definition money_val :: "money \<Rightarrow> int" where
  "money_val m = sint (Units m) * 1000000000 + sint (Nanos m)"

abbreviation nanos_sum :: "money \<Rightarrow> money \<Rightarrow> int" where
  "nanos_sum l r \<equiv> sint (Nanos l) + sint (Nanos r)"

abbreviation units_sum :: "money \<Rightarrow> money \<Rightarrow> int" where
  "units_sum l r \<equiv> sint (Units l) + sint (Units r)"

text \<open>The predicates read off the signed values.\<close>

lemma validNanos_sint: "validNanos n \<longleftrightarrow> \<bar>sint n\<bar> \<le> 999999999"
  by (auto simp: validNanos_def nanosMin_def nanosMax_def word_cmp_sint)

lemma signMatches_sint:
  "signMatches m \<longleftrightarrow>
     sint (Nanos m) = 0 \<or> sint (Units m) = 0 \<or> (sint (Nanos m) < 0) = (sint (Units m) < 0)"
  by (simp add: signMatches_def word_cmp_sint)

lemma IsValid_sint:
  "IsValid m \<longleftrightarrow> \<bar>sint (Nanos m)\<bar> \<le> 999999999 \<and>
     (0 < sint (Units m) \<longrightarrow> 0 \<le> sint (Nanos m)) \<and> (sint (Units m) < 0 \<longrightarrow> sint (Nanos m) \<le> 0)"
  by (auto simp: IsValid_def signMatches_sint validNanos_sint)

subsection \<open>The carry, on integers\<close>

text \<open>\<open>carry_int\<close> is \<open>sum_carry\<close> without a word width: the code refines it as long as
  nothing wraps around.\<close>

definition same_sign :: "int \<Rightarrow> int \<Rightarrow> bool" where
  "same_sign u n \<longleftrightarrow> (u = 0 \<and> n = 0) \<or> (0 < u \<and> 0 \<le> n) \<or> (u < 0 \<and> n \<le> 0)"

definition carry_int :: "int \<Rightarrow> int \<Rightarrow> int \<times> int" where
  "carry_int u n =
     (if same_sign u n then (u + n sdiv 1000000000, n smod 1000000000)
      else if 0 < u then (u - 1, n + 1000000000)
      else (u + 1, n - 1000000000))"

lemma carry_int_val: "carry_int u n = (u', n') \<Longrightarrow> u' * 1000000000 + n' = u * 1000000000 + n"
  using sdiv_smod_pos(1) [of 1000000000 n]
  by (auto simp: carry_int_def algebra_simps split: if_splits)

lemma sdiv_small: "\<bar>n\<bar> \<le> 1999999998 \<Longrightarrow> \<bar>n sdiv 1000000000\<bar> \<le> (1 :: int)"
  by (auto simp: signed_divide_int_def abs_mult sgn_if)

lemma sum_carry_refines:
  assumes n: "\<bar>sint n\<bar> \<le> 1999999998"
    and u: "\<bar>sint u\<bar> < 9223372036854775807"
    and no_wrap: "same_sign (sint u) (sint n) \<or> 0 < sint u \<or> - 1147483648 \<le> sint n"
  shows "map_prod sint sint (sum_carry u n) = carry_int (sint u) (sint n)"
proof (cases "same_sign (sint u) (sint n)")
  case True
  have "sint (quot_w n nanosMod) = sint n sdiv 1000000000"
    using sdiv_small [OF n] by (simp add: quot_w_def nanosMod_def sint_arith)
  moreover have "sint (rem_w n nanosMod) = sint n smod 1000000000"
    using sdiv_smod_pos(2) [of 1000000000 "sint n"] by (simp add: rem_w_def nanosMod_def sint_arith)
  ultimately show ?thesis
    using True u sdiv_small [OF n]
    by (auto simp: sum_carry_def carry_int_def same_sign_def word_cmp_sint conv_w_def sint_arith)
next
  case False
  then have "sum_carry u n = (if 0 < sint u then (u - 1, n + nanosMod) else (u + 1, n - nanosMod))"
    by (auto simp: sum_carry_def same_sign_def word_cmp_sint)
  with False n u no_wrap show ?thesis
    by (auto simp: carry_int_def nanosMod_def sint_arith same_sign_def)
qed

text \<open>Validity of the two numbers, and when the carry produces it.\<close>

definition valid_int :: "int \<Rightarrow> int \<Rightarrow> bool" where
  "valid_int u n \<longleftrightarrow> \<bar>n\<bar> \<le> 999999999 \<and> (0 < u \<longrightarrow> 0 \<le> n) \<and> (u < 0 \<longrightarrow> n \<le> 0)"

lemma IsValid_int: "IsValid m \<longleftrightarrow> valid_int (sint (Units m)) (sint (Nanos m))"
  by (simp add: IsValid_sint valid_int_def)

lemma valid_int_sum_bound:
  "valid_int u n \<Longrightarrow> valid_int u' n' \<Longrightarrow> \<bar>n + n'\<bar> \<le> 1999999998"
  by (auto simp: valid_int_def)

lemma valid_int_sum_sign:
  assumes "valid_int ul nl" "valid_int ur nr"
  shows "0 < ul + ur \<Longrightarrow> - 999999999 \<le> nl + nr" and "ul + ur < 0 \<Longrightarrow> nl + nr \<le> 999999999"
  using assms unfolding valid_int_def by linarith+

lemma carry_int_valid:
  assumes v: "valid_int ul nl" "valid_int ur nr" and u: "u = ul + ur" and n: "n = nl + nr"
  shows "case_prod valid_int (carry_int u n) \<longleftrightarrow> u \<noteq> 0 \<or> n = 0 \<or> 1000000000 \<le> n"
proof (cases "same_sign u n")
  case True
  have "\<bar>n sdiv 1000000000\<bar> \<le> 1" using valid_int_sum_bound [OF v] n by (intro sdiv_small) simp
  with True sdiv_smod_pos [of 1000000000 n] show ?thesis
    by (auto simp: carry_int_def valid_int_def same_sign_def)
next
  case False
  note bnds = valid_int_sum_bound [OF v] valid_int_sum_sign [OF v]
  consider "0 < u" "n < 0" | "u < 0" "0 < n" | "u = 0" "n \<noteq> 0"
    using False by (cases u "0 :: int" rule: linorder_cases) (auto simp: same_sign_def not_le)
  then show ?thesis
    using False bnds u n by cases (auto simp: carry_int_def valid_int_def)
qed

lemma sum_carry_wraps:
  assumes "u = (0 :: int64)" and "\<bar>sint n\<bar> \<le> 1999999998" and "sint n < - 1147483648"
  shows "sum_carry u n = (1, n - nanosMod)" and "sint (n - nanosMod) = sint n + 3294967296"
proof -
  show "sum_carry u n = (1, n - nanosMod)"
    using assms by (auto simp: sum_carry_def word_cmp_sint)
  have "n - nanosMod = word_of_int (sint n) + 3294967296"
    by (simp add: nanosMod_def)
  also have "\<dots> = word_of_int (sint n + 3294967296)"
    by (simp only: of_int_add of_int_numeral)
  finally have e: "n - nanosMod = word_of_int (sint n + 3294967296)" .
  show "sint (n - nanosMod) = sint n + 3294967296"
    unfolding e using assms by (intro sint32_of_int) linarith+
qed

lemma Sum_carry_valid:
  assumes v: "IsValid l" "IsValid r" and u: "\<bar>units_sum l r\<bar> < 9223372036854775807"
    and c: "sum_carry (Units l + Units r) (Nanos l + Nanos r) = (u', n')"
  shows "valid_int (sint u') (sint n') \<longleftrightarrow>
    units_sum l r \<noteq> 0 \<or> nanos_sum l r = 0 \<or> 1000000000 \<le> nanos_sum l r"
proof -
  note vi = v [unfolded IsValid_int]
  note nb = valid_int_sum_bound [OF vi]
  have su: "sint (Units l + Units r) = units_sum l r"
    using u by (intro sint64_add) linarith+
  have sn: "sint (Nanos l + Nanos r) = nanos_sum l r"
    using nb by (intro sint32_add) linarith+
  show ?thesis
  proof (cases "same_sign (units_sum l r) (nanos_sum l r) \<or> 0 < units_sum l r \<or> - 1147483648 \<le> nanos_sum l r")
    case True
    then have "map_prod sint sint (u', n') = carry_int (units_sum l r) (nanos_sum l r)"
      using sum_carry_refines [of "Nanos l + Nanos r" "Units l + Units r"] nb u c su sn by simp
    then show ?thesis
      using carry_int_valid [OF vi refl refl] by (auto simp flip: case_prod_map_prod)
  next
    case False
    then have z: "Units l + Units r = 0" 
      using valid_int_sum_sign [OF vi] su by (auto simp: word_eq_0_sint same_sign_def)
    have "u' = 1" "n' = Nanos l + Nanos r - nanosMod" "sint n' = nanos_sum l r + 3294967296"
      using sum_carry_wraps [OF z, of "Nanos l + Nanos r"] False nb c sn by auto
    moreover have "units_sum l r = 0" using z su by simp
    ultimately show ?thesis using False nb by (auto simp: valid_int_def same_sign_def)
  qed
qed
subsection \<open>Addition\<close>

lemma units_sum_no_wrap:
  "\<bar>units_sum l r\<bar> < 9223372036854775807 \<Longrightarrow> sint (Units l + Units r) = units_sum l r"
  by (intro sint64_add) linarith+

lemma nanos_sum_no_wrap:
  "\<lbrakk>IsValid l; IsValid r\<rbrakk> \<Longrightarrow> sint (Nanos l + Nanos r) = nanos_sum l r \<and> \<bar>nanos_sum l r\<bar> \<le> 1999999998"
  using valid_int_sum_bound [of "sint (Units l)" "sint (Nanos l)" "sint (Units r)" "sint (Nanos r)"]
  unfolding IsValid_int by (auto intro!: sint32_add)

lemma Sum_ok:
  assumes "IsValid l" "IsValid r" "CurrencyCode l = CurrencyCode r"
  obtains u n where "sum_carry (Units l + Units r) (Nanos l + Nanos r) = (u, n)"
    and "Sum l r = Inr \<lparr>CurrencyCode = CurrencyCode l, Units = u, Nanos = n\<rparr>"
  using assms by (cases "sum_carry (Units l + Units r) (Nanos l + Nanos r)") (simp add: Sum_def)

lemma Sum_exact:
  assumes "IsValid l" "IsValid r" "CurrencyCode l = CurrencyCode r"
    and "\<bar>units_sum l r\<bar> < 9223372036854775807"
    and "units_sum l r \<noteq> 0 \<or> - 1147483648 \<le> nanos_sum l r"
  shows "\<exists>s. Sum l r = Inr s \<and> CurrencyCode s = CurrencyCode l \<and>
    money_val s = money_val l + money_val r"
proof -
  obtain u n where c: "sum_carry (Units l + Units r) (Nanos l + Nanos r) = (u, n)"
    and S: "Sum l r = Inr \<lparr>CurrencyCode = CurrencyCode l, Units = u, Nanos = n\<rparr>"
    using Sum_ok [OF assms(1-3)] .
  note nw = units_sum_no_wrap [OF assms(4)] nanos_sum_no_wrap [OF assms(1,2)]
  have "same_sign (units_sum l r) (nanos_sum l r) \<or> 0 < units_sum l r \<or> - 1147483648 \<le> nanos_sum l r"
    using assms(5) by (auto simp: same_sign_def)
  then have "carry_int (units_sum l r) (nanos_sum l r) = (sint u, sint n)"
    using sum_carry_refines [of "Nanos l + Nanos r" "Units l + Units r"] nw assms(4) c by simp
  from carry_int_val [OF this] show ?thesis
    by (simp add: S money_val_def algebra_simps)
qed

text \<open>
  Property C18: for valid amounts of one currency whose units do not overflow, \<open>Sum\<close> returns an
  amount of that currency worth exactly the two together, except when the units cancel and
  the nanos lie below -1147483648, where the \<open>int32\<close> subtraction of \<open>nanosMod\<close> wraps around.
\<close>

theorem Sum_value:
  assumes "IsValid l" "IsValid r" "CurrencyCode l = CurrencyCode r"
    and "\<bar>units_sum l r\<bar> < 9223372036854775807"
    and "units_sum l r \<noteq> 0 \<or> - 1147483648 \<le> nanos_sum l r"
  shows "\<exists>s. Sum l r = Inr s \<and> CurrencyCode s = CurrencyCode l \<and>
    money_val s = money_val l + money_val r"
  using assms by (rule Sum_exact)

theorem Sum_value_witness:
  "\<exists>s. Sum \<lparr>CurrencyCode = ''USD'', Units = 8, Nanos = 990000000\<rparr>
          \<lparr>CurrencyCode = ''USD'', Units = - 3, Nanos = - 500000000\<rparr> = Inr s \<and>
     CurrencyCode s = ''USD'' \<and> money_val s = 8990000000 + - 3500000000"
  using Sum_value [of "\<lparr>CurrencyCode = ''USD'', Units = 8, Nanos = 990000000\<rparr>"
      "\<lparr>CurrencyCode = ''USD'', Units = - 3, Nanos = - 500000000\<rparr>"]
  by (simp add: IsValid_sint money_val_def)

lemma Sum_valid_cases:
  assumes "IsValid l" "IsValid r" "CurrencyCode l = CurrencyCode r"
    and "\<bar>units_sum l r\<bar> < 9223372036854775807"
  shows "(\<exists>s. Sum l r = Inr s \<and> IsValid s) \<longleftrightarrow>
    units_sum l r \<noteq> 0 \<or> nanos_sum l r = 0 \<or> 1000000000 \<le> nanos_sum l r"
proof -
  obtain u n where c: "sum_carry (Units l + Units r) (Nanos l + Nanos r) = (u, n)"
    and S: "Sum l r = Inr \<lparr>CurrencyCode = CurrencyCode l, Units = u, Nanos = n\<rparr>"
    using Sum_ok [OF assms(1-3)] .
  from Sum_carry_valid [OF assms(1,2,4) c] show ?thesis
    by (simp add: S IsValid_int)
qed

text \<open>
  Property C37: exactly when \<open>Sum\<close> of two valid amounts is again valid. It is not when the
  units cancel to zero but the nanos do not (unless they carry a whole unit): the last branch
  of the code then moves one unit over and returns units and nanos of opposite signs.
\<close>

theorem Sum_valid_iff:
  assumes "IsValid l" "IsValid r" "CurrencyCode l = CurrencyCode r"
    and "\<bar>units_sum l r\<bar> < 9223372036854775807"
  shows "(\<exists>s. Sum l r = Inr s \<and> IsValid s) \<longleftrightarrow>
    units_sum l r \<noteq> 0 \<or> nanos_sum l r = 0 \<or> 1000000000 \<le> nanos_sum l r"
  using assms by (rule Sum_valid_cases)

theorem Sum_valid_iff_witness:
  "\<not> (\<exists>s. Sum \<lparr>CurrencyCode = ''USD'', Units = 0, Nanos = 300000000\<rparr>
              \<lparr>CurrencyCode = ''USD'', Units = 0, Nanos = 400000000\<rparr> = Inr s \<and> IsValid s)"
  using Sum_valid_iff [of "\<lparr>CurrencyCode = ''USD'', Units = 0, Nanos = 300000000\<rparr>"
      "\<lparr>CurrencyCode = ''USD'', Units = 0, Nanos = 400000000\<rparr>"]
  by (simp add: IsValid_sint)

text \<open>
  The two errors of \<open>Sum\<close> and their order: an invalid operand is reported
  first, then a currency mismatch (two empty currency codes match); nothing else fails.
\<close>

theorem Sum_errors:
  "Sum l r = Inl e \<longleftrightarrow>
     (e = ErrInvalidValue \<and> \<not> (IsValid l \<and> IsValid r)) \<or>
     (e = ErrMismatchingCurrency \<and> IsValid l \<and> IsValid r \<and> CurrencyCode l \<noteq> CurrencyCode r)"
  by (auto simp: Sum_def ErrInvalidValue_def ErrMismatchingCurrency_def Let_def split: prod.splits)

lemma Sum_commute: "Sum l r = Sum r l"
  by (auto simp: Sum_def Let_def add.commute)

text \<open>
  The value of a sum can be lost. Twice -0.999999999 is valid arithmetic on
  valid amounts, but the code returns the invalid amount (1, 1294967298).
\<close>

theorem Sum_wraps_around:
  "let l = \<lparr>CurrencyCode = ''USD'', Units = 0, Nanos = - 999999999\<rparr>;
       s = \<lparr>CurrencyCode = ''USD'', Units = 1, Nanos = 1294967298\<rparr>
   in IsValid l \<and> Sum l l = Inr s \<and> \<not> IsValid s \<and> money_val s \<noteq> money_val l + money_val l"
  by (simp add: IsValid_sint Sum_def sum_carry_def nanosMod_def money_val_def word_cmp_sint)

subsection \<open>Repeated addition\<close>

text \<open>Amounts the shop handles: valid, not negative, and with at least one whole unit unless zero.\<close>

definition good_amount :: "string \<Rightarrow> money \<Rightarrow> bool" where
  "good_amount c m \<longleftrightarrow> IsValid m \<and> CurrencyCode m = c \<and> (1 \<le> sint (Units m) \<or> Units m = 0 \<and> Nanos m = 0)"

definition amount_limit :: int where
  "amount_limit = 9223372036854775807 * 1000000000"

lemma good_amount_sint:
  "good_amount c m \<longleftrightarrow> CurrencyCode m = c \<and> 0 \<le> sint (Nanos m) \<and> sint (Nanos m) \<le> 999999999 \<and>
     (1 \<le> sint (Units m) \<or> sint (Units m) = 0 \<and> sint (Nanos m) = 0)"
  by (auto simp: good_amount_def IsValid_sint word_eq_0_sint)

lemma good_amount_add:
  assumes l: "good_amount c l" and r: "good_amount c r" and lim: "money_val l + money_val r < amount_limit"
  shows "\<exists>s. Must (Sum l r) = Ret s \<and> good_amount c s \<and> money_val s = money_val l + money_val r"
proof -
  note ls = l [unfolded good_amount_sint] and rs = r [unfolded good_amount_sint]
  have v: "IsValid l" "IsValid r" "CurrencyCode l = CurrencyCode r"
    using l r by (simp_all add: good_amount_def)
  have b: "\<bar>units_sum l r\<bar> < 9223372036854775807" "0 \<le> nanos_sum l r"
    using ls rs lim by (auto simp: money_val_def amount_limit_def)
  then obtain s where s: "Sum l r = Inr s" "CurrencyCode s = c" "money_val s = money_val l + money_val r"
    using Sum_exact [OF v] ls by auto
  have "IsValid s" using Sum_valid_cases [OF v b(1)] s(1) ls rs by auto
  moreover have "money_val l + money_val r = 0 \<or> 1000000000 \<le> money_val l + money_val r"
    using ls rs by (auto simp: money_val_def)
  ultimately have "good_amount c s"
    using s by (auto simp: good_amount_sint IsValid_sint money_val_def)
  with s show ?thesis by (simp add: Must_def)
qed

interpretation money: adder "\<lambda>a b. Must (Sum a b)" money_val "good_amount c" amount_limit for c
  by unfold_locales (use good_amount_add in \<open>auto simp: good_amount_sint money_val_def\<close>)

lemma multiply_loop_add_list:
  "multiply_loop t m n = add_list (\<lambda>a b. Must (Sum a b)) t (replicate (n - 1) m)"
proof (induction t m n rule: multiply_loop.induct)
  case (1 t m n)
  show ?case
  proof (cases "n > 1")
    case True
    then obtain k where k: "n = Suc (Suc k)" by (cases n; cases "n - 1") auto
    have "multiply_loop t m n = out_bind (Must (Sum t m)) (\<lambda>t. multiply_loop t m (n - 1))"
      using True by (simp add: multiply_loop.simps [of t m n])
    with "1.IH" True k show ?thesis
      by (cases "Must (Sum t m)") simp_all
  next
    case False
    then show ?thesis by (simp add: multiply_loop.simps [of t m n])
  qed
qed

lemma MultiplySlow_good:
  assumes "good_amount c m" and "int (max 1 (unat n)) * money_val m < amount_limit"
  shows "\<exists>p. MultiplySlow m n = Ret p \<and> good_amount c p \<and>
    money_val p = int (max 1 (unat n)) * money_val m"
proof -
  have k: "Suc (unat n - 1) = max 1 (unat n)" by simp
  show ?thesis
    using money.add_repeat_good [OF assms(1), of "unat n - 1"] assms(2)
    unfolding k by (simp add: MultiplySlow_def multiply_loop_add_list)
qed

text \<open>
  Repeated addition multiplies. A shop amount times a positive count returns
  the exact product as a valid amount, below the limit of the units; a count of zero
  returns the amount once (the loop body runs \<open>n - 1\<close> times, for 0 as for 1).
\<close>

theorem MultiplySlow_value:
  assumes "good_amount c m" and "int (max 1 (unat n)) * money_val m < amount_limit"
  shows "\<exists>p. MultiplySlow m n = Ret p \<and> good_amount c p \<and>
    money_val p = int (max 1 (unat n)) * money_val m"
  using assms by (rule MultiplySlow_good)

theorem MultiplySlow_value_witness:
  "\<exists>p. MultiplySlow \<lparr>CurrencyCode = ''USD'', Units = 18, Nanos = 990000000\<rparr> 3 = Ret p \<and>
     good_amount ''USD'' p \<and> money_val p = 3 * 18990000000"
  using MultiplySlow_value [of "''USD''" "\<lparr>CurrencyCode = ''USD'', Units = 18, Nanos = 990000000\<rparr>" 3]
  by (simp add: good_amount_sint money_val_def amount_limit_def)

text \<open>
  Below half a unit repeated addition panics. Two prices of less than 0.5 give
  an amount that \<open>Sum\<close> itself rejects as invalid, so from three on \<open>Must\<close> panics.
\<close>

theorem MultiplySlow_small_panics:
  assumes "Units m = 0" "0 < sint (Nanos m)" "sint (Nanos m) < 500000000" and "3 \<le> unat n"
  shows "MultiplySlow m n = Panic ErrInvalidValue"
proof -
  have v: "IsValid m" using assms by (simp add: IsValid_sint)
  obtain s where s: "Sum m m = Inr s"
    using Sum_exact [OF v v] assms by auto
  have "\<not> IsValid s" using Sum_valid_cases [OF v v refl] s assms by simp
  then have "Sum s m = Inl ErrInvalidValue" by (simp add: Sum_def)
  moreover obtain k where "unat n - 1 = Suc (Suc k)" using assms(4) by (cases "unat n"; cases "unat n - 1"; cases "unat n - 2") auto
  ultimately show ?thesis
    using s by (simp add: MultiplySlow_def multiply_loop_add_list Must_def)
qed

theorem MultiplySlow_small_panics_witness:
  "MultiplySlow \<lparr>CurrencyCode = ''USD'', Units = 0, Nanos = 300000000\<rparr> 3 = Panic ErrInvalidValue"
  by (rule MultiplySlow_small_panics) simp_all

subsection \<open>Sign tests and negation\<close>

lemma IsPositive_val: "IsValid m \<Longrightarrow> IsPositive m \<longleftrightarrow> 0 < money_val m"
  by (auto simp: IsPositive_def IsValid_sint money_val_def word_cmp_sint)

lemma IsNegative_val: "IsValid m \<Longrightarrow> IsNegative m \<longleftrightarrow> money_val m < 0"
  by (auto simp: IsNegative_def IsValid_sint money_val_def word_cmp_sint)

lemma IsZero_val: "IsValid m \<Longrightarrow> IsZero m \<longleftrightarrow> money_val m = 0"
  by (auto simp: IsZero_def IsValid_sint money_val_def word_cmp_sint)

text \<open>
  On valid amounts exactly one of the three sign tests holds, and it is the sign
  of the value.
\<close>

theorem sign_tests:
  assumes "IsValid m"
  shows "(IsPositive m \<longleftrightarrow> 0 < money_val m) \<and> (IsNegative m \<longleftrightarrow> money_val m < 0) \<and>
    (IsZero m \<longleftrightarrow> money_val m = 0)"
  using assms by (simp add: IsPositive_val IsNegative_val IsZero_val)

theorem sign_tests_witness:
  "IsNegative \<lparr>CurrencyCode = ''EUR'', Units = 0, Nanos = - 5\<rparr>"
  using sign_tests [of "\<lparr>CurrencyCode = ''EUR'', Units = 0, Nanos = - 5\<rparr>"]
  by (simp add: IsValid_sint money_val_def)

text \<open>
  \<open>Negate\<close> is its own inverse on all amounts, and it negates the value and keeps
  validity unless the units are the least \<open>int64\<close>.
\<close>

theorem Negate_spec:
  "Negate (Negate m) = m \<and>
   (IsValid m \<and> sint (Units m) \<noteq> - 9223372036854775808 \<longrightarrow>
      IsValid (Negate m) \<and> money_val (Negate m) = - money_val m)"
proof (intro conjI impI)
  show "Negate (Negate m) = m" by (simp add: Negate_def)
  assume a: "IsValid m \<and> sint (Units m) \<noteq> - 9223372036854775808"
  then have "sint (- Units m) = - sint (Units m)" "sint (- Nanos m) = - sint (Nanos m)"
    by (auto intro!: sint64_minus sint32_minus simp: IsValid_sint)
  with a show "IsValid (Negate m)" "money_val (Negate m) = - money_val m"
    by (auto simp: Negate_def IsValid_sint money_val_def)
qed

theorem Negate_spec_witness:
  "IsValid (Negate \<lparr>CurrencyCode = ''EUR'', Units = 2, Nanos = 5\<rparr>) \<and>
   money_val (Negate \<lparr>CurrencyCode = ''EUR'', Units = 2, Nanos = 5\<rparr>) = - 2000000005"
  using Negate_spec [of "\<lparr>CurrencyCode = ''EUR'', Units = 2, Nanos = 5\<rparr>"]
  by (simp add: IsValid_sint money_val_def)

text \<open>
  Outside the valid amounts the documented contract of \<open>IsPositive\<close> fails: \<open>&&\<close>
  binds tighter than \<open>||\<close>, so an amount of zero units and too many nanos is positive and
  not valid.
\<close>

theorem IsPositive_of_invalid:
  "\<exists>m. IsPositive m \<and> \<not> IsValid m"
proof (intro exI conjI)
  let ?m = "\<lparr>CurrencyCode = ''USD'', Units = 0, Nanos = 1000000000\<rparr>"
  show "IsPositive ?m" by (simp add: IsPositive_def word_cmp_sint)
  show "\<not> IsValid ?m" by (simp add: IsValid_sint)
qed

end
