(* ===== verification/EventLog.thy ===== *)
theory EventLog
  imports GoPrelude "HOL-Library.Sublist"
begin

text \<open>
  Code that talks to other processes: its state is the log of the events so far, and the
  answer to a call is a function of that log, so the other side may keep any state of its
  own. An event holds the request together with its answer. \<open>emits m P\<close> says of a
  computation that it only appends to the log, with a result and new events related by \<open>P\<close>,
  whatever the log was before; its rules carry the proofs about the components.
\<close>

type_synonym ('e, 'r) logged = "('e list, 'r) state"

definition perform :: "('e list \<Rightarrow> 'r) \<Rightarrow> ('r \<Rightarrow> 'e) \<Rightarrow> ('e, 'r) logged" where
  "perform answer event = State (\<lambda>h. let r = answer h in (r, h @ [event r]))"

definition record_event :: "'e \<Rightarrow> ('e, unit) logged" where
  "record_event e = perform (\<lambda>_. ()) (\<lambda>_. e)"

lemma run_perform [simp]: "run_state (perform answer event) h = (answer h, h @ [event (answer h)])"
  by (simp add: perform_def Let_def)

lemma run_record_event [simp]: "run_state (record_event e) h = ((), h @ [e])"
  by (simp add: record_event_def)

definition emits :: "('e, 'r) logged \<Rightarrow> ('r \<Rightarrow> 'e list \<Rightarrow> bool) \<Rightarrow> bool" where
  "emits m P \<longleftrightarrow> (\<forall>h. \<exists>r new. run_state m h = (r, h @ new) \<and> P r new)"

named_theorems emits_intro \<open>rules for the events of a computation\<close>

lemma emits_run:
  assumes "emits m P"
  obtains r new where "run_state m h = (r, h @ new)" and "P r new"
  using assms unfolding emits_def by blast

lemma emitsI:
  "(\<And>h. \<exists>new. snd (run_state m h) = h @ new \<and> P (fst (run_state m h)) new) \<Longrightarrow> emits m P"
  unfolding emits_def by (metis prod.collapse)

lemma emits_return [emits_intro]: "P x [] \<Longrightarrow> emits (State_Monad.return x) P"
  by (simp add: emits_def)

lemma emits_perform [emits_intro]: "(\<And>r. P r [event r]) \<Longrightarrow> emits (perform answer event) P"
  by (simp add: emits_def)

lemma emits_bind:
  assumes "emits m Q" and "\<And>r new. Q r new \<Longrightarrow> emits (f r) (\<lambda>r' new'. P r' (new @ new'))"
  shows "emits (State_Monad.bind m f) P"
  unfolding emits_def
proof
  fix h
  obtain r new where 1: "run_state m h = (r, h @ new)" "Q r new"
    using assms(1) by (rule emits_run)
  obtain r' new' where "run_state (f r) (h @ new) = (r', (h @ new) @ new')" "P r' (new @ new')"
    using assms(2) [OF 1(2)] by (rule emits_run)
  with 1 show "\<exists>r' new'. run_state (State_Monad.bind m f) h = (r', h @ new') \<and> P r' new'"
    by (auto simp: run_state_bind)
qed

text \<open>One call and what follows it.\<close>

lemma emits_perform_bind [emits_intro]:
  "(\<And>r. emits (f r) (\<lambda>r' new. P r' (event r # new))) \<Longrightarrow> emits (State_Monad.bind (perform answer event) f) P"
  by (rule emits_bind [where Q = "\<lambda>r new. new = [event r]"]) (auto intro: emits_perform)

lemma emits_record_bind [emits_intro]:
  "emits (f ()) (\<lambda>r' new. P r' (e # new)) \<Longrightarrow> emits (State_Monad.bind (record_event e) f) P"
  unfolding record_event_def by (rule emits_perform_bind) simp

lemma emits_record [emits_intro]: "P () [e] \<Longrightarrow> emits (record_event e) P"
  unfolding record_event_def by (rule emits_perform) simp

lemma emits_weaken: "\<lbrakk>emits m Q; \<And>r new. Q r new \<Longrightarrow> P r new\<rbrakk> \<Longrightarrow> emits m P"
  unfolding emits_def by meson

lemma emits_if [emits_intro]:
  "\<lbrakk>b \<Longrightarrow> emits m P; \<not> b \<Longrightarrow> emits n P\<rbrakk> \<Longrightarrow> emits (if b then m else n) P"
  by simp

lemma emits_sum [emits_intro]:
  "\<lbrakk>\<And>e. r = Inl e \<Longrightarrow> emits (f e) P; \<And>x. r = Inr x \<Longrightarrow> emits (g x) P\<rbrakk>
     \<Longrightarrow> emits (case r of Inl e \<Rightarrow> f e | Inr x \<Rightarrow> g x) P"
  by (cases r) simp_all

lemma emits_option [emits_intro]:
  "\<lbrakk>r = None \<Longrightarrow> emits f P; \<And>x. r = Some x \<Longrightarrow> emits (g x) P\<rbrakk>
     \<Longrightarrow> emits (case r of None \<Rightarrow> f | Some x \<Rightarrow> g x) P"
  by (cases r) simp_all

lemma emits_outcome [emits_intro]:
  "\<lbrakk>\<And>x. r = Ret x \<Longrightarrow> emits (f x) P; \<And>e. r = Panic e \<Longrightarrow> emits (g e) P; \<And>m. r = Fatal m \<Longrightarrow> emits (k m) P\<rbrakk>
     \<Longrightarrow> emits (case r of Ret x \<Rightarrow> f x | Panic e \<Rightarrow> g e | Fatal m \<Rightarrow> k m) P"
  by (cases r) simp_all

text \<open>A call whose error ends the computation with a reply of its own.\<close>

lemma emits_try:
  assumes "emits m Q"
    and "\<And>e new. Q (Inl e) new \<Longrightarrow> P (g e) new"
    and "\<And>x new. Q (Inr x) new \<Longrightarrow> emits (k x) (\<lambda>r new'. P r (new @ new'))"
  shows "emits (State_Monad.bind m (\<lambda>r. case r of Inl e \<Rightarrow> State_Monad.return (g e) | Inr x \<Rightarrow> k x)) P"
  by (rule emits_bind [OF assms(1)]) (auto intro!: emits_sum emits_return assms(2,3))

lemma emits_try_perform:
  assumes "\<And>e. P (g e) [event (Inl e)]"
    and "\<And>x. emits (k x) (\<lambda>r new. P r (event (Inr x) # new))"
  shows "emits (State_Monad.bind (perform answer event)
    (\<lambda>r. case r of Inl e \<Rightarrow> State_Monad.return (g e) | Inr x \<Rightarrow> k x)) P"
  by (rule emits_perform_bind) (auto intro!: emits_sum emits_return assms)

text \<open>Computations all of whose events satisfy a predicate.\<close>

definition all_events :: "('e \<Rightarrow> bool) \<Rightarrow> ('e, 'r) logged \<Rightarrow> bool" where
  "all_events P m \<longleftrightarrow> emits m (\<lambda>r new. \<forall>e\<in>set new. P e)"

lemma all_events_return: "all_events P (State_Monad.return x)"
  by (simp add: all_events_def emits_return)

lemma all_events_perform: "(\<And>h. P (event (answer h))) \<Longrightarrow> all_events P (perform answer event)"
  by (simp add: all_events_def emits_def)

lemma all_events_record: "P e \<Longrightarrow> all_events P (record_event e)"
  by (simp add: record_event_def all_events_perform)

lemma all_events_bind: "all_events P m \<Longrightarrow> (\<And>r. all_events P (f r)) \<Longrightarrow> all_events P (State_Monad.bind m f)"
  unfolding all_events_def by (rule emits_bind, assumption, erule meta_allE, erule emits_weaken) auto

lemma all_events_cases:
  "\<lbrakk>\<And>e. all_events P (f e); \<And>x. all_events P (g x)\<rbrakk> \<Longrightarrow> all_events P (case r of Inl e \<Rightarrow> f e | Inr x \<Rightarrow> g x)"
  "\<lbrakk>all_events P m; \<And>x. all_events P (n x)\<rbrakk> \<Longrightarrow> all_events P (case c of None \<Rightarrow> m | Some x \<Rightarrow> n x)"
  "\<lbrakk>\<And>x. all_events P (p x); \<And>e. all_events P (q e); \<And>s. all_events P (k s)\<rbrakk>
     \<Longrightarrow> all_events P (case a of Ret x \<Rightarrow> p x | Panic e \<Rightarrow> q e | Fatal s \<Rightarrow> k s)"
  "\<lbrakk>all_events P m; all_events P m'\<rbrakk> \<Longrightarrow> all_events P (if b then m else m')"
  by (simp_all split: sum.split option.split outcome.split)

lemmas all_events_intro =
  all_events_bind all_events_cases all_events_return all_events_perform all_events_record

lemma emits_conj:
  assumes "emits m P" "emits m Q"
  shows "emits m (\<lambda>r new. P r new \<and> Q r new)"
  unfolding emits_def
proof
  fix h
  obtain r new where 1: "run_state m h = (r, h @ new)" "P r new" using assms(1) by (rule emits_run)
  obtain r' new' where "run_state m h = (r', h @ new')" "Q r' new'" using assms(2) by (rule emits_run)
  with 1 show "\<exists>r new. run_state m h = (r, h @ new) \<and> P r new \<and> Q r new" by auto
qed

lemma emits_all_events: "\<lbrakk>emits m P; all_events Q m\<rbrakk> \<Longrightarrow> emits m (\<lambda>r new. P r new \<and> (\<forall>e\<in>set new. Q e))"
  unfolding all_events_def by (rule emits_conj)

subsection \<open>Logged computations that may panic\<close>

definition obind :: "('e, 'a outcome) logged \<Rightarrow> ('a \<Rightarrow> ('e, 'b outcome) logged) \<Rightarrow> ('e, 'b outcome) logged" where
  "obind m f = State_Monad.bind m (\<lambda>r. case r of
     Ret x \<Rightarrow> f x | Panic e \<Rightarrow> State_Monad.return (Panic e) | Fatal s \<Rightarrow> State_Monad.return (Fatal s))"

definition oreturn :: "'a \<Rightarrow> ('e, 'a outcome) logged" where
  "oreturn x = State_Monad.return (Ret x)"

definition opanic :: "go_error \<Rightarrow> ('e, 'a outcome) logged" where
  "opanic e = State_Monad.return (Panic e)"

text \<open>\<open>if err != nil { panic(err) }\<close> and \<open>if err != nil { log.Fatal(err) }\<close>.\<close>

definition or_panic :: "('e, go_error + 'a) logged \<Rightarrow> ('e, 'a outcome) logged" where
  "or_panic m = State_Monad.bind m (\<lambda>r. State_Monad.return (case r of Inl e \<Rightarrow> Panic e | Inr x \<Rightarrow> Ret x))"

definition or_panic_err :: "('e, go_error option) logged \<Rightarrow> ('e, unit outcome) logged" where
  "or_panic_err m = State_Monad.bind m (\<lambda>r. State_Monad.return (case r of Some e \<Rightarrow> Panic e | None \<Rightarrow> Ret ()))"

definition or_fatal :: "string \<Rightarrow> ('e, go_error + 'a) logged \<Rightarrow> ('e, 'a outcome) logged" where
  "or_fatal msg m = State_Monad.bind m (\<lambda>r. State_Monad.return (case r of Inl e \<Rightarrow> Fatal msg | Inr x \<Rightarrow> Ret x))"

definition or_fatal_err :: "string \<Rightarrow> ('e, go_error option) logged \<Rightarrow> ('e, unit outcome) logged" where
  "or_fatal_err msg m = State_Monad.bind m (\<lambda>r. State_Monad.return (case r of Some e \<Rightarrow> Fatal msg | None \<Rightarrow> Ret ()))"

definition ignore_result :: "('e, 'r) logged \<Rightarrow> ('e, unit outcome) logged" where
  "ignore_result m = State_Monad.bind m (\<lambda>r. oreturn ())"

lemma run_obind [simp]:
  "run_state (obind m f) h = (case run_state m h of
     (Ret x, h') \<Rightarrow> run_state (f x) h' | (Panic e, h') \<Rightarrow> (Panic e, h') | (Fatal s, h') \<Rightarrow> (Fatal s, h'))"
  by (simp add: obind_def run_state_bind split: prod.split outcome.split)

lemma run_oreturn [simp]: "run_state (oreturn x) h = (Ret x, h)"
  by (simp add: oreturn_def)

lemma run_opanic [simp]: "run_state (opanic e) h = (Panic e, h)"
  by (simp add: opanic_def)

lemma run_or_panic [simp]:
  "run_state (or_panic m) h = (let (r, h') = run_state m h in (case r of Inl e \<Rightarrow> Panic e | Inr x \<Rightarrow> Ret x, h'))"
  by (simp add: or_panic_def run_state_bind split: prod.split)

lemma run_or_panic_err [simp]:
  "run_state (or_panic_err m) h = (let (r, h') = run_state m h in (case r of Some e \<Rightarrow> Panic e | None \<Rightarrow> Ret (), h'))"
  by (simp add: or_panic_err_def run_state_bind split: prod.split)

lemma run_or_fatal [simp]:
  "run_state (or_fatal msg m) h = (let (r, h') = run_state m h in (case r of Inl e \<Rightarrow> Fatal msg | Inr x \<Rightarrow> Ret x, h'))"
  by (simp add: or_fatal_def run_state_bind split: prod.split)

lemma run_or_fatal_err [simp]:
  "run_state (or_fatal_err msg m) h = (let (r, h') = run_state m h in (case r of Some e \<Rightarrow> Fatal msg | None \<Rightarrow> Ret (), h'))"
  by (simp add: or_fatal_err_def run_state_bind split: prod.split)

lemma run_ignore_result [simp]: "run_state (ignore_result m) h = (Ret (), snd (run_state m h))"
  by (simp add: ignore_result_def run_state_bind split: prod.split)

lemma emits_obind:
  assumes "emits m Q" and "\<And>x new. Q (Ret x) new \<Longrightarrow> emits (f x) (\<lambda>r new'. P r (new @ new'))"
    and "\<And>e new. Q (Panic e) new \<Longrightarrow> P (Panic e) new" and "\<And>s new. Q (Fatal s) new \<Longrightarrow> P (Fatal s) new"
  shows "emits (obind m f) P"
  unfolding obind_def
  by (rule emits_bind [OF assms(1)], rule emits_outcome) (auto intro!: emits_return assms(2-4))

lemma emits_oreturn: "P (Ret x) [] \<Longrightarrow> emits (oreturn x) P"
  by (simp add: oreturn_def emits_return)

lemma emits_opanic: "P (Panic e) [] \<Longrightarrow> emits (opanic e) P"
  by (simp add: opanic_def emits_return)

lemma all_events_or:
  "all_events P m1 \<Longrightarrow> all_events P (or_panic m1)"
  "all_events P m2 \<Longrightarrow> all_events P (or_panic_err m2)"
  "all_events P m3 \<Longrightarrow> all_events P (or_fatal msg m3)"
  "all_events P m4 \<Longrightarrow> all_events P (or_fatal_err msg m4)"
  "all_events P m5 \<Longrightarrow> all_events P (ignore_result m5)"
  by (auto simp: or_panic_def or_panic_err_def or_fatal_def or_fatal_err_def ignore_result_def oreturn_def
      intro!: all_events_bind all_events_return)

lemma all_events_oreturn: "all_events P (oreturn x)"
  by (simp add: oreturn_def all_events_return)

lemma all_events_opanic: "all_events P (opanic e)"
  by (simp add: opanic_def all_events_return)

lemma all_events_obind: "\<lbrakk>all_events P m; \<And>x. all_events P (f x)\<rbrakk> \<Longrightarrow> all_events P (obind m f)"
  unfolding obind_def by (intro all_events_bind all_events_cases all_events_return)

lemmas all_events_o = all_events_obind all_events_or all_events_oreturn all_events_opanic all_events_cases all_events_perform

subsection \<open>A part of a program with a log of its own\<close>

text \<open>A computation on another log, as part of a program: it sees and adds its own events only.\<close>

definition within_log :: "('s \<Rightarrow> 'e) \<Rightarrow> ('e \<Rightarrow> 's list) \<Rightarrow> ('s, 'r) logged \<Rightarrow> ('e, 'r) logged" where
  "within_log wrap part m = State (\<lambda>h. let g = concat (map part h); (r, g') = run_state m g in (r, h @ map wrap (drop (length g) g')))"

lemma run_within_log:
  "run_state m (concat (map part h)) = (r, concat (map part h) @ new) \<Longrightarrow>
     run_state (within_log wrap part m) h = (r, h @ map wrap new)"
  by (simp add: within_log_def Let_def)

lemma emits_within_log: "(\<And>r new. P r (map wrap new)) \<Longrightarrow> emits (within_log wrap part m) P"
  by (rule emitsI) (auto simp: within_log_def Let_def case_prod_beta)

subsection \<open>Triples\<close>

text \<open>From a log with \<open>P\<close> the computation ends in \<open>Q\<close> with its result if it returns, and in \<open>E\<close> if
  it panics or ends the process.\<close>

definition triple :: "('e list \<Rightarrow> bool) \<Rightarrow> ('e, 'a outcome) logged \<Rightarrow> ('a \<Rightarrow> 'e list \<Rightarrow> bool) \<Rightarrow> ('e list \<Rightarrow> bool) \<Rightarrow> bool"
where
  "triple P m Q E \<longleftrightarrow> (\<forall>h. P h \<longrightarrow>
     (case run_state m h of (Ret x, h') \<Rightarrow> Q x h' | (Panic e, h') \<Rightarrow> E h' | (Fatal s, h') \<Rightarrow> E h'))"

lemma triple_obind:
  assumes "triple P m Q E" and "\<And>x. triple (Q x) (f x) R E"
  shows "triple P (obind m f) R E"
  unfolding triple_def
proof (intro allI impI)
  fix h
  assume P: "P h"
  obtain r h' where m: "run_state m h = (r, h')" by (cases "run_state m h")
  then have *: "case r of Ret x \<Rightarrow> Q x h' | Panic e \<Rightarrow> E h' | Fatal s \<Rightarrow> E h'"
    using assms(1) P unfolding triple_def by (cases r) fastforce+
  show "case run_state (obind m f) h of (Ret x, h') \<Rightarrow> R x h' | (Panic e, h') \<Rightarrow> E h' | (Fatal s, h') \<Rightarrow> E h'"
    using * m assms(2) unfolding triple_def by (cases r) simp_all
qed

lemma triple_perform_bind:
  assumes "\<And>h. P h \<Longrightarrow> Q (answer h) (h @ [event (answer h)])" and "\<And>r. triple (Q r) (f r) R E"
  shows "triple P (State_Monad.bind (perform answer event) f) R E"
  using assms by (auto simp: triple_def run_state_bind)

lemma triple_oreturn: "(\<And>h. P h \<Longrightarrow> Q x h) \<Longrightarrow> triple P (oreturn x) Q E"
  by (simp add: triple_def)

lemma triple_opanic: "(\<And>h. P h \<Longrightarrow> E h) \<Longrightarrow> triple P (opanic e) Q E"
  by (simp add: triple_def)

lemma triple_conseq:
  "\<lbrakk>triple P' m Q' E; \<And>h. P h \<Longrightarrow> P' h; \<And>x h. Q' x h \<Longrightarrow> Q x h\<rbrakk> \<Longrightarrow> triple P m Q E"
  by (fastforce simp: triple_def split: prod.splits outcome.splits)

lemma triple_or_panic:
  "\<lbrakk>\<And>h x. P h \<Longrightarrow> answer h = Inr x \<Longrightarrow> Q x (h @ [event (Inr x)]);
    \<And>h e. P h \<Longrightarrow> answer h = Inl e \<Longrightarrow> E (h @ [event (Inl e)])\<rbrakk>
     \<Longrightarrow> triple P (or_panic (perform answer event)) Q E"
  by (auto simp: triple_def split: sum.split)

lemma triple_or_panic_err:
  "\<lbrakk>\<And>h. P h \<Longrightarrow> answer h = None \<Longrightarrow> Q () (h @ [event None]);
    \<And>h e. P h \<Longrightarrow> answer h = Some e \<Longrightarrow> E (h @ [event (Some e)])\<rbrakk>
     \<Longrightarrow> triple P (or_panic_err (perform answer event)) Q E"
  by (auto simp: triple_def split: option.split)

lemma triple_ignore_result:
  "(\<And>h. P h \<Longrightarrow> Q () (h @ [event (answer h)])) \<Longrightarrow> triple P (ignore_result (perform answer event)) Q E"
  by (simp add: triple_def)

lemma triple_False: "(\<And>h. \<not> P h) \<Longrightarrow> triple P m Q E"
  by (simp add: triple_def)

end
