(* ===== verification/ShopMessages.thy ===== *)
theory ShopMessages
  imports Money
begin

text \<open>
  The messages the online shop's services exchange, as the generated structs of
  \<open>genproto/demo.pb.go\<close> have them: a pointer field that may be nil is an \<open>option\<close>, and the
  bookkeeping fields of the generator (\<open>XXX_...\<close>) are left out.
\<close>

record cart_item =
  ProductId :: string
  Quantity :: int32

record product =
  Id :: string
  Name :: string
  Description :: string
  Picture :: string
  PriceUsd :: "money option"
  Categories :: "string list"

record address =
  StreetAddress :: string
  City :: string
  StateName :: string
  Country :: string
  ZipCode :: int32

record credit_card =
  CreditCardNumber :: string
  CreditCardCvv :: int32
  CreditCardExpirationYear :: int32
  CreditCardExpirationMonth :: int32

record order_item =
  Item :: cart_item
  Cost :: money

record order_result =
  OrderId :: string
  ShippingTrackingId :: string
  ShippingCost :: money
  ShippingAddress :: "address option"
  Items :: "order_item list"

record place_order_request =
  UserId :: string
  UserCurrency :: string
  Address :: "address option"
  Email :: string
  CreditCard :: "credit_card option"

text \<open>The requests of the shipping service hold the same two fields.\<close>

record shipping_request =
  ReqAddress :: "address option"
  ReqItems :: "cart_item list"

end
