(* ===== verification/ShopInterfaces.thy ===== *)
theory ShopInterfaces
  imports ShopMessages
begin

text \<open>
  The contracts between the online shop's services, as the checkout service relies on them.
  \<open>product_lookup\<close>: a catalog answers a product id with a product of that id, in every state
  in which it is \<open>ready\<close>. \<open>quote_provider\<close>: the shipping service quotes a cost that is the
  same for every request. The product catalog and the shipping service interpret them; the
  checkout service uses what is proved here.
\<close>

text \<open>A list of requests answered one by one, up to the first error (\<open>try_map\<close>).\<close>

primrec try_map :: "('a \<Rightarrow> 'e + 'b) \<Rightarrow> 'a list \<Rightarrow> 'e + 'b list" where
  "try_map f [] = Inr []"
| "try_map f (x # xs) =
     (case f x of Inl e \<Rightarrow> Inl e
      | Inr y \<Rightarrow> (case try_map f xs of Inl e \<Rightarrow> Inl e | Inr ys \<Rightarrow> Inr (y # ys)))"

lemma try_map_Inr_iff: "try_map f xs = Inr ys \<longleftrightarrow> list_all2 (\<lambda>x y. f x = Inr y) xs ys"
proof (induction xs arbitrary: ys)
  case (Cons x xs)
  then show ?case
    by (cases "f x"; cases "try_map f xs") (auto simp: list_all2_Cons1)
qed auto

locale product_lookup =
  fixes lookup :: "'s \<Rightarrow> string \<Rightarrow> go_error + product"
    and ready :: "'s \<Rightarrow> bool"
  assumes lookup_id: "\<lbrakk>ready s; lookup s pid = Inr p\<rbrakk> \<Longrightarrow> Id p = pid"
begin

text \<open>The products looked up for a cart are, in order, those the cart names.\<close>

lemma lookup_all_ids:
  assumes "ready s" and "try_map (lookup s) pids = Inr ps"
  shows "map Id ps = pids"
  using assms(2)
proof (induction pids arbitrary: ps)
  case (Cons pid pids)
  then obtain p ps' where "ps = p # ps'" "lookup s pid = Inr p" "try_map (lookup s) pids = Inr ps'"
    by (auto split: sum.splits)
  with Cons.IH lookup_id [OF assms(1)] show ?case by simp
qed simp

end

locale quote_provider =
  fixes get_quote :: "shipping_request \<Rightarrow> go_error + money option"
    and cost :: money
  assumes quote_cost: "get_quote req = Inr (Some cost)"
    and cost_valid: "IsValid cost"
begin

lemma quote_never_fails: "get_quote req \<noteq> Inl e"
  by (simp add: quote_cost)

lemma quote_independent: "get_quote r = get_quote s"
  by (simp add: quote_cost)

end

end
