(* ===== verification/GoStrings.thy ===== *)
theory GoStrings
  imports GoPrelude "HOL-Library.Sublist"
begin

text \<open>
  The parts of Go's \<open>strconv\<close>, \<open>strings\<close> and \<open>fmt\<close> the components use, on strings of
  bytes: decimal numerals (\<open>Itoa\<close>, \<open>ParseInt\<close>/\<open>Atoi\<close> with their two errors), substring
  search, lower case, splitting at white space and at a separator.
\<close>

named_theorems string_simps \<open>decimal numerals and string operations\<close>

subsection \<open>Decimal numerals\<close>

definition digit_char :: "nat \<Rightarrow> char" where
  "digit_char d = char_of (48 + d)"

definition is_digit :: "char \<Rightarrow> bool" where
  "is_digit c \<longleftrightarrow> 48 \<le> (of_char c :: nat) \<and> (of_char c :: nat) \<le> 57"

definition digit_val :: "char \<Rightarrow> nat" where
  "digit_val c = of_char c - 48"

fun nat_digits :: "nat \<Rightarrow> string" where
  "nat_digits n = (if n < 10 then [digit_char n] else nat_digits (n div 10) @ [digit_char (n mod 10)])"

declare nat_digits.simps [simp del]

text \<open>\<open>strconv.Itoa\<close>, \<open>strconv.FormatInt(i, 10)\<close> and the verb \<open>%d\<close>.\<close>

definition itoa :: "int \<Rightarrow> string" where
  "itoa i = (if i < 0 then CHR ''-'' # nat_digits (nat (- i)) else nat_digits (nat i))"

datatype num_error = ErrSyntax | ErrRange

definition max_uint64 :: nat where "max_uint64 = 18446744073709551615"
definition uint_cutoff :: nat where "uint_cutoff = 1844674407370955162"

text \<open>\<open>strconv.ParseUint(s, 10, 64)\<close> on the digits: the range test comes before the next
  character is multiplied in, so an overflow is reported even if junk follows.\<close>

fun scan_uint :: "nat \<Rightarrow> string \<Rightarrow> nat \<times> num_error option" where
  "scan_uint n [] = (n, None)"
| "scan_uint n (c # cs) =
     (if \<not> is_digit c then (0, Some ErrSyntax)
      else if uint_cutoff \<le> n then (max_uint64, Some ErrRange)
      else let n1 = n * 10 + digit_val c
           in if max_uint64 < n1 then (max_uint64, Some ErrRange) else scan_uint n1 cs)"

definition parse_uint :: "string \<Rightarrow> nat \<times> num_error option" where
  "parse_uint s = (if s = [] then (0, Some ErrSyntax) else scan_uint 0 s)"

text \<open>\<open>strconv.ParseInt(s, 10, 64)\<close>, and \<open>strconv.Atoi\<close> where \<open>int\<close> has 64 bits: the value
  returned beside an error is 0 for bad syntax and the nearest bound for a value out of range.\<close>

definition parse_sign :: "string \<Rightarrow> bool \<times> string" where
  "parse_sign s = (case s of [] \<Rightarrow> (False, s)
     | c # cs \<Rightarrow> if c = CHR ''+'' then (False, cs) else if c = CHR ''-'' then (True, cs) else (False, s))"

definition parse_int64 :: "string \<Rightarrow> int \<times> num_error option" where
  "parse_int64 s =
     (if s = [] then (0, Some ErrSyntax)
      else let (neg, ds) = parse_sign s; (un, err) = parse_uint ds
           in if err = Some ErrSyntax then (0, err)
              else if \<not> neg \<and> 9223372036854775808 \<le> un then (9223372036854775807, Some ErrRange)
              else if neg \<and> 9223372036854775808 < un then (- 9223372036854775808, Some ErrRange)
              else (if neg then - int un else int un, None))"

abbreviation atoi :: "string \<Rightarrow> int \<times> num_error option" where
  "atoi \<equiv> parse_int64"

subsection \<open>Facts about numerals\<close>

lemma of_char_digit [string_simps]: "d < 10 \<Longrightarrow> (of_char (digit_char d) :: nat) = 48 + d"
  by (simp add: digit_char_def)

lemma is_digit_digit_char [string_simps]: "d < 10 \<Longrightarrow> is_digit (digit_char d)"
  by (simp add: is_digit_def of_char_digit)

lemma digit_val_digit_char [string_simps]: "d < 10 \<Longrightarrow> digit_val (digit_char d) = d"
  by (simp add: digit_val_def of_char_digit)

lemma nat_digits_not_Nil [simp]: "nat_digits n \<noteq> []"
  by (subst nat_digits.simps) simp

lemma nat_digits_all: "c \<in> set (nat_digits n) \<Longrightarrow> is_digit c"
proof (induction n rule: nat_digits.induct)
  case (1 n)
  then show ?case
    by (cases "n < 10") (auto simp: nat_digits.simps [of n] string_simps)
qed

definition digits_val :: "nat \<Rightarrow> string \<Rightarrow> nat" where
  "digits_val n s = foldl (\<lambda>a c. a * 10 + digit_val c) n s"

lemma digits_val_append [simp]: "digits_val n (s @ t) = digits_val (digits_val n s) t"
  by (simp add: digits_val_def)

lemma digits_val_nat_digits [simp]: "digits_val 0 (nat_digits n) = n"
proof (induction n rule: nat_digits.induct)
  case (1 n)
  then show ?case
    by (cases "n < 10") (simp_all add: nat_digits.simps [of n] digits_val_def string_simps)
qed

lemma nat_digits_inject [simp]: "nat_digits m = nat_digits n \<longleftrightarrow> m = n"
  by (metis digits_val_nat_digits)

lemma digits_val_mono: "n \<le> digits_val n s"
proof (induction s arbitrary: n)
  case (Cons c s)
  have "n \<le> n * 10 + digit_val c" by simp
  also have "\<dots> \<le> digits_val (n * 10 + digit_val c) s" by (rule Cons.IH)
  finally show ?case by (simp add: digits_val_def)
qed (simp add: digits_val_def)

lemma scan_uint_digits:
  assumes "\<forall>c\<in>set s. is_digit c" and "digits_val n s \<le> max_uint64"
  shows "scan_uint n s = (digits_val n s, None)"
  using assms
proof (induction s arbitrary: n)
  case Nil
  then show ?case by (simp add: digits_val_def)
next
  case (Cons c s)
  have le: "n * 10 + digit_val c \<le> digits_val (n * 10 + digit_val c) s" by (rule digits_val_mono)
  with Cons.prems(2) have "n * 10 + digit_val c \<le> max_uint64" by (simp add: digits_val_def)
  with Cons show ?case
    by (simp add: digits_val_def max_uint64_def uint_cutoff_def)
qed

lemma digit_not_sign: "is_digit c \<Longrightarrow> c \<noteq> CHR ''-'' \<and> c \<noteq> CHR ''+''"
  by (auto simp: is_digit_def)

lemma parse_sign_nat_digits: "parse_sign (nat_digits n) = (False, nat_digits n)"
  using digit_not_sign nat_digits_all [of _ n]
  by (cases "nat_digits n") (auto simp: parse_sign_def)

lemma parse_uint_nat_digits: "n \<le> max_uint64 \<Longrightarrow> parse_uint (nat_digits n) = (n, None)"
  using scan_uint_digits [of "nat_digits n" 0] nat_digits_all [of _ n]
  by (auto simp: parse_uint_def)

text \<open>\<open>Atoi(Itoa(i))\<close> returns \<open>i\<close> for every \<open>int\<close>.\<close>

lemma atoi_itoa [string_simps]:
  assumes "- 9223372036854775808 \<le> i" "i < 9223372036854775808"
  shows "atoi (itoa i) = (i, None)"
proof (cases "i < 0")
  case True
  with assms have "parse_uint (nat_digits (nat (- i))) = (nat (- i), None)"
    by (intro parse_uint_nat_digits) (simp add: max_uint64_def)
  with True assms show ?thesis
    by (simp add: parse_int64_def itoa_def parse_sign_def)
next
  case False
  with assms have "parse_uint (nat_digits (nat i)) = (nat i, None)"
    by (intro parse_uint_nat_digits) (simp add: max_uint64_def)
  with False assms show ?thesis
    by (simp add: parse_int64_def itoa_def parse_sign_nat_digits)
qed

lemma itoa_not_Nil [simp]: "itoa i \<noteq> []"
  by (simp add: itoa_def)

lemma itoa_inject [simp]: "itoa i = itoa j \<longleftrightarrow> i = j"
proof -
  have d: "CHR ''-'' \<notin> set (nat_digits n)" for n
    using nat_digits_all [of "CHR ''-''" n] digit_not_sign by blast
  show ?thesis
    using d [of "nat i"] d [of "nat j"] by (auto simp: itoa_def) (metis list.set_intros(1))+
qed

subsection \<open>Substrings, case, splitting\<close>

text \<open>\<open>strings.Contains\<close>.\<close>

fun contains :: "string \<Rightarrow> string \<Rightarrow> bool" where
  "contains [] sub \<longleftrightarrow> sub = []"
| "contains (c # cs) sub \<longleftrightarrow> prefix sub (c # cs) \<or> contains cs sub"

lemma contains_Nil [simp]: "contains s []"
  by (cases s) simp_all

lemma contains_iff: "contains s sub \<longleftrightarrow> (\<exists>ps ss. s = ps @ sub @ ss)"
proof (induction s)
  case (Cons c s)
  show ?case
  proof
    assume "contains (c # s) sub"
    then consider "prefix sub (c # s)" | "contains s sub" by auto
    then show "\<exists>ps ss. c # s = ps @ sub @ ss"
    proof cases
      case 1
      then show ?thesis by (auto simp: prefix_def intro: exI [of _ "[]"])
    next
      case 2
      with Cons.IH obtain ps ss where "s = ps @ sub @ ss" by blast
      then show ?thesis by (intro exI [of _ "c # ps"] exI [of _ ss]) simp
    qed
  next
    assume "\<exists>ps ss. c # s = ps @ sub @ ss"
    then obtain ps ss where "c # s = ps @ sub @ ss" by blast
    then have "prefix sub (c # s) \<or> (\<exists>ps'. s = ps' @ sub @ ss)"
      by (cases ps) (auto simp: prefix_def)
    with Cons.IH show "contains (c # s) sub" by auto
  qed
qed simp

text \<open>\<open>strings.ToLower\<close> on ASCII text (other bytes are left as they are).\<close>

definition to_lower_char :: "char \<Rightarrow> char" where
  "to_lower_char c =
     (let n = (of_char c :: nat) in if 65 \<le> n \<and> n \<le> 90 then char_of (n + 32) else c)"

definition to_lower :: "string \<Rightarrow> string" where
  "to_lower = map to_lower_char"

lemma to_lower_idem [simp]: "to_lower (to_lower s) = to_lower s"
  by (simp add: to_lower_def to_lower_char_def Let_def)

end
