(* ===== verification/ProductCatalog.thy ===== *)
theory ProductCatalog
  imports ShopInterfaces GoStrings
begin

text \<open>
  \<open>benchmarks/online-shop/productcatalogservice/server.go\<close>: the product catalog, which is
  read from \<open>products.json\<close> into the package variable \<open>cat\<close>, again at every access while the
  flag \<open>reloadCatalog\<close> is set or the catalog is empty. The file and the JSON decoder are
  parameters: what the n-th read of the file yields, and what decoding does to the catalog
  it is given. An operation maps the state to its outcome and the new state; the loop of
  \<open>GetProduct\<close>, whose bound is read anew at every step, is a partial function with the
  value \<^term>\<open>None\<close> where it does not end.
\<close>

subsection \<open>State and operations\<close>

record catalog_state =
  cat :: "product list"
  reloadCatalog :: bool
  reads :: nat

record catalog_env =
  read_file :: "nat \<Rightarrow> go_error + string"
  unmarshal :: "string \<Rightarrow> product list \<Rightarrow> product list \<times> go_error option"

datatype health_status = SERVING

definition readCatalogFile :: "catalog_env \<Rightarrow> catalog_state \<Rightarrow> go_error option outcome \<times> catalog_state" where
  "readCatalogFile env s =
     (let s' = s\<lparr>reads := Suc (reads s)\<rparr>
      in case read_file env (reads s) of
           Inl err \<Rightarrow> (Fatal ''failed to open product catalog json file'', s')
         | Inr json \<Rightarrow>
             (let (ps, err) = unmarshal env json (cat s) in (Ret err, s'\<lparr>cat := ps\<rparr>)))"

text \<open>The package's \<open>init\<close> only logs a failure to parse.\<close>

definition init_catalog :: "catalog_env \<Rightarrow> catalog_state \<Rightarrow> unit outcome \<times> catalog_state" where
  "init_catalog env s =
     (let (r, s') = readCatalogFile env s in (out_bind r (\<lambda>err. Ret ()), s'))"

definition parseCatalog :: "catalog_env \<Rightarrow> catalog_state \<Rightarrow> product list outcome \<times> catalog_state" where
  "parseCatalog env s =
     (if reloadCatalog s \<or> length (cat s) = 0
      then let (r, s') = readCatalogFile env s
           in (out_bind r (\<lambda>err. case err of Some e \<Rightarrow> Ret [] | None \<Rightarrow> Ret (cat s')), s')
      else (Ret (cat s), s))"

definition catalog_Check :: "go_error + health_status" where
  "catalog_Check = Inr SERVING"

definition catalog_Watch :: "go_error option" where
  "catalog_Watch = Some (StatusErrorf Unimplemented (Lit ''health check via Watch not implemented'') [])"

definition ListProducts :: "catalog_env \<Rightarrow> catalog_state \<Rightarrow> (go_error + product list) outcome \<times> catalog_state" where
  "ListProducts env s = (let (r, s') = parseCatalog env s in (out_bind r (\<lambda>ps. Ret (Inr ps)), s'))"

definition product_at :: "nat \<Rightarrow> product list outcome \<Rightarrow> product outcome" where
  "product_at i r = out_bind r (\<lambda>ps. if i < length ps then Ret (ps ! i) else Panic index_out_of_range)"

text \<open>One round: the bound, the comparison and the assignment each parse the catalog anew.\<close>

definition get_product_step ::
  "catalog_env \<Rightarrow> string \<Rightarrow> nat \<Rightarrow> product option \<Rightarrow> catalog_state \<Rightarrow> (product option \<times> bool) outcome \<times> catalog_state"
where
  "get_product_step env pid i found s =
     (let (bound, s1) = parseCatalog env s
      in case out_bind bound (\<lambda>ps. Ret (i < length ps)) of
           Ret False \<Rightarrow> (Ret (found, False), s1)
         | Ret True \<Rightarrow>
             (let (r, s2) = parseCatalog env s1
              in case product_at i r of
                   Ret p \<Rightarrow>
                     if pid = Id p
                     then let (r', s3) = parseCatalog env s2
                          in (out_bind (product_at i r') (\<lambda>q. Ret (Some q, True)), s3)
                     else (Ret (found, True), s2)
                 | Panic e \<Rightarrow> (Panic e, s2)
                 | Fatal m \<Rightarrow> (Fatal m, s2))
         | Panic e \<Rightarrow> (Panic e, s1)
         | Fatal m \<Rightarrow> (Fatal m, s1))"

partial_function (option) get_product_loop ::
  "catalog_env \<Rightarrow> string \<Rightarrow> nat \<Rightarrow> product option \<Rightarrow> catalog_state \<Rightarrow> (product option outcome \<times> catalog_state) option"
where
  "get_product_loop env pid i found s =
     (case get_product_step env pid i found s of
        (Ret (found', again), s') \<Rightarrow>
          if again then get_product_loop env pid (Suc i) found' s' else Some (Ret found', s')
      | (Panic e, s') \<Rightarrow> Some (Panic e, s')
      | (Fatal m, s') \<Rightarrow> Some (Fatal m, s'))"

definition no_product :: "string \<Rightarrow> go_error" where
  "no_product pid = StatusErrorf NotFound (Lit ''no product with ID %s'') [ArgS pid]"

definition GetProduct ::
  "catalog_env \<Rightarrow> string \<Rightarrow> catalog_state \<Rightarrow> ((go_error + product) outcome \<times> catalog_state) option"
where
  "GetProduct env pid s =
     (case get_product_loop env pid 0 None s of
        None \<Rightarrow> None
      | Some (r, s') \<Rightarrow>
          Some (out_bind r (\<lambda>found. Ret (case found of None \<Rightarrow> Inl (no_product pid) | Some p \<Rightarrow> Inr p)), s'))"

definition product_matches :: "string \<Rightarrow> product \<Rightarrow> bool" where
  "product_matches query p \<longleftrightarrow>
     contains (to_lower (Name p)) (to_lower query) \<or> contains (to_lower (Description p)) (to_lower query)"

definition SearchProducts ::
  "catalog_env \<Rightarrow> string \<Rightarrow> catalog_state \<Rightarrow> (go_error + product list) outcome \<times> catalog_state"
where
  "SearchProducts env query s =
     (let (r, s') = parseCatalog env s
      in (out_bind r (\<lambda>ps. Ret (Inr (foldl (\<lambda>acc p. if product_matches query p then acc @ [p] else acc) [] ps))), s'))"

text \<open>The signal handler of \<open>main\<close>.\<close>

datatype catalog_signal = SIGUSR1 | SIGUSR2

definition handle_signal :: "catalog_signal \<Rightarrow> catalog_state \<Rightarrow> catalog_state" where
  "handle_signal sig s =
     (if sig = SIGUSR1 then s\<lparr>reloadCatalog := True\<rparr> else s\<lparr>reloadCatalog := False\<rparr>)"

subsection \<open>Parsing the catalog\<close>

text \<open>A catalog in memory that is not to be reloaded is used as it is.\<close>

definition cached :: "catalog_state \<Rightarrow> bool" where
  "cached s \<longleftrightarrow> \<not> reloadCatalog s \<and> cat s \<noteq> []"

lemma parseCatalog_cached: "cached s \<Longrightarrow> parseCatalog env s = (Ret (cat s), s)"
  by (simp add: cached_def parseCatalog_def)

text \<open>A file that never changes and parses to the same products every time.\<close>

definition stable_file :: "catalog_env \<Rightarrow> product list \<Rightarrow> bool" where
  "stable_file env ps \<longleftrightarrow>
     (\<forall>n. \<exists>json. read_file env n = Inr json \<and> (\<forall>c. unmarshal env json c = (ps, None)))"

lemma parseCatalog_stable:
  assumes "stable_file env ps" and "reloadCatalog s"
  shows "parseCatalog env s = (Ret ps, s\<lparr>reads := Suc (reads s), cat := ps\<rparr>)"
proof -
  obtain json where "read_file env (reads s) = Inr json" "\<forall>c. unmarshal env json c = (ps, None)"
    using assms(1) unfolding stable_file_def by blast
  then show ?thesis using assms(2) by (simp add: parseCatalog_def readCatalogFile_def)
qed

text \<open>What a round of the loop does to the product found so far when it finds \<open>ps\<close>.\<close>

definition pick :: "string \<Rightarrow> product option \<Rightarrow> product \<Rightarrow> product option" where
  "pick pid found p = (if pid = Id p then Some p else found)"

lemma foldl_pick: "foldl (pick pid) found ps =
  (case filter (\<lambda>p. Id p = pid) ps of [] \<Rightarrow> found | qs \<Rightarrow> Some (last qs))"
  by (induction ps arbitrary: found) (auto simp: pick_def split: list.split)

lemma get_product_loop_cached:
  assumes "cached s"
  shows "get_product_loop env pid i found s = Some (Ret (foldl (pick pid) found (drop i (cat s))), s)"
proof (induction "length (cat s) - i" arbitrary: i found)
  case 0
  then show ?case
    by (subst get_product_loop.simps)
      (simp add: get_product_step_def parseCatalog_cached [OF assms])
next
  case (Suc n)
  then have "i < length (cat s)" by simp
  then have "drop i (cat s) = cat s ! i # drop (Suc i) (cat s)" by (simp add: Cons_nth_drop_Suc)
  moreover have "n = length (cat s) - Suc i" using Suc.hyps(2) by simp
  ultimately show ?case
    using \<open>i < length (cat s)\<close> Suc.hyps(1) [of "Suc i"]
    by (subst get_product_loop.simps, cases "Id (cat s ! i) = pid")
      (simp_all add: get_product_step_def parseCatalog_cached [OF assms] product_at_def pick_def)
qed

text \<open>The state after \<open>k\<close> reads of a stable file.\<close>

definition after_reads :: "product list \<Rightarrow> nat \<Rightarrow> catalog_state \<Rightarrow> catalog_state" where
  "after_reads ps k s = s\<lparr>reads := reads s + k, cat := ps\<rparr>"

lemma after_reads_simps [simp]:
  "reloadCatalog (after_reads ps k s) = reloadCatalog s"
  "reads (after_reads ps k s) = reads s + k"
  "cat (after_reads ps k s) = ps"
  "after_reads ps j (after_reads ps k s) = after_reads ps (k + j) s"
  by (simp_all add: after_reads_def)

lemma parseCatalog_reload:
  "\<lbrakk>stable_file env ps; reloadCatalog s\<rbrakk> \<Longrightarrow> parseCatalog env s = (Ret ps, after_reads ps 1 s)"
  by (simp add: parseCatalog_stable after_reads_def)

lemma get_product_loop_reload:
  assumes "stable_file env ps" and "reloadCatalog s"
  shows "get_product_loop env pid i found s =
    Some (Ret (foldl (pick pid) found (drop i ps)),
      after_reads ps (2 * (length ps - i) + length (filter (\<lambda>p. Id p = pid) (drop i ps)) + 1) s)"
  using assms(2)
proof (induction "length ps - i" arbitrary: i found s)
  case 0
  then show ?case
    by (subst get_product_loop.simps)
      (simp add: get_product_step_def parseCatalog_reload [OF assms(1)])
next
  case (Suc n)
  then have i: "i < length ps" by simp
  then have d: "drop i ps = ps ! i # drop (Suc i) ps" by (simp add: Cons_nth_drop_Suc)
  have n: "n = length ps - Suc i" and n2: "length ps - i = Suc (length ps - Suc i)"
    using Suc.hyps(2) i by simp_all
  show ?case
    using i n2 Suc.prems Suc.hyps(1) [OF n]
    by (subst get_product_loop.simps, cases "Id (ps ! i) = pid")
      (simp_all add: d get_product_step_def parseCatalog_reload [OF assms(1)] product_at_def pick_def ac_simps)
qed

subsection \<open>Properties\<close>

lemma GetProduct_cached:
  assumes "cached s"
  shows "GetProduct env pid s =
    Some (Ret (case filter (\<lambda>p. Id p = pid) (cat s) of
                 [] \<Rightarrow> Inl (no_product pid) | ps \<Rightarrow> Inr (last ps)), s)"
  by (simp add: GetProduct_def get_product_loop_cached [OF assms] foldl_pick split: list.split)

text \<open>The catalog as a client of the service sees it: the reply of \<open>GetProduct\<close>, where a panic
  or an endless call of the handler is an error of the transport.\<close>

definition catalog_lookup :: "catalog_env \<Rightarrow> catalog_state \<Rightarrow> string \<Rightarrow> go_error + product" where
  "catalog_lookup env s pid =
     (case GetProduct env pid s of
        Some (Ret r, s') \<Rightarrow> r
      | _ \<Rightarrow> Inl (StatusErrorf Unavailable (Lit ''transport is closing'') []))"

lemma catalog_lookup_id:
  assumes "cached s" and "catalog_lookup env s pid = Inr p"
  shows "Id p = pid"
proof -
  have "(case filter (\<lambda>p. Id p = pid) (cat s) of [] \<Rightarrow> Inl (no_product pid) | ps \<Rightarrow> Inr (last ps)) = Inr p"
    using assms by (simp add: catalog_lookup_def GetProduct_cached)
  then obtain q qs where f: "filter (\<lambda>p. Id p = pid) (cat s) = q # qs" and p: "p = last (q # qs)"
    by (auto split: list.splits)
  have "last (q # qs) \<in> set (filter (\<lambda>p. Id p = pid) (cat s))"
    unfolding f by (rule last_in_set) simp
  with p show ?thesis by simp
qed

interpretation catalog: product_lookup "catalog_lookup env" cached for env
  by unfold_locales (rule catalog_lookup_id)

text \<open>
  With the catalog in memory and reloading off, \<open>GetProduct\<close> ends, leaves the
  catalog alone and answers with the last product of that id, or \<open>NotFound\<close> if there is none.
\<close>

theorem GetProduct_spec:
  assumes "\<not> reloadCatalog s" and "cat s \<noteq> []"
  shows "GetProduct env pid s =
    Some (Ret (if \<exists>p\<in>set (cat s). Id p = pid
               then Inr (last (filter (\<lambda>p. Id p = pid) (cat s))) else Inl (no_product pid)), s)"
proof -
  have "cached s" using assms by (simp add: cached_def)
  then show ?thesis
    by (cases "filter (\<lambda>p. Id p = pid) (cat s)")
      (auto simp: GetProduct_cached filter_empty_conv dest: filter_eq_ConsD)
qed

definition demo_product :: "string \<Rightarrow> string \<Rightarrow> product" where
  "demo_product i n = \<lparr>Id = i, Name = n, Description = '''', Picture = '''', PriceUsd = None, Categories = []\<rparr>"

theorem GetProduct_spec_witness:
  "GetProduct \<lparr>read_file = \<lambda>n. Inr ''{}'', unmarshal = \<lambda>j c. (c, None)\<rparr> ''b''
     \<lparr>cat = [demo_product ''a'' ''A'', demo_product ''b'' ''B''], reloadCatalog = False, reads = 0\<rparr> =
   Some (Ret (Inr (demo_product ''b'' ''B'')),
     \<lparr>cat = [demo_product ''a'' ''A'', demo_product ''b'' ''B''], reloadCatalog = False, reads = 0\<rparr>)"
  by (subst GetProduct_spec) (simp_all add: demo_product_def)

text \<open>
  While reloading is on and the file stays the same, \<open>GetProduct\<close> still ends with
  the last product of the id, but reads and parses the file twice for every product, once more
  for every match and once at the end.
\<close>

theorem GetProduct_reload:
  assumes "stable_file env ps" and "reloadCatalog s"
  shows "\<exists>r s'. GetProduct env pid s = Some (Ret r, s') \<and>
    r = (if \<exists>p\<in>set ps. Id p = pid
         then Inr (last (filter (\<lambda>p. Id p = pid) ps)) else Inl (no_product pid)) \<and>
    cat s' = ps \<and> reads s' = reads s + 2 * length ps + length (filter (\<lambda>p. Id p = pid) ps) + 1"
  by (cases "filter (\<lambda>p. Id p = pid) ps")
    (auto simp: GetProduct_def get_product_loop_reload [OF assms] foldl_pick filter_empty_conv
      dest: filter_eq_ConsD)

theorem GetProduct_reload_witness:
  "\<exists>r s'. GetProduct \<lparr>read_file = \<lambda>n. Inr ''{}'', unmarshal = \<lambda>j c. ([demo_product ''a'' ''A''], None)\<rparr> ''a''
       \<lparr>cat = [], reloadCatalog = True, reads = 1\<rparr> = Some (Ret r, s') \<and>
     r = Inr (demo_product ''a'' ''A'') \<and> reads s' = 5"
  using GetProduct_reload [of "\<lparr>read_file = \<lambda>n. Inr ''{}'', unmarshal = \<lambda>j c. ([demo_product ''a'' ''A''], None)\<rparr>"
      "[demo_product ''a'' ''A'']" "\<lparr>cat = [], reloadCatalog = True, reads = 1\<rparr>" "''a''"]
  by (auto simp: stable_file_def demo_product_def eval_nat_numeral)

text \<open>
  With reloading on, a file that shrinks between the loop bound and the comparison
  makes \<open>GetProduct\<close> index out of range, here for a file that has one product at the first
  read and none at the second.
\<close>

theorem GetProduct_reload_panics:
  "\<exists>s'. GetProduct \<lparr>read_file = \<lambda>n. Inr (if n = 0 then ''1'' else ''0''),
        unmarshal = \<lambda>j c. (if j = ''1'' then [demo_product ''a'' ''A''] else [], None)\<rparr> ''a''
      \<lparr>cat = [], reloadCatalog = True, reads = 0\<rparr> = Some (Panic index_out_of_range, s')"
  by (simp add: GetProduct_def get_product_loop.simps get_product_step_def parseCatalog_def
      readCatalogFile_def product_at_def)

lemma foldl_snoc_filter: "foldl (\<lambda>acc x. if P x then acc @ [x] else acc) acc xs = acc @ filter P xs"
  by (induction xs arbitrary: acc) simp_all

text \<open>
  \<open>SearchProducts\<close> returns, in catalog order, exactly the products whose name or
  description contains the query up to case; the case of the query does not matter and the
  empty query finds every product.
\<close>

theorem SearchProducts_spec:
  assumes "\<not> reloadCatalog s" and "cat s \<noteq> []"
  shows "\<exists>ps. SearchProducts env query s = (Ret (Inr ps), s) \<and>
    ps = filter (\<lambda>p. (\<exists>u v. to_lower (Name p) = u @ to_lower query @ v) \<or>
                     (\<exists>u v. to_lower (Description p) = u @ to_lower query @ v)) (cat s) \<and>
    SearchProducts env (to_lower query) s = (Ret (Inr ps), s) \<and>
    SearchProducts env '''' s = (Ret (Inr (cat s)), s)"
proof -
  have "cached s" using assms by (simp add: cached_def)
  moreover have "product_matches '''' p" for p
    by (simp add: product_matches_def to_lower_def)
  ultimately show ?thesis
    by (simp add: SearchProducts_def parseCatalog_cached foldl_snoc_filter
        foldl_snoc_filter [where P = "\<lambda>_. True", simplified] product_matches_def contains_iff)
qed

theorem SearchProducts_spec_witness:
  "\<exists>ps. SearchProducts \<lparr>read_file = \<lambda>n. Inr ''{}'', unmarshal = \<lambda>j c. (c, None)\<rparr> ''LaMp''
      \<lparr>cat = [demo_product ''a'' ''Desk'', demo_product ''b'' ''Oil Lamp''], reloadCatalog = False, reads = 0\<rparr> =
      (Ret (Inr ps), \<lparr>cat = [demo_product ''a'' ''Desk'', demo_product ''b'' ''Oil Lamp''],
         reloadCatalog = False, reads = 0\<rparr>)"
  using SearchProducts_spec [of "\<lparr>cat = [demo_product ''a'' ''Desk'', demo_product ''b'' ''Oil Lamp''],
      reloadCatalog = False, reads = 0\<rparr>" "\<lparr>read_file = \<lambda>n. Inr ''{}'', unmarshal = \<lambda>j c. (c, None)\<rparr>" "''LaMp''"]
  by (auto simp: demo_product_def)

end
