(* ===== verification/GoFloat.thy ===== *)
theory GoFloat
  imports Complex_Main "HOL-Library.Log_Nat"
begin

text \<open>
  Finite \<open>float64\<close> values as rational numbers. An operation of the code is the exact
  operation followed by \<open>fl_round\<close>, rounding to nearest with ties to even at 53 bits of
  precision and down to the subnormal exponent -1074. Infinities and NaN do not arise in
  the modelled code and are not represented; a result of \<open>2 ^ 1024\<close> or more would be an
  infinity in Go.
\<close>

definition pow2 :: "int \<Rightarrow> rat" where
  "pow2 e = (if 0 \<le> e then 2 ^ nat e else 1 / 2 ^ nat (- e))"

definition round_half_even :: "rat \<Rightarrow> int" where
  "round_half_even r =
     (let f = \<lfloor>r\<rfloor>; d = r - of_int f
      in if d < 1 / 2 then f else if 1 / 2 < d then f + 1 else if even f then f else f + 1)"

text \<open>For \<open>0 < x = p / q\<close> the difference of the bit lengths is the binary exponent of \<open>x\<close>
  or one more.\<close>

definition fl_exponent :: "rat \<Rightarrow> int" where
  "fl_exponent x =
     (let (p, q) = quotient_of x; k = bitlen p - bitlen q
      in max (- 1074) (if pow2 k \<le> x then k - 52 else k - 53))"

definition fl_round :: "rat \<Rightarrow> rat" where
  "fl_round x =
     (if x = 0 then 0
      else let e = fl_exponent \<bar>x\<bar>; m = round_half_even (\<bar>x\<bar> / pow2 e)
           in sgn x * of_int m * pow2 e)"

definition fl_add :: "rat \<Rightarrow> rat \<Rightarrow> rat" where "fl_add a b = fl_round (a + b)"
definition fl_mul :: "rat \<Rightarrow> rat \<Rightarrow> rat" where "fl_mul a b = fl_round (a * b)"
definition fl_div :: "rat \<Rightarrow> rat \<Rightarrow> rat" where "fl_div a b = fl_round (a / b)"

text \<open>\<open>math.Trunc\<close> and \<open>math.Modf\<close>, which are exact.\<close>

definition fl_trunc :: "rat \<Rightarrow> int" where
  "fl_trunc x = (if 0 \<le> x then \<lfloor>x\<rfloor> else - \<lfloor>- x\<rfloor>)"

definition fl_modf :: "rat \<Rightarrow> rat \<times> rat" where
  "fl_modf x = (of_int (fl_trunc x), x - of_int (fl_trunc x))"

lemma fl_trunc_of_int [simp]: "fl_trunc (of_int i) = i"
  by (simp add: fl_trunc_def)

lemma fl_modf_sum: "fl_modf x = (u, f) \<Longrightarrow> u + f = x"
  by (auto simp: fl_modf_def)

text \<open>\<open>float32\<close>: 24 bits of precision and a least exponent of -149.\<close>

definition fl32_round :: "rat \<Rightarrow> rat" where
  "fl32_round x =
     (if x = 0 then 0
      else let (p, q) = quotient_of \<bar>x\<bar>; k = bitlen p - bitlen q;
               e = max (- 149) (if pow2 k \<le> \<bar>x\<bar> then k - 23 else k - 24)
           in sgn x * of_int (round_half_even (\<bar>x\<bar> / pow2 e)) * pow2 e)"

definition fl32_add :: "rat \<Rightarrow> rat \<Rightarrow> rat" where "fl32_add a b = fl32_round (a + b)"
definition fl32_mul :: "rat \<Rightarrow> rat \<Rightarrow> rat" where "fl32_mul a b = fl32_round (a * b)"
definition fl32_div :: "rat \<Rightarrow> rat \<Rightarrow> rat" where "fl32_div a b = fl32_round (a / b)"

end
