(* ===== verification/Shipping.thy ===== *)
theory Shipping
  imports ShopInterfaces GoStrings GoFloat
begin

text \<open>
  \<open>benchmarks/online-shop/shippingservice\<close>: quotes (\<open>quote.go\<close>), tracking ids
  (\<open>tracker.go\<close>) and the two handlers \<open>GetQuote\<close> and \<open>ShipOrder\<close> (\<open>main.go\<close>). The random
  numbers of \<open>math/rand\<close> are a parameter: an arbitrary sequence of draws, of which the
  theorems assume only that \<open>Intn(n)\<close> lies in \<open>[0, n)\<close>.
\<close>

subsection \<open>Quotes\<close>

record quote =
  Dollars :: uint32
  Cents :: uint32

definition Quote_String :: "quote \<Rightarrow> string" where
  "Quote_String q = ''$'' @ itoa (uint (Dollars q)) @ ''.'' @ itoa (uint (Cents q))"

definition CreateQuoteFromFloat :: "rat \<Rightarrow> quote" where
  "CreateQuoteFromFloat v =
     (let (units, fraction) = fl_modf v
      in \<lparr>Dollars = word_of_int (fl_trunc units), Cents = word_of_int (fl_trunc (fl_mul fraction 100))\<rparr>)"

definition CreateQuoteFromCount :: "int \<Rightarrow> quote" where
  "CreateQuoteFromCount count = CreateQuoteFromFloat (fl_round (899 / 100))"

text \<open>\<open>GetQuote\<close> never fails; its reply holds the cost.\<close>

definition GetQuote :: "shipping_request \<Rightarrow> go_error + money option" where
  "GetQuote req =
     (let quote = CreateQuoteFromCount 0
      in Inr (Some \<lparr>CurrencyCode = ''USD'',
                    Units = word_of_int (uint (Dollars quote)),
                    Nanos = Cents quote * 10000000\<rparr>))"

subsection \<open>Tracking ids\<close>

record rng =
  seeded :: bool
  draws :: nat

type_synonym intn = "nat \<Rightarrow> nat \<Rightarrow> nat"

definition Intn :: "intn \<Rightarrow> nat \<Rightarrow> (rng, nat) state" where
  "Intn src n = State (\<lambda>r. (src (draws r) n, r\<lparr>draws := Suc (draws r)\<rparr>))"

definition getRandomLetterCode :: "intn \<Rightarrow> (rng, uint32) state" where
  "getRandomLetterCode src = do { k \<leftarrow> Intn src 25; State_Monad.return (65 + of_nat k) }"

primrec random_digits :: "intn \<Rightarrow> nat \<Rightarrow> string \<Rightarrow> (rng, string) state" where
  "random_digits src 0 str = State_Monad.return str"
| "random_digits src (Suc k) str =
     do { d \<leftarrow> Intn src 10; random_digits src k (str @ itoa (int d)) }"

definition getRandomNumber :: "intn \<Rightarrow> nat \<Rightarrow> (rng, string) state" where
  "getRandomNumber src digits = random_digits src digits ''''"

definition CreateTrackingId :: "intn \<Rightarrow> string \<Rightarrow> (rng, string) state" where
  "CreateTrackingId src salt = do {
     r \<leftarrow> State_Monad.get;
     (if seeded r then State_Monad.return () else State_Monad.set (r\<lparr>seeded := True\<rparr>));
     a \<leftarrow> getRandomLetterCode src;
     b \<leftarrow> getRandomLetterCode src;
     n3 \<leftarrow> getRandomNumber src 3;
     n7 \<leftarrow> getRandomNumber src 7;
     State_Monad.return ([char_of (unat a), char_of (unat b)] @ ''-'' @ itoa (int (length salt)) @ n3 @
       ''-'' @ itoa (int (length salt div 2)) @ n7)
   }"

text \<open>A nil address makes the handler dereference a nil pointer.\<close>

definition ShipOrder :: "intn \<Rightarrow> shipping_request \<Rightarrow> (rng, string outcome) state" where
  "ShipOrder src req =
     (case ReqAddress req of
        None \<Rightarrow> State_Monad.return (Panic nil_deref)
      | Some a \<Rightarrow> do {
          tid \<leftarrow> CreateTrackingId src (StreetAddress a @ '', '' @ City a @ '', '' @ StateName a);
          State_Monad.return (Ret tid)
        })"

subsection \<open>Quotes: properties\<close>

lemma CreateQuoteFromCount_eq: "CreateQuoteFromCount n = \<lparr>Dollars = 8, Cents = 99\<rparr>"
proof -
  have "fl_trunc (fst (fl_modf (fl_round (899 / 100)))) = 8"
    and "fl_trunc (fl_mul (snd (fl_modf (fl_round (899 / 100)))) 100) = 99"
    by code_simp+
  then show ?thesis
    by (simp add: CreateQuoteFromCount_def CreateQuoteFromFloat_def case_prod_beta)
qed

interpretation shipping_quote: quote_provider GetQuote "\<lparr>CurrencyCode = ''USD'', Units = 8, Nanos = 990000000\<rparr>"
  by unfold_locales (simp_all add: GetQuote_def CreateQuoteFromCount_eq IsValid_sint)

text \<open>
  Every quote is 8.99 US dollars, whatever is shipped and where: the binary
  fraction of 8.99 times 100 truncates to 99 cents, and the cost is a valid shop amount.
\<close>

theorem GetQuote_constant:
  "GetQuote req = Inr (Some \<lparr>CurrencyCode = ''USD'', Units = 8, Nanos = 990000000\<rparr>)"
  by (rule shipping_quote.quote_cost)

text \<open>
  The text of a quote drops the leading zero of the cents, so 5 dollars 5 cents
  and 5 dollars 50 cents read \<open>$5.5\<close> and \<open>$5.50\<close>.
\<close>

theorem Quote_String_cents:
  "Quote_String \<lparr>Dollars = 5, Cents = 5\<rparr> = ''$5.5'' \<and> Quote_String \<lparr>Dollars = 5, Cents = 50\<rparr> = ''$5.50''"
  by (simp add: Quote_String_def) code_simp

subsection \<open>Tracking ids: properties\<close>

lemma run_Intn [simp]: "run_state (Intn src n) r = (src (draws r) n, r\<lparr>draws := Suc (draws r)\<rparr>)"
  by (simp add: Intn_def)

lemma itoa_digit: "d < 10 \<Longrightarrow> itoa (int d) = [digit_char d]"
  by (simp add: itoa_def nat_digits.simps)

lemma random_digits_run:
  assumes "\<And>i n. 0 < n \<Longrightarrow> src i n < n"
  shows "\<exists>ds. run_state (random_digits src k str) r = (str @ ds, r\<lparr>draws := draws r + k\<rparr>) \<and>
    length ds = k \<and> list_all is_digit ds"
proof (induction k arbitrary: str r)
  case (Suc k)
  let ?d = "src (draws r) 10"
  have d: "?d < 10" using assms by simp
  obtain ds where "run_state (random_digits src k (str @ itoa (int ?d))) (r\<lparr>draws := Suc (draws r)\<rparr>) =
      ((str @ itoa (int ?d)) @ ds, r\<lparr>draws := Suc (draws r) + k\<rparr>)"
    and "length ds = k" "list_all is_digit ds"
    using Suc.IH [of "str @ itoa (int ?d)" "r\<lparr>draws := Suc (draws r)\<rparr>"] by auto
  then show ?case
    using d by (intro exI [of _ "digit_char ?d # ds"]) (simp add: run_state_bind itoa_digit string_simps)
qed simp

lemma getRandomNumber_run:
  assumes "\<And>i n. 0 < n \<Longrightarrow> src i n < n"
  obtains ds where "run_state (getRandomNumber src k) r = (ds, r\<lparr>draws := draws r + k\<rparr>)"
    and "length ds = k" and "list_all is_digit ds"
  using random_digits_run [where src = src and k = k and str = "[]" and r = r, OF assms] that unfolding getRandomNumber_def by auto

definition capital_a_to_y :: "char \<Rightarrow> bool" where
  "capital_a_to_y c \<longleftrightarrow> 65 \<le> (of_char c :: nat) \<and> (of_char c :: nat) < 90"

lemma letter_code: "k < 25 \<Longrightarrow> capital_a_to_y (char_of (unat (65 + of_nat k :: uint32)))"
proof -
  assume "k < 25"
  then have "unat (65 + of_nat k :: uint32) = 65 + k"
    by (simp add: unat_word_ariths unat_of_nat)
  with \<open>k < 25\<close> show ?thesis by (simp add: capital_a_to_y_def)
qed

lemma CreateTrackingId_run:
  assumes "\<And>i n. 0 < n \<Longrightarrow> src i n < n"
  obtains x y ds es where "run_state (CreateTrackingId src salt) r =
      ([x, y] @ ''-'' @ itoa (int (length salt)) @ ds @ ''-'' @ itoa (int (length salt div 2)) @ es,
       \<lparr>seeded = True, draws = draws r + 12\<rparr>)"
    and "capital_a_to_y x" "capital_a_to_y y" "length ds = 3" "length es = 7" "list_all is_digit (ds @ es)"
proof -
  let ?r = "\<lparr>seeded = True, draws = Suc (Suc (draws r))\<rparr>"
  obtain ds where ds: "run_state (getRandomNumber src 3) ?r = (ds, \<lparr>seeded = True, draws = draws r + 5\<rparr>)"
    "length ds = 3" "list_all is_digit ds"
    by (rule getRandomNumber_run [where src = src and k = 3 and r = ?r, OF assms(1)]) (simp_all add: numeral_eq_Suc)
  obtain es where es: "run_state (getRandomNumber src 7) \<lparr>seeded = True, draws = draws r + 5\<rparr> =
      (es, \<lparr>seeded = True, draws = draws r + 12\<rparr>)" "length es = 7" "list_all is_digit es"
    by (rule getRandomNumber_run [where src = src and k = 7 and r = "\<lparr>seeded = True, draws = draws r + 5\<rparr>", OF assms(1)]) simp_all
  have "run_state (if seeded r then State_Monad.return () else State_Monad.set (r\<lparr>seeded := True\<rparr>)) r =
      ((), \<lparr>seeded = True, draws = draws r\<rparr>)"
    by simp
  then have "run_state (CreateTrackingId src salt) r =
      ([char_of (unat (65 + of_nat (src (draws r) 25) :: uint32)),
        char_of (unat (65 + of_nat (src (Suc (draws r)) 25) :: uint32))] @ ''-'' @ itoa (int (length salt)) @ ds @
       ''-'' @ itoa (int (length salt div 2)) @ es, \<lparr>seeded = True, draws = draws r + 12\<rparr>)"
    unfolding CreateTrackingId_def
    by (simp add: run_state_bind ds(1) es(1) getRandomLetterCode_def)
  then show ?thesis
    using that ds(2,3) es(2,3) letter_code assms(1) by simp
qed

text \<open>
  \<open>ShipOrder\<close> for an order with an address returns a tracking id of two letters
  \<open>A\<close> to \<open>Y\<close>, a dash, the length of the one-line address and three random digits, a dash,
  half that length and seven random digits; it draws twelve random numbers and leaves the
  generator seeded, whether it was before or not.
\<close>

theorem ShipOrder_tracking_id:
  assumes "\<And>i n. 0 < n \<Longrightarrow> src i n < n" and "ReqAddress req = Some a"
  shows "\<exists>x y ds es. run_state (ShipOrder src req) r =
      (Ret ([x, y] @ ''-'' @ itoa (int (length (StreetAddress a @ '', '' @ City a @ '', '' @ StateName a))) @ ds @
            ''-'' @ itoa (int (length (StreetAddress a @ '', '' @ City a @ '', '' @ StateName a) div 2)) @ es),
       \<lparr>seeded = True, draws = draws r + 12\<rparr>) \<and>
    capital_a_to_y x \<and> capital_a_to_y y \<and>
    length ds = 3 \<and> length es = 7 \<and> list_all is_digit (ds @ es)"
  by (rule CreateTrackingId_run [where src = src and r = r and
        salt = "StreetAddress a @ '', '' @ City a @ '', '' @ StateName a", OF assms(1)])
    (fastforce simp: ShipOrder_def assms(2) simp del: length_append append_assoc list_all_append)+

theorem ShipOrder_tracking_id_witness:
  "\<exists>x y ds es. run_state (ShipOrder (\<lambda>i n. i mod n)
       \<lparr>ReqAddress = Some \<lparr>StreetAddress = ''1 Main St'', City = ''Edinburgh'', StateName = ''EH'',
          Country = ''UK'', ZipCode = 7\<rparr>, ReqItems = []\<rparr>) \<lparr>seeded = False, draws = 0\<rparr> =
      (Ret ([x, y] @ ''-'' @ ''24'' @ ds @ ''-'' @ ''12'' @ es), \<lparr>seeded = True, draws = 12\<rparr>) \<and>
     length ds = 3 \<and> length es = 7"
proof -
  have "itoa 24 = ''24''" "itoa 12 = ''12''" by code_simp+
  then show ?thesis
    using ShipOrder_tracking_id [of "\<lambda>i n. i mod n" "\<lparr>ReqAddress = Some \<lparr>StreetAddress = ''1 Main St'',
        City = ''Edinburgh'', StateName = ''EH'', Country = ''UK'', ZipCode = 7\<rparr>, ReqItems = []\<rparr>" _
        "\<lparr>seeded = False, draws = 0\<rparr>"]
    by fastforce
qed

end
