(* ===== verification/Checkout.thy ===== *)
theory Checkout
  imports EventLog ProductCatalog Shipping
begin

text \<open>
  \<open>benchmarks/online-shop/checkoutservice/main.go\<close>: the handler \<open>PlaceOrder\<close> and the calls it
  makes to the cart, catalog, currency, shipping, payment and e-mail services. The log holds
  every dial and every remote call with its answer (theory \<open>EventLog\<close>). The services are an
  argument, \<open>checkout_env\<close>: each answers as a function of the log and the request.
\<close>

subsection \<open>Services and events\<close>

datatype service = CartSvc | CatalogSvc | CurrencySvc | ShippingSvc | EmailSvc | PaymentSvc

datatype event =
    NewUUID "go_error + string"
  | Dial service "go_error option"
  | GetCart string "go_error + cart_item list"
  | EmptyCart string "go_error option"
  | GetProductCall string "go_error + product"
  | Convert "money option" string "go_error + money"
  | QuoteCall shipping_request "go_error + money option"
  | ShipCall shipping_request "go_error + string"
  | Charge money "credit_card option" "go_error + string"
  | SendConfirmation string order_result "go_error option"

record checkout_env =
  new_uuid :: "event list \<Rightarrow> go_error + string"
  dial_svc :: "event list \<Rightarrow> service \<Rightarrow> go_error option"
  get_cart :: "event list \<Rightarrow> string \<Rightarrow> go_error + cart_item list"
  empty_cart :: "event list \<Rightarrow> string \<Rightarrow> go_error option"
  get_product :: "event list \<Rightarrow> string \<Rightarrow> go_error + product"
  convert :: "event list \<Rightarrow> money option \<Rightarrow> string \<Rightarrow> go_error + money"
  get_quote :: "event list \<Rightarrow> shipping_request \<Rightarrow> go_error + money option"
  ship :: "event list \<Rightarrow> shipping_request \<Rightarrow> go_error + string"
  charge :: "event list \<Rightarrow> money \<Rightarrow> credit_card option \<Rightarrow> go_error + string"
  send_confirmation :: "event list \<Rightarrow> string \<Rightarrow> order_result \<Rightarrow> go_error option"

type_synonym 'a checkout = "(event, 'a) logged"

definition dial :: "checkout_env \<Rightarrow> service \<Rightarrow> go_error option checkout" where
  "dial env svc = perform (\<lambda>h. dial_svc env h svc) (Dial svc)"

subsection \<open>Client calls\<close>

definition getUserCart :: "checkout_env \<Rightarrow> string \<Rightarrow> (go_error + cart_item list) checkout" where
  "getUserCart env userID = do {
     conn \<leftarrow> dial env CartSvc;
     case conn of
       Some err \<Rightarrow> State_Monad.return (Inl (Errorf ''could not connect cart service: %+v'' [ArgE err]))
     | None \<Rightarrow> do {
         cart \<leftarrow> perform (\<lambda>h. get_cart env h userID) (GetCart userID);
         case cart of
           Inl err \<Rightarrow> State_Monad.return (Inl (Errorf ''failed to get user cart during checkout: %+v'' [ArgE err]))
         | Inr items \<Rightarrow> State_Monad.return (Inr items)
       }
   }"

definition emptyUserCart :: "checkout_env \<Rightarrow> string \<Rightarrow> go_error option checkout" where
  "emptyUserCart env userID = do {
     conn \<leftarrow> dial env CartSvc;
     case conn of
       Some err \<Rightarrow> State_Monad.return (Some (Errorf ''could not connect cart service: %+v'' [ArgE err]))
     | None \<Rightarrow> do {
         res \<leftarrow> perform (\<lambda>h. empty_cart env h userID) (EmptyCart userID);
         case res of
           Some err \<Rightarrow> State_Monad.return (Some (Errorf ''failed to empty user cart during checkout: %+v'' [ArgE err]))
         | None \<Rightarrow> State_Monad.return None
       }
   }"

definition convertCurrency :: "checkout_env \<Rightarrow> money option \<Rightarrow> string \<Rightarrow> (go_error + money) checkout" where
  "convertCurrency env src toCurrency = do {
     conn \<leftarrow> dial env CurrencySvc;
     case conn of
       Some err \<Rightarrow> State_Monad.return (Inl (Errorf ''could not connect currency service: %+v'' [ArgE err]))
     | None \<Rightarrow> do {
         res \<leftarrow> perform (\<lambda>h. convert env h src toCurrency) (Convert src toCurrency);
         case res of
           Inl err \<Rightarrow> State_Monad.return (Inl (Errorf ''failed to convert currency: %+v'' [ArgE err]))
         | Inr m \<Rightarrow> State_Monad.return (Inr m)
       }
   }"

definition quoteShipping ::
  "checkout_env \<Rightarrow> address option \<Rightarrow> cart_item list \<Rightarrow> (go_error + money option) checkout"
where
  "quoteShipping env addr items = do {
     conn \<leftarrow> dial env ShippingSvc;
     case conn of
       Some err \<Rightarrow> State_Monad.return (Inl (Errorf ''could not connect shipping service: %+v'' [ArgE err]))
     | None \<Rightarrow> do {
         let req = \<lparr>ReqAddress = addr, ReqItems = items\<rparr>;
         res \<leftarrow> perform (\<lambda>h. get_quote env h req) (QuoteCall req);
         case res of
           Inl err \<Rightarrow> State_Monad.return (Inl (Errorf ''failed to get shipping quote: %+v'' [ArgE err]))
         | Inr cost \<Rightarrow> State_Monad.return (Inr cost)
       }
   }"

primrec prep_items :: "checkout_env \<Rightarrow> string \<Rightarrow> cart_item list \<Rightarrow> (go_error + order_item list) checkout" where
  "prep_items env cur [] = State_Monad.return (Inr [])"
| "prep_items env cur (item # items) = do {
     p \<leftarrow> perform (\<lambda>h. get_product env h (ProductId item)) (GetProductCall (ProductId item));
     case p of
       Inl err \<Rightarrow> State_Monad.return (Inl (Errorf ''failed to get product #%q'' [ArgS (ProductId item)]))
     | Inr product \<Rightarrow> do {
         price \<leftarrow> convertCurrency env (PriceUsd product) cur;
         case price of
           Inl err \<Rightarrow> State_Monad.return
             (Inl (Errorf ''failed to convert price of %q to %s'' [ArgS (ProductId item), ArgS cur]))
         | Inr cost \<Rightarrow> do {
             rest \<leftarrow> prep_items env cur items;
             case rest of
               Inl err \<Rightarrow> State_Monad.return (Inl err)
             | Inr out \<Rightarrow> State_Monad.return (Inr (\<lparr>Item = item, Cost = cost\<rparr> # out))
           }
       }
   }"

definition prepOrderItems ::
  "checkout_env \<Rightarrow> cart_item list \<Rightarrow> string \<Rightarrow> (go_error + order_item list) checkout"
where
  "prepOrderItems env items userCurrency = do {
     conn \<leftarrow> dial env CatalogSvc;
     case conn of
       Some err \<Rightarrow> State_Monad.return (Inl (Errorf ''could not connect product catalog service: %+v'' [ArgE err]))
     | None \<Rightarrow> prep_items env userCurrency items
   }"

definition chargeCard :: "checkout_env \<Rightarrow> money \<Rightarrow> credit_card option \<Rightarrow> (go_error + string) checkout" where
  "chargeCard env amount paymentInfo = do {
     conn \<leftarrow> dial env PaymentSvc;
     case conn of
       Some err \<Rightarrow> State_Monad.return (Inl (Errorf ''failed to connect payment service: %+v'' [ArgE err]))
     | None \<Rightarrow> do {
         res \<leftarrow> perform (\<lambda>h. charge env h amount paymentInfo) (Charge amount paymentInfo);
         case res of
           Inl err \<Rightarrow> State_Monad.return (Inl (Errorf ''could not charge the card: %+v'' [ArgE err]))
         | Inr txID \<Rightarrow> State_Monad.return (Inr txID)
       }
   }"

definition sendOrderConfirmation :: "checkout_env \<Rightarrow> string \<Rightarrow> order_result \<Rightarrow> go_error option checkout" where
  "sendOrderConfirmation env email order = do {
     conn \<leftarrow> dial env EmailSvc;
     case conn of
       Some err \<Rightarrow> State_Monad.return (Some (Errorf ''failed to connect email service: %+v'' [ArgE err]))
     | None \<Rightarrow> perform (\<lambda>h. send_confirmation env h email order) (SendConfirmation email order)
   }"

definition shipOrder :: "checkout_env \<Rightarrow> address option \<Rightarrow> cart_item list \<Rightarrow> (go_error + string) checkout" where
  "shipOrder env addr items = do {
     conn \<leftarrow> dial env ShippingSvc;
     case conn of
       Some err \<Rightarrow> State_Monad.return (Inl (Errorf ''failed to connect email service: %+v'' [ArgE err]))
     | None \<Rightarrow> do {
         let req = \<lparr>ReqAddress = addr, ReqItems = items\<rparr>;
         res \<leftarrow> perform (\<lambda>h. ship env h req) (ShipCall req);
         case res of
           Inl err \<Rightarrow> State_Monad.return (Inl (Errorf ''shipment failed: %+v'' [ArgE err]))
         | Inr trackingID \<Rightarrow> State_Monad.return (Inr trackingID)
       }
   }"

subsection \<open>The handlers\<close>

record order_prep =
  orderItems :: "order_item list"
  cartItems :: "cart_item list"
  shippingCostLocalized :: money

definition prepareOrderItemsAndShippingQuoteFromCart ::
  "checkout_env \<Rightarrow> string \<Rightarrow> string \<Rightarrow> address option \<Rightarrow> (go_error + order_prep) checkout"
where
  "prepareOrderItemsAndShippingQuoteFromCart env userID userCurrency addr = do {
     cart \<leftarrow> getUserCart env userID;
     case cart of
       Inl err \<Rightarrow> State_Monad.return (Inl (Errorf ''cart failure: %+v'' [ArgE err]))
     | Inr items \<Rightarrow> do {
         order \<leftarrow> prepOrderItems env items userCurrency;
         case order of
           Inl err \<Rightarrow> State_Monad.return (Inl (Errorf ''failed to prepare order: %+v'' [ArgE err]))
         | Inr ordered \<Rightarrow> do {
             shippingUSD \<leftarrow> quoteShipping env addr items;
             case shippingUSD of
               Inl err \<Rightarrow> State_Monad.return (Inl (Errorf ''shipping quote failure: %+v'' [ArgE err]))
             | Inr usd \<Rightarrow> do {
                 shippingPrice \<leftarrow> convertCurrency env usd userCurrency;
                 case shippingPrice of
                   Inl err \<Rightarrow> State_Monad.return
                     (Inl (Errorf ''failed to convert shipping cost to currency: %+v'' [ArgE err]))
                 | Inr price \<Rightarrow> State_Monad.return
                     (Inr \<lparr>orderItems = ordered, cartItems = items, shippingCostLocalized = price\<rparr>)
               }
           }
       }
   }"

text \<open>The loop over the order items; the conversion to \<open>uint32\<close> keeps the bits of the quantity.\<close>

primrec add_items :: "money \<Rightarrow> order_item list \<Rightarrow> money outcome" where
  "add_items t [] = Ret t"
| "add_items t (it # its) =
     out_bind (MultiplySlow (Cost it) (Quantity (Item it))) (\<lambda>multPrice.
     out_bind (Must (Sum t multPrice)) (\<lambda>t. add_items t its))"

definition order_total :: "string \<Rightarrow> order_prep \<Rightarrow> money outcome" where
  "order_total userCurrency prep =
     (let t = \<lparr>CurrencyCode = userCurrency, Units = 0, Nanos = 0\<rparr>
      in out_bind (Must (Sum t (shippingCostLocalized prep))) (\<lambda>t. add_items t (orderItems prep)))"

type_synonym reply = "(go_error + order_result) outcome"

text \<open>\<open>PlaceOrder\<close> from the charging of the card on.\<close>

definition complete_order ::
  "checkout_env \<Rightarrow> place_order_request \<Rightarrow> string \<Rightarrow> order_prep \<Rightarrow> money \<Rightarrow> reply checkout"
where
  "complete_order env req orderID prep amount = do {
     tx \<leftarrow> chargeCard env amount (CreditCard req);
     case tx of
       Inl err \<Rightarrow> State_Monad.return
         (Ret (Inl (StatusErrorf Internal (Lit ''failed to charge card: %+v'') [ArgE err])))
     | Inr txID \<Rightarrow> do {
         shipped \<leftarrow> shipOrder env (Address req) (cartItems prep);
         case shipped of
           Inl err \<Rightarrow> State_Monad.return
             (Ret (Inl (StatusErrorf Unavailable (Lit ''shipping error: %+v'') [ArgE err])))
         | Inr trackingID \<Rightarrow> do {
             _ \<leftarrow> emptyUserCart env (UserId req);
             let orderResult = \<lparr>OrderId = orderID, ShippingTrackingId = trackingID,
               ShippingCost = shippingCostLocalized prep, ShippingAddress = Address req,
               Items = orderItems prep\<rparr>;
             _ \<leftarrow> sendOrderConfirmation env (Email req) orderResult;
             State_Monad.return (Ret (Inr orderResult))
           }
       }
   }"

definition PlaceOrder :: "checkout_env \<Rightarrow> place_order_request \<Rightarrow> reply checkout" where
  "PlaceOrder env req = do {
     orderID \<leftarrow> perform (\<lambda>h. new_uuid env h) NewUUID;
     case orderID of
       Inl err \<Rightarrow> State_Monad.return
         (Ret (Inl (StatusErrorf Internal (Lit ''failed to generate order uuid'') [])))
     | Inr oid \<Rightarrow> do {
         prepared \<leftarrow> prepareOrderItemsAndShippingQuoteFromCart env (UserId req) (UserCurrency req) (Address req);
         case prepared of
           Inl err \<Rightarrow> State_Monad.return (Ret (Inl (StatusErrorf Internal (ErrorText err) [])))
         | Inr prep \<Rightarrow>
             (case order_total (UserCurrency req) prep of
                Ret amount \<Rightarrow> complete_order env req oid prep amount
              | Panic e \<Rightarrow> State_Monad.return (Panic e)
              | Fatal m \<Rightarrow> State_Monad.return (Fatal m))
       }
   }"

definition checkout_Check :: "go_error + health_status" where
  "checkout_Check = Inr SERVING"

definition checkout_Watch :: "go_error option" where
  "checkout_Watch = Some (StatusErrorf Unimplemented (Lit ''health check via Watch not implemented'') [])"

subsection \<open>The total\<close>

definition line_val :: "order_item \<Rightarrow> int" where
  "line_val it = int (max 1 (unat (Quantity (Item it)))) * money_val (Cost it)"

lemma line_val_nonneg: "good_amount c (Cost it) \<Longrightarrow> 0 \<le> line_val it"
  unfolding line_val_def by (intro mult_nonneg_nonneg of_nat_0_le_iff) (rule money.val_nonneg)

lemma line_vals_nonneg: "\<forall>it\<in>set its. good_amount c (Cost it) \<Longrightarrow> 0 \<le> sum_list (map line_val its)"
  by (intro sum_list_nonneg) (auto intro: line_val_nonneg)

lemma add_items_good:
  assumes "good_amount c t" and "\<forall>it\<in>set its. good_amount c (Cost it)"
    and "money_val t + sum_list (map line_val its) < amount_limit"
  shows "\<exists>s. add_items t its = Ret s \<and> good_amount c s \<and>
    money_val s = money_val t + sum_list (map line_val its)"
  using assms
proof (induction its arbitrary: t)
  case (Cons it its)
  have "0 \<le> sum_list (map line_val its)"
    using Cons.prems(2) by (intro line_vals_nonneg [where c = c]) simp
  moreover have "0 \<le> money_val t" using Cons.prems(1) by (rule money.val_nonneg)
  ultimately have lim: "line_val it < amount_limit" "money_val t + line_val it < amount_limit"
    using Cons.prems(3) line_val_nonneg [of c it] Cons.prems(2) by simp_all
  obtain p where p: "MultiplySlow (Cost it) (Quantity (Item it)) = Ret p" "good_amount c p" "money_val p = line_val it"
    using MultiplySlow_good [of c "Cost it" "Quantity (Item it)"] lim(1) Cons.prems(2)
    unfolding line_val_def by auto
  obtain t' where t': "Must (Sum t p) = Ret t'" "good_amount c t'" "money_val t' = money_val t + line_val it"
    using money.add_good [of c t p] Cons.prems(1) p lim(2) by auto
  show ?case
    using Cons.IH [of t'] Cons.prems p t' by (simp add: add.assoc)
qed simp

definition prep_val :: "order_prep \<Rightarrow> int" where
  "prep_val prep = money_val (shippingCostLocalized prep) + sum_list (map line_val (orderItems prep))"

lemma order_total_good:
  assumes "good_amount c (shippingCostLocalized prep)" and "\<forall>it\<in>set (orderItems prep). good_amount c (Cost it)"
    and "prep_val prep < amount_limit"
  shows "\<exists>s. order_total c prep = Ret s \<and> good_amount c s \<and> money_val s = prep_val prep"
proof -
  let ?z = "\<lparr>CurrencyCode = c, Units = 0, Nanos = 0\<rparr>"
  have z: "good_amount c ?z" "money_val ?z = 0"
    by (simp_all add: good_amount_sint money_val_def)
  have "0 \<le> sum_list (map line_val (orderItems prep))"
    using assms(2) by (rule line_vals_nonneg)
  then obtain t where t: "Must (Sum ?z (shippingCostLocalized prep)) = Ret t" "good_amount c t"
    "money_val t = money_val (shippingCostLocalized prep)"
    using money.add_good [of c ?z "shippingCostLocalized prep"] z assms(1,3)
    by (auto simp: prep_val_def)
  with add_items_good [OF t(2) assms(2)] assms(3) show ?thesis
    by (simp add: order_total_def prep_val_def)
qed

subsection \<open>The effects of an order\<close>

text \<open>The calls that change something outside: charge, shipment, emptied cart, e-mail.\<close>

fun is_effect :: "event \<Rightarrow> bool" where
  "is_effect (Charge amount paymentInfo r) \<longleftrightarrow> True"
| "is_effect (ShipCall req r) \<longleftrightarrow> True"
| "is_effect (EmptyCart u r) \<longleftrightarrow> True"
| "is_effect (SendConfirmation m order r) \<longleftrightarrow> True"
| "is_effect _ \<longleftrightarrow> False"

definition effects :: "event list \<Rightarrow> event list" where
  "effects = filter is_effect"

lemma effects_simps [simp]:
  "effects [] = []"
  "effects (e # es) = (if is_effect e then e # effects es else effects es)"
  "effects (xs @ ys) = effects xs @ effects ys"
  by (simp_all add: effects_def)

subsection \<open>What is charged for\<close>

text \<open>The amounts the currency service answered with, in order.\<close>

fun conversion :: "event \<Rightarrow> money option" where
  "conversion (Convert src c (Inr m)) = Some m"
| "conversion _ = None"

definition conversions :: "event list \<Rightarrow> money list" where
  "conversions = List.map_filter conversion"

lemma conversions_simps [simp]:
  "conversions [] = []"
  "conversions (e # es) = (case conversion e of None \<Rightarrow> conversions es | Some m \<Rightarrow> m # conversions es)"
  "conversions (xs @ ys) = conversions xs @ conversions ys"
  unfolding conversions_def by (simp, simp add: map_filter_simps, simp add: List.map_filter_def)

text \<open>The amounts the currency service was asked to convert.\<close>

fun asked_amount :: "event \<Rightarrow> money option option" where
  "asked_amount (Convert src c r) = Some src"
| "asked_amount _ = None"

definition asked :: "event list \<Rightarrow> money option list" where
  "asked = List.map_filter asked_amount"

lemma asked_simps [simp]:
  "asked [] = []"
  "asked (e # es) = (case asked_amount e of None \<Rightarrow> asked es | Some m \<Rightarrow> m # asked es)"
  "asked (xs @ ys) = asked xs @ asked ys"
  unfolding asked_def by (simp, simp add: map_filter_simps, simp add: List.map_filter_def)

text \<open>\<open>ps\<close> are the products the catalog answered with for the items, in order.\<close>

definition looked_up :: "event list \<Rightarrow> cart_item list \<Rightarrow> product list \<Rightarrow> bool" where
  "looked_up evs items ps \<longleftrightarrow> list_all2 (\<lambda>it p. GetProductCall (ProductId it) (Inr p) \<in> set evs) items ps"

lemma looked_up_mono: "looked_up evs items ps \<Longrightarrow> set evs \<subseteq> set evs' \<Longrightarrow> looked_up evs' items ps"
  unfolding looked_up_def by (erule list_all2_mono) auto

definition item_costs :: "cart_item list \<Rightarrow> go_error + order_item list \<Rightarrow> event list \<Rightarrow> bool" where
  "item_costs items r new \<longleftrightarrow> effects new = [] \<and>
     (\<forall>out. r = Inr out \<longrightarrow> map Item out = items \<and> map Cost out = conversions new \<and>
        (\<exists>ps. asked new = map PriceUsd ps \<and> looked_up new items ps))"

lemma item_costs_Cons:
  assumes "item_costs items (Inr out) new2" and "conversions new1 = [m]" "asked new1 = [PriceUsd p]"
    and "effects new1 = []"
  shows "item_costs (it # items) (Inr (\<lparr>Item = it, Cost = m\<rparr> # out))
    (GetProductCall (ProductId it) (Inr p) # new1 @ new2)"
proof -
  obtain ps where "asked new2 = map PriceUsd ps" "looked_up new2 items ps"
    using assms(1) unfolding item_costs_def by blast
  moreover have "looked_up (GetProductCall (ProductId it) (Inr p) # new1 @ new2) items ps"
    by (rule looked_up_mono [OF calculation(2)]) auto
  ultimately show ?thesis
    using assms unfolding item_costs_def
    by (auto simp: looked_up_def intro!: exI [of _ "p # ps"])
qed

definition convert_one :: "money option \<Rightarrow> go_error + money \<Rightarrow> event list \<Rightarrow> bool" where
  "convert_one src r new \<longleftrightarrow> effects new = [] \<and>
     (\<forall>m. r = Inr m \<longrightarrow> conversions new = [m] \<and> asked new = [src])"

lemma emits_convertCurrency: "emits (convertCurrency env src c) (convert_one src)"
  by (auto simp: convertCurrency_def dial_def convert_one_def intro!: emits_intro)

lemma emits_prep_items: "emits (prep_items env cur items) (item_costs items)"
proof (induction items)
  case Nil
  show ?case by (auto simp: item_costs_def looked_up_def intro!: emits_intro)
next
  case (Cons item items)
  show ?case
    unfolding prep_items.simps
  proof (rule emits_try_perform)
    fix p
    show "emits (State_Monad.bind (convertCurrency env (PriceUsd p) cur) (\<lambda>price. case price of
        Inl err \<Rightarrow> State_Monad.return
          (Inl (Errorf ''failed to convert price of %q to %s'' [ArgS (ProductId item), ArgS cur]))
      | Inr cost \<Rightarrow> State_Monad.bind (prep_items env cur items) (\<lambda>rest. case rest of
          Inl err \<Rightarrow> State_Monad.return (Inl err)
        | Inr out \<Rightarrow> State_Monad.return (Inr (\<lparr>Item = item, Cost = cost\<rparr> # out)))))
      (\<lambda>r new. item_costs (item # items) r (GetProductCall (ProductId item) (Inr p) # new))"
      by (rule emits_try [OF emits_convertCurrency], simp add: item_costs_def convert_one_def,
          rule emits_try [OF Cons.IH], simp add: item_costs_def convert_one_def, rule emits_return)
        (simp add: item_costs_Cons convert_one_def)
  qed (simp add: item_costs_def)
qed

text \<open>The preparation of an order and the calls it is made of.\<close>

definition prepared :: "string \<Rightarrow> address option \<Rightarrow> go_error + order_prep \<Rightarrow> event list \<Rightarrow> bool" where
  "prepared u a r new \<longleftrightarrow> effects new = [] \<and>
     (\<forall>prep. r = Inr prep \<longrightarrow>
        GetCart u (Inr (cartItems prep)) \<in> set new \<and> map Item (orderItems prep) = cartItems prep \<and>
        conversions new = map Cost (orderItems prep) @ [shippingCostLocalized prep] \<and>
        (\<exists>ps usd. asked new = map PriceUsd ps @ [usd] \<and> looked_up new (cartItems prep) ps \<and>
           QuoteCall \<lparr>ReqAddress = a, ReqItems = cartItems prep\<rparr> (Inr usd) \<in> set new))"

lemma emits_getUserCart:
  "emits (getUserCart env u) (\<lambda>r new. effects new = [] \<and> conversions new = [] \<and> asked new = [] \<and>
     (\<forall>items. r = Inr items \<longrightarrow> GetCart u (Inr items) \<in> set new))"
  by (auto simp: getUserCart_def dial_def intro!: emits_intro)

lemma item_costs_Dial: "item_costs items r new \<Longrightarrow> item_costs items r (Dial svc c # new)"
  unfolding item_costs_def using looked_up_mono [of new items _ "Dial svc c # new"] by (simp, blast)

lemma emits_prepOrderItems: "emits (prepOrderItems env items cur) (item_costs items)"
  unfolding prepOrderItems_def dial_def
  by (rule emits_perform_bind, rule emits_option, rule emits_weaken [OF emits_prep_items])
    (auto simp: item_costs_def [of _ "Inl _"] item_costs_Dial intro!: emits_return)

lemma emits_quoteShipping:
  "emits (quoteShipping env a items) (\<lambda>r new. effects new = [] \<and> conversions new = [] \<and> asked new = [] \<and>
     (\<forall>usd. r = Inr usd \<longrightarrow> QuoteCall \<lparr>ReqAddress = a, ReqItems = items\<rparr> (Inr usd) \<in> set new))"
  by (auto simp: quoteShipping_def dial_def Let_def intro!: emits_intro)

lemma preparedI:
  assumes "effects n1 = []" "conversions n1 = []" "asked n1 = []" "GetCart u (Inr items) \<in> set n1"
    and "item_costs items (Inr out) n2"
    and "effects n3 = []" "conversions n3 = []" "asked n3 = []"
      "QuoteCall \<lparr>ReqAddress = a, ReqItems = items\<rparr> (Inr usd) \<in> set n3"
    and "convert_one usd (Inr cost) n4"
  shows "prepared u a (Inr \<lparr>orderItems = out, cartItems = items, shippingCostLocalized = cost\<rparr>)
    (n1 @ n2 @ n3 @ n4)"
proof -
  obtain ps where "asked n2 = map PriceUsd ps" "looked_up n2 items ps"
    using assms(5) unfolding item_costs_def by blast
  moreover have "looked_up (n1 @ n2 @ n3 @ n4) items ps"
    by (rule looked_up_mono [OF calculation(2)]) auto
  ultimately show ?thesis
    using assms unfolding prepared_def item_costs_def convert_one_def by auto
qed

lemma emits_prepare: "emits (prepareOrderItemsAndShippingQuoteFromCart env u cur a) (prepared u a)"
  unfolding prepareOrderItemsAndShippingQuoteFromCart_def
  by (rule emits_try [OF emits_getUserCart], simp add: prepared_def,
      rule emits_try [OF emits_prepOrderItems], simp add: prepared_def item_costs_def,
      rule emits_try [OF emits_quoteShipping], simp add: prepared_def item_costs_def,
      rule emits_try [OF emits_convertCurrency], simp add: prepared_def item_costs_def convert_one_def,
      rule emits_return)
    (elim conjE, simp, rule preparedI, assumption+)

subsection \<open>What an order does outside\<close>

text \<open>
  The specification of the second half of an order, as the sequences of effects it may have
  and the reply each of them leads to. The card is charged at most once, nothing is shipped
  unless the charge went through, and nothing follows a shipment that failed.
\<close>

definition tail_of :: "event list \<Rightarrow> ('a \<Rightarrow> event) \<Rightarrow> bool" where
  "tail_of es f \<longleftrightarrow> es = [] \<or> (\<exists>r. es = [f r])"

inductive order_effects :: "place_order_request \<Rightarrow> order_prep \<Rightarrow> money \<Rightarrow> reply \<Rightarrow> event list \<Rightarrow> bool"
  for req prep amount
where
  not_connected:
    "order_effects req prep amount
       (Ret (Inl (StatusErrorf Internal (Lit ''failed to charge card: %+v'') [ArgE err]))) []"
| declined:
    "order_effects req prep amount
       (Ret (Inl (StatusErrorf Internal (Lit ''failed to charge card: %+v'')
          [ArgE (Errorf ''could not charge the card: %+v'' [ArgE err])])))
       [Charge amount (CreditCard req) (Inl err)]"
| not_shipped:
    "es = [] \<or> (\<exists>e. es = [ShipCall \<lparr>ReqAddress = Address req, ReqItems = cartItems prep\<rparr> (Inl e)]) \<Longrightarrow>
     order_effects req prep amount
       (Ret (Inl (StatusErrorf Unavailable (Lit ''shipping error: %+v'') [ArgE err])))
       (Charge amount (CreditCard req) (Inr tx) # es)"
| placed:
    "\<lbrakk>tail_of es (EmptyCart (UserId req)); tail_of ms (SendConfirmation (Email req) order);
      ShippingCost order = shippingCostLocalized prep; ShippingAddress order = Address req;
      Items order = orderItems prep\<rbrakk> \<Longrightarrow>
     order_effects req prep amount (Ret (Inr order))
       (Charge amount (CreditCard req) (Inr tx) #
        ShipCall \<lparr>ReqAddress = Address req, ReqItems = cartItems prep\<rparr> (Inr (ShippingTrackingId order)) #
        es @ ms)"

lemma emits_chargeCard:
  "emits (chargeCard env amount paymentInfo) (\<lambda>r new. (case r of
      Inr tx \<Rightarrow> effects new = [Charge amount paymentInfo (Inr tx)]
    | Inl err \<Rightarrow> effects new = [] \<or>
        (\<exists>e. err = Errorf ''could not charge the card: %+v'' [ArgE e] \<and>
             effects new = [Charge amount paymentInfo (Inl e)])))"
  by (auto simp: chargeCard_def dial_def intro!: emits_intro)

lemma emits_shipOrder:
  "emits (shipOrder env a items) (\<lambda>r new. (case r of
      Inr tid \<Rightarrow> effects new = [ShipCall \<lparr>ReqAddress = a, ReqItems = items\<rparr> (Inr tid)]
    | Inl err \<Rightarrow> effects new = [] \<or>
        (\<exists>e. effects new = [ShipCall \<lparr>ReqAddress = a, ReqItems = items\<rparr> (Inl e)])))"
  by (auto simp: shipOrder_def dial_def Let_def intro!: emits_intro)

lemma emits_emptyUserCart: "emits (emptyUserCart env u) (\<lambda>r new. tail_of (effects new) (EmptyCart u))"
  by (auto simp: emptyUserCart_def dial_def tail_of_def intro!: emits_intro)

lemma emits_sendOrderConfirmation:
  "emits (sendOrderConfirmation env m order) (\<lambda>r new. tail_of (effects new) (SendConfirmation m order))"
  by (auto simp: sendOrderConfirmation_def dial_def tail_of_def intro!: emits_intro)

lemma emits_complete_order:
  "emits (complete_order env req oid prep amount)
     (\<lambda>reply new. order_effects req prep amount reply (effects new))"
  unfolding complete_order_def Let_def
  by (rule emits_try [OF emits_chargeCard], fastforce intro: order_effects.intros,
      rule emits_try [OF emits_shipOrder], fastforce intro: order_effects.intros,
      rule emits_bind [OF emits_emptyUserCart], rule emits_bind [OF emits_sendOrderConfirmation],
      rule emits_return)
    (auto intro!: order_effects.placed [of _ _ _ "\<lparr>OrderId = oid, ShippingTrackingId = _, ShippingCost = _,
      ShippingAddress = _, Items = _\<rparr>", simplified])

subsection \<open>The log of an order\<close>

inductive placing :: "place_order_request \<Rightarrow> reply \<Rightarrow> event list \<Rightarrow> bool" for req where
  unplaced:
    "\<lbrakk>effects new = []; \<forall>order. reply \<noteq> Ret (Inr order);
      \<forall>t args. reply \<noteq> Ret (Inl (StatusErrorf Unavailable t args))\<rbrakk> \<Longrightarrow> placing req reply new"
| tried:
    "\<lbrakk>prepared (UserId req) (Address req) (Inr prep) pre; order_total (UserCurrency req) prep = Ret amount;
      order_effects req prep amount reply (effects post); asked post = []; conversions post = []\<rbrakk>
     \<Longrightarrow> placing req reply (pre @ post)"

lemma prepared_effects: "prepared u a r new \<Longrightarrow> effects new = []"
  by (simp add: prepared_def)

lemma prepared_cons:
  assumes "prepared u a (Inr prep) pre" and "\<not> is_effect e" "conversion e = None" "asked_amount e = None"
  shows "prepared u a (Inr prep) (e # pre)"
proof -
  obtain ps usd where "asked pre = map PriceUsd ps @ [usd]" "looked_up pre (cartItems prep) ps"
    "QuoteCall \<lparr>ReqAddress = a, ReqItems = cartItems prep\<rparr> (Inr usd) \<in> set pre"
    using assms(1) unfolding prepared_def by blast
  moreover have "looked_up (e # pre) (cartItems prep) ps"
    by (rule looked_up_mono [OF calculation(2)]) auto
  ultimately show ?thesis
    using assms unfolding prepared_def by auto
qed

lemma placing_cons:
  assumes "placing req reply new" and e: "\<not> is_effect e" "conversion e = None" "asked_amount e = None"
  shows "placing req reply (e # new)"
  using assms(1)
proof cases
  case unplaced
  with e show ?thesis by (intro placing.unplaced) auto
next
  case (tried prep pre amount post)
  then show ?thesis
    using placing.tried [OF prepared_cons [OF tried(2) e] tried(3-6)] by simp
qed

lemma no_conversion_complete_order:
  "all_events (\<lambda>e. asked_amount e = None \<and> conversion e = None) (complete_order env req oid prep amount)"
  unfolding complete_order_def chargeCard_def shipOrder_def emptyUserCart_def sendOrderConfirmation_def
    dial_def Let_def
  by (intro all_events_intro) auto

lemma no_conversion_simps:
  "\<forall>e\<in>set es. asked_amount e = None \<and> conversion e = None \<Longrightarrow> asked es = [] \<and> conversions es = []"
  by (induction es) auto

lemma emits_PlaceOrder: "emits (PlaceOrder env req) (placing req)"
  unfolding PlaceOrder_def
proof (rule emits_try_perform)
  fix oid
  have "emits (State_Monad.bind (prepareOrderItemsAndShippingQuoteFromCart env (UserId req) (UserCurrency req) (Address req))
      (\<lambda>r. case r of Inl err \<Rightarrow> State_Monad.return (Ret (Inl (StatusErrorf Internal (ErrorText err) [])))
        | Inr prep \<Rightarrow> (case order_total (UserCurrency req) prep of
                Ret amount \<Rightarrow> complete_order env req oid prep amount
              | Panic e \<Rightarrow> State_Monad.return (Panic e)
              | Fatal m \<Rightarrow> State_Monad.return (Fatal m)))) (placing req)"
    by (rule emits_try [OF emits_prepare], simp add: placing.unplaced prepared_effects, rule emits_outcome,
        rule emits_weaken [OF emits_all_events [OF emits_complete_order no_conversion_complete_order]],
        erule conjE, frule no_conversion_simps, elim conjE, erule (4) placing.tried)
      (frule prepared_effects, simp add: emits_return placing.unplaced)+
  then show "emits (State_Monad.bind (prepareOrderItemsAndShippingQuoteFromCart env (UserId req) (UserCurrency req) (Address req))
      (\<lambda>r. case r of Inl err \<Rightarrow> State_Monad.return (Ret (Inl (StatusErrorf Internal (ErrorText err) [])))
        | Inr prep \<Rightarrow> (case order_total (UserCurrency req) prep of
                Ret amount \<Rightarrow> complete_order env req oid prep amount
              | Panic e \<Rightarrow> State_Monad.return (Panic e)
              | Fatal m \<Rightarrow> State_Monad.return (Fatal m))))
      (\<lambda>r new. placing req r (NewUUID (Inr oid) # new))"
    by (rule emits_weaken) (simp add: placing_cons)
qed (simp add: placing.unplaced)

lemma PlaceOrder_placing:
  assumes "run_state (PlaceOrder env req) h = (reply, h')"
  obtains new where "h' = h @ new" and "placing req reply new"
  using emits_run [OF emits_PlaceOrder, of env req h] assms by auto

subsection \<open>The log holds the services' answers\<close>

fun answered :: "checkout_env \<Rightarrow> event \<Rightarrow> bool" where
  "answered env (NewUUID r) \<longleftrightarrow> (\<exists>h. r = new_uuid env h)"
| "answered env (Dial svc r) \<longleftrightarrow> (\<exists>h. r = dial_svc env h svc)"
| "answered env (GetCart u r) \<longleftrightarrow> (\<exists>h. r = get_cart env h u)"
| "answered env (EmptyCart u r) \<longleftrightarrow> (\<exists>h. r = empty_cart env h u)"
| "answered env (GetProductCall i r) \<longleftrightarrow> (\<exists>h. r = get_product env h i)"
| "answered env (Convert m c r) \<longleftrightarrow> (\<exists>h. r = convert env h m c)"
| "answered env (QuoteCall q r) \<longleftrightarrow> (\<exists>h. r = get_quote env h q)"
| "answered env (ShipCall q r) \<longleftrightarrow> (\<exists>h. r = ship env h q)"
| "answered env (Charge m c r) \<longleftrightarrow> (\<exists>h. r = charge env h m c)"
| "answered env (SendConfirmation m ord r) \<longleftrightarrow> (\<exists>h. r = send_confirmation env h m ord)"

lemma sound_dial: "all_events (answered env) (dial env svc)"
  unfolding dial_def by (rule all_events_perform) auto

lemmas sound_intro = all_events_intro sound_dial

lemma sound_prep_items: "all_events (answered env) (prep_items env cur items)"
  by (induction items; unfold prep_items.simps convertCurrency_def; intro sound_intro) auto

lemma sound_complete_order: "all_events (answered env) (complete_order env req oid prep amount)"
  unfolding complete_order_def chargeCard_def shipOrder_def emptyUserCart_def sendOrderConfirmation_def Let_def
  by (intro sound_intro) auto

lemma sound_prepare: "all_events (answered env) (prepareOrderItemsAndShippingQuoteFromCart env u cur a)"
  unfolding prepareOrderItemsAndShippingQuoteFromCart_def getUserCart_def prepOrderItems_def
    quoteShipping_def convertCurrency_def Let_def
  by (intro sound_intro sound_prep_items) auto

lemma sound_PlaceOrder: "all_events (answered env) (PlaceOrder env req)"
  unfolding PlaceOrder_def
  by (intro sound_intro sound_prepare sound_complete_order) auto

text \<open>What the checkout may conclude from the contract of the catalog.\<close>

context product_lookup
begin

lemma looked_up_ids:
  assumes "looked_up evs items ps" and "\<forall>e\<in>set evs. answered env e"
    and "get_product env = (\<lambda>h. lookup (st h))" and "\<And>h. ready (st h)"
  shows "map Id ps = map ProductId items"
  using assms(1) unfolding looked_up_def
proof (induction rule: list_all2_induct)
  case (Cons it items p ps)
  then obtain h where "Inr p = lookup (st h) (ProductId it)"
    using assms(2,3) by fastforce
  with lookup_id [OF assms(4), of h "ProductId it" p] Cons.IH show ?case by simp
qed simp

end

context quote_provider
begin

lemma quoted_cost:
  assumes "QuoteCall req (Inr usd) \<in> set evs" and "\<forall>e\<in>set evs. answered env e"
    and "checkout_env.get_quote env = (\<lambda>h. get_quote)"
  shows "usd = Some cost"
  using assms quote_cost by fastforce

end

subsection \<open>Properties\<close>

text \<open>
  Property C17: whatever the services answer, an order's effects are one of these sequences, with
  the reply that belongs to it. Nothing; or one charge, declined, and an \<open>Internal\<close> error; or one
  charge, accepted, then at most a failed shipment, and \<open>Unavailable\<close>; or one accepted charge,
  one accepted shipment, at most one attempt to empty the cart, at most one e-mail, and the order.
  The charge is always the total of the prepared items and shipping cost on the card of the
  request, and a handler that panics has had no effect.
\<close>

theorem PlaceOrder_effects:
  "\<exists>reply new. run_state (PlaceOrder env req) h = (reply, h @ new) \<and>
     (effects new = [] \<and> (\<forall>order. reply \<noteq> Ret (Inr order)) \<or>
      (\<exists>prep amount. order_total (UserCurrency req) prep = Ret amount \<and>
         order_effects req prep amount reply (effects new)))"
proof -
  obtain reply new where "run_state (PlaceOrder env req) h = (reply, h @ new)" "placing req reply new"
    using emits_PlaceOrder by (rule emits_run)
  then show ?thesis by (fastforce elim: placing.cases simp: prepared_effects)
qed

inductive_cases order_effects_Unavailable:
  "order_effects req prep amount (Ret (Inl (StatusErrorf Unavailable t args))) es"

inductive_cases order_effects_placed: "order_effects req prep amount (Ret (Inr order)) es"

lemma order_effects_Charge:
  "order_effects req prep amount reply es \<Longrightarrow> Charge a c r \<in> set es \<Longrightarrow> a = amount \<and> c = CreditCard req"
  by (auto elim!: order_effects.cases simp: tail_of_def)

text \<open>
  A reply \<open>Unavailable\<close> means that the card has been charged and nothing was
  shipped: the charge was accepted, it is not taken back, the cart keeps its items and no
  e-mail goes out.
\<close>

theorem PlaceOrder_unavailable:
  assumes "run_state (PlaceOrder env req) h = (Ret (Inl (StatusErrorf Unavailable t args)), h')"
  shows "\<exists>new amount tx. h' = h @ new \<and>
    (effects new = [Charge amount (CreditCard req) (Inr tx)] \<or>
     (\<exists>r e. effects new = [Charge amount (CreditCard req) (Inr tx), ShipCall r (Inl e)]))"
  using assms
proof (rule PlaceOrder_placing)
  fix new
  assume "h' = h @ new" "placing req (Ret (Inl (StatusErrorf Unavailable t args))) new"
  then show ?thesis
    by (elim placing.cases) (auto simp: prepared_effects elim!: order_effects_Unavailable)
qed

lemma sum_list_zip_items:
  "sum_list (map line_val out) =
     sum_list (map (\<lambda>(it, m). int (max 1 (unat (Quantity it))) * money_val m) (zip (map Item out) (map Cost out)))"
  by (induction out) (simp_all add: line_val_def)


text \<open>
  With the shop's own catalog and shipping service behind it, what a placed order
  asks the currency service to convert is, in order, the price of a catalog product for each
  ordered item, of exactly the product id the item names, and last the quote of 8.99 US dollars.
\<close>

theorem PlaceOrder_catalog_prices:
  assumes "run_state (PlaceOrder env req) h = (Ret (Inr order), h @ new)"
    and "get_product env = (\<lambda>h. catalog_lookup cenv (st h))" and "\<And>h. cached (st h)"
    and "checkout_env.get_quote env = (\<lambda>h. GetQuote)"
  shows "\<exists>ps :: product list. map Id ps = map (ProductId \<circ> Item) (Items order) \<and>
    asked new = map PriceUsd ps @ [Some \<lparr>CurrencyCode = ''USD'', Units = 8, Nanos = 990000000\<rparr>]"
proof -
  have answered: "\<forall>e\<in>set new. answered env e"
    using sound_PlaceOrder [of env req] assms(1) by (auto simp: all_events_def emits_def) (metis prod.inject same_append_eq)
  have "placing req (Ret (Inr order)) new"
    using assms(1) by (auto elim: PlaceOrder_placing)
  then show ?thesis
  proof cases
    case (tried prep pre amount post)
    obtain ps usd where p: "asked pre = map PriceUsd ps @ [usd]" "looked_up pre (cartItems prep) ps"
      "QuoteCall \<lparr>ReqAddress = Address req, ReqItems = cartItems prep\<rparr> (Inr usd) \<in> set pre"
      using tried(2) unfolding prepared_def by blast
    have pre: "\<forall>e\<in>set pre. answered env e" using answered tried(1) by simp
    have "map Id ps = map ProductId (cartItems prep)"
      using catalog.looked_up_ids [OF p(2) pre assms(2,3)] .
    moreover have "usd = Some \<lparr>CurrencyCode = ''USD'', Units = 8, Nanos = 990000000\<rparr>"
      using shipping_quote.quoted_cost [OF p(3) pre assms(4)] .
    moreover have "Items order = orderItems prep" "map Item (orderItems prep) = cartItems prep"
      using tried by (auto elim: order_effects_placed simp: prepared_def)
    ultimately show ?thesis
      using p(1) tried(1,5) by (intro exI [of _ ps]) (simp flip: map_map)
  qed simp
qed

text \<open>A shop for examples: two products, all services up, amounts converted one to one.\<close>

definition demo_catalog :: catalog_state where
  "demo_catalog = \<lparr>cat = [
      (demo_product ''lamp'' ''Lamp'')\<lparr>PriceUsd := Some \<lparr>CurrencyCode = ''USD'', Units = 18, Nanos = 990000000\<rparr>\<rparr>,
      (demo_product ''gum'' ''Gum'')\<lparr>PriceUsd := Some \<lparr>CurrencyCode = ''USD'', Units = 0, Nanos = 300000000\<rparr>\<rparr>],
    reloadCatalog = False, reads = 1\<rparr>"

definition demo_env :: "(go_error + string) \<Rightarrow> cart_item list \<Rightarrow> checkout_env" where
  "demo_env shipped items =
     \<lparr>new_uuid = \<lambda>h. Inr ''order-1'', dial_svc = \<lambda>h svc. None, get_cart = \<lambda>h u. Inr items,
      empty_cart = \<lambda>h u. None,
      get_product = \<lambda>h. catalog_lookup \<lparr>read_file = \<lambda>n. Inr '''', unmarshal = \<lambda>j c. (c, None)\<rparr> demo_catalog,
      convert = \<lambda>h m c. Inr (case m of None \<Rightarrow> \<lparr>CurrencyCode = c, Units = 0, Nanos = 0\<rparr>
                              | Some m \<Rightarrow> m\<lparr>CurrencyCode := c\<rparr>),
      get_quote = \<lambda>h. GetQuote, ship = \<lambda>h r. shipped, charge = \<lambda>h m c. Inr ''tx-1'',
      send_confirmation = \<lambda>h m ord. None\<rparr>"

definition demo_request :: place_order_request where
  "demo_request = \<lparr>UserId = ''u'', UserCurrency = ''USD'', Address = None, Email = ''u@x'', CreditCard = None\<rparr>"

lemma demo_cached: "cached demo_catalog"
  by (simp add: cached_def demo_catalog_def)

lemma demo_lookup:
  "catalog_lookup env demo_catalog ''lamp'' = Inr ((demo_product ''lamp'' ''Lamp'')
     \<lparr>PriceUsd := Some \<lparr>CurrencyCode = ''USD'', Units = 18, Nanos = 990000000\<rparr>\<rparr>)"
  "catalog_lookup env demo_catalog ''gum'' = Inr ((demo_product ''gum'' ''Gum'')
     \<lparr>PriceUsd := Some \<lparr>CurrencyCode = ''USD'', Units = 0, Nanos = 300000000\<rparr>\<rparr>)"
  by (simp_all add: catalog_lookup_def GetProduct_cached [OF demo_cached])
    (simp_all add: demo_catalog_def demo_product_def)

lemmas demo_eval =
  PlaceOrder_def prepareOrderItemsAndShippingQuoteFromCart_def getUserCart_def prepOrderItems_def
  quoteShipping_def convertCurrency_def complete_order_def chargeCard_def shipOrder_def
  emptyUserCart_def sendOrderConfirmation_def dial_def demo_env_def demo_request_def
  shipping_quote.quote_cost run_state_bind Let_def

lemma demo_lamps_total:
  "order_total ''USD'' \<lparr>orderItems = [\<lparr>Item = \<lparr>ProductId = ''lamp'', Quantity = 2\<rparr>,
       Cost = \<lparr>CurrencyCode = ''USD'', Units = 18, Nanos = 990000000\<rparr>\<rparr>],
     cartItems = [\<lparr>ProductId = ''lamp'', Quantity = 2\<rparr>],
     shippingCostLocalized = \<lparr>CurrencyCode = ''USD'', Units = 8, Nanos = 990000000\<rparr>\<rparr> =
   Ret \<lparr>CurrencyCode = ''USD'', Units = 46, Nanos = 970000000\<rparr>"
  by code_simp

abbreviation lamps :: "cart_item list" where
  "lamps \<equiv> [\<lparr>ProductId = ''lamp'', Quantity = 2\<rparr>]"

lemma demo_items:
  "order_total ''USD'' \<lparr>orderItems = [\<lparr>Item = \<lparr>ProductId = ''gum'', Quantity = 3\<rparr>,
       Cost = \<lparr>CurrencyCode = ''USD'', Units = 0, Nanos = 300000000\<rparr>\<rparr>],
     cartItems = [\<lparr>ProductId = ''gum'', Quantity = 3\<rparr>],
     shippingCostLocalized = \<lparr>CurrencyCode = ''USD'', Units = 8, Nanos = 990000000\<rparr>\<rparr> =
   Panic ErrInvalidValue"
  by code_simp

lemma demo_unavailable:
  "fst (run_state (PlaceOrder (demo_env (Inl (NewError ''down'')) lamps) demo_request) []) =
     Ret (Inl (StatusErrorf Unavailable (Lit ''shipping error: %+v'')
       [ArgE (Errorf ''shipment failed: %+v'' [ArgE (NewError ''down'')])]))"
  by (simp add: demo_eval demo_lookup demo_lamps_total)

theorem PlaceOrder_unavailable_witness:
  "\<exists>amount tx. Charge amount None (Inr tx) \<in>
     set (snd (run_state (PlaceOrder (demo_env (Inl (NewError ''down'')) lamps) demo_request) []))"
proof -
  let ?run = "run_state (PlaceOrder (demo_env (Inl (NewError ''down'')) lamps) demo_request) []"
  have "?run = (Ret (Inl (StatusErrorf Unavailable (Lit ''shipping error: %+v'')
       [ArgE (Errorf ''shipment failed: %+v'' [ArgE (NewError ''down'')])])), snd ?run)"
    by (metis demo_unavailable prod.collapse)
  from PlaceOrder_unavailable [OF this] obtain new amount tx where
    "snd ?run = [] @ new" and "Charge amount (CreditCard demo_request) (Inr tx) \<in> set (effects new)"
    by auto
  then show ?thesis by (auto simp: effects_def demo_request_def)
qed

definition demo_order :: order_result where
  "demo_order =
     \<lparr>OrderId = ''order-1'', ShippingTrackingId = ''AB-1'',
      ShippingCost = \<lparr>CurrencyCode = ''USD'', Units = 8, Nanos = 990000000\<rparr>, ShippingAddress = None,
      Items = [\<lparr>Item = \<lparr>ProductId = ''lamp'', Quantity = 2\<rparr>,
        Cost = \<lparr>CurrencyCode = ''USD'', Units = 18, Nanos = 990000000\<rparr>\<rparr>]\<rparr>"

lemma demo_placed:
  "fst (run_state (PlaceOrder (demo_env (Inr ''AB-1'') lamps) demo_request) []) = Ret (Inr demo_order)"
  by (simp add: demo_eval demo_lookup demo_lamps_total demo_order_def)

lemma demo_placed_log:
  "let new = snd (run_state (PlaceOrder (demo_env (Inr ''AB-1'') lamps) demo_request) [])
   in Charge \<lparr>CurrencyCode = ''USD'', Units = 46, Nanos = 970000000\<rparr> None (Inr ''tx-1'') \<in> set new \<and>
      conversions new = [\<lparr>CurrencyCode = ''USD'', Units = 18, Nanos = 990000000\<rparr>,
                         \<lparr>CurrencyCode = ''USD'', Units = 8, Nanos = 990000000\<rparr>]"
  by (simp add: demo_eval demo_lookup demo_lamps_total)


theorem PlaceOrder_catalog_prices_witness:
  "\<exists>ps :: product list. map Id ps = [''lamp'']"
proof -
  let ?run = "run_state (PlaceOrder (demo_env (Inr ''AB-1'') lamps) demo_request) []"
  have run: "?run = (Ret (Inr demo_order), [] @ snd ?run)"
    by (rule prod_eqI) (simp_all add: demo_placed)
  have "get_product (demo_env (Inr ''AB-1'') lamps) =
      (\<lambda>h. catalog_lookup \<lparr>read_file = \<lambda>n. Inr '''', unmarshal = \<lambda>j c. (c, None)\<rparr> demo_catalog)"
    and "checkout_env.get_quote (demo_env (Inr ''AB-1'') lamps) = (\<lambda>h. GetQuote)"
    by (simp_all add: demo_env_def)
  from PlaceOrder_catalog_prices [OF run this(1) demo_cached this(2)]
  obtain ps :: "product list" where "map Id ps = map (ProductId \<circ> Item) (Items demo_order)" by blast
  then show ?thesis by (intro exI [of _ ps]) (simp add: demo_order_def)
qed

text \<open>
  A cart of three items priced at 0.3 dollars makes the handler panic with
  \<open>ErrInvalidValue\<close>, after the prices were fetched and before anything is charged.
\<close>

theorem PlaceOrder_small_price_panics:
  "let (reply, new) = run_state (PlaceOrder (demo_env (Inr ''AB-1'') [\<lparr>ProductId = ''gum'', Quantity = 3\<rparr>])
        demo_request) []
   in reply = Panic ErrInvalidValue \<and> effects new = []"
  by (simp add: demo_eval demo_lookup demo_items)

end
