(* ===== verification/HotelStore.thy ===== *)
theory HotelStore
  imports EventLog GoStrings GoFloat
begin

text \<open>
  The two stores behind the services of the hotel application: a memcached client and a
  MongoDB session. Both are third-party code and so an argument of the model: every call is
  an event of the log, answered by a function of the log so far and of the request. What a
  theorem needs of their documented behaviour is one of the predicates at the end.
\<close>

subsection \<open>Calls\<close>

text \<open>BSON documents: fields in order, with text, integer, floating-point and nested values.\<close>

datatype bson = BStr string | BInt int | BNum rat | BDoc "(string \<times> bson) list"

type_synonym document = "(string \<times> bson) list"

datatype memc_reply = Hit string | CacheMiss | MemcError go_error

datatype store_event =
    MemcGet string memc_reply
  | MemcSet string string "go_error option"
  | Find string document "go_error + document list"
  | FindOne string document "go_error + document"
  | FindCount string document "go_error + nat"
  | Insert string document "go_error option"
  | DropCollection string "go_error option"
  | EnsureIndexKey string string "go_error option"
  | MongoDial string "go_error option"

record store_env =
  memc_get :: "store_event list \<Rightarrow> string \<Rightarrow> memc_reply"
  memc_set :: "store_event list \<Rightarrow> string \<Rightarrow> string \<Rightarrow> go_error option"
  mongo_find :: "store_event list \<Rightarrow> string \<Rightarrow> document \<Rightarrow> go_error + document list"
  mongo_find_one :: "store_event list \<Rightarrow> string \<Rightarrow> document \<Rightarrow> go_error + document"
  mongo_count :: "store_event list \<Rightarrow> string \<Rightarrow> document \<Rightarrow> go_error + nat"
  mongo_insert :: "store_event list \<Rightarrow> string \<Rightarrow> document \<Rightarrow> go_error option"
  mongo_drop :: "store_event list \<Rightarrow> string \<Rightarrow> go_error option"
  mongo_index :: "store_event list \<Rightarrow> string \<Rightarrow> string \<Rightarrow> go_error option"
  mongo_dial :: "store_event list \<Rightarrow> string \<Rightarrow> go_error option"

type_synonym 'a hotel = "(store_event, 'a) logged"

definition memcGet :: "store_env \<Rightarrow> string \<Rightarrow> memc_reply hotel" where
  "memcGet env k = perform (\<lambda>h. memc_get env h k) (MemcGet k)"

definition memcSet :: "store_env \<Rightarrow> string \<Rightarrow> string \<Rightarrow> go_error option hotel" where
  "memcSet env k v = perform (\<lambda>h. memc_set env h k v) (MemcSet k v)"

definition findAll :: "store_env \<Rightarrow> string \<Rightarrow> document \<Rightarrow> (go_error + document list) hotel" where
  "findAll env c q = perform (\<lambda>h. mongo_find env h c q) (Find c q)"

definition findOne :: "store_env \<Rightarrow> string \<Rightarrow> document \<Rightarrow> (go_error + document) hotel" where
  "findOne env c q = perform (\<lambda>h. mongo_find_one env h c q) (FindOne c q)"

definition findCount :: "store_env \<Rightarrow> string \<Rightarrow> document \<Rightarrow> (go_error + nat) hotel" where
  "findCount env c q = perform (\<lambda>h. mongo_count env h c q) (FindCount c q)"

definition insertDoc :: "store_env \<Rightarrow> string \<Rightarrow> document \<Rightarrow> go_error option hotel" where
  "insertDoc env c d = perform (\<lambda>h. mongo_insert env h c d) (Insert c d)"

definition dropCollection :: "store_env \<Rightarrow> string \<Rightarrow> go_error option hotel" where
  "dropCollection env c = perform (\<lambda>h. mongo_drop env h c) (DropCollection c)"

definition ensureIndexKey :: "store_env \<Rightarrow> string \<Rightarrow> string \<Rightarrow> go_error option hotel" where
  "ensureIndexKey env c k = perform (\<lambda>h. mongo_index env h c k) (EnsureIndexKey c k)"

definition mongoDial :: "store_env \<Rightarrow> string \<Rightarrow> go_error option hotel" where
  "mongoDial env url = perform (\<lambda>h. mongo_dial env h url) (MongoDial url)"

lemmas store_calls =
  memcGet_def memcSet_def findAll_def findOne_def findCount_def insertDoc_def dropCollection_def
  ensureIndexKey_def mongoDial_def

text \<open>Decoding a document into a struct: a field that is missing or of another type keeps the
  zero value.\<close>

definition int_field :: "string \<Rightarrow> document \<Rightarrow> int" where
  "int_field f d = (case map_of d f of Some (BInt n) \<Rightarrow> n | _ \<Rightarrow> 0)"

definition str_field :: "string \<Rightarrow> document \<Rightarrow> string" where
  "str_field f d = (case map_of d f of Some (BStr s) \<Rightarrow> s | _ \<Rightarrow> '''')"

definition num_field :: "string \<Rightarrow> document \<Rightarrow> rat" where
  "num_field f d = (case map_of d f of Some (BNum x) \<Rightarrow> x | Some (BInt n) \<Rightarrow> of_int n | _ \<Rightarrow> 0)"

definition doc_field :: "string \<Rightarrow> document \<Rightarrow> document" where
  "doc_field f d = (case map_of d f of Some (BDoc e) \<Rightarrow> e | _ \<Rightarrow> [])"

text \<open>A JSON codec: decoding fills in what it can, so that an error still leaves a value.\<close>

record 'a codec =
  encode :: "'a \<Rightarrow> string"
  decode :: "string \<Rightarrow> 'a \<times> go_error option"

subsection \<open>Documented behaviour\<close>

text \<open>A document matches a query when it has every field of the query, with the same value.\<close>

definition doc_matches :: "document \<Rightarrow> document \<Rightarrow> bool" where
  "doc_matches q d \<longleftrightarrow> (\<forall>(f, v)\<in>set q. map_of d f = Some v)"

text \<open>The documents of a collection after a log: those there at the start, unless the collection
  was dropped, and those inserted since.\<close>

fun after_event :: "string \<Rightarrow> document list \<Rightarrow> store_event \<Rightarrow> document list" where
  "after_event c ds (Insert c' d None) = (if c' = c then ds @ [d] else ds)"
| "after_event c ds (DropCollection c' None) = (if c' = c then [] else ds)"
| "after_event c ds _ = ds"

definition stored :: "(string \<Rightarrow> document list) \<Rightarrow> store_event list \<Rightarrow> string \<Rightarrow> document list" where
  "stored init h c = foldl (after_event c) (init c) h"

definition mongo_finds :: "(string \<Rightarrow> document list) \<Rightarrow> store_env \<Rightarrow> bool" where
  "mongo_finds init env \<longleftrightarrow> (\<forall>h c q. mongo_find env h c q = Inr (filter (doc_matches q) (stored init h c)))"

definition mongo_counts :: "(string \<Rightarrow> document list) \<Rightarrow> store_env \<Rightarrow> bool" where
  "mongo_counts init env \<longleftrightarrow> (\<forall>h c q. mongo_count env h c q = Inr (length (filter (doc_matches q) (stored init h c))))"

text \<open>The value last written under a key. Memcached answers with it or, where it evicted the
  key, with a miss; \<open>memc_keeps\<close> says that it evicts nothing and no write fails.\<close>

fun cache_update :: "string \<Rightarrow> string option \<Rightarrow> store_event \<Rightarrow> string option" where
  "cache_update k v (MemcSet k' v' None) = (if k' = k then Some v' else v)"
| "cache_update k v _ = v"

definition cached_value :: "store_event list \<Rightarrow> string \<Rightarrow> string option" where
  "cached_value h k = foldl (cache_update k) None h"

definition memc_keeps :: "store_env \<Rightarrow> bool" where
  "memc_keeps env \<longleftrightarrow>
     (\<forall>h k. memc_get env h k = (case cached_value h k of Some v \<Rightarrow> Hit v | None \<Rightarrow> CacheMiss)) \<and>
     (\<forall>h k v. memc_set env h k v = None)"

lemma cached_value_Nil [simp]: "cached_value [] k = None"
  by (simp add: cached_value_def)

lemma cached_value_snoc: "cached_value (h @ [e]) k = cache_update k (cached_value h k) e"
  by (simp add: cached_value_def)

lemma cached_value_append: "cached_value (h @ h') k = foldl (cache_update k) (cached_value h k) h'"
  by (simp add: cached_value_def)

lemma stored_snoc: "stored init (h @ [e]) c = after_event c (stored init h c) e"
  by (simp add: stored_def)

text \<open>Stores that behave as documented, for examples: one that keeps everything, and one whose
  cache forgets every entry at once.\<close>

definition memory_store :: "(string \<Rightarrow> document list) \<Rightarrow> store_env" where
  "memory_store init =
     \<lparr>memc_get = \<lambda>h k. (case cached_value h k of Some v \<Rightarrow> Hit v | None \<Rightarrow> CacheMiss),
      memc_set = \<lambda>h k v. None,
      mongo_find = \<lambda>h c q. Inr (filter (doc_matches q) (stored init h c)),
      mongo_find_one = \<lambda>h c q. (case filter (doc_matches q) (stored init h c) of
         [] \<Rightarrow> Inl (NewError ''not found'') | d # _ \<Rightarrow> Inr d),
      mongo_count = \<lambda>h c q. Inr (length (filter (doc_matches q) (stored init h c))),
      mongo_insert = \<lambda>h c d. None, mongo_drop = \<lambda>h c. None, mongo_index = \<lambda>h c k. None,
      mongo_dial = \<lambda>h url. None\<rparr>"

definition forgetful_store :: "(string \<Rightarrow> document list) \<Rightarrow> store_env" where
  "forgetful_store init = (memory_store init)\<lparr>memc_get := \<lambda>h k. CacheMiss\<rparr>"

text \<open>Every entry the cache answers with was written; it may evict, but does not fail.\<close>

definition memc_sound :: "store_env \<Rightarrow> bool" where
  "memc_sound env \<longleftrightarrow>
     (\<forall>h k. memc_get env h k = CacheMiss \<or> (\<exists>v. memc_get env h k = Hit v \<and> cached_value h k = Some v))"

lemma memc_sound_memory: "memc_sound (memory_store init)" "memc_sound (forgetful_store init)"
  by (auto simp: memc_sound_def memory_store_def forgetful_store_def split: option.splits)

subsection \<open>Services with a cache\<close>

text \<open>The contract of a service whose answers do not show its cache: in a state in which it is
  \<open>ready\<close> it answers a request as its specification says, and stays ready.\<close>

primrec serve_all :: "('q \<Rightarrow> 'r outcome hotel) \<Rightarrow> 'q list \<Rightarrow> 'r list outcome hotel" where
  "serve_all serve [] = oreturn []"
| "serve_all serve (q # qs) = obind (serve q) (\<lambda>r. obind (serve_all serve qs) (\<lambda>rs. oreturn (r # rs)))"

locale transparent_service =
  fixes serve :: "'q \<Rightarrow> 'r outcome hotel"
    and answer :: "'q \<Rightarrow> 'r"
    and ready :: "store_event list \<Rightarrow> bool"
  assumes serve_run: "ready h \<Longrightarrow> \<exists>new. run_state (serve q) h = (Ret (answer q), h @ new) \<and> ready (h @ new)"
begin

text \<open>So any number of requests, in any order, get the answers of the specification.\<close>

lemma all_answered:
  "ready h \<Longrightarrow> \<exists>new. run_state (serve_all serve qs) h = (Ret (map answer qs), h @ new) \<and> ready (h @ new)"
proof (induction qs arbitrary: h)
  case Nil
  then show ?case by (auto intro: exI [of _ "[]"])
next
  case (Cons q qs)
  obtain new where 1: "run_state (serve q) h = (Ret (answer q), h @ new)" "ready (h @ new)"
    using serve_run [OF Cons.prems] by blast
  obtain new' where "run_state (serve_all serve qs) (h @ new) = (Ret (map answer qs), (h @ new) @ new')"
    "ready ((h @ new) @ new')"
    using Cons.IH [OF 1(2)] by blast
  with 1(1) show ?case by (intro exI [of _ "new @ new'"]) simp
qed

end

subsection \<open>Seeding a collection\<close>

text \<open>The pattern of every \<open>initializeDatabase\<close>: count the documents with the key, and insert one
  if there is none; any error ends the process.\<close>

definition seed_doc :: "store_env \<Rightarrow> string \<Rightarrow> string \<Rightarrow> string \<Rightarrow> document \<Rightarrow> unit outcome hotel" where
  "seed_doc env c key k d =
     obind (or_fatal ''find'' (findCount env c [(key, BStr k)])) (\<lambda>count.
       if count = 0 then or_fatal_err ''insert'' (insertDoc env c d) else oreturn ())"

primrec seed_docs :: "store_env \<Rightarrow> string \<Rightarrow> string \<Rightarrow> (string \<times> document) list \<Rightarrow> unit outcome hotel" where
  "seed_docs env c key [] = oreturn ()"
| "seed_docs env c key (kd # kds) =
     obind (seed_doc env c key (fst kd) (snd kd)) (\<lambda>_. seed_docs env c key kds)"

text \<open>The stores the seeding is proved for: counting as documented, and no failing insert.\<close>

definition seedable :: "(string \<Rightarrow> document list) \<Rightarrow> store_env \<Rightarrow> bool" where
  "seedable init env \<longleftrightarrow> mongo_counts init env \<and> (\<forall>h c d. mongo_insert env h c d = None) \<and>
     (\<forall>h url. mongo_dial env h url = None) \<and> (\<forall>h c. mongo_drop env h c = None) \<and>
     (\<forall>h c k. mongo_index env h c k = None)"

lemma stored_append: "stored init (h @ h') c = foldl (after_event c) (stored init h c) h'"
  by (simp add: stored_def)

lemma seed_doc_run:
  assumes "seedable init env"
  shows "\<exists>new. run_state (seed_doc env c key k d) h = (Ret (), h @ new) \<and>
    stored init (h @ new) c = (if filter (doc_matches [(key, BStr k)]) (stored init h c) = []
                               then stored init h c @ [d] else stored init h c)"
proof -
  have "mongo_count env h c [(key, BStr k)] = Inr (length (filter (doc_matches [(key, BStr k)]) (stored init h c)))"
    and "\<And>h c d. mongo_insert env h c d = None"
    using assms by (simp_all add: seedable_def mongo_counts_def)
  then show ?thesis
    by (auto simp: seed_doc_def store_calls stored_append)
qed

text \<open>Seeding an empty collection with documents of distinct keys stores all of them.\<close>

lemma seed_docs_run:
  assumes "seedable init env" and "distinct (map fst kds)"
    and "\<forall>(k, d)\<in>set kds. map_of d key = Some (BStr k)"
    and "\<forall>d\<in>set (stored init h c). \<forall>k\<in>fst ` set kds. map_of d key \<noteq> Some (BStr k)"
  shows "\<exists>new. run_state (seed_docs env c key kds) h = (Ret (), h @ new) \<and>
    stored init (h @ new) c = stored init h c @ map snd kds"
  using assms(2-4)
proof (induction kds arbitrary: h)
  case (Cons kd kds)
  obtain k d where kd: "kd = (k, d)" by (cases kd)
  have "filter (doc_matches [(key, BStr k)]) (stored init h c) = []"
    using Cons.prems(3) by (auto simp: kd filter_empty_conv doc_matches_def)
  then obtain new where 1: "run_state (seed_doc env c key k d) h = (Ret (), h @ new)"
    "stored init (h @ new) c = stored init h c @ [d]"
    using seed_doc_run [OF assms(1), of c key k d h] by auto
  have "\<exists>new'. run_state (seed_docs env c key kds) (h @ new) = (Ret (), (h @ new) @ new') \<and>
      stored init ((h @ new) @ new') c = stored init (h @ new) c @ map snd kds"
    by (rule Cons.IH) (use Cons.prems in \<open>auto simp: kd 1\<close>)
  then show ?case by (auto simp: kd 1)
qed (simp add: exI [of _ "[]"])

text \<open>The whole initialisation of a collection that is dropped first.\<close>

definition initialize_collection ::
  "store_env \<Rightarrow> string \<Rightarrow> string \<Rightarrow> string \<Rightarrow> (string \<times> document) list \<Rightarrow> unit outcome hotel"
where
  "initialize_collection env url c key kds =
     obind (or_panic_err (mongoDial env url)) (\<lambda>_.
     obind (ignore_result (dropCollection env c)) (\<lambda>_.
     obind (seed_docs env c key kds) (\<lambda>_.
     or_fatal_err ''index'' (ensureIndexKey env c key))))"

lemma initialize_collection_run:
  assumes "seedable init env" and "distinct (map fst kds)"
    and "\<forall>(k, d)\<in>set kds. map_of d key = Some (BStr k)"
  shows "\<exists>new. run_state (initialize_collection env url c key kds) h = (Ret (), h @ new) \<and>
    stored init (h @ new) c = map snd kds"
proof -
  have ok: "mongo_dial env h url = None" "mongo_drop env h c = None" "mongo_index env h c k = None" for h k
    using assms(1) by (simp_all add: seedable_def)
  let ?h = "h @ [MongoDial url None, DropCollection c None]"
  have "stored init ?h c = []" by (simp add: stored_append)
  with seed_docs_run [OF assms, of ?h c] obtain new where
    "run_state (seed_docs env c key kds) ?h = (Ret (), ?h @ new)" "stored init (?h @ new) c = map snd kds"
    by auto
  then show ?thesis
    by (simp add: initialize_collection_def store_calls ok stored_append)
qed

lemma seedable_memory: "seedable init (memory_store init)"
  by (simp add: seedable_def mongo_counts_def memory_store_def)

lemma mongo_finds_memory: "mongo_finds init (memory_store init)"
  by (simp add: mongo_finds_def memory_store_def)

subsection \<open>The hotels\<close>

lemma foldl_snoc_map: "foldl (\<lambda>ys x. ys @ [f x]) acc xs = acc @ map f xs"
  by (induction xs arbitrary: acc) simp_all

lemma foldl_snoc_id: "foldl (\<lambda>ys x. ys @ [x]) acc xs = acc @ xs"
  by (induction xs arbitrary: acc) simp_all

text \<open>The hotels of every collection are numbered from 1.\<close>

definition hotel_numbers :: "nat list" where "hotel_numbers = [1..<81]"

definition hotel_ids :: "string list" where "hotel_ids = map (\<lambda>i. itoa (int i)) hotel_numbers"

lemma hotel_numbers_split: "hotel_numbers = [1, 2, 3, 4, 5, 6] @ [7..<81]"
proof -
  have "hotel_numbers = [1..<7] @ [7..<81]"
    unfolding hotel_numbers_def using upt_add_eq_append [of 1 7 74] by (simp del: upt_rec_numeral)
  moreover have "[1..<7] = [1, 2, 3, 4, 5, 6 :: nat]" by (simp add: upt_rec)
  ultimately show ?thesis by simp
qed

lemma distinct_hotel_ids: "distinct hotel_ids"
  unfolding hotel_ids_def hotel_numbers_def distinct_map by (simp only: distinct_upt) (simp add: inj_on_def)

lemma small_ids:
  "itoa 1 = ''1''" "itoa 2 = ''2''" "itoa 3 = ''3''" "itoa 4 = ''4''" "itoa 5 = ''5''" "itoa 6 = ''6''"
  by code_simp+

lemma hotel_ids_split:
  "hotel_ids = [''1'', ''2'', ''3'', ''4'', ''5'', ''6''] @ map (\<lambda>i. itoa (int i)) [7..<81]"
  unfolding hotel_ids_def hotel_numbers_split map_append by (simp add: small_ids del: upt_rec_numeral)


end
