(* ===== verification/GoTime.thy ===== *)
theory GoTime
  imports GoStrings
begin

text \<open>
  The dates of the hotel application: \<open>time.Parse(time.RFC3339, d + "T12:00:00+00:00")\<close>, the
  comparison \<open>Before\<close>, \<open>AddDate(0, 0, 1)\<close> and the first ten characters of \<open>String()\<close>. All
  times are in UTC and at noon, except the zero time that a failed parse returns, the first
  of January of year 1 at midnight.
\<close>

record gotime =
  Year :: nat
  Month :: nat
  Day :: nat
  Noon :: bool

definition zero_time :: gotime where
  "zero_time = \<lparr>Year = 1, Month = 1, Day = 1, Noon = False\<rparr>"

definition leap_year :: "nat \<Rightarrow> bool" where
  "leap_year y \<longleftrightarrow> y mod 4 = 0 \<and> (y mod 100 \<noteq> 0 \<or> y mod 400 = 0)"

definition days_in :: "nat \<Rightarrow> nat \<Rightarrow> nat" where
  "days_in y m =
     (if m = 2 then (if leap_year y then 29 else 28) else if m \<in> {4, 6, 9, 11} then 30 else 31)"

definition valid_date :: "gotime \<Rightarrow> bool" where
  "valid_date t \<longleftrightarrow> 1 \<le> Month t \<and> Month t \<le> 12 \<and> 1 \<le> Day t \<and> Day t \<le> days_in (Year t) (Month t)"

text \<open>\<open>AddDate(0, 0, 1)\<close> on a valid date.\<close>

definition next_day :: "gotime \<Rightarrow> gotime" where
  "next_day t =
     (if Day t < days_in (Year t) (Month t) then t\<lparr>Day := Day t + 1\<rparr>
      else if Month t < 12 then t\<lparr>Month := Month t + 1, Day := 1\<rparr>
      else t\<lparr>Year := Year t + 1, Month := 1, Day := 1\<rparr>)"

definition before :: "gotime \<Rightarrow> gotime \<Rightarrow> bool" where
  "before t u \<longleftrightarrow>
     Year t < Year u \<or> Year t = Year u \<and> (Month t < Month u \<or> Month t = Month u \<and>
       (Day t < Day u \<or> Day t = Day u \<and> \<not> Noon t \<and> Noon u))"

subsection \<open>Text\<close>

definition pad2 :: "nat \<Rightarrow> string" where
  "pad2 n = [digit_char (n div 10 mod 10), digit_char (n mod 10)]"

definition pad4 :: "nat \<Rightarrow> string" where
  "pad4 n = [digit_char (n div 1000 mod 10), digit_char (n div 100 mod 10), digit_char (n div 10 mod 10), digit_char (n mod 10)]"

text \<open>The first ten characters of \<open>t.String()\<close>. A year above 9999 takes more than four digits.\<close>

definition date_string :: "gotime \<Rightarrow> string" where
  "date_string t =
     take 10 ((if Year t \<le> 9999 then pad4 (Year t) else nat_digits (Year t)) @ ''-'' @ pad2 (Month t) @ ''-'' @ pad2 (Day t))"

text \<open>\<open>time.Parse\<close> of \<open>d\<close> with the constant rest succeeds exactly if \<open>d\<close> has the form
  \<open>YYYY-MM-DD\<close> and names a day of the calendar.\<close>

definition parse_date :: "string \<Rightarrow> gotime option" where
  "parse_date d =
     (case d of [y1, y2, y3, y4, s1, m1, m2, s2, d1, d2] \<Rightarrow>
        let t = \<lparr>Year = digits_val 0 [y1, y2, y3, y4], Month = digits_val 0 [m1, m2], Day = digits_val 0 [d1, d2], Noon = True\<rparr>
        in if list_all is_digit [y1, y2, y3, y4, m1, m2, d1, d2] \<and> s1 = CHR ''-'' \<and> s2 = CHR ''-'' \<and> valid_date t
           then Some t else None
      | _ \<Rightarrow> None)"

text \<open>\<open>inDate, _ := time.Parse(...)\<close>: the error is dropped.\<close>

definition parse_or_zero :: "string \<Rightarrow> gotime" where
  "parse_or_zero d = (case parse_date d of Some t \<Rightarrow> t | None \<Rightarrow> zero_time)"

subsection \<open>Stepping from day to day\<close>

lemma days_in_bounds: "28 \<le> days_in y m" "days_in y m \<le> 31"
  by (simp_all add: days_in_def)

lemma valid_next_day [simp]: "valid_date t \<Longrightarrow> valid_date (next_day t)"
  using days_in_bounds [of "Year t" "Month t + 1"] days_in_bounds [of "Year t + 1" 1]
  by (auto simp: valid_date_def next_day_def)

lemma Noon_next_day [simp]: "Noon (next_day t) = Noon t"
  by (simp add: next_day_def)

lemma before_next_day: "before t (next_day t)"
  by (simp add: before_def next_day_def)

lemma before_trans: "before a b \<Longrightarrow> before b c \<Longrightarrow> before a c"
  by (auto simp: before_def)

lemma before_irrefl [simp]: "\<not> before a a"
  by (simp add: before_def)

text \<open>A measure for loops that step day by day up to a fixed end.\<close>

definition day_rank :: "gotime \<Rightarrow> nat" where
  "day_rank t = Year t * 10000 + min (Month t) 13 * 100 + min (Day t) 50"

definition days_left :: "gotime \<Rightarrow> gotime \<Rightarrow> nat" where
  "days_left t u = (Year u + 1) * 10000 - day_rank t"

lemma day_rank_next: "day_rank t < day_rank (next_day t)"
  using days_in_bounds [of "Year t" "Month t"]
  by (auto simp: day_rank_def next_day_def min_def)

lemma days_left_decreases: "before t u \<Longrightarrow> days_left (next_day t) u < days_left t u"
  using day_rank_next [of t]
  unfolding days_left_def
  by (intro diff_less_mono2) (auto simp: before_def day_rank_def)

text \<open>No day is skipped: what is not before the next day but before the end is the end itself.\<close>

lemma next_day_not_skipped:
  assumes "valid_date t" "valid_date u" "Noon t = Noon u" and "before t u"
  shows "before (next_day t) u \<or> next_day t = u"
proof (cases "Day t < days_in (Year t) (Month t)")
  case True
  then show ?thesis using assms(3,4) by (cases t; cases u) (auto simp: before_def next_day_def)
next
  case False
  then have d: "Day t = days_in (Year t) (Month t)" using assms(1) by (simp add: valid_date_def)
  then show ?thesis
    using assms by (cases t; cases u) (auto simp: before_def next_day_def valid_date_def)
qed

subsection \<open>Formatting and parsing\<close>

lemma digits_val_pad2: "n < 100 \<Longrightarrow> digits_val 0 (pad2 n) = n"
  by (simp add: digits_val_def pad2_def digit_val_digit_char)

lemma digits_val_pad4:
  assumes "n < 10000"
  shows "digits_val 0 (pad4 n) = n"
proof -
  have "n div 100 div 10 = n div 1000" "n div 10 div 10 = n div 100"
    by (simp_all flip: div_mult2_eq)
  then have "n div 1000 * 10 + n div 100 mod 10 = n div 100" "n div 100 * 10 + n div 10 mod 10 = n div 10"
    using div_mult_mod_eq [of "n div 100" 10] div_mult_mod_eq [of "n div 10" 10] by simp_all
  moreover have "n div 10 * 10 + n mod 10 = n" by (rule div_mult_mod_eq)
  moreover have "n div 1000 < 10" using assms by simp
  ultimately show ?thesis
    by (simp add: digits_val_def pad4_def digit_val_digit_char)
qed

text \<open>A day of the calendar that is printed and parsed again is the same day.\<close>

lemma parse_date_string:
  assumes "valid_date t" "Year t \<le> 9999" "Noon t"
  shows "parse_date (date_string t) = Some t"
proof -
  have "Month t < 100" "Day t < 100"
    using assms(1) days_in_bounds [of "Year t" "Month t"] by (auto simp: valid_date_def)
  then have "digits_val 0 (pad2 (Month t)) = Month t" "digits_val 0 (pad2 (Day t)) = Day t"
    "digits_val 0 (pad4 (Year t)) = Year t"
    using assms(2) by (simp_all add: digits_val_pad2 digits_val_pad4)
  moreover have "list_all is_digit (pad4 (Year t) @ pad2 (Month t) @ pad2 (Day t))"
    by (simp add: pad4_def pad2_def is_digit_digit_char del: list_all_append)
  moreover have "\<lparr>Year = Year t, Month = Month t, Day = Day t, Noon = True\<rparr> = t"
    using assms(3) by (cases t) simp
  moreover obtain y1 y2 y3 y4 m1 m2 d1 d2 where
    "pad4 (Year t) = [y1, y2, y3, y4]" "pad2 (Month t) = [m1, m2]" "pad2 (Day t) = [d1, d2]"
    by (simp add: pad4_def pad2_def)
  ultimately show ?thesis
    using assms(1,2) by (simp add: parse_date_def date_string_def Let_def)
qed

lemma date_string_Noon [simp]: "date_string (t\<lparr>Noon := b\<rparr>) = date_string t"
  by (simp add: date_string_def)

lemma date_string_inject:
  assumes "valid_date t" "Year t \<le> 9999" "valid_date u" "Year u \<le> 9999" "Noon t = Noon u"
    and "date_string t = date_string u"
  shows "t = u"
proof -
  have ds: "date_string (t\<lparr>Noon := True\<rparr>) = date_string (u\<lparr>Noon := True\<rparr>)"
    using assms(6) by simp
  have v: "valid_date (t\<lparr>Noon := True\<rparr>)" "valid_date (u\<lparr>Noon := True\<rparr>)"
    using assms(1,3) by (simp_all add: valid_date_def)
  have "Some (t\<lparr>Noon := True\<rparr>) = Some (u\<lparr>Noon := True\<rparr>)"
    using parse_date_string [OF v(1)] parse_date_string [OF v(2)] assms(2,4) ds by simp
  with assms(5) show ?thesis by (cases t; cases u) simp
qed

lemma length_date_string [simp]: "Year t \<le> 9999 \<Longrightarrow> length (date_string t) = 10"
  by (simp add: date_string_def pad4_def pad2_def)

lemma parse_date_valid:
  "parse_date d = Some t \<Longrightarrow> valid_date t \<and> Noon t \<and> Year t \<le> 9999"
proof -
  assume "parse_date d = Some t"
  then obtain y1 y2 y3 y4 where y: "Year t = digits_val 0 [y1, y2, y3, y4]" "list_all is_digit [y1, y2, y3, y4]"
    and v: "valid_date t" "Noon t"
    unfolding parse_date_def by (auto split: list.splits simp: Let_def if_split_eq1)
  have "digit_val c \<le> 9" if "is_digit c" for c using that unfolding is_digit_def digit_val_def by linarith
  then have "digit_val y1 \<le> 9" "digit_val y2 \<le> 9" "digit_val y3 \<le> 9" "digit_val y4 \<le> 9"
    using y(2) by simp_all
  then show "valid_date t \<and> Noon t \<and> Year t \<le> 9999"
    using y(1) v by (simp add: digits_val_def)
qed

end
