(* ===== verification/Reservation.thy ===== *)
theory Reservation
  imports HotelStore GoTime "HOL-Library.AList"
begin

text \<open>
  \<open>benchmarks/hotel-app/reservation\<close> (\<open>server.go\<close>, \<open>db.go\<close>): booking a hotel night by night and
  checking availability, with the number of booked rooms per night cached in memcached and the
  bookings stored in MongoDB. The documents are built with the field names of the struct tags
  and the queries with the names the code writes.
\<close>

subsection \<open>Data\<close>

record reservation =
  ResHotelId :: string
  ResCustomerName :: string
  ResInDate :: string
  ResOutDate :: string
  ResNumber :: int

record reservation_request =
  CustomerName :: string
  HotelId :: "string list"
  InDate :: string
  OutDate :: string
  RoomNumber :: int32

definition reservation_doc :: "reservation \<Rightarrow> document" where
  "reservation_doc r =
     [(''hotelid'', BStr (ResHotelId r)), (''customername'', BStr (ResCustomerName r)),
      (''indate'', BStr (ResInDate r)), (''outdate'', BStr (ResOutDate r)), (''number'', BInt (ResNumber r))]"

definition number_doc :: "string \<Rightarrow> int \<Rightarrow> document" where
  "number_doc hotelId n = [(''hotelid'', BStr hotelId), (''numberofroom'', BInt n)]"

text \<open>\<open>int\<close> addition on 64 bits.\<close>

definition add_int :: "int \<Rightarrow> int \<Rightarrow> int" where
  "add_int a b = sint (word_of_int (a + b) :: int64)"

definition memc_key :: "string \<Rightarrow> string \<Rightarrow> string" where
  "memc_key hotelId outdate = hotelId @ ''_'' @ outdate @ ''_'' @ outdate"

subsection \<open>One night\<close>

definition reservation_query :: "string \<Rightarrow> string \<Rightarrow> string \<Rightarrow> document" where
  "reservation_query hotelId indate outdate =
     [(''hotelid'', BStr hotelId), (''inDate'', BStr indate), (''outDate'', BStr outdate)]"

definition count_reserved :: "document list \<Rightarrow> int" where
  "count_reserved reserve = foldl (\<lambda>count d. add_int count (int_field ''number'' d)) 0 reserve"

definition reserved_in_db :: "store_env \<Rightarrow> string \<Rightarrow> string \<Rightarrow> string \<Rightarrow> int outcome hotel" where
  "reserved_in_db env hotelId indate outdate =
     obind (or_panic (findAll env ''reservation'' (reservation_query hotelId indate outdate)))
       (\<lambda>reserve. oreturn (count_reserved reserve))"

definition hotel_capacity :: "store_env \<Rightarrow> string \<Rightarrow> int outcome hotel" where
  "hotel_capacity env hotelId =
     State_Monad.bind (memcGet env (hotelId @ ''_cap'')) (\<lambda>item.
       case item of
         Hit v \<Rightarrow> oreturn (fst (atoi v))
       | CacheMiss \<Rightarrow>
           obind (or_panic (findOne env ''number'' [(''hotelid'', BStr hotelId)])) (\<lambda>num.
           obind (ignore_result (memcSet env (hotelId @ ''_cap'') (itoa (int_field ''numberofroom'' num)))) (\<lambda>_.
           oreturn (int_field ''numberofroom'' num)))
       | MemcError e \<Rightarrow> opanic e)"

subsection \<open>\<open>MakeReservation\<close>\<close>

definition make_count :: "store_env \<Rightarrow> string \<Rightarrow> string \<Rightarrow> string \<Rightarrow> int outcome hotel" where
  "make_count env hotelId indate outdate =
     State_Monad.bind (memcGet env (memc_key hotelId outdate)) (\<lambda>item.
       case item of
         Hit v \<Rightarrow> oreturn (fst (atoi v))
       | CacheMiss \<Rightarrow> reserved_in_db env hotelId indate outdate
       | MemcError e \<Rightarrow> opanic e)"

text \<open>The loop over the nights; its result is the map of counts to cache, or \<^term>\<open>None\<close> when there
  is not enough space.\<close>

function make_loop ::
  "store_env \<Rightarrow> string \<Rightarrow> int \<Rightarrow> gotime \<Rightarrow> gotime \<Rightarrow> string \<Rightarrow> (string \<times> int) list \<Rightarrow>
   (string \<times> int) list option outcome hotel"
where
  "make_loop env hotelId rooms inDate outDate indate memc_date_num_map =
     (if before inDate outDate
      then let inDate' = next_day inDate; outdate = date_string inDate'
           in obind (make_count env hotelId indate outdate) (\<lambda>count.
              let m = AList.update (memc_key hotelId outdate) (add_int count rooms) memc_date_num_map
              in obind (hotel_capacity env hotelId) (\<lambda>hotel_cap.
                 if add_int count rooms > hotel_cap then oreturn None
                 else make_loop env hotelId rooms inDate' outDate outdate m))
      else oreturn (Some memc_date_num_map))"
  by pat_completeness auto
termination
  by (relation "measure (\<lambda>(env, hotelId, rooms, inDate, outDate, indate, m). days_left inDate outDate)")
    (auto simp: days_left_decreases)

declare make_loop.simps [simp del]

primrec cache_counts :: "store_env \<Rightarrow> (string \<times> int) list \<Rightarrow> unit outcome hotel" where
  "cache_counts env [] = oreturn ()"
| "cache_counts env (kv # kvs) =
     obind (ignore_result (memcSet env (fst kv) (itoa (snd kv)))) (\<lambda>_. cache_counts env kvs)"

function insert_loop ::
  "store_env \<Rightarrow> reservation_request \<Rightarrow> string \<Rightarrow> gotime \<Rightarrow> gotime \<Rightarrow> string \<Rightarrow> unit outcome hotel"
where
  "insert_loop env req hotelId inDate outDate indate =
     (if before inDate outDate
      then let inDate' = next_day inDate; outdate = date_string inDate'
           in obind (or_panic_err (insertDoc env ''reservation'' (reservation_doc
                \<lparr>ResHotelId = hotelId, ResCustomerName = CustomerName req, ResInDate = indate,
                 ResOutDate = outdate, ResNumber = sint (RoomNumber req)\<rparr>)))
              (\<lambda>_. insert_loop env req hotelId inDate' outDate outdate)
      else oreturn ())"
  by pat_completeness auto
termination
  by (relation "measure (\<lambda>(env, req, hotelId, inDate, outDate, indate). days_left inDate outDate)")
    (auto simp: days_left_decreases)

declare insert_loop.simps [simp del]

definition MakeReservation :: "store_env \<Rightarrow> reservation_request \<Rightarrow> string list outcome hotel" where
  "MakeReservation env req =
     (let inDate = parse_or_zero (InDate req); outDate = parse_or_zero (OutDate req)
      in case HotelId req of
           [] \<Rightarrow> opanic index_out_of_range
         | hotelId # _ \<Rightarrow>
             obind (make_loop env hotelId (sint (RoomNumber req)) inDate outDate (date_string inDate) []) (\<lambda>checked.
               case checked of
                 None \<Rightarrow> oreturn []
               | Some m \<Rightarrow>
                   obind (cache_counts env m) (\<lambda>_.
                   obind (insert_loop env req hotelId inDate outDate (date_string inDate)) (\<lambda>_.
                   oreturn [hotelId]))))"

subsection \<open>\<open>CheckAvailability\<close>\<close>

definition check_count :: "store_env \<Rightarrow> string \<Rightarrow> string \<Rightarrow> string \<Rightarrow> int outcome hotel" where
  "check_count env hotelId indate outdate =
     State_Monad.bind (memcGet env (memc_key hotelId outdate)) (\<lambda>item.
       case item of
         Hit v \<Rightarrow> oreturn (fst (atoi v))
       | CacheMiss \<Rightarrow>
           obind (reserved_in_db env hotelId indate outdate) (\<lambda>count.
           obind (ignore_result (memcSet env (memc_key hotelId outdate) (itoa count))) (\<lambda>_.
           oreturn count))
       | MemcError e \<Rightarrow> opanic e)"

function check_loop ::
  "store_env \<Rightarrow> string \<Rightarrow> int \<Rightarrow> gotime \<Rightarrow> gotime \<Rightarrow> string \<Rightarrow> string list \<Rightarrow> string list outcome hotel"
where
  "check_loop env hotelId rooms inDate outDate indate res =
     (if before inDate outDate
      then let inDate' = next_day inDate; outdate = date_string inDate'
           in obind (check_count env hotelId indate outdate) (\<lambda>count.
              obind (hotel_capacity env hotelId) (\<lambda>hotel_cap.
                if add_int count rooms > hotel_cap then oreturn res
                else check_loop env hotelId rooms inDate' outDate outdate
                       (if inDate' = outDate then res @ [hotelId] else res)))
      else oreturn res)"
  by pat_completeness auto
termination
  by (relation "measure (\<lambda>(env, hotelId, rooms, inDate, outDate, indate, res). days_left inDate outDate)")
    (auto simp: days_left_decreases)

declare check_loop.simps [simp del]

primrec check_hotels :: "store_env \<Rightarrow> reservation_request \<Rightarrow> string list \<Rightarrow> string list \<Rightarrow> string list outcome hotel" where
  "check_hotels env req [] res = oreturn res"
| "check_hotels env req (hotelId # hotels) res =
     obind (check_loop env hotelId (sint (RoomNumber req)) (parse_or_zero (InDate req)) (parse_or_zero (OutDate req))
              (date_string (parse_or_zero (InDate req))) res)
       (\<lambda>res. check_hotels env req hotels res)"

definition CheckAvailability :: "store_env \<Rightarrow> reservation_request \<Rightarrow> string list outcome hotel" where
  "CheckAvailability env req = check_hotels env req (HotelId req) []"

subsection \<open>\<open>initializeDatabase\<close>\<close>

definition room_num :: "nat \<Rightarrow> int" where
  "room_num i = (if i mod 3 = 1 then 300 else if i mod 3 = 2 then 250 else 200)"

definition hotel_rooms :: "(string \<times> int) list" where
  "hotel_rooms =
     [(''1'', 200), (''2'', 10), (''3'', 200), (''4'', 200), (''5'', 200), (''6'', 200)] @
     map (\<lambda>i. (itoa (int i), room_num i)) [7..<81]"

definition alice_booking :: reservation where
  "alice_booking = \<lparr>ResHotelId = ''4'', ResCustomerName = ''Alice'', ResInDate = ''2015-04-09'',
     ResOutDate = ''2015-04-10'', ResNumber = 1\<rparr>"

definition initializeReservationDatabase :: "store_env \<Rightarrow> string \<Rightarrow> unit outcome hotel" where
  "initializeReservationDatabase env url =
     obind (or_panic_err (mongoDial env url)) (\<lambda>_.
     obind (ignore_result (dropCollection env ''reservation'')) (\<lambda>_.
     obind (seed_doc env ''reservation'' ''hotelid'' ''4'' (reservation_doc alice_booking)) (\<lambda>_.
     obind (seed_docs env ''number'' ''hotelid'' (map (\<lambda>(k, n). (k, number_doc k n)) hotel_rooms)) (\<lambda>_.
     or_fatal_err ''index'' (ensureIndexKey env ''number'' ''hotelid'')))))"

subsection \<open>The nights of a stay\<close>

text \<open>The dates after which the nights are named: the day of departure of each of them.\<close>

function departures :: "gotime \<Rightarrow> gotime \<Rightarrow> string list" where
  "departures t u = (if before t u then date_string (next_day t) # departures (next_day t) u else [])"
  by pat_completeness auto
termination
  by (relation "measure (\<lambda>(t, u). days_left t u)") (auto simp: days_left_decreases)

declare departures.simps [simp del]

definition calendar :: "gotime \<Rightarrow> bool" where
  "calendar t \<longleftrightarrow> valid_date t \<and> Noon t \<and> Year t \<le> 9999"

lemma calendar_next_day: "\<lbrakk>calendar t; calendar u; before t u\<rbrakk> \<Longrightarrow> calendar (next_day t)"
  using next_day_not_skipped [of t u] by (auto simp: calendar_def before_def)

lemma departures_later:
  assumes "calendar t" "calendar u" "d \<in> set (departures t u)"
  shows "\<exists>v. calendar v \<and> before t v \<and> d = date_string v"
  using assms
proof (induction t u rule: departures.induct)
  case (1 t u)
  have b: "before t u" using "1.prems"(3) by (subst (asm) departures.simps) (simp split: if_splits)
  have "d = date_string (next_day t) \<or> d \<in> set (departures (next_day t) u)"
    using "1.prems"(3) b by (subst (asm) departures.simps) simp
  then show ?case
    using "1.IH" [OF b] "1.prems" calendar_next_day [OF _ _ b] before_next_day [of t] before_trans by metis
qed

lemma distinct_departures: "\<lbrakk>calendar t; calendar u\<rbrakk> \<Longrightarrow> distinct (departures t u)"
proof (induction t u rule: departures.induct)
  case (1 t u)
  show ?case
  proof (cases "before t u")
    case True
    have c: "calendar (next_day t)" using "1.prems" True by (intro calendar_next_day)
    have "date_string (next_day t) \<notin> set (departures (next_day t) u)"
    proof
      assume "date_string (next_day t) \<in> set (departures (next_day t) u)"
      from departures_later [OF c "1.prems"(2) this] obtain v where
        v: "calendar v" "before (next_day t) v" "date_string (next_day t) = date_string v" by blast
      then have "next_day t = v"
        using c by (intro date_string_inject) (simp_all add: calendar_def)
      with v(2) show False by simp
    qed
    with "1.IH" [OF True c "1.prems"(2)] True show ?thesis by (subst departures.simps) simp
  next
    case False
    then show ?thesis by (subst departures.simps) simp
  qed
qed

definition date_text :: "string \<Rightarrow> bool" where
  "date_text d \<longleftrightarrow> length d = 10 \<and> CHR ''p'' \<notin> set d"

lemma digit_not_p: "n < 10 \<Longrightarrow> CHR ''p'' \<noteq> digit_char n"
proof
  assume "n < 10" and "CHR ''p'' = digit_char n"
  then have "(of_char (CHR ''p'') :: nat) = 48 + n" by (simp add: of_char_digit)
  with \<open>n < 10\<close> show False by simp
qed

lemma pad_not_p: "CHR ''p'' \<notin> set (pad4 n)" "CHR ''p'' \<notin> set (pad2 n)"
  by (simp_all add: pad4_def pad2_def digit_not_p)

lemma date_text_date_string: "calendar t \<Longrightarrow> date_text (date_string t)"
proof -
  assume t: "calendar t"
  have "CHR ''p'' \<notin> set (pad4 (Year t) @ ''-'' @ pad2 (Month t) @ ''-'' @ pad2 (Day t))"
    by (simp add: pad_not_p)
  then have "CHR ''p'' \<notin> set (date_string t)"
    using t in_set_takeD [of "CHR ''p''" 10 "pad4 (Year t) @ ''-'' @ pad2 (Month t) @ ''-'' @ pad2 (Day t)"]
    unfolding date_string_def calendar_def by auto
  then show "date_text (date_string t)"
    using t by (simp add: date_text_def calendar_def)
qed

lemma departures_text: "\<lbrakk>calendar t; calendar u; d \<in> set (departures t u)\<rbrakk> \<Longrightarrow> date_text d"
  by (drule (2) departures_later) (auto simp: date_text_date_string)

lemma memc_key_inject:
  "\<lbrakk>date_text d; date_text e\<rbrakk> \<Longrightarrow> memc_key h d = memc_key k e \<longleftrightarrow> h = k \<and> d = e"
  by (auto simp: date_text_def memc_key_def append_eq_append_conv2 append_eq_Cons_conv Cons_eq_append_conv)

lemma memc_key_not_cap [simp]: "date_text d \<Longrightarrow> memc_key h d \<noteq> k @ ''_cap''"
proof
  assume d: "date_text d" and "memc_key h d = k @ ''_cap''"
  then have "last (memc_key h d) = CHR ''p''" by simp
  moreover have "last (memc_key h d) = last d" "d \<noteq> []" using d by (auto simp: date_text_def memc_key_def)
  ultimately show False using d last_in_set [of d] by (auto simp: date_text_def)
qed

lemmas memc_key_not_cap' [simp] = memc_key_not_cap [symmetric]

subsection \<open>Booked and cached rooms\<close>

fun booked_by :: "string \<Rightarrow> string \<Rightarrow> store_event \<Rightarrow> int" where
  "booked_by hotelId outdate (Insert c d None) =
     (if c = ''reservation'' \<and> str_field ''hotelid'' d = hotelId \<and> str_field ''outdate'' d = outdate
      then int_field ''number'' d else 0)"
| "booked_by hotelId outdate _ = 0"

text \<open>The rooms of a hotel booked in a log for the night before \<open>outdate\<close>, and the number of
  booked rooms that the cache holds for it.\<close>

definition booked :: "store_event list \<Rightarrow> string \<Rightarrow> string \<Rightarrow> int" where
  "booked h hotelId outdate = sum_list (map (booked_by hotelId outdate) h)"

definition cached_count :: "store_event list \<Rightarrow> string \<Rightarrow> string \<Rightarrow> int" where
  "cached_count h hotelId outdate =
     (case cached_value h (memc_key hotelId outdate) of None \<Rightarrow> 0 | Some v \<Rightarrow> fst (atoi v))"

lemma reservation_fields [simp]:
  "str_field ''hotelid'' (reservation_doc r) = ResHotelId r"
  "str_field ''outdate'' (reservation_doc r) = ResOutDate r"
  "int_field ''number'' (reservation_doc r) = ResNumber r"
  by (simp_all add: reservation_doc_def str_field_def int_field_def)

lemma number_fields [simp]: "int_field ''numberofroom'' (number_doc k n) = n"
  by (simp add: number_doc_def int_field_def)

lemma booked_Nil [simp]: "booked [] h d = 0"
  by (simp add: booked_def)

lemma booked_snoc [simp]: "booked (es @ [e]) h d = booked es h d + booked_by h d e"
  by (simp add: booked_def)

lemma cached_count_snoc:
  "cached_count (es @ [e]) h d =
     (case e of MemcSet k v None \<Rightarrow> if k = memc_key h d then fst (atoi v) else cached_count es h d
      | _ \<Rightarrow> cached_count es h d)"
  by (cases e rule: store_event.exhaust) (auto simp: cached_count_def cached_value_snoc split: option.split)

text \<open>The queries look for \<open>inDate\<close> and \<open>outDate\<close>; the documents have \<open>indate\<close> and \<open>outdate\<close>.\<close>

lemma query_never_matches: "\<not> doc_matches (reservation_query h i out) (reservation_doc r)"
  by (simp add: doc_matches_def reservation_query_def reservation_doc_def)

definition own_documents :: "document list \<Rightarrow> bool" where
  "own_documents ds \<longleftrightarrow> (\<forall>d\<in>set ds. \<exists>r. d = reservation_doc r)"

fun own_event :: "store_event \<Rightarrow> bool" where
  "own_event (Insert c d r) \<longleftrightarrow> c = ''reservation'' \<longrightarrow> (\<exists>x. d = reservation_doc x)"
| "own_event (DropCollection c r) \<longleftrightarrow> c \<noteq> ''reservation''"
| "own_event _ \<longleftrightarrow> True"

lemma after_event_own:
  "\<lbrakk>own_event e; own_documents ds\<rbrakk> \<Longrightarrow> own_documents (after_event ''reservation'' ds e)"
  by (cases "(''reservation'', ds, e)" rule: after_event.cases) (auto simp: own_documents_def)

lemma stored_own:
  assumes "own_documents (init ''reservation'')" and "\<forall>e\<in>set h. own_event e"
  shows "own_documents (stored init h ''reservation'')"
  using assms(2)
  by (induction h rule: rev_induct) (simp_all add: stored_def assms(1) after_event_own)

text \<open>The rooms that the bookings of a collection take. A log without a drop adds its own to those
  that were there at the start.\<close>

definition rooms_taken :: "document list \<Rightarrow> string \<Rightarrow> string \<Rightarrow> int" where
  "rooms_taken ds hotelId outdate =
     sum_list (map (int_field ''number'')
       (filter (\<lambda>d. str_field ''hotelid'' d = hotelId \<and> str_field ''outdate'' d = outdate) ds))"

lemma rooms_taken_stored:
  assumes "\<forall>e\<in>set h. own_event e"
  shows "rooms_taken (stored init h ''reservation'') k d = rooms_taken (init ''reservation'') k d + booked h k d"
  using assms
proof (induction h rule: rev_induct)
  case Nil
  show ?case by (simp add: stored_def)
next
  case (snoc e h)
  have "rooms_taken (after_event ''reservation'' ds e) k d = rooms_taken ds k d + booked_by k d e" for ds
    using snoc.prems by (cases "(''reservation'', ds, e)" rule: after_event.cases) (auto simp: rooms_taken_def)
  with snoc show ?case by (simp add: stored_snoc)
qed

text \<open>What the theorems on bookings assume of the stores.\<close>

definition store_ok :: "(string \<Rightarrow> document list) \<Rightarrow> (string \<Rightarrow> int) \<Rightarrow> store_env \<Rightarrow> bool" where
  "store_ok init cap env \<longleftrightarrow>
     memc_keeps env \<and> mongo_finds init env \<and> own_documents (init ''reservation'') \<and>
     (\<forall>h k. mongo_find_one env h ''number'' [(''hotelid'', BStr k)] = Inr (number_doc k (cap k))) \<and>
     (\<forall>k. 0 \<le> cap k \<and> cap k < 4611686018427387904)"

text \<open>The invariant: no night has more rooms booked than the cache says, nor the cache more than
  the hotel has; \<open>S\<close> is what the cache says, and every cached number is well formed.\<close>

definition consistent :: "(string \<Rightarrow> int) \<Rightarrow> store_event list \<Rightarrow> bool" where
  "consistent cap h \<longleftrightarrow> (\<forall>e\<in>set h. own_event e) \<and>
     (\<forall>k. cached_value h (k @ ''_cap'') \<in> {None, Some (itoa (cap k))}) \<and>
     (\<forall>k d. date_text d \<longrightarrow>
        0 \<le> booked h k d \<and> booked h k d \<le> cached_count h k d \<and> cached_count h k d \<le> cap k)"

definition snapshot :: "(string \<Rightarrow> int) \<Rightarrow> (string \<Rightarrow> string \<Rightarrow> int) \<Rightarrow> (string \<Rightarrow> string \<Rightarrow> int) \<Rightarrow> store_event list \<Rightarrow> bool" where
  "snapshot cap S B h \<longleftrightarrow> consistent cap h \<and>
     (\<forall>k d. date_text d \<longrightarrow> cached_count h k d = S k d \<and> booked h k d = B k d)"

text \<open>An event that leaves the invariant, the cached counts and the bookings as they are.\<close>

fun harmless :: "(string \<Rightarrow> int) \<Rightarrow> store_event \<Rightarrow> bool" where
  "harmless cap (MemcSet k v r) \<longleftrightarrow> (\<exists>hotel. k = hotel @ ''_cap'' \<and> v = itoa (cap hotel))"
| "harmless cap (Insert c d r) \<longleftrightarrow> False"
| "harmless cap (DropCollection c r) \<longleftrightarrow> False"
| "harmless cap _ \<longleftrightarrow> True"

lemma cap_bounds: "store_ok init cap env \<Longrightarrow> 0 \<le> cap k \<and> cap k < 4611686018427387904"
  unfolding store_ok_def by blast

lemma cap_fits: "store_ok init cap env \<Longrightarrow> fst (atoi (itoa (cap k))) = cap k"
  using cap_bounds [of init cap env k] by (simp add: atoi_itoa)

lemma snapshot_harmless:
  assumes "snapshot cap S B h" and "harmless cap e"
  shows "snapshot cap S B (h @ [e])"
proof -
  have own: "own_event e" using assms(2) by (cases "(cap, e)" rule: harmless.cases) simp_all
  have "booked (h @ [e]) k d = booked h k d" for k d
    using assms(2) by (cases "(cap, e)" rule: harmless.cases) simp_all
  moreover have "cached_count (h @ [e]) k d = cached_count h k d" if "date_text d" for k d
    using assms(2) memc_key_not_cap [OF that] that
    by (cases "(cap, e)" rule: harmless.cases) (auto simp: cached_count_snoc split: option.split)
  moreover have "cached_value (h @ [e]) (k @ ''_cap'') \<in> {None, Some (itoa (cap k))}" for k
  proof -
    have "cached_value h (k @ ''_cap'') \<in> {None, Some (itoa (cap k))}"
      using assms(1) unfolding snapshot_def consistent_def by blast
    then show ?thesis
      using assms(2) by (cases "(cap, e)" rule: harmless.cases; cases "(k @ ''_cap'', cached_value h (k @ ''_cap''), e)" rule: cache_update.cases)
        (auto simp: cached_value_snoc)
  qed
  ultimately show ?thesis
    using assms(1) own unfolding snapshot_def consistent_def by auto
qed

lemma snapshot_harmless_list:
  assumes "snapshot cap S B h" and "list_all (harmless cap) es"
  shows "snapshot cap S B (h @ es)"
  using assms(2)
proof (induction es rule: rev_induct)
  case (snoc e es)
  then show ?case using snapshot_harmless [of cap S B "h @ es" e] by simp
qed (simp add: assms(1))

lemma snapshot_consistent: "snapshot cap S B h \<Longrightarrow> consistent cap h"
  by (simp add: snapshot_def)

lemma capacity_triple:
  assumes ok: "store_ok init cap env"
  shows "triple (snapshot cap S B) (hotel_capacity env hotelId)
    (\<lambda>c h. c = cap hotelId \<and> snapshot cap S B h) (consistent cap)"
  unfolding triple_def
proof (intro allI impI)
  fix h
  assume s: "snapshot cap S B h"
  have v: "cached_value h (hotelId @ ''_cap'') \<in> {None, Some (itoa (cap hotelId))}"
    using s unfolding snapshot_def consistent_def by blast
  have m: "memc_get env h (hotelId @ ''_cap'') =
      (case cached_value h (hotelId @ ''_cap'') of Some v \<Rightarrow> Hit v | None \<Rightarrow> CacheMiss)"
    using ok by (simp add: store_ok_def memc_keeps_def)
  have f: "mongo_find_one env h' ''number'' [(''hotelid'', BStr hotelId)] = Inr (number_doc hotelId (cap hotelId))" for h'
    using ok by (simp add: store_ok_def)
  show "case run_state (hotel_capacity env hotelId) h of (Ret c, h') \<Rightarrow> c = cap hotelId \<and> snapshot cap S B h'
      | (Panic e, h') \<Rightarrow> consistent cap h' | (Fatal s, h') \<Rightarrow> consistent cap h'"
    using v
    by (auto simp: hotel_capacity_def store_calls run_state_bind m f cap_fits [OF ok]
        intro!: snapshot_harmless_list s)
qed

lemma add_int_exact: "\<lbrakk>0 \<le> a; a < 4611686018427387904; 0 \<le> b; b < 4611686018427387904\<rbrakk> \<Longrightarrow> add_int a b = a + b"
  unfolding add_int_def by (rule sint64_of_int) linarith+

lemma snapshot_bounds:
  assumes "store_ok init cap env" "snapshot cap S B h" "date_text d"
  shows "0 \<le> S k d" "S k d \<le> cap k" "S k d < 4611686018427387904" "B k d \<le> S k d" "0 \<le> B k d"
proof -
  have "0 \<le> booked h k d \<and> booked h k d \<le> cached_count h k d \<and> cached_count h k d \<le> cap k"
    and "cached_count h k d = S k d" "booked h k d = B k d"
    using assms(2,3) unfolding snapshot_def consistent_def by blast+
  then show "0 \<le> S k d" "S k d \<le> cap k" "S k d < 4611686018427387904" "B k d \<le> S k d" "0 \<le> B k d"
    using cap_bounds [OF assms(1), of k] by simp_all
qed

lemma found_in_db:
  assumes "store_ok init cap env" and "\<forall>e\<in>set h. own_event e"
  shows "mongo_find env h ''reservation'' (reservation_query k i out) = Inr []"
proof -
  have "own_documents (stored init h ''reservation'')"
    using assms by (intro stored_own) (simp_all add: store_ok_def)
  then have "filter (doc_matches (reservation_query k i out)) (stored init h ''reservation'') = []"
    by (auto simp: filter_empty_conv own_documents_def query_never_matches)
  moreover have "mongo_find env h ''reservation'' (reservation_query k i out) =
      Inr (filter (doc_matches (reservation_query k i out)) (stored init h ''reservation''))"
    using assms(1) by (simp add: store_ok_def mongo_finds_def)
  ultimately show ?thesis by simp
qed

lemma reserved_in_db_run:
  assumes "store_ok init cap env" and "\<forall>e\<in>set h. own_event e"
  shows "run_state (reserved_in_db env k i out) h = (Ret 0, h @ [Find ''reservation'' (reservation_query k i out) (Inr [])])"
  by (simp add: reserved_in_db_def findAll_def found_in_db [OF assms] count_reserved_def)

lemma memc_answer:
  "store_ok init cap env \<Longrightarrow>
     memc_get env h k = (case cached_value h k of Some v \<Rightarrow> Hit v | None \<Rightarrow> CacheMiss) \<and> memc_set env h k v = None"
  by (simp add: store_ok_def memc_keeps_def)

definition set_count :: "string \<Rightarrow> string \<Rightarrow> int \<Rightarrow> (string \<Rightarrow> string \<Rightarrow> int) \<Rightarrow> string \<Rightarrow> string \<Rightarrow> int" where
  "set_count k d n S = (\<lambda>k' d'. if k' = k \<and> d' = d then n else S k' d')"

lemma set_count_same: "S k d = n \<Longrightarrow> set_count k d n S = S"
  by (auto simp: set_count_def intro!: ext)

text \<open>Writing a count that covers the bookings and fits the hotel keeps the invariant.\<close>

lemma snapshot_set_count:
  assumes s: "snapshot cap S B h" and d: "date_text d" and n: "B k d \<le> n" "n \<le> cap k" "cap k < 4611686018427387904"
  shows "snapshot cap (set_count k d n S) B (h @ [MemcSet (memc_key k d) (itoa n) None])"
proof -
  have B: "0 \<le> B k d" using s d by (auto simp: snapshot_def consistent_def)
  have a: "fst (atoi (itoa n)) = n" using B n by (simp add: atoi_itoa)
  have cc: "cached_count (h @ [MemcSet (memc_key k d) (itoa n) None]) k' d' = set_count k d n S k' d'"
    and bb: "booked (h @ [MemcSet (memc_key k d) (itoa n) None]) k' d' = B k' d'"
    if "date_text d'" for k' d'
    using s that d by (auto simp: cached_count_snoc a memc_key_inject snapshot_def set_count_def)
  have "cached_value (h @ [MemcSet (memc_key k d) (itoa n) None]) (j @ ''_cap'') = cached_value h (j @ ''_cap'')" for j
    using d by (simp add: cached_value_snoc)
  then show ?thesis
    using s cc bb n B unfolding snapshot_def consistent_def
    by (auto simp: set_count_def simp del: cached_count_snoc booked_snoc)
qed

lemma make_count_triple:
  assumes ok: "store_ok init cap env" and d: "date_text d"
  shows "triple (snapshot cap S B) (make_count env k i d) (\<lambda>c h. c = S k d \<and> snapshot cap S B h) (consistent cap)"
  unfolding triple_def
proof (intro allI impI)
  fix h
  assume s: "snapshot cap S B h"
  then have c: "cached_count h k d = S k d" and own: "\<forall>e\<in>set h. own_event e"
    using d by (simp_all add: snapshot_def consistent_def)
  show "case run_state (make_count env k i d) h of (Ret c, h') \<Rightarrow> c = S k d \<and> snapshot cap S B h'
      | (Panic e, h') \<Rightarrow> consistent cap h' | (Fatal s, h') \<Rightarrow> consistent cap h'"
    using c own
    by (auto simp: make_count_def memcGet_def run_state_bind memc_answer [OF ok] cached_count_def
        reserved_in_db_run [OF ok] snapshot_harmless_list [OF s] split: option.split)
qed

lemma check_count_triple:
  assumes ok: "store_ok init cap env" and d: "date_text d"
  shows "triple (snapshot cap S B) (check_count env k i d) (\<lambda>c h. c = S k d \<and> snapshot cap S B h) (consistent cap)"
  unfolding triple_def
proof (intro allI impI)
  fix h
  assume s: "snapshot cap S B h"
  then have c: "cached_count h k d = S k d" and own: "\<forall>e\<in>set h. own_event e"
    using d by (simp_all add: snapshot_def consistent_def)
  show "case run_state (check_count env k i d) h of (Ret c, h') \<Rightarrow> c = S k d \<and> snapshot cap S B h'
      | (Panic e, h') \<Rightarrow> consistent cap h' | (Fatal s, h') \<Rightarrow> consistent cap h'"
  proof (cases "cached_value h (memc_key k d)")
    case (Some v)
    then show ?thesis
      using c by (simp add: check_count_def memcGet_def run_state_bind memc_answer [OF ok] cached_count_def
          snapshot_harmless [OF s])
  next
    case None
    let ?h = "h @ [MemcGet (memc_key k d) CacheMiss, Find ''reservation'' (reservation_query k i d) (Inr [])]"
    have S0: "S k d = 0" using c None by (simp add: cached_count_def)
    have s': "snapshot cap S B ?h" by (rule snapshot_harmless_list [OF s]) simp
    have "B k d \<le> 0" "cap k < 4611686018427387904" "0 \<le> cap k"
      using snapshot_bounds(4) [OF ok s d, of k] cap_bounds [OF ok, of k] S0 by simp_all
    from snapshot_set_count [OF s' d this(1,3,2)]
    have "snapshot cap S B (h @ [MemcGet (memc_key k d) CacheMiss,
        Find ''reservation'' (reservation_query k i d) (Inr []), MemcSet (memc_key k d) (itoa 0) None])"
      by (simp add: set_count_same [where S = S and k = k and d = d and n = 0, OF S0])
    then show ?thesis
      using S0 own None
      by (simp add: check_count_def memcGet_def memcSet_def run_state_bind memc_answer [OF ok]
          reserved_in_db_run [OF ok])
  qed
qed

text \<open>The checks of a booking leave counts and bookings alone; if they pass, every night has room
  and the map holds the new count of every night.\<close>

definition new_counts :: "string \<Rightarrow> int \<Rightarrow> (string \<Rightarrow> string \<Rightarrow> int) \<Rightarrow> string list \<Rightarrow> (string \<times> int) list \<Rightarrow> (string \<times> int) list" where
  "new_counts k rooms S ds m = foldl (\<lambda>m d. AList.update (memc_key k d) (S k d + rooms) m) m ds"

definition room_left :: "(string \<Rightarrow> int) \<Rightarrow> string \<Rightarrow> int \<Rightarrow> (string \<Rightarrow> string \<Rightarrow> int) \<Rightarrow> string list \<Rightarrow> bool" where
  "room_left cap k rooms S ds \<longleftrightarrow> (\<forall>d\<in>set ds. S k d + rooms \<le> cap k)"

lemma triple_pure: "triple (\<lambda>h. \<phi> \<and> P h) m Q E \<longleftrightarrow> (\<phi> \<longrightarrow> triple P m Q E)"
  by (auto simp: triple_def)

lemma triple_assume: "(\<And>h. P h \<Longrightarrow> triple P m Q E) \<Longrightarrow> triple P m Q E"
  by (simp add: triple_def)

lemma make_loop_triple:
  assumes ok: "store_ok init cap env" and rooms: "0 \<le> rooms" "rooms < 4611686018427387904"
    and cal: "calendar t" "calendar u"
  shows "triple (snapshot cap S B) (make_loop env k rooms t u i m)
    (\<lambda>r h. snapshot cap S B h \<and> (\<forall>m'. r = Some m' \<longrightarrow>
       m' = new_counts k rooms S (departures t u) m \<and> room_left cap k rooms S (departures t u))) (consistent cap)"
  using cal
proof (induction t u arbitrary: i m rule: departures.induct)
  case (1 t u)
  show ?case
  proof (cases "before t u")
    case False
    then have "departures t u = []" by (subst departures.simps) simp
    with False show ?thesis
      by (subst make_loop.simps) (simp add: triple_oreturn new_counts_def room_left_def)
  next
    case True
    let ?d = "date_string (next_day t)"
    have c: "calendar (next_day t)" using calendar_next_day "1.prems" True by blast
    have d: "date_text ?d" using c by (rule date_text_date_string)
    have dep: "departures t u = ?d # departures (next_day t) u"
      using True by (subst departures.simps) simp
    have rest: "triple (snapshot cap S B)
        (if add_int (S k ?d) rooms > cap k then oreturn None
         else make_loop env k rooms (next_day t) u ?d (AList.update (memc_key k ?d) (add_int (S k ?d) rooms) m))
        (\<lambda>r h. snapshot cap S B h \<and> (\<forall>m'. r = Some m' \<longrightarrow>
           m' = new_counts k rooms S (departures t u) m \<and> room_left cap k rooms S (departures t u)))
        (consistent cap)"
    proof (rule triple_assume)
      fix h
      assume h: "snapshot cap S B h"
      have add: "add_int (S k ?d) rooms = S k ?d + rooms"
        using snapshot_bounds [OF ok h d, of k] rooms by (intro add_int_exact) auto
      show ?thesis
      proof (cases "S k ?d + rooms > cap k")
        case True
        then show ?thesis unfolding add if_P [OF True] by (intro triple_oreturn) simp
      next
        case False
        then show ?thesis
          unfolding add if_not_P [OF False]
          by (intro triple_conseq [OF "1.IH" [OF \<open>before t u\<close> c "1.prems"(2), of ?d "AList.update (memc_key k ?d) (S k ?d + rooms) m"]])
            (auto simp: dep new_counts_def room_left_def)
      qed
    qed
    show ?thesis
      using True
      by (subst make_loop.simps, simp only: if_True Let_def,
          intro triple_obind [OF make_count_triple [OF ok d]], unfold triple_pure, intro impI,
          intro triple_obind [OF capacity_triple [OF ok]], unfold triple_pure, intro impI)
        (simp only: rest)
  qed
qed

text \<open>Caching the new counts raises the counts of the nights, and nothing else.\<close>

definition raise_counts :: "string \<Rightarrow> int \<Rightarrow> string list \<Rightarrow> (string \<Rightarrow> string \<Rightarrow> int) \<Rightarrow> string \<Rightarrow> string \<Rightarrow> int" where
  "raise_counts k n ds S = (\<lambda>k' d'. if k' = k \<and> d' \<in> set ds then S k' d' + n else S k' d')"

lemma raise_counts_Nil [simp]: "raise_counts k n [] S = S"
  by (simp add: raise_counts_def)

lemma set_raise_counts:
  "d \<notin> set ds \<Longrightarrow> raise_counts k n ds (set_count k d (S k d + n) S) = raise_counts k n (d # ds) S"
  by (auto simp: raise_counts_def set_count_def intro!: ext)

lemma new_counts_eq:
  assumes "distinct ds" "\<forall>d\<in>set ds. date_text d" "\<forall>d\<in>set ds. memc_key k d \<notin> fst ` set m"
  shows "new_counts k rooms S ds m = m @ map (\<lambda>d. (memc_key k d, S k d + rooms)) ds"
  using assms
proof (induction ds arbitrary: m)
  case (Cons d ds)
  have fresh: "x \<notin> fst ` set xs \<Longrightarrow> AList.update x v xs = xs @ [(x, v)]" for x v and xs :: "(string \<times> int) list"
    by (induction xs) auto
  have "\<forall>e\<in>set ds. memc_key k e \<noteq> memc_key k d"
    using Cons.prems by (auto simp: memc_key_inject)
  then show ?case
    using Cons.IH [of "m @ [(memc_key k d, S k d + rooms)]"] Cons.prems fresh
    by (auto simp: new_counts_def)
qed (simp add: new_counts_def)

lemma cache_counts_triple:
  assumes ok: "store_ok init cap env" and "distinct ds" "\<forall>d\<in>set ds. date_text d"
    and "\<forall>d\<in>set ds. S k d + rooms \<le> cap k" "0 \<le> rooms"
  shows "triple (snapshot cap S B) (cache_counts env (map (\<lambda>d. (memc_key k d, S k d + rooms)) ds))
    (\<lambda>_. snapshot cap (raise_counts k rooms ds S) B) (consistent cap)"
  using assms(2-4)
proof (induction ds arbitrary: S)
  case Nil
  show ?case by (simp add: triple_oreturn)
next
  case (Cons d ds)
  have d: "date_text d" and fit: "S k d + rooms \<le> cap k" and nin: "d \<notin> set ds" using Cons.prems by simp_all
  let ?S = "set_count k d (S k d + rooms) S"
  have eq: "map (\<lambda>d. (memc_key k d, S k d + rooms)) ds = map (\<lambda>d. (memc_key k d, ?S k d + rooms)) ds"
    using nin by (auto simp: set_count_def)
  have "\<forall>d\<in>set ds. ?S k d + rooms \<le> cap k" using Cons.prems(3) nin by (auto simp: set_count_def)
  then have rest: "triple (snapshot cap ?S B) (cache_counts env (map (\<lambda>d. (memc_key k d, S k d + rooms)) ds))
      (\<lambda>_. snapshot cap (raise_counts k rooms (d # ds) S) B) (consistent cap)"
    using Cons.IH [of ?S] Cons.prems nin unfolding eq by (simp add: set_raise_counts)
  have "triple (snapshot cap S B) (ignore_result (memcSet env (memc_key k d) (itoa (S k d + rooms))))
      (\<lambda>_. snapshot cap ?S B) (consistent cap)"
    unfolding memcSet_def
  proof (rule triple_ignore_result)
    fix h
    assume s: "snapshot cap S B h"
    have "B k d \<le> S k d + rooms" using snapshot_bounds(4) [OF ok s d, of k] assms(5) by simp
    then show "snapshot cap ?S B (h @ [MemcSet (memc_key k d) (itoa (S k d + rooms))
        (memc_set env h (memc_key k d) (itoa (S k d + rooms)))])"
      using snapshot_set_count [OF s d _ fit] cap_bounds [OF ok, of k] memc_answer [OF ok] by simp
  qed
  then show ?case by (simp add: triple_obind [OF _ rest])
qed

text \<open>Inserting the bookings, each night once.\<close>

definition reservation_of :: "reservation_request \<Rightarrow> string \<Rightarrow> string \<Rightarrow> string \<Rightarrow> document" where
  "reservation_of req k i d = reservation_doc \<lparr>ResHotelId = k, ResCustomerName = CustomerName req,
     ResInDate = i, ResOutDate = d, ResNumber = sint (RoomNumber req)\<rparr>"

lemma snapshot_insert:
  assumes s: "snapshot cap S B h" and d: "B k d + sint (RoomNumber req) \<le> S k d" "0 \<le> sint (RoomNumber req)"
  shows "snapshot cap S (set_count k d (B k d + sint (RoomNumber req)) B)
    (h @ [Insert ''reservation'' (reservation_of req k i d) None])"
proof -
  let ?e = "Insert ''reservation'' (reservation_of req k i d) None"
  have "cached_count (h @ [?e]) = cached_count h" "cached_value (h @ [?e]) = cached_value h"
    by (auto simp: cached_count_snoc cached_value_snoc intro!: ext)
  moreover have "booked (h @ [?e]) k' d' = set_count k d (B k d + sint (RoomNumber req)) B k' d'"
    if "date_text d'" for k' d'
    using s that by (auto simp: reservation_of_def set_count_def snapshot_def)
  moreover have "own_event ?e" by (auto simp: reservation_of_def)
  ultimately show ?thesis
    using s d unfolding snapshot_def consistent_def by (auto simp: set_count_def simp del: booked_snoc)
qed

lemma snapshot_failed_insert:
  "snapshot cap S B h \<Longrightarrow> consistent cap (h @ [Insert ''reservation'' (reservation_of req k i d) (Some e)])"
  unfolding snapshot_def consistent_def
  by (auto simp: cached_count_snoc cached_value_snoc reservation_of_def)

lemma insert_loop_triple:
  assumes ok: "store_ok init cap env" and rooms: "0 \<le> sint (RoomNumber req)"
    and "calendar t" "calendar u" and "\<forall>d\<in>set (departures t u). B k d + sint (RoomNumber req) \<le> S k d"
  shows "triple (snapshot cap S B) (insert_loop env req k t u i)
    (\<lambda>_. snapshot cap S (raise_counts k (sint (RoomNumber req)) (departures t u) B)) (consistent cap)"
  using assms(3-5)
proof (induction t u arbitrary: i B rule: departures.induct)
  case (1 t u)
  show ?case
  proof (cases "before t u")
    case False
    then have "departures t u = []" by (subst departures.simps) simp
    with False show ?thesis by (subst insert_loop.simps) (simp add: triple_oreturn)
  next
    case True
    let ?d = "date_string (next_day t)" and ?n = "sint (RoomNumber req)"
    let ?B = "set_count k ?d (B k ?d + ?n) B"
    have c: "calendar (next_day t)" using calendar_next_day "1.prems" True by blast
    have dep: "departures t u = ?d # departures (next_day t) u"
      using True by (subst departures.simps) simp
    have nin: "?d \<notin> set (departures (next_day t) u)"
      using distinct_departures [OF "1.prems"(1,2)] unfolding dep by simp
    have "\<forall>d\<in>set (departures (next_day t) u). ?B k d + ?n \<le> S k d"
      using "1.prems"(3) nin unfolding dep by (auto simp: set_count_def)
    then have rest: "triple (snapshot cap S ?B) (insert_loop env req k (next_day t) u ?d)
        (\<lambda>_. snapshot cap S (raise_counts k ?n (departures t u) B)) (consistent cap)"
      using "1.IH" [OF True c "1.prems"(2), of ?B ?d] nin by (simp add: dep set_raise_counts)
    have "triple (snapshot cap S B) (or_panic_err (insertDoc env ''reservation'' (reservation_of req k i ?d)))
        (\<lambda>_. snapshot cap S ?B) (consistent cap)"
      unfolding insertDoc_def
      by (rule triple_or_panic_err)
        (use "1.prems"(3) rooms in \<open>auto simp: dep intro!: snapshot_insert snapshot_failed_insert\<close>)
    then show ?thesis
      using True rest
      by (subst insert_loop.simps) (simp add: Let_def triple_obind flip: reservation_of_def)
  qed
qed

lemma check_loop_triple:
  assumes ok: "store_ok init cap env" and "calendar t" "calendar u"
  shows "triple (snapshot cap S B) (check_loop env k rooms t u i res) (\<lambda>_. snapshot cap S B) (consistent cap)"
  using assms(2,3)
proof (induction t u arbitrary: i res rule: departures.induct)
  case (1 t u)
  show ?case
  proof (cases "before t u")
    case False
    then show ?thesis by (subst check_loop.simps) (simp add: triple_oreturn)
  next
    case True
    have c: "calendar (next_day t)" using calendar_next_day "1.prems" True by blast
    have d: "date_text (date_string (next_day t))" using c by (rule date_text_date_string)
    have rest: "triple (snapshot cap S B)
        (if add_int x rooms > y then oreturn res
         else check_loop env k rooms (next_day t) u (date_string (next_day t)) res')
        (\<lambda>_. snapshot cap S B) (consistent cap)" for x y res'
      using "1.IH" [OF True c "1.prems"(2)] by (cases "add_int x rooms > y") (simp_all add: triple_oreturn)
    show ?thesis
      using True
      by (subst check_loop.simps, simp only: if_True Let_def,
          intro triple_obind [OF check_count_triple [OF ok d]], unfold triple_pure, intro impI,
          intro triple_obind [OF capacity_triple [OF ok]], unfold triple_pure, intro impI)
        (simp only: rest)
  qed
qed

definition well_formed :: "reservation_request \<Rightarrow> bool" where
  "well_formed req \<longleftrightarrow> parse_date (InDate req) \<noteq> None \<and> parse_date (OutDate req) \<noteq> None \<and> 0 \<le> sint (RoomNumber req)"

lemma well_formed_calendar:
  "well_formed req \<Longrightarrow> calendar (parse_or_zero (InDate req)) \<and> calendar (parse_or_zero (OutDate req))"
  by (auto simp: well_formed_def parse_or_zero_def calendar_def dest: parse_date_valid)

lemma check_hotels_triple:
  assumes "store_ok init cap env" "well_formed req"
  shows "triple (snapshot cap S B) (check_hotels env req ks res) (\<lambda>_. snapshot cap S B) (consistent cap)"
  using well_formed_calendar [OF assms(2)]
  by (induction ks arbitrary: res)
    (auto intro!: triple_oreturn triple_obind check_loop_triple [OF assms(1)])

lemma rooms_bounds: "well_formed req \<Longrightarrow> 0 \<le> sint (RoomNumber req) \<and> sint (RoomNumber req) < 4611686018427387904"
  using sint32_bounds [of "RoomNumber req"] by (simp add: well_formed_def)

lemma book_triple:
  assumes ok: "store_ok init cap env" and wf: "well_formed req"
    and t: "t = parse_or_zero (InDate req)" and u: "u = parse_or_zero (OutDate req)"
    and fit: "room_left cap k (sint (RoomNumber req)) S (departures t u)"
  shows "triple (snapshot cap S B)
    (obind (cache_counts env (new_counts k (sint (RoomNumber req)) S (departures t u) [])) (\<lambda>_.
     obind (insert_loop env req k t u (date_string t)) (\<lambda>_. oreturn [k]))) (\<lambda>_. consistent cap) (consistent cap)"
proof (rule triple_assume)
  fix h
  assume s: "snapshot cap S B h"
  let ?ds = "departures t u" and ?n = "sint (RoomNumber req)"
  have c: "calendar t" "calendar u" using well_formed_calendar [OF wf] t u by simp_all
  have n: "0 \<le> ?n" using rooms_bounds [OF wf] by simp
  have ds: "distinct ?ds" "\<forall>d\<in>set ?ds. date_text d"
    using distinct_departures [OF c] departures_text [OF c] by blast+
  have m: "new_counts k ?n S ?ds [] = map (\<lambda>d. (memc_key k d, S k d + ?n)) ?ds"
    using new_counts_eq [OF ds, of k "[]"] by simp
  have "B k d \<le> S k d" if "d \<in> set ?ds" for d using snapshot_bounds(4) [OF ok s] ds(2) that by blast
  then have "\<forall>d\<in>set ?ds. B k d + ?n \<le> raise_counts k ?n ?ds S k d" by (simp add: raise_counts_def)
  then have ins: "triple (snapshot cap (raise_counts k ?n ?ds S) B) (insert_loop env req k t u (date_string t))
      (\<lambda>_. snapshot cap (raise_counts k ?n ?ds S) (raise_counts k ?n ?ds B)) (consistent cap)"
    by (rule insert_loop_triple [OF ok n c])
  have "triple (snapshot cap (raise_counts k ?n ?ds S) B)
      (obind (insert_loop env req k t u (date_string t)) (\<lambda>_. oreturn [k])) (\<lambda>_. consistent cap) (consistent cap)"
    by (rule triple_obind [OF ins]) (auto intro!: triple_oreturn snapshot_consistent)
  moreover have "triple (snapshot cap S B) (cache_counts env (map (\<lambda>d. (memc_key k d, S k d + ?n)) ?ds))
      (\<lambda>_. snapshot cap (raise_counts k ?n ?ds S) B) (consistent cap)"
    using fit n ds by (intro cache_counts_triple [OF ok]) (simp_all add: room_left_def)
  ultimately show "triple (snapshot cap S B)
    (obind (cache_counts env (new_counts k ?n S ?ds [])) (\<lambda>_.
     obind (insert_loop env req k t u (date_string t)) (\<lambda>_. oreturn [k]))) (\<lambda>_. consistent cap) (consistent cap)"
    unfolding m by (rule triple_obind [rotated])
qed

lemma MakeReservation_triple:
  assumes ok: "store_ok init cap env" and wf: "well_formed req"
  shows "triple (snapshot cap S B) (MakeReservation env req) (\<lambda>_. consistent cap) (consistent cap)"
proof (cases "HotelId req")
  case Nil
  then show ?thesis by (simp add: MakeReservation_def Let_def triple_opanic snapshot_consistent)
next
  case (Cons k ks)
  have c: "calendar (parse_or_zero (InDate req))" "calendar (parse_or_zero (OutDate req))"
    using well_formed_calendar [OF wf] by simp_all
  show ?thesis
    unfolding MakeReservation_def Let_def Cons list.case
  proof (rule triple_obind [OF make_loop_triple [OF ok _ _ c]])
    fix r
    let ?ds = "departures (parse_or_zero (InDate req)) (parse_or_zero (OutDate req))"
    show "triple (\<lambda>h. snapshot cap S B h \<and> (\<forall>m'. r = Some m' \<longrightarrow>
            m' = new_counts k (sint (RoomNumber req)) S ?ds [] \<and> room_left cap k (sint (RoomNumber req)) S ?ds))
        (case r of None \<Rightarrow> oreturn []
         | Some m \<Rightarrow> obind (cache_counts env m) (\<lambda>_.
             obind (insert_loop env req k (parse_or_zero (InDate req)) (parse_or_zero (OutDate req))
               (date_string (parse_or_zero (InDate req)))) (\<lambda>_. oreturn [k])))
        (\<lambda>_. consistent cap) (consistent cap)"
      using book_triple [OF ok wf refl refl, of k S B]
      by (cases r) (auto simp: triple_def snapshot_consistent)
  qed (use rooms_bounds [OF wf] in simp_all)
qed

text \<open>Any sequence of well-formed bookings and availability checks, starting with an empty log.\<close>

inductive session :: "store_env \<Rightarrow> store_event list \<Rightarrow> bool" for env where
  opened: "session env []"
| booking: "\<lbrakk>session env h; well_formed req\<rbrakk> \<Longrightarrow> session env (snd (run_state (MakeReservation env req) h))"
| check: "\<lbrakk>session env h; well_formed req\<rbrakk> \<Longrightarrow> session env (snd (run_state (CheckAvailability env req) h))"

lemma triple_consistent:
  assumes "\<And>S B. triple (snapshot cap S B) m (\<lambda>_. consistent cap) (consistent cap)" and "consistent cap h"
  shows "consistent cap (snd (run_state m h))"
proof -
  have "snapshot cap (cached_count h) (booked h) h" using assms(2) by (simp add: snapshot_def)
  with assms(1) have "case run_state m h of (Ret x, h') \<Rightarrow> consistent cap h'
      | (Panic e, h') \<Rightarrow> consistent cap h' | (Fatal s, h') \<Rightarrow> consistent cap h'"
    unfolding triple_def by simp
  then show ?thesis by (cases "run_state m h"; cases "fst (run_state m h)") auto
qed

lemma session_consistent:
  assumes ok: "store_ok init cap env" and "session env h"
  shows "consistent cap h"
  using assms(2)
proof (induction rule: session.induct)
  case opened
  show ?case using cap_bounds [OF ok] by (simp add: consistent_def cached_count_def)
next
  case (booking h req)
  show ?case
    by (rule triple_consistent [OF MakeReservation_triple [OF ok booking.hyps(2)] booking.IH])
next
  case (check h req)
  have "triple (snapshot cap S B) (CheckAvailability env req) (\<lambda>_. consistent cap) (consistent cap)" for S B
    unfolding CheckAvailability_def
    by (rule triple_conseq [OF check_hotels_triple [OF ok check.hyps(2)]]) (auto intro: snapshot_consistent)
  then show ?case by (rule triple_consistent) (rule check.IH)
qed

subsection \<open>Properties\<close>


definition ten_rooms :: "store_env \<Rightarrow> store_env" where
  "ten_rooms env = env\<lparr>mongo_find_one := \<lambda>h c q. Inr (number_doc (str_field ''hotelid'' q) 10)\<rparr>"

definition demo_stay :: reservation_request where
  "demo_stay = \<lparr>CustomerName = ''Ann'', HotelId = [''2''], InDate = ''2015-04-09'', OutDate = ''2015-04-10'', RoomNumber = 10\<rparr>"

text \<open>The collection of bookings as the service seeds it, and the rooms of one hotel.\<close>

definition seeded :: "string \<Rightarrow> document list" where
  "seeded c = (if c = ''reservation'' then [reservation_doc alice_booking]
     else if c = ''number'' then [number_doc ''4'' 200] else [])"

lemma store_ok_ten_rooms: "store_ok seeded (\<lambda>k. 10) (ten_rooms (memory_store seeded))"
  by (auto simp: store_ok_def ten_rooms_def memory_store_def memc_keeps_def mongo_finds_def own_documents_def
      str_field_def seeded_def)

lemma demo_dates:
  "parse_or_zero ''2015-04-09'' = \<lparr>Year = 2015, Month = 4, Day = 9, Noon = True\<rparr>"
  "parse_or_zero ''2015-04-10'' = \<lparr>Year = 2015, Month = 4, Day = 10, Noon = True\<rparr>"
  "next_day \<lparr>Year = 2015, Month = 4, Day = 9, Noon = True\<rparr> = \<lparr>Year = 2015, Month = 4, Day = 10, Noon = True\<rparr>"
  "date_string \<lparr>Year = 2015, Month = 4, Day = 10, Noon = True\<rparr> = ''2015-04-10''"
  "before \<lparr>Year = 2015, Month = 4, Day = 9, Noon = True\<rparr> \<lparr>Year = 2015, Month = 4, Day = 10, Noon = True\<rparr>"
  "parse_date ''2015-04-09'' \<noteq> None" "parse_date ''2015-04-10'' \<noteq> None"
  by code_simp+


text \<open>The booking the database is seeded with is never counted: all 200 rooms of that hotel can still be
  booked for its night.\<close>

definition full_house :: reservation_request where
  "full_house = \<lparr>CustomerName = ''Bob'', HotelId = [''4''], InDate = ''2015-04-09'', OutDate = ''2015-04-10'', RoomNumber = 200\<rparr>"

theorem seeded_night_overbooked:
  "\<exists>h. run_state (MakeReservation (memory_store seeded) full_house) [] = (Ret [''4''], h) \<and>
     rooms_taken (stored seeded h ''reservation'') ''4'' ''2015-04-10'' = 201"
proof -
  have find: "mongo_find (memory_store seeded) h' ''reservation'' (reservation_query ''4'' i out) = Inr []"
    if "stored seeded h' ''reservation'' = [reservation_doc alice_booking]" for h' i out
    using that by (simp add: memory_store_def query_never_matches)
  have "mongo_find_one (memory_store seeded) h' ''number'' [(''hotelid'', BStr ''4'')] = Inr (number_doc ''4'' 200)"
    if "stored seeded h' ''number'' = [number_doc ''4'' 200]" for h'
    using that by (simp add: memory_store_def doc_matches_def number_doc_def)
  moreover have "memc_get (memory_store seeded) h' k' = (case cached_value h' k' of Some v \<Rightarrow> Hit v | None \<Rightarrow> CacheMiss)"
    "memc_set (memory_store seeded) h' k' v = None" "mongo_insert (memory_store seeded) h' c doc = None" for h' k' v c doc
    by (simp_all add: memory_store_def)
  ultimately show ?thesis
    using find
    by (simp add: MakeReservation_def full_house_def demo_dates Let_def make_loop.simps insert_loop.simps
        make_count_def reserved_in_db_def hotel_capacity_def store_calls run_state_bind
        count_reserved_def add_int_def memc_key_def stored_def cached_value_def seeded_def rooms_taken_def alice_booking_def)
qed

text \<open>
  A booking is never found in the database again. The lookup after a cache miss asks
  for the fields \<open>inDate\<close> and \<open>outDate\<close>, the bookings are stored under \<open>indate\<close> and \<open>outdate\<close>,
  so if the collection holds only what this service inserts, every lookup yields 0.
\<close>

theorem bookings_never_found:
  assumes "mongo_finds init env" and "own_documents (init ''reservation'')" and "\<forall>e\<in>set h. own_event e"
  shows "fst (run_state (reserved_in_db env hotelId indate outdate) h) = Ret 0"
proof -
  have "own_documents (stored init h ''reservation'')"
    using assms(2,3) by (intro stored_own) simp_all
  then have "filter (doc_matches (reservation_query hotelId indate outdate)) (stored init h ''reservation'') = []"
    by (auto simp: filter_empty_conv own_documents_def query_never_matches)
  then show ?thesis
    using assms(1) by (simp add: reserved_in_db_def findAll_def mongo_finds_def count_reserved_def)
qed

theorem bookings_never_found_witness:
  "fst (run_state (reserved_in_db (memory_store (\<lambda>c. [])) ''4'' ''2015-04-09'' ''2015-04-10'')
     [Insert ''reservation'' (reservation_doc \<lparr>ResHotelId = ''4'', ResCustomerName = ''Alice'',
        ResInDate = ''2015-04-09'', ResOutDate = ''2015-04-10'', ResNumber = 1\<rparr>) None]) = Ret 0"
  by (rule bookings_never_found [of "\<lambda>c. []"])
    (auto simp: mongo_finds_def memory_store_def own_documents_def)

lemma MakeReservation_forgetful:
  "\<exists>new. run_state (MakeReservation (ten_rooms (forgetful_store (\<lambda>c. []))) demo_stay) h = (Ret [''2''], h @ new) \<and>
     booked (h @ new) ''2'' ''2015-04-10'' = booked h ''2'' ''2015-04-10'' + 10 \<and> (\<forall>e\<in>set new. own_event e)"
  if "\<forall>e\<in>set h. own_event e"
proof -
  let ?env = "ten_rooms (forgetful_store (\<lambda>c. []))"
  have miss: "memc_get ?env h' k = CacheMiss" "memc_set ?env h' k v = None" "mongo_insert ?env h' c d = None"
    "mongo_find_one ?env h' c [(''hotelid'', BStr k)] = Inr (number_doc k 10)" for h' k v c d
    by (simp_all add: ten_rooms_def forgetful_store_def memory_store_def str_field_def)
  have "filter (doc_matches (reservation_query k i out)) (stored (\<lambda>c. []) h' ''reservation'') = []"
    if "\<forall>e\<in>set h'. own_event e" for h' k i out
    using stored_own [of "\<lambda>c. []" h'] that by (auto simp: filter_empty_conv own_documents_def query_never_matches)
  then have find: "mongo_find ?env h' ''reservation'' (reservation_query k i out) = Inr []"
    if "\<forall>e\<in>set h'. own_event e" for h' k i out
    using that by (simp add: ten_rooms_def forgetful_store_def memory_store_def)
  show ?thesis
    using that
    by (simp add: MakeReservation_def demo_stay_def demo_dates Let_def make_loop.simps insert_loop.simps
        make_count_def reserved_in_db_def hotel_capacity_def store_calls run_state_bind miss find
        count_reserved_def add_int_def booked_def)
      auto
qed

text \<open>
  Hence a hotel can be overbooked as soon as the cache loses an entry. With a cache
  that forgets, two bookings of all ten rooms of a hotel for the same night both succeed, and
  20 rooms are booked.
\<close>

theorem overbooking_after_eviction:
  "let env = ten_rooms (forgetful_store (\<lambda>c. []));
       (r1, h1) = run_state (MakeReservation env demo_stay) [];
       (r2, h2) = run_state (MakeReservation env demo_stay) h1
   in r1 = Ret [''2''] \<and> r2 = Ret [''2''] \<and> booked h2 ''2'' ''2015-04-10'' = 20"
proof -
  let ?m = "MakeReservation (ten_rooms (forgetful_store (\<lambda>c. []))) demo_stay"
  obtain n1 where 1: "run_state ?m [] = (Ret [''2''], n1)" "booked n1 ''2'' ''2015-04-10'' = 10" "\<forall>e\<in>set n1. own_event e"
    using MakeReservation_forgetful [of "[]"] by auto
  obtain n2 where 2: "run_state ?m n1 = (Ret [''2''], n1 @ n2)" "booked (n1 @ n2) ''2'' ''2015-04-10'' = 20"
    using MakeReservation_forgetful [OF 1(3)] 1(2) by auto
  show ?thesis by (simp only: Let_def prod.case 1 2)
qed

text \<open>
  A stay without nights (the departure is not after the arrival, or a date does not
  parse) is booked at once, with no check and no insertion, while the availability check
  reports no hotel for it.
\<close>

theorem empty_stay:
  assumes "\<not> before (parse_or_zero (InDate req)) (parse_or_zero (OutDate req))" and "HotelId req = k # ks"
  shows "run_state (MakeReservation env req) h = (Ret [k], h) \<and>
    run_state (CheckAvailability env req) h = (Ret [], h)"
proof -
  have "run_state (check_hotels env req hs res) h = (Ret res, h)" for hs res
    using assms(1) by (induction hs arbitrary: res) (simp_all add: check_loop.simps)
  then show ?thesis
    using assms(1) by (simp add: MakeReservation_def CheckAvailability_def Let_def make_loop.simps insert_loop.simps assms(2) del: check_hotels.simps)
qed

theorem empty_stay_witness:
  "run_state (MakeReservation env (demo_stay\<lparr>OutDate := ''never''\<rparr>)) h = (Ret [''2''], h)"
proof -
  have "\<not> before (parse_or_zero ''2015-04-09'') (parse_or_zero ''never'')"
    by code_simp
  then show ?thesis using empty_stay [of "demo_stay\<lparr>OutDate := ''never''\<rparr>" "''2''" "[]"] by (simp add: demo_stay_def)
qed

end
