(* ===== verification/RateService.thy ===== *)
theory RateService
  imports HotelStore
begin

text \<open>
  \<open>benchmarks/hotel-app/rate\<close> (\<open>server.go\<close>, \<open>db.go\<close>): the rate plans of hotels, cached per hotel
  in memcached as one JSON text per line. The JSON codec and \<open>sort.Sort\<close> are parameters; what
  the theorems need of them are the predicates \<open>json_ok\<close> and \<open>sorts\<close>.
\<close>

subsection \<open>Data\<close>

record room_type =
  BookableRate :: rat
  RtCode :: string
  RoomDescription :: string
  TotalRate :: rat
  TotalRateInclusive :: rat

record rate_plan =
  RpHotelId :: string
  RpCode :: string
  RpInDate :: string
  RpOutDate :: string
  RoomType :: "room_type option"

definition zero_plan :: rate_plan where
  "zero_plan = \<lparr>RpHotelId = '''', RpCode = '''', RpInDate = '''', RpOutDate = '''', RoomType = None\<rparr>"

definition room_doc :: "room_type \<Rightarrow> document" where
  "room_doc t = [(''bookablerate'', BNum (BookableRate t)), (''code'', BStr (RtCode t)),
     (''roomdescription'', BStr (RoomDescription t)), (''totalrate'', BNum (TotalRate t)),
     (''totalrateinclusive'', BNum (TotalRateInclusive t))]"

definition plan_doc :: "rate_plan \<Rightarrow> document" where
  "plan_doc p = [(''hotelid'', BStr (RpHotelId p)), (''code'', BStr (RpCode p)),
     (''indate'', BStr (RpInDate p)), (''outdate'', BStr (RpOutDate p))] @
     (case RoomType p of None \<Rightarrow> [] | Some t \<Rightarrow> [(''roomtype'', BDoc (room_doc t))])"

definition doc_plan :: "document \<Rightarrow> rate_plan" where
  "doc_plan d = \<lparr>RpHotelId = str_field ''hotelid'' d, RpCode = str_field ''code'' d,
     RpInDate = str_field ''indate'' d, RpOutDate = str_field ''outdate'' d,
     RoomType = (case map_of d ''roomtype'' of
       Some (BDoc e) \<Rightarrow> Some \<lparr>BookableRate = num_field ''bookablerate'' e, RtCode = str_field ''code'' e,
         RoomDescription = str_field ''roomdescription'' e, TotalRate = num_field ''totalrate'' e,
         TotalRateInclusive = num_field ''totalrateinclusive'' e\<rparr>
     | _ \<Rightarrow> None)\<rparr>"

lemma doc_plan_doc [simp]: "doc_plan (plan_doc p) = p"
  by (cases "RoomType p") (auto simp: doc_plan_def plan_doc_def room_doc_def str_field_def num_field_def)

text \<open>\<open>strings.Split(s, "\n")\<close>.\<close>

fun split_newline :: "string \<Rightarrow> string \<Rightarrow> string list" where
  "split_newline word [] = [word]"
| "split_newline word (c # cs) =
     (if c = CHR 0x0A then word # split_newline [] cs else split_newline (word @ [c]) cs)"

subsection \<open>\<open>GetRates\<close>\<close>

text \<open>A cache hit: for every line that is not empty the whole item, not the line, is decoded; an
  error is only logged, and leaves the plan as far as it was filled in.\<close>

definition plans_of_hit :: "rate_plan codec \<Rightarrow> string \<Rightarrow> rate_plan list" where
  "plans_of_hit j v =
     foldl (\<lambda>plans rate_str. if length rate_str \<noteq> 0 then plans @ [fst (decode j v)] else plans)
       [] (split_newline [] v)"

definition memc_str :: "rate_plan codec \<Rightarrow> rate_plan list \<Rightarrow> string" where
  "memc_str j plans = foldl (\<lambda>s r. s @ encode j r @ ''\<newline>'') '''' plans"

definition hotel_plans :: "store_env \<Rightarrow> rate_plan codec \<Rightarrow> string \<Rightarrow> rate_plan list outcome hotel" where
  "hotel_plans env j hotelID =
     State_Monad.bind (memcGet env hotelID) (\<lambda>item.
       case item of
         Hit v \<Rightarrow> oreturn (plans_of_hit j v)
       | CacheMiss \<Rightarrow>
           obind (or_panic (findAll env ''inventory'' [(''hotelid'', BStr hotelID)])) (\<lambda>docs.
           let tmpRatePlans = map doc_plan docs
           in obind (ignore_result (memcSet env hotelID (memc_str j tmpRatePlans))) (\<lambda>_.
              oreturn tmpRatePlans))
       | MemcError e \<Rightarrow> opanic e)"

primrec collect_plans :: "store_env \<Rightarrow> rate_plan codec \<Rightarrow> string list \<Rightarrow> rate_plan list \<Rightarrow> rate_plan list outcome hotel" where
  "collect_plans env j [] ratePlans = oreturn ratePlans"
| "collect_plans env j (hotelID # hotelIDs) ratePlans =
     obind (hotel_plans env j hotelID) (\<lambda>plans. collect_plans env j hotelIDs (ratePlans @ plans))"

text \<open>\<open>Less\<close> of the slice type; comparing a plan without a room type dereferences nil.\<close>

definition plan_less :: "rate_plan \<Rightarrow> rate_plan \<Rightarrow> bool outcome" where
  "plan_less p q =
     (case (RoomType p, RoomType q) of
        (Some s, Some t) \<Rightarrow> Ret (TotalRate s > TotalRate t) | _ \<Rightarrow> Panic nil_deref)"

type_synonym sorter = "rate_plan list \<Rightarrow> rate_plan list"

text \<open>\<open>sort.Sort\<close> compares nothing in a list of at most one element, and every element of a
  longer one at least once, so it panics exactly if it meets a plan without a room type.\<close>

definition sort_plans :: "sorter \<Rightarrow> rate_plan list \<Rightarrow> rate_plan list outcome" where
  "sort_plans srt plans =
     (if length plans \<le> 1 then Ret plans
      else if list_ex (\<lambda>p. plan_less p p = Panic nil_deref) plans then Panic nil_deref
      else Ret (srt plans))"

definition GetRates :: "store_env \<Rightarrow> rate_plan codec \<Rightarrow> sorter \<Rightarrow> string list \<Rightarrow> rate_plan list outcome hotel" where
  "GetRates env j srt hotelIds =
     obind (collect_plans env j hotelIds []) (\<lambda>ratePlans. State_Monad.return (sort_plans srt ratePlans))"

subsection \<open>\<open>initializeDatabase\<close>\<close>

definition king_room :: "rat \<Rightarrow> rat \<Rightarrow> room_type" where
  "king_room rate rate_inc = \<lparr>BookableRate = rate, RtCode = ''KNG'', RoomDescription = ''King sized bed'',
     TotalRate = rate, TotalRateInclusive = rate_inc\<rparr>"

definition rack_plan :: "string \<Rightarrow> string \<Rightarrow> room_type \<Rightarrow> rate_plan" where
  "rack_plan hotel outdate t = \<lparr>RpHotelId = hotel, RpCode = ''RACK'', RpInDate = ''2015-04-09'',
     RpOutDate = outdate, RoomType = Some t\<rparr>"

definition hotel_rates :: "nat \<Rightarrow> rat \<times> rat" where
  "hotel_rates i =
     (if i mod 5 = 1 then (120, 140) else if i mod 5 = 2 then (124, 144)
      else if i mod 5 = 3 then (132, 158) else if i mod 5 = 4 then (232, 258)
      else (109, fl_round (12317 / 100)))"

definition generated_plan :: "nat \<Rightarrow> rate_plan" where
  "generated_plan i =
     rack_plan (itoa (int i)) (''2015-04-'' @ (if i mod 2 = 0 then ''17'' else ''24''))
       (king_room (fst (hotel_rates i)) (snd (hotel_rates i)))"

definition plan1 :: rate_plan where
  "plan1 = rack_plan ''1'' ''2015-04-10'' (king_room 109 (fl_round (12317 / 100)))"

definition later_plans :: "rate_plan list" where
  "later_plans =
     [rack_plan ''2'' ''2015-04-10'' \<lparr>BookableRate = 139, RtCode = ''QN'', RoomDescription = ''Queen sized bed'',
        TotalRate = 139, TotalRateInclusive = fl_round (15309 / 100)\<rparr>,
      rack_plan ''3'' ''2015-04-10'' (king_room 109 (fl_round (12317 / 100)))] @
     map generated_plan (filter (\<lambda>i. i mod 3 = 0) [7..<81])"

text \<open>The first plan, of hotel 1, is inserted when there is none of hotel 2.\<close>

definition initializeRateDatabase :: "store_env \<Rightarrow> string \<Rightarrow> unit outcome hotel" where
  "initializeRateDatabase env url =
     obind (or_panic_err (mongoDial env url)) (\<lambda>_.
     obind (ignore_result (dropCollection env ''inventory'')) (\<lambda>_.
     obind (or_fatal ''count'' (findCount env ''inventory'' [])) (\<lambda>_.
     obind (seed_doc env ''inventory'' ''hotelid'' ''2'' (plan_doc plan1)) (\<lambda>_.
     obind (seed_docs env ''inventory'' ''hotelid'' (map (\<lambda>p. (RpHotelId p, plan_doc p)) later_plans)) (\<lambda>_.
     or_fatal_err ''index'' (ensureIndexKey env ''inventory'' ''hotelid''))))))"

subsection \<open>The cache\<close>

text \<open>What is assumed of the JSON codec, on a set \<open>P\<close> of plans: a text is not empty and has no line
  break, decoding ignores the line break after it, and two texts in a row are a syntax error
  that leaves the plan as it was, that is zero.\<close>

definition json_ok :: "rate_plan codec \<Rightarrow> rate_plan set \<Rightarrow> bool" where
  "json_ok j P \<longleftrightarrow>
     (\<forall>p\<in>P. encode j p \<noteq> [] \<and> CHR 0x0A \<notin> set (encode j p) \<and> decode j (encode j p @ ''\<newline>'') = (p, None)) \<and>
     (\<forall>p\<in>P. \<forall>q\<in>P. \<forall>rest. \<exists>e. decode j (encode j p @ ''\<newline>'' @ encode j q @ ''\<newline>'' @ rest) = (zero_plan, Some e))"

lemma memc_str_eq: "memc_str j ps = concat (map (\<lambda>r. encode j r @ ''\<newline>'') ps)"
proof -
  have "foldl (\<lambda>s r. s @ encode j r @ ''\<newline>'') acc ps = acc @ concat (map (\<lambda>r. encode j r @ ''\<newline>'') ps)" for acc
    by (induction ps arbitrary: acc) simp_all
  then show ?thesis by (simp add: memc_str_def)
qed

lemma split_newline_word:
  "CHR 0x0A \<notin> set w \<Longrightarrow> split_newline acc (w @ CHR 0x0A # rest) = (acc @ w) # split_newline [] rest"
  by (induction w arbitrary: acc) auto

lemma split_memc_str:
  "\<lbrakk>json_ok j P; set ps \<subseteq> P\<rbrakk> \<Longrightarrow> split_newline [] (memc_str j ps) = map (encode j) ps @ ['''']"
  unfolding memc_str_eq
  by (induction ps) (auto simp: split_newline_word json_ok_def)

lemma plans_of_hit_eq:
  "plans_of_hit j v = replicate (length (filter (\<lambda>s. s \<noteq> '''') (split_newline [] v))) (fst (decode j v))"
proof -
  have "foldl (\<lambda>plans rate_str. if length rate_str \<noteq> 0 then plans @ [fst (decode j v)] else plans) acc xs =
      acc @ replicate (length (filter (\<lambda>s. s \<noteq> '''') xs)) (fst (decode j v))" for acc and xs :: "string list"
    by (induction xs arbitrary: acc) (simp_all flip: replicate_append_same)
  then show ?thesis by (simp add: plans_of_hit_def)
qed

lemma plans_of_own_hit:
  assumes "json_ok j P" and "set ps \<subseteq> P"
  shows "plans_of_hit j (memc_str j ps) = (if length ps \<le> 1 then ps else replicate (length ps) zero_plan)"
proof -
  have "\<forall>p\<in>set ps. encode j p \<noteq> []" using assms by (auto simp: json_ok_def)
  then have n: "length (filter (\<lambda>s. s \<noteq> '''') (split_newline [] (memc_str j ps))) = length ps"
    by (simp add: split_memc_str [OF assms] filter_map comp_def)
  show ?thesis
  proof (cases ps)
    case Nil
    then show ?thesis using n by (simp add: plans_of_hit_eq)
  next
    case (Cons p qs)
    then have p: "p \<in> P" using assms(2) by simp
    show ?thesis
    proof (cases qs)
      case Nil
      then show ?thesis
        using assms(1) p n Cons by (simp add: plans_of_hit_eq memc_str_eq json_ok_def)
    next
      case (Cons q rs)
      have "q \<in> P" using assms(2) \<open>ps = p # qs\<close> Cons by simp
      then obtain e where "decode j (encode j p @ ''\<newline>'' @ encode j q @ ''\<newline>'' @
          concat (map (\<lambda>r. encode j r @ ''\<newline>'') rs)) = (zero_plan, Some e)"
        using assms(1) p unfolding json_ok_def by blast
      then have "fst (decode j (memc_str j ps)) = zero_plan"
        by (simp add: memc_str_eq \<open>ps = p # qs\<close> Cons)
      then show ?thesis using n \<open>ps = p # qs\<close> Cons by (simp add: plans_of_hit_eq)
    qed
  qed
qed

lemma cached_value_own:
  "cached_value (h @ [MemcGet k r, Find c q d, MemcSet k v None]) k = Some v"
  by (simp add: cached_value_append)

lemma hotel_plans_miss:
  assumes "memc_keeps env" and "cached_value h k = None"
    and "\<And>h. mongo_find env h ''inventory'' [(''hotelid'', BStr k)] = Inr docs"
  shows "run_state (hotel_plans env j k) h = (Ret (map doc_plan docs),
    h @ [MemcGet k CacheMiss, Find ''inventory'' [(''hotelid'', BStr k)] (Inr docs),
         MemcSet k (memc_str j (map doc_plan docs)) None])"
  using assms by (simp add: hotel_plans_def store_calls run_state_bind memc_keeps_def Let_def)

lemma hotel_plans_hit:
  assumes "memc_keeps env" and "cached_value h k = Some v"
  shows "run_state (hotel_plans env j k) h = (Ret (plans_of_hit j v), h @ [MemcGet k (Hit v)])"
  using assms by (simp add: hotel_plans_def store_calls run_state_bind memc_keeps_def)

text \<open>Hotels with one plan at most. The specification: the plans of the hotels asked for, sorted; no
  entry of the cache is then read back differently from the database.\<close>

definition rates_in :: "document list \<Rightarrow> string \<Rightarrow> rate_plan list" where
  "rates_in ds i = map doc_plan (filter (doc_matches [(''hotelid'', BStr i)]) ds)"

definition rates_cached :: "(string \<Rightarrow> document list) \<Rightarrow> rate_plan codec \<Rightarrow> document list \<Rightarrow> store_event list \<Rightarrow> bool" where
  "rates_cached init j ds h \<longleftrightarrow> stored init h ''inventory'' = ds \<and>
     (\<forall>k v. cached_value h k = Some v \<longrightarrow> v = memc_str j (rates_in ds k))"

definition rates_ready ::
  "store_env \<Rightarrow> (string \<Rightarrow> document list) \<Rightarrow> rate_plan codec \<Rightarrow> document list \<Rightarrow> store_event list \<Rightarrow> bool"
where
  "rates_ready env init j ds h \<longleftrightarrow> memc_sound env \<and> mongo_finds init env \<and> json_ok j (doc_plan ` set ds) \<and>
     (\<forall>i. length (rates_in ds i) \<le> 1) \<and> (\<forall>d\<in>set ds. RoomType (doc_plan d) \<noteq> None) \<and> rates_cached init j ds h"

lemma rates_in_subset: "set (rates_in ds i) \<subseteq> doc_plan ` set ds"
  by (auto simp: rates_in_def)

lemma hotel_plans_ready:
  assumes "rates_ready env init j ds h"
  shows "\<exists>new. run_state (hotel_plans env j i) h = (Ret (rates_in ds i), h @ new) \<and> rates_ready env init j ds (h @ new)"
proof -
  have json: "json_ok j (doc_plan ` set ds)" and ds: "stored init h ''inventory'' = ds" and one: "length (rates_in ds i) \<le> 1"
    and ca: "\<And>k v. cached_value h k = Some v \<Longrightarrow> v = memc_str j (rates_in ds k)"
    using assms by (simp_all add: rates_ready_def rates_cached_def)
  have keep: "rates_ready env init j ds (h @ new)" if "rates_cached init j ds (h @ new)" for new
    using assms that by (simp add: rates_ready_def)
  consider v where "memc_get env h i = Hit v" "cached_value h i = Some v" | "memc_get env h i = CacheMiss"
    using assms unfolding rates_ready_def memc_sound_def by blast
  then show ?thesis
  proof cases
    case 1
    then have "v = memc_str j (rates_in ds i)" using ca by blast
    then have "run_state (hotel_plans env j i) h = (Ret (rates_in ds i), h @ [MemcGet i (Hit v)])"
      using 1(1) one by (simp add: hotel_plans_def memcGet_def run_state_bind plans_of_own_hit [OF json rates_in_subset])
    moreover have "rates_cached init j ds (h @ [MemcGet i (Hit v)])"
      using ds ca by (simp add: rates_cached_def stored_snoc cached_value_snoc)
    ultimately show ?thesis using keep by blast
  next
    case 2
    let ?found = "filter (doc_matches [(''hotelid'', BStr i)]) ds"
    have "mongo_find env (h @ [MemcGet i CacheMiss]) ''inventory'' [(''hotelid'', BStr i)] = Inr ?found"
      using assms ds unfolding rates_ready_def mongo_finds_def by (simp add: stored_snoc)
    then have "run_state (hotel_plans env j i) h = (Ret (rates_in ds i), h @ [MemcGet i CacheMiss,
        Find ''inventory'' [(''hotelid'', BStr i)] (Inr ?found), MemcSet i (memc_str j (rates_in ds i))
          (memc_set env (h @ [MemcGet i CacheMiss, Find ''inventory'' [(''hotelid'', BStr i)] (Inr ?found)]) i (memc_str j (rates_in ds i)))])"
      using 2 by (simp add: hotel_plans_def store_calls run_state_bind Let_def rates_in_def)
    moreover have "rates_cached init j ds (h @ [MemcGet i CacheMiss,
        Find ''inventory'' [(''hotelid'', BStr i)] (Inr ?found), MemcSet i (memc_str j (rates_in ds i)) r])" for r
      unfolding rates_cached_def stored_append cached_value_append by (cases r) (auto simp: ds ca)
    ultimately show ?thesis using keep by blast
  qed
qed

lemma collect_plans_ready:
  "rates_ready env init j ds h \<Longrightarrow> \<exists>new. run_state (collect_plans env j is acc) h =
     (Ret (acc @ concat (map (rates_in ds) is)), h @ new) \<and> rates_ready env init j ds (h @ new)"
proof (induction "is" arbitrary: h acc)
  case Nil
  then show ?case by (auto intro: exI [of _ "[]"])
next
  case (Cons i js)
  obtain new where 1: "run_state (hotel_plans env j i) h = (Ret (rates_in ds i), h @ new)" "rates_ready env init j ds (h @ new)"
    using hotel_plans_ready [OF Cons.prems] by blast
  obtain new' where "run_state (collect_plans env j js (acc @ rates_in ds i)) (h @ new) =
      (Ret ((acc @ rates_in ds i) @ concat (map (rates_in ds) js)), (h @ new) @ new')" "rates_ready env init j ds ((h @ new) @ new')"
    using Cons.IH [OF 1(2)] by blast
  with 1(1) show ?case by (intro exI [of _ "new @ new'"]) simp
qed

definition sorted_rates :: "sorter \<Rightarrow> document list \<Rightarrow> string list \<Rightarrow> rate_plan list" where
  "sorted_rates srt ds is = (let ps = concat (map (rates_in ds) is) in if length ps \<le> 1 then ps else srt ps)"

lemma sort_plans_ready:
  assumes "\<forall>d\<in>set ds. RoomType (doc_plan d) \<noteq> None"
  shows "sort_plans srt (concat (map (rates_in ds) is)) = Ret (sorted_rates srt ds is)"
proof -
  have "\<forall>p\<in>set (concat (map (rates_in ds) is)). RoomType p \<noteq> None"
    using assms rates_in_subset by fastforce
  then have "\<not> list_ex (\<lambda>p. plan_less p p = Panic nil_deref) (concat (map (rates_in ds) is))"
    by (auto simp: list_ex_iff plan_less_def split: option.splits)
  then show ?thesis by (simp add: sort_plans_def sorted_rates_def Let_def)
qed

interpretation rates: transparent_service "GetRates env j srt" "sorted_rates srt ds" "rates_ready env init j ds"
  for env init j ds srt
proof unfold_locales
  fix h hotelIds assume ready: "rates_ready env init j ds h"
  obtain new where "run_state (collect_plans env j hotelIds []) h = (Ret (concat (map (rates_in ds) hotelIds)), h @ new)"
    "rates_ready env init j ds (h @ new)"
    using collect_plans_ready [OF ready, of hotelIds "[]"] by auto
  moreover have "\<forall>d\<in>set ds. RoomType (doc_plan d) \<noteq> None" using ready by (simp add: rates_ready_def)
  ultimately show "\<exists>new. run_state (GetRates env j srt hotelIds) h = (Ret (sorted_rates srt ds hotelIds), h @ new) \<and>
      rates_ready env init j ds (h @ new)"
    using sort_plans_ready by (intro exI [of _ new]) (simp add: GetRates_def run_state_return)
qed

definition sorts :: "sorter \<Rightarrow> bool" where
  "sorts srt \<longleftrightarrow> (\<forall>ps. length (srt ps) = length ps \<and> set (srt ps) = set ps \<and>
     sorted_wrt (\<lambda>p q. case (RoomType p, RoomType q) of
       (Some s, Some t) \<Rightarrow> TotalRate t \<le> TotalRate s | _ \<Rightarrow> True) (srt ps))"

lemma sort_plans_cases:
  assumes "sorts srt" and "sort_plans srt ps = Ret qs"
  shows "set qs = set ps \<and> sorted_wrt (\<lambda>p q. \<exists>s t. RoomType p = Some s \<and> RoomType q = Some t \<and>
    TotalRate t \<le> TotalRate s) qs"
proof (cases "length ps \<le> 1")
  case True
  with assms(2) have "qs = ps" by (simp add: sort_plans_def)
  with True show ?thesis by (cases qs) auto
next
  case False
  with assms(2) have qs: "qs = srt ps" and r: "\<forall>p\<in>set ps. RoomType p \<noteq> None"
    by (auto simp: sort_plans_def list_ex_iff plan_less_def split: if_splits option.splits)
  have s: "set qs = set ps" "sorted_wrt (\<lambda>p q. case (RoomType p, RoomType q) of
       (Some s, Some t) \<Rightarrow> TotalRate t \<le> TotalRate s | _ \<Rightarrow> True) qs"
    using assms(1) by (auto simp: sorts_def qs)
  have "sorted_wrt (\<lambda>p q. \<exists>s t. RoomType p = Some s \<and> RoomType q = Some t \<and> TotalRate t \<le> TotalRate s) qs"
    by (rule sorted_wrt_mono_rel [OF _ s(2)]) (use r s(1) in \<open>auto split: option.splits\<close>)
  with s(1) show ?thesis by simp
qed

subsection \<open>Properties\<close>

text \<open>
  What a hotel's rates are the second time. The first lookup of a hotel takes its
  plans from the database and caches them; the next one, from the cache, yields the same plans
  if there is at most one, and otherwise only empty plans, because the code decodes the whole
  cached item for every line of it.
\<close>

theorem rates_from_cache:
  assumes "memc_keeps env" and "cached_value h k = None"
    and "\<And>h. mongo_find env h ''inventory'' [(''hotelid'', BStr k)] = Inr docs"
    and "json_ok j P" and "set (map doc_plan docs) \<subseteq> P"
  shows "\<exists>h'. run_state (hotel_plans env j k) h = (Ret (map doc_plan docs), h') \<and>
    (\<exists>h''. run_state (hotel_plans env j k) h' =
      (Ret (if length docs \<le> 1 then map doc_plan docs else replicate (length docs) zero_plan), h''))"
proof -
  let ?h' = "h @ [MemcGet k CacheMiss, Find ''inventory'' [(''hotelid'', BStr k)] (Inr docs),
         MemcSet k (memc_str j (map doc_plan docs)) None]"
  have "run_state (hotel_plans env j k) ?h' =
      (Ret (plans_of_hit j (memc_str j (map doc_plan docs))),
       ?h' @ [MemcGet k (Hit (memc_str j (map doc_plan docs)))])"
    by (rule hotel_plans_hit [OF assms(1) cached_value_own])
  then show ?thesis
    using hotel_plans_miss [OF assms(1-3)] plans_of_own_hit [OF assms(4,5)] by auto
qed

text \<open>A codec for the two seeded plans of the examples.\<close>

definition plan2 :: rate_plan where "plan2 = plan1\<lparr>RpCode := ''BAR''\<rparr>"

definition demo_codec :: "rate_plan codec" where
  "demo_codec = \<lparr>encode = \<lambda>p. if p = plan1 then ''1'' else ''2'',
     decode = \<lambda>s. if s = ''1'' @ ''\<newline>'' then (plan1, None) else if s = ''2'' @ ''\<newline>'' then (plan2, None)
                   else (zero_plan, Some (NewError ''invalid character after top-level value''))\<rparr>"

lemma plan2_neq: "plan2 \<noteq> plan1" "plan1 \<noteq> plan2"
  by (simp_all add: plan2_def plan1_def rack_plan_def)

lemma json_ok_demo: "json_ok demo_codec {plan1, plan2}"
  by (auto simp: json_ok_def demo_codec_def plan2_neq)

definition two_plans :: "string \<Rightarrow> document list" where
  "two_plans c = [plan_doc plan1, plan_doc plan2]"

lemma two_plans_find:
  "mongo_find (memory_store two_plans\<lparr>mongo_find := \<lambda>h c q. Inr [plan_doc plan1, plan_doc plan2]\<rparr>) h c q =
     Inr [plan_doc plan1, plan_doc plan2]"
  by simp

lemma memc_keeps_memory: "memc_keeps (memory_store init\<lparr>mongo_find := f\<rparr>)"
  by (simp add: memc_keeps_def memory_store_def)

theorem rates_from_cache_witness:
  "\<exists>h'. fst (run_state (hotel_plans (memory_store two_plans\<lparr>mongo_find := \<lambda>h c q. Inr [plan_doc plan1, plan_doc plan2]\<rparr>)
      demo_codec ''1'') h') = Ret [zero_plan, zero_plan]"
  using rates_from_cache [OF memc_keeps_memory _ two_plans_find json_ok_demo, of "[]" "''1''"]
  by (auto simp: numeral_2_eq_2) (metis fst_conv)

text \<open>
  Whatever \<open>GetRates\<close> returns is ordered by total rate, the highest first, and
  its plans are exactly the plans collected; it panics when two or more plans were collected
  and one of them has no room type.
\<close>

theorem GetRates_sorted:
  assumes "sorts srt" and "run_state (collect_plans env j hotelIds []) h = (Ret ps, h')"
  shows "case fst (run_state (GetRates env j srt hotelIds) h) of
      Ret qs \<Rightarrow> set qs = set ps \<and> sorted_wrt (\<lambda>p q. \<exists>s t. RoomType p = Some s \<and> RoomType q = Some t \<and>
                  TotalRate t \<le> TotalRate s) qs
    | Panic e \<Rightarrow> e = nil_deref \<and> 2 \<le> length ps \<and> (\<exists>p\<in>set ps. RoomType p = None)
    | Fatal m \<Rightarrow> False"
proof -
  have "fst (run_state (GetRates env j srt hotelIds) h) = sort_plans srt ps"
    using assms(2) by (simp add: GetRates_def)
  then show ?thesis
    using sort_plans_cases [OF assms(1), of ps]
    by (cases "sort_plans srt ps")
      (auto simp: sort_plans_def list_ex_iff plan_less_def split: if_splits option.splits)
qed

definition insertion_sorter :: sorter where
  "insertion_sorter = sort_key (\<lambda>p. case RoomType p of Some t \<Rightarrow> - TotalRate t | None \<Rightarrow> 0)"

lemma sorts_insertion: "sorts insertion_sorter"
  unfolding sorts_def
proof (intro allI conjI)
  fix ps :: "rate_plan list"
  let ?k = "\<lambda>p. case RoomType p of Some t \<Rightarrow> - TotalRate t | None \<Rightarrow> 0"
  have "sorted_wrt (\<lambda>p q. ?k p \<le> ?k q) (sort_key ?k ps)"
    using sorted_sort_key [of ?k ps] by (simp add: sorted_map)
  then show "sorted_wrt (\<lambda>p q. case (RoomType p, RoomType q) of
       (Some s, Some t) \<Rightarrow> TotalRate t \<le> TotalRate s | _ \<Rightarrow> True) (insertion_sorter ps)"
    unfolding insertion_sorter_def by (rule sorted_wrt_mono_rel [rotated]) (auto split: option.splits)
qed (simp_all add: insertion_sorter_def)

theorem GetRates_sorted_witness:
  "case fst (run_state (GetRates (memory_store two_plans) demo_codec insertion_sorter []) []) of
     Ret qs \<Rightarrow> set qs = {} | Panic e \<Rightarrow> False | Fatal m \<Rightarrow> False"
  using GetRates_sorted [OF sorts_insertion, of "memory_store two_plans" demo_codec "[]" "[]" "[]" "[]"]
  by (simp split: outcome.splits)

text \<open>The database after start-up.\<close>

lemma itoa_inj_on: "inj_on (\<lambda>i. itoa (int i)) A"
  by (simp add: inj_on_def)

lemma itoa_small: "7 \<le> i \<Longrightarrow> itoa (int i) \<noteq> ''1'' \<and> itoa (int i) \<noteq> ''2'' \<and> itoa (int i) \<noteq> ''3''"
proof -
  assume i: "7 \<le> i"
  have "itoa 1 = ''1''" "itoa 2 = ''2''" "itoa 3 = ''3''" by code_simp+
  moreover have "itoa (int i) \<noteq> itoa 1" "itoa (int i) \<noteq> itoa 2" "itoa (int i) \<noteq> itoa 3"
    using i by simp_all
  ultimately show ?thesis by simp
qed

lemma later_hotels:
  "map RpHotelId later_plans = ''2'' # ''3'' # map (\<lambda>i. itoa (int i)) (filter (\<lambda>i. i mod 3 = 0) [7..<81])"
  by (simp add: later_plans_def generated_plan_def rack_plan_def comp_def)

lemma distinct_three:
  "\<lbrakk>distinct M; \<forall>s\<in>set M. s \<noteq> ''1'' \<and> s \<noteq> ''2'' \<and> s \<noteq> ''3''\<rbrakk> \<Longrightarrow> distinct (''1'' # ''2'' # ''3'' # M)"
  by auto

lemma later_plans_distinct: "distinct (map RpHotelId (plan1 # later_plans))"
proof -
  define ns where "ns = filter (\<lambda>i. i mod 3 = 0) [7..<81]"
  have "distinct ns"
    unfolding ns_def by (rule distinct_filter [OF distinct_upt])
  moreover have "\<forall>i\<in>set ns. 7 \<le> i"
    unfolding ns_def set_filter set_upt by simp
  ultimately have "distinct (map (\<lambda>i. itoa (int i)) ns)" and
    "\<forall>s\<in>set (map (\<lambda>i. itoa (int i)) ns). s \<noteq> ''1'' \<and> s \<noteq> ''2'' \<and> s \<noteq> ''3''"
    using itoa_small by (auto simp: distinct_map itoa_inj_on)
  note distinct_three [OF this]
  moreover have "map RpHotelId (plan1 # later_plans) = ''1'' # ''2'' # ''3'' # map (\<lambda>i. itoa (int i)) ns"
    by (simp only: list.map later_hotels ns_def) (simp add: plan1_def rack_plan_def)
  ultimately show ?thesis by (simp only:)
qed

lemma map_of_plan_doc: "map_of (plan_doc p) ''hotelid'' = Some (BStr (RpHotelId p))"
  by (simp add: plan_doc_def)

text \<open>
  After start-up on a database that counts and inserts as documented, whatever
  the collection held before, it holds the plan of hotel 1 followed by those of the other
  hotels, one plan per hotel: the mismatched guard of the first insert does no harm, since the
  collection has just been dropped.
\<close>

theorem rates_seeded:
  assumes "seedable init env"
  shows "\<exists>new. run_state (initializeRateDatabase env url) h = (Ret (), h @ new) \<and>
    map doc_plan (stored init (h @ new) ''inventory'') = plan1 # later_plans \<and>
    distinct (map RpHotelId (plan1 # later_plans))"
proof -
  have ok: "mongo_dial env h url = None" "mongo_drop env h c = None" "mongo_index env h c k = None"
    "mongo_count env h c q = Inr (length (filter (doc_matches q) (stored init h c)))" for h c k q
    using assms by (simp_all add: seedable_def mongo_counts_def)
  let ?h = "h @ [MongoDial url None, DropCollection ''inventory'' None, FindCount ''inventory'' [] (Inr 0)]"
  have e: "stored init ?h ''inventory'' = []" by (simp add: stored_append)
  obtain n1 where 1: "run_state (seed_doc env ''inventory'' ''hotelid'' ''2'' (plan_doc plan1)) ?h = (Ret (), ?h @ n1)"
    "stored init (?h @ n1) ''inventory'' = [plan_doc plan1]"
    using seed_doc_run [OF assms, of "''inventory''" "''hotelid''" "''2''" "plan_doc plan1" ?h] e by auto
  have "\<exists>new. run_state (seed_docs env ''inventory'' ''hotelid'' (map (\<lambda>p. (RpHotelId p, plan_doc p)) later_plans)) (?h @ n1)
      = (Ret (), (?h @ n1) @ new) \<and> stored init ((?h @ n1) @ new) ''inventory'' =
        stored init (?h @ n1) ''inventory'' @ map snd (map (\<lambda>p. (RpHotelId p, plan_doc p)) later_plans)"
  proof (rule seed_docs_run [OF assms])
    show "distinct (map fst (map (\<lambda>p. (RpHotelId p, plan_doc p)) later_plans))"
      using later_plans_distinct by (simp add: comp_def)
    show "\<forall>(k, d)\<in>set (map (\<lambda>p. (RpHotelId p, plan_doc p)) later_plans). map_of d ''hotelid'' = Some (BStr k)"
      by (auto simp: map_of_plan_doc)
    show "\<forall>d\<in>set (stored init (?h @ n1) ''inventory''). \<forall>k\<in>fst ` set (map (\<lambda>p. (RpHotelId p, plan_doc p)) later_plans).
        map_of d ''hotelid'' \<noteq> Some (BStr k)"
      using later_plans_distinct unfolding 1(2) by (auto simp: map_of_plan_doc)
  qed
  then obtain n2 where
    "run_state (seed_docs env ''inventory'' ''hotelid'' (map (\<lambda>p. (RpHotelId p, plan_doc p)) later_plans)) (?h @ n1)
      = (Ret (), (?h @ n1) @ n2)"
    "stored init ((?h @ n1) @ n2) ''inventory'' = plan_doc plan1 # map plan_doc later_plans"
    unfolding 1(2) by (auto simp: comp_def)
  then show ?thesis
    using 1 later_plans_distinct
    by (simp add: initializeRateDatabase_def store_calls ok stored_append comp_def)
qed

theorem rates_seeded_witness:
  "\<exists>h. map doc_plan (stored (\<lambda>c. [[(''hotelid'', BStr ''2'')]]) h ''inventory'') = plan1 # later_plans"
  using rates_seeded [OF seedable_memory, of "\<lambda>c. [[(''hotelid'', BStr ''2'')]]" "''url''" "[]"]
  by (elim exE conjE) (rule exI)

end
