(* ===== verification/Geo.thy ===== *)
theory Geo
  imports HotelStore
begin

text \<open>
  \<open>benchmarks/hotel-app/geo\<close> (\<open>server.go\<close>, \<open>db.go\<close>): the hotels near a place. The index is
  third-party code: the model keeps the points added to it, in order, and takes its \<open>KNearest\<close>
  and the distance it measures by as parameters.
\<close>

subsection \<open>Data\<close>

record point =
  Pid :: string
  Plat :: rat
  Plon :: rat

definition point_doc :: "point \<Rightarrow> document" where
  "point_doc p = [(''hotelid'', BStr (Pid p)), (''lat'', BNum (Plat p)), (''lon'', BNum (Plon p))]"

definition doc_point :: "document \<Rightarrow> point" where
  "doc_point d = \<lparr>Pid = str_field ''hotelid'' d, Plat = num_field ''lat'' d, Plon = num_field ''lon'' d\<rparr>"

lemma doc_point_doc [simp]: "doc_point (point_doc p) = p"
  by (simp add: doc_point_def point_doc_def str_field_def num_field_def)

text \<open>\<open>KNearest\<close> of the points of an index: the center, how many, how far in metres, and which
  points to accept.\<close>

type_synonym k_nearest = "point list \<Rightarrow> point \<Rightarrow> nat \<Rightarrow> rat \<Rightarrow> (point \<Rightarrow> bool) \<Rightarrow> point list"

definition km :: "rat \<Rightarrow> rat" where "km n = 1000 * n"

definition maxSearchRadius :: rat where "maxSearchRadius = 10"
definition maxSearchResults :: nat where "maxSearchResults = 5"

subsection \<open>The handler\<close>

definition getNearbyPoints :: "k_nearest \<Rightarrow> point list \<Rightarrow> rat \<Rightarrow> rat \<Rightarrow> point list" where
  "getNearbyPoints knn index lat lon =
     (let center = \<lparr>Pid = '''', Plat = lat, Plon = lon\<rparr>
      in knn index center maxSearchResults (km maxSearchRadius) (\<lambda>p. True))"

definition geo_Nearby :: "k_nearest \<Rightarrow> point list \<Rightarrow> rat \<Rightarrow> rat \<Rightarrow> string list" where
  "geo_Nearby knn index lat lon = foldl (\<lambda>ids p. ids @ [Pid p]) [] (getNearbyPoints knn index lat lon)"

text \<open>The index holds every document of the collection, and nothing when they cannot be read.\<close>

definition newGeoIndex :: "store_env \<Rightarrow> point list hotel" where
  "newGeoIndex env =
     State_Monad.bind (findAll env ''geo'' []) (\<lambda>r.
       let points = (case r of Inl e \<Rightarrow> [] | Inr ds \<Rightarrow> map doc_point ds)
       in State_Monad.return (foldl (\<lambda>index p. index @ [p]) [] points))"

subsection \<open>\<open>initializeDatabase\<close>\<close>

definition fixed_points :: "point list" where
  "fixed_points =
     [\<lparr>Pid = ''1'', Plat = fl_round (377867 / 10000), Plon = fl_round (- 1224112 / 10000)\<rparr>,
      \<lparr>Pid = ''2'', Plat = fl_round (377854 / 10000), Plon = fl_round (- 1224005 / 10000)\<rparr>,
      \<lparr>Pid = ''3'', Plat = fl_round (377854 / 10000), Plon = fl_round (- 1224071 / 10000)\<rparr>,
      \<lparr>Pid = ''4'', Plat = fl_round (377936 / 10000), Plon = fl_round (- 1223930 / 10000)\<rparr>,
      \<lparr>Pid = ''5'', Plat = fl_round (377831 / 10000), Plon = fl_round (- 1224181 / 10000)\<rparr>,
      \<lparr>Pid = ''6'', Plat = fl_round (377863 / 10000), Plon = fl_round (- 1224015 / 10000)\<rparr>]"

definition generated_point :: "nat \<Rightarrow> point" where
  "generated_point i =
     \<lparr>Pid = itoa (int i),
      Plat = fl_add (fl_round (377835 / 10000)) (fl_mul (fl_div (of_nat i) 500) 3),
      Plon = fl_add (fl_round (- 12241 / 100)) (fl_mul (fl_div (of_nat i) 500) 4)\<rparr>"

definition hotel_points :: "point list" where
  "hotel_points = fixed_points @ map generated_point [7..<81]"

definition initializeGeoDatabase :: "store_env \<Rightarrow> string \<Rightarrow> unit outcome hotel" where
  "initializeGeoDatabase env url =
     initialize_collection env url ''geo'' ''hotelid'' (map (\<lambda>p. (Pid p, point_doc p)) hotel_points)"

subsection \<open>Lemmas\<close>

lemma geo_Nearby_eq: "geo_Nearby knn index lat lon = map Pid (getNearbyPoints knn index lat lon)"
  by (simp add: geo_Nearby_def foldl_snoc_map)

lemma Pid_hotel_points: "map Pid hotel_points = hotel_ids"
  unfolding hotel_points_def map_append hotel_ids_split map_map
  by (simp add: fixed_points_def generated_point_def comp_def del: upt_rec_numeral)

subsection \<open>Properties\<close>

text \<open>What is assumed of the index: \<open>KNearest\<close> returns at most \<open>k\<close> accepted points of the index,
  all of them within the distance.\<close>

definition k_nearest_ok :: "(point \<Rightarrow> point \<Rightarrow> rat) \<Rightarrow> k_nearest \<Rightarrow> bool" where
  "k_nearest_ok metres knn \<longleftrightarrow> (\<forall>ps c k d acc. length (knn ps c k d acc) \<le> k \<and>
     (\<forall>p\<in>set (knn ps c k d acc). p \<in> set ps \<and> acc p \<and> metres c p \<le> d))"

lemma geo_Nearby_sound:
  assumes "k_nearest_ok metres knn"
  shows "length (geo_Nearby knn index lat lon) \<le> 5 \<and>
    (\<forall>i\<in>set (geo_Nearby knn index lat lon).
       \<exists>p\<in>set index. Pid p = i \<and> metres \<lparr>Pid = '''', Plat = lat, Plon = lon\<rparr> p \<le> 10000)"
  using assms
  by (auto simp: geo_Nearby_eq getNearbyPoints_def k_nearest_ok_def maxSearchResults_def
      maxSearchRadius_def km_def)

lemma geo_startup:
  assumes "seedable init env" and "mongo_finds init env"
  shows "\<exists>new. run_state (initializeGeoDatabase env url) h = (Ret (), h @ new) \<and>
    stored init (h @ new) ''geo'' = map point_doc hotel_points \<and>
    run_state (newGeoIndex env) (h @ new) = (hotel_points, (h @ new) @ [Find ''geo'' [] (Inr (map point_doc hotel_points))])"
proof -
  have "\<exists>new. run_state (initializeGeoDatabase env url) h = (Ret (), h @ new) \<and>
      stored init (h @ new) ''geo'' = map snd (map (\<lambda>p. (Pid p, point_doc p)) hotel_points)"
    unfolding initializeGeoDatabase_def
  proof (rule initialize_collection_run [OF assms(1)])
    show "distinct (map fst (map (\<lambda>p. (Pid p, point_doc p)) hotel_points))"
      by (simp add: comp_def Pid_hotel_points distinct_hotel_ids)
  qed (auto simp: point_doc_def)
  then obtain new where 1: "run_state (initializeGeoDatabase env url) h = (Ret (), h @ new)"
    "stored init (h @ new) ''geo'' = map point_doc hotel_points"
    by (auto simp: comp_def)
  have "mongo_find env (h @ new) ''geo'' [] = Inr (map point_doc hotel_points)"
    using assms(2) by (simp add: mongo_finds_def 1 doc_matches_def)
  then have "run_state (newGeoIndex env) (h @ new) = (hotel_points, (h @ new) @ [Find ''geo'' [] (Inr (map point_doc hotel_points))])"
    by (simp add: newGeoIndex_def findAll_def run_state_bind foldl_snoc_id comp_def)
  with 1 show ?thesis by blast
qed

text \<open>
  Start-up and lookup together. On a database that behaves as documented, seeding
  it and loading the index yields the 80 hotels with distinct ids, whatever the collection held
  before, and \<open>Nearby\<close> then answers with at most five of their ids, all of hotels within ten
  kilometres of the place asked for.
\<close>

theorem Nearby_after_startup:
  assumes "seedable init env" and "mongo_finds init env" and "k_nearest_ok metres knn"
  shows "\<exists>h' h'' (index :: point list).
    run_state (initializeGeoDatabase env url) h = (Ret (), h') \<and>
    run_state (newGeoIndex env) h' = (index, h'') \<and>
    map Pid index = hotel_ids \<and> distinct (map Pid index) \<and>
    (\<forall>lat lon. length (geo_Nearby knn index lat lon) \<le> 5 \<and>
       (\<forall>i\<in>set (geo_Nearby knn index lat lon).
          \<exists>p\<in>set index. Pid p = i \<and> metres \<lparr>Pid = '''', Plat = lat, Plon = lon\<rparr> p \<le> 10000))"
proof -
  obtain h' where "run_state (initializeGeoDatabase env url) h = (Ret (), h')" "\<exists>h''. run_state (newGeoIndex env) h' = (hotel_points, h'')"
    using geo_startup [OF assms(1,2), of url h] by blast
  moreover have "map Pid hotel_points = hotel_ids" "distinct (map Pid hotel_points)"
    using Pid_hotel_points distinct_hotel_ids by simp_all
  ultimately show ?thesis using geo_Nearby_sound [OF assms(3)] by blast
qed

text \<open>An index that scans its points in order, measuring by the sum of the coordinates' differences
  at 111 km a degree.\<close>

definition demo_metres :: "point \<Rightarrow> point \<Rightarrow> rat" where
  "demo_metres p q = 111000 * (\<bar>Plat p - Plat q\<bar> + \<bar>Plon p - Plon q\<bar>)"

definition demo_knn :: k_nearest where
  "demo_knn ps c k d acc = take k (filter (\<lambda>p. acc p \<and> demo_metres c p \<le> d) ps)"

lemma k_nearest_ok_demo: "k_nearest_ok demo_metres demo_knn"
  by (auto simp: k_nearest_ok_def demo_knn_def dest: in_set_takeD)

theorem Nearby_after_startup_witness:
  "\<exists>h (index :: point list). map Pid index = hotel_ids \<and>
     length (geo_Nearby demo_knn index 38 (- 122)) \<le> 5 \<and> snd (run_state (newGeoIndex (memory_store (\<lambda>c. []))) h) \<noteq> []"
  using Nearby_after_startup [OF seedable_memory mongo_finds_memory k_nearest_ok_demo, of "\<lambda>c. []" "''url''" "[]"]
  by (auto simp: newGeoIndex_def findAll_def run_state_bind)

end
