(* ===== verification/Profile.thy ===== *)
theory Profile
  imports HotelStore
begin

text \<open>
  \<open>benchmarks/hotel-app/profile\<close> (\<open>server.go\<close>, \<open>db.go\<close>): the profiles of hotels, cached one by one
  as JSON. Coordinates are \<open>float32\<close>. The JSON codec is a parameter.
\<close>

subsection \<open>Data\<close>

record hotel_address =
  StreetNumber :: string
  StreetName :: string
  City :: string
  State' :: string
  Country :: string
  PostalCode :: string
  Lat :: rat
  Lon :: rat

record hotel_profile =
  Id :: string
  Name :: string
  PhoneNumber :: string
  Description :: string
  Address :: "hotel_address option"

definition zero_profile :: hotel_profile where
  "zero_profile = \<lparr>Id = '''', Name = '''', PhoneNumber = '''', Description = '''', Address = None\<rparr>"

definition address_doc :: "hotel_address \<Rightarrow> document" where
  "address_doc a = [(''streetnumber'', BStr (StreetNumber a)), (''streetname'', BStr (StreetName a)),
     (''city'', BStr (City a)), (''state'', BStr (State' a)), (''country'', BStr (Country a)),
     (''postalcode'', BStr (PostalCode a)), (''lat'', BNum (Lat a)), (''lon'', BNum (Lon a))]"

definition profile_doc :: "hotel_profile \<Rightarrow> document" where
  "profile_doc p = [(''id'', BStr (Id p)), (''name'', BStr (Name p)), (''phonenumber'', BStr (PhoneNumber p)),
     (''description'', BStr (Description p))] @
     (case Address p of None \<Rightarrow> [] | Some a \<Rightarrow> [(''address'', BDoc (address_doc a))])"

definition doc_profile :: "document \<Rightarrow> hotel_profile" where
  "doc_profile d = \<lparr>Id = str_field ''id'' d, Name = str_field ''name'' d,
     PhoneNumber = str_field ''phonenumber'' d, Description = str_field ''description'' d,
     Address = (case map_of d ''address'' of
       Some (BDoc e) \<Rightarrow> Some \<lparr>StreetNumber = str_field ''streetnumber'' e, StreetName = str_field ''streetname'' e,
         City = str_field ''city'' e, State' = str_field ''state'' e, Country = str_field ''country'' e,
         PostalCode = str_field ''postalcode'' e, Lat = num_field ''lat'' e, Lon = num_field ''lon'' e\<rparr>
     | _ \<Rightarrow> None)\<rparr>"

lemma doc_profile_doc [simp]: "doc_profile (profile_doc p) = p"
  by (cases "Address p") (auto simp: doc_profile_def profile_doc_def address_doc_def str_field_def num_field_def)

subsection \<open>\<open>GetProfiles\<close>\<close>

text \<open>One hotel: an error of the decoder, of the database or of a write to the cache is only logged.
  A hotel the database does not have is the zero profile, which is cached like any other.\<close>

definition hotel_profile_of :: "store_env \<Rightarrow> hotel_profile codec \<Rightarrow> string \<Rightarrow> hotel_profile outcome hotel" where
  "hotel_profile_of env j i =
     State_Monad.bind (memcGet env i) (\<lambda>item.
       case item of
         Hit v \<Rightarrow> oreturn (fst (decode j v))
       | CacheMiss \<Rightarrow>
           State_Monad.bind (findOne env ''hotels'' [(''id'', BStr i)]) (\<lambda>r.
           let hotel_prof = (case r of Inl e \<Rightarrow> zero_profile | Inr d \<Rightarrow> doc_profile d)
           in obind (ignore_result (memcSet env i (encode j hotel_prof))) (\<lambda>_. oreturn hotel_prof))
       | MemcError e \<Rightarrow> opanic e)"

primrec profiles_loop :: "store_env \<Rightarrow> hotel_profile codec \<Rightarrow> string list \<Rightarrow> hotel_profile list \<Rightarrow> hotel_profile list outcome hotel" where
  "profiles_loop env j [] hotels = oreturn hotels"
| "profiles_loop env j (i # is) hotels =
     obind (hotel_profile_of env j i) (\<lambda>hotel_prof. profiles_loop env j is (hotels @ [hotel_prof]))"

definition GetProfiles :: "store_env \<Rightarrow> hotel_profile codec \<Rightarrow> string list \<Rightarrow> hotel_profile list outcome hotel" where
  "GetProfiles env j hotelIds = profiles_loop env j hotelIds []"

subsection \<open>\<open>initializeDatabase\<close>\<close>

definition sf_address :: "string \<Rightarrow> string \<Rightarrow> string \<Rightarrow> rat \<Rightarrow> rat \<Rightarrow> hotel_address" where
  "sf_address number street postal lat lon =
     \<lparr>StreetNumber = number, StreetName = street, City = ''San Francisco'', State' = ''CA'',
      Country = ''United States'', PostalCode = postal, Lat = lat, Lon = lon\<rparr>"

definition st_regis :: string where
  "st_regis = ''St. Regis Museum Tower is a 42-story, 484 ft skyscraper in the South of Market district of San Francisco, California, adjacent to Yerba Buena Gardens, Moscone Center, PacBell Building and the San Francisco Museum of Modern Art.''"

definition fixed_profiles :: "hotel_profile list" where
  "fixed_profiles =
     [\<lparr>Id = ''1'', Name = ''Clift Hotel'', PhoneNumber = ''(415) 775-4700'',
       Description = ''A 6-minute walk from Union Square and 4 minutes from a Muni Metro station, this luxury hotel designed by Philippe Starck features an artsy furniture collection in the lobby, including work by Salvador Dali.'',
       Address = Some (sf_address ''495'' ''Geary St'' ''94102'' (fl32_round (377867 / 10000)) (fl32_round (- 1224112 / 10000)))\<rparr>,
      \<lparr>Id = ''2'', Name = ''W San Francisco'', PhoneNumber = ''(415) 777-5300'',
       Description = ''Less than a block from the Yerba Buena Center for the Arts, this trendy hotel is a 12-minute walk from Union Square.'',
       Address = Some (sf_address ''181'' ''3rd St'' ''94103'' (fl32_round (377854 / 10000)) (fl32_round (- 1224005 / 10000)))\<rparr>,
      \<lparr>Id = ''3'', Name = ''Hotel Zetta'', PhoneNumber = ''(415) 543-8555'',
       Description = ''A 3-minute walk from the Powell Street cable-car turnaround and BART rail station, this hip hotel 9 minutes from Union Square combines high-tech lodging with artsy touches.'',
       Address = Some (sf_address ''55'' ''5th St'' ''94103'' (fl32_round (377834 / 10000)) (fl32_round (- 1224071 / 10000)))\<rparr>,
      \<lparr>Id = ''4'', Name = ''Hotel Vitale'', PhoneNumber = ''(415) 278-3700'',
       Description = ''This waterfront hotel with Bay Bridge views is 3 blocks from the Financial District and a 4-minute walk from the Ferry Building.'',
       Address = Some (sf_address ''8'' ''Mission St'' ''94105'' (fl32_round (377936 / 10000)) (fl32_round (- 1223930 / 10000)))\<rparr>,
      \<lparr>Id = ''5'', Name = ''Phoenix Hotel'', PhoneNumber = ''(415) 776-1380'',
       Description = ''Located in the Tenderloin neighborhood, a 10-minute walk from a BART rail station, this retro motor lodge has hosted many rock musicians and other celebrities since the 1950s. It'' @
         [CHR 0xE2, CHR 0x80, CHR 0x99] @ ''s a 4-minute walk from the historic Great American Music Hall nightclub.'',
       Address = Some (sf_address ''601'' ''Eddy St'' ''94109'' (fl32_round (377831 / 10000)) (fl32_round (- 1224181 / 10000)))\<rparr>,
      \<lparr>Id = ''6'', Name = ''St. Regis San Francisco'', PhoneNumber = ''(415) 284-4000'', Description = st_regis,
       Address = Some (sf_address ''125'' ''3rd St'' ''94109'' (fl32_round (377863 / 10000)) (fl32_round (- 1224015 / 10000)))\<rparr>]"

definition generated_profile :: "nat \<Rightarrow> hotel_profile" where
  "generated_profile i =
     \<lparr>Id = itoa (int i), Name = ''St. Regis San Francisco'', PhoneNumber = ''(415) 284-40'' @ itoa (int i),
      Description = st_regis,
      Address = Some (sf_address ''125'' ''3rd St'' ''94109''
        (fl32_add (fl32_round (377835 / 10000)) (fl32_mul (fl32_div (of_nat i) 500) 3))
        (fl32_add (fl32_round (- 12241 / 100)) (fl32_mul (fl32_div (of_nat i) 500) 4)))\<rparr>"

definition hotel_profiles :: "hotel_profile list" where
  "hotel_profiles = fixed_profiles @ map generated_profile [7..<81]"

definition initializeProfileDatabase :: "store_env \<Rightarrow> string \<Rightarrow> unit outcome hotel" where
  "initializeProfileDatabase env url =
     initialize_collection env url ''hotels'' ''id'' (map (\<lambda>p. (Id p, profile_doc p)) hotel_profiles)"

lemma Id_hotel_profiles: "map Id hotel_profiles = hotel_ids"
  unfolding hotel_profiles_def map_append hotel_ids_split map_map
  by (simp add: fixed_profiles_def generated_profile_def comp_def del: upt_rec_numeral)

subsection \<open>The cache\<close>

text \<open>The specification: the profile of a hotel is the first document of the collection with its id,
  and the zero profile if there is none.\<close>

definition profile_in :: "document list \<Rightarrow> string \<Rightarrow> hotel_profile" where
  "profile_in ds i =
     (case filter (doc_matches [(''id'', BStr i)]) ds of [] \<Rightarrow> zero_profile | d # _ \<Rightarrow> doc_profile d)"

definition finds_one :: "(string \<Rightarrow> document list) \<Rightarrow> store_env \<Rightarrow> bool" where
  "finds_one init env \<longleftrightarrow> (\<forall>h c q. case filter (doc_matches q) (stored init h c) of
     [] \<Rightarrow> (\<exists>e. mongo_find_one env h c q = Inl e) | d # _ \<Rightarrow> mongo_find_one env h c q = Inr d)"

definition codec_ok :: "'a codec \<Rightarrow> 'a set \<Rightarrow> bool" where
  "codec_ok j P \<longleftrightarrow> (\<forall>x\<in>P. decode j (encode j x) = (x, None))"

text \<open>The cache agrees with the collection \<open>ds\<close>: every entry is the text of the profile with its key.\<close>

definition cache_agrees :: "(string \<Rightarrow> document list) \<Rightarrow> hotel_profile codec \<Rightarrow> document list \<Rightarrow> store_event list \<Rightarrow> bool" where
  "cache_agrees init j ds h \<longleftrightarrow> stored init h ''hotels'' = ds \<and>
     (\<forall>k v. cached_value h k = Some v \<longrightarrow> v = encode j (profile_in ds k))"

lemma profile_in_known: "profile_in ds i \<in> insert zero_profile (doc_profile ` set ds)"
proof (cases "filter (doc_matches [(''id'', BStr i)]) ds")
  case (Cons d ds')
  then have "d \<in> set ds" by (metis list.set_intros(1) filter_is_subset subsetD)
  then show ?thesis by (simp add: profile_in_def Cons)
qed (simp add: profile_in_def)

lemma hotel_profile_run:
  assumes "memc_sound env" and "finds_one init env" and j: "codec_ok j (insert zero_profile (doc_profile ` set ds))"
    and "cache_agrees init j ds h"
  shows "\<exists>new. run_state (hotel_profile_of env j i) h = (Ret (profile_in ds i), h @ new) \<and>
    cache_agrees init j ds (h @ new)"
proof -
  have ds: "stored init h ''hotels'' = ds" and
    ca: "\<And>k v. cached_value h k = Some v \<Longrightarrow> v = encode j (profile_in ds k)"
    using assms(4) by (simp_all add: cache_agrees_def)
  have dec: "decode j (encode j (profile_in ds i)) = (profile_in ds i, None)"
    using j profile_in_known unfolding codec_ok_def by blast
  consider v where "memc_get env h i = Hit v" "cached_value h i = Some v" | "memc_get env h i = CacheMiss"
    using assms(1) unfolding memc_sound_def by blast
  then show ?thesis
  proof cases
    case 1
    then have "v = encode j (profile_in ds i)" using ca by blast
    then have "run_state (hotel_profile_of env j i) h = (Ret (profile_in ds i), h @ [MemcGet i (Hit v)])"
      using 1(1) by (simp add: hotel_profile_of_def memcGet_def run_state_bind dec)
    moreover have "cache_agrees init j ds (h @ [MemcGet i (Hit v)])"
      using assms(4) by (simp add: cache_agrees_def stored_snoc cached_value_snoc)
    ultimately show ?thesis by blast
  next
    case 2
    let ?h = "h @ [MemcGet i CacheMiss]"
    let ?r = "mongo_find_one env ?h ''hotels'' [(''id'', BStr i)]"
    have "stored init ?h ''hotels'' = ds" by (simp add: stored_snoc ds)
    moreover have "case filter (doc_matches [(''id'', BStr i)]) (stored init ?h ''hotels'') of
        [] \<Rightarrow> \<exists>e. ?r = Inl e | d # _ \<Rightarrow> ?r = Inr d"
      using assms(2) unfolding finds_one_def by blast
    ultimately have r: "(case ?r of Inl e \<Rightarrow> zero_profile | Inr d \<Rightarrow> doc_profile d) = profile_in ds i"
      unfolding profile_in_def by (auto split: list.splits)
    let ?s = "memc_set env (?h @ [FindOne ''hotels'' [(''id'', BStr i)] ?r]) i (encode j (profile_in ds i))"
    let ?new = "[MemcGet i CacheMiss, FindOne ''hotels'' [(''id'', BStr i)] ?r, MemcSet i (encode j (profile_in ds i)) ?s]"
    have "run_state (hotel_profile_of env j i) h = (Ret (profile_in ds i), h @ ?new)"
      using 2 r by (simp add: hotel_profile_of_def store_calls run_state_bind Let_def)
    moreover have "cache_agrees init j ds (h @ ?new)"
      unfolding cache_agrees_def stored_append cached_value_append
      by (cases ?s) (auto simp: ds ca)
    ultimately show ?thesis by blast
  qed
qed

lemma profiles_loop_run:
  assumes "memc_sound env" and "finds_one init env" and "codec_ok j (insert zero_profile (doc_profile ` set ds))"
  shows "cache_agrees init j ds h \<Longrightarrow> \<exists>new. run_state (profiles_loop env j is ps) h = (Ret (ps @ map (profile_in ds) is), h @ new) \<and>
    cache_agrees init j ds (h @ new)"
proof (induction "is" arbitrary: h ps)
  case Nil
  then show ?case by (auto intro: exI [of _ "[]"])
next
  case (Cons i js)
  obtain new where 1: "run_state (hotel_profile_of env j i) h = (Ret (profile_in ds i), h @ new)"
    "cache_agrees init j ds (h @ new)"
    using hotel_profile_run [OF assms Cons.prems] by blast
  obtain new' where "run_state (profiles_loop env j js (ps @ [profile_in ds i])) (h @ new) =
      (Ret ((ps @ [profile_in ds i]) @ map (profile_in ds) js), (h @ new) @ new')" "cache_agrees init j ds ((h @ new) @ new')"
    using Cons.IH [OF 1(2)] by blast
  with 1(1) show ?case by (intro exI [of _ "new @ new'"]) simp
qed

text \<open>What \<open>GetProfiles\<close> relies on: stores that behave as documented, and a cache that agrees.\<close>

definition profiles_ready ::
  "store_env \<Rightarrow> (string \<Rightarrow> document list) \<Rightarrow> hotel_profile codec \<Rightarrow> document list \<Rightarrow> store_event list \<Rightarrow> bool"
where
  "profiles_ready env init j ds h \<longleftrightarrow> memc_sound env \<and> finds_one init env \<and>
     codec_ok j (insert zero_profile (doc_profile ` set ds)) \<and> cache_agrees init j ds h"

interpretation profiles: transparent_service "GetProfiles env j" "map (profile_in ds)" "profiles_ready env init j ds"
  for env init j ds
proof unfold_locales
  fix h hotelIds assume "profiles_ready env init j ds h"
  then show "\<exists>new. run_state (GetProfiles env j hotelIds) h = (Ret (map (profile_in ds) hotelIds), h @ new) \<and>
      profiles_ready env init j ds (h @ new)"
    using profiles_loop_run [of env init j ds h hotelIds "[]"] by (auto simp: profiles_ready_def GetProfiles_def)
qed

subsection \<open>Properties\<close>

text \<open>
  Property C39: the cache is transparent. While it agrees with the collection, any sequence of
  requests to \<open>GetProfiles\<close> is answered with the database's profile of every hotel asked for, in the
  order of the request, whatever the cache evicts and whichever writes to it fail, and leaves the
  cache in agreement.
\<close>

theorem GetProfiles_transparent:
  assumes "memc_sound env" and "finds_one init env" and "codec_ok j (insert zero_profile (doc_profile ` set ds))"
    and "cache_agrees init j ds h"
  shows "\<exists>new. run_state (serve_all (GetProfiles env j) requests) h = (Ret (map (map (profile_in ds)) requests), h @ new) \<and>
    cache_agrees init j ds (h @ new)"
  using profiles.all_answered [of env init j ds h requests] assms by (simp add: profiles_ready_def)

definition zetta :: hotel_profile where
  "zetta = \<lparr>Id = ''3'', Name = ''Hotel Zetta'', PhoneNumber = ''(415) 543-8555'', Description = '''', Address = None\<rparr>"

text \<open>A codec that tells two profiles apart.\<close>

definition zetta_codec :: "hotel_profile codec" where
  "zetta_codec = \<lparr>encode = \<lambda>p. if p = zetta then ''3'' else ''0'',
     decode = \<lambda>s. if s = ''3'' then (zetta, None) else (zero_profile, None)\<rparr>"

lemma zetta_codec_ok: "codec_ok zetta_codec (insert zero_profile (doc_profile ` set [profile_doc zetta]))"
  by (simp add: codec_ok_def zetta_codec_def zetta_def zero_profile_def)

lemma finds_one_memory: "finds_one init (memory_store init)" "finds_one init (forgetful_store init)"
  by (auto simp: finds_one_def memory_store_def forgetful_store_def split: list.splits)

lemma cache_agrees_start: "init ''hotels'' = ds \<Longrightarrow> cache_agrees init j ds []"
  by (simp add: cache_agrees_def stored_def)

lemma zetta_found: "profile_in [profile_doc zetta] ''3'' = zetta" "profile_in [profile_doc zetta] ''9'' = zero_profile"
  by (simp_all add: profile_in_def doc_matches_def) (simp_all add: profile_doc_def zetta_def)

theorem GetProfiles_transparent_witness:
  "fst (run_state (serve_all (GetProfiles (memory_store (\<lambda>c. [profile_doc zetta])) zetta_codec) [[''3'', ''9''], [''3'']]) []) =
     Ret [[zetta, zero_profile], [zetta]]"
  using GetProfiles_transparent [OF memc_sound_memory(1) finds_one_memory(1) zetta_codec_ok cache_agrees_start,
    of "\<lambda>c. [profile_doc zetta]" "[[''3'', ''9''], [''3'']]"]
  by (auto simp: zetta_found)

text \<open>
  A hotel that is not in the collection when it is first asked for stays unknown. Its
  zero profile is cached, and while the cache keeps it the service answers with it, even after
  the hotel has been added to the collection.
\<close>

theorem unknown_profile_sticks:
  assumes "memc_keeps env" and "finds_one init env" and "codec_ok j {zero_profile}"
    and "cached_value h i = None" and "filter (doc_matches [(''id'', BStr i)]) (stored init h ''hotels'') = []"
  shows "\<exists>h'. run_state (GetProfiles env j [i]) h = (Ret [zero_profile], h') \<and>
    (\<forall>d. fst (run_state (GetProfiles env j [i]) (h' @ [Insert ''hotels'' d None])) = Ret [zero_profile])"
proof -
  let ?q = "[(''id'', BStr i)]"
  let ?h = "h @ [MemcGet i CacheMiss]"
  have "case filter (doc_matches ?q) (stored init ?h ''hotels'') of
      [] \<Rightarrow> \<exists>e. mongo_find_one env ?h ''hotels'' ?q = Inl e | d # _ \<Rightarrow> mongo_find_one env ?h ''hotels'' ?q = Inr d"
    using assms(2) unfolding finds_one_def by blast
  then obtain e where e: "mongo_find_one env ?h ''hotels'' ?q = Inl e"
    by (auto simp: stored_snoc assms(5))
  let ?h' = "?h @ [FindOne ''hotels'' ?q (Inl e), MemcSet i (encode j zero_profile) None]"
  have k: "memc_get env g i = (case cached_value g i of Some v \<Rightarrow> Hit v | None \<Rightarrow> CacheMiss)"
    "memc_set env g i v = None" for g v
    using assms(1) by (simp_all add: memc_keeps_def)
  have "run_state (GetProfiles env j [i]) h = (Ret [zero_profile], ?h')"
    using e by (simp add: GetProfiles_def hotel_profile_of_def store_calls run_state_bind k assms(4) Let_def)
  moreover have "cached_value (?h' @ [Insert ''hotels'' d None]) i = Some (encode j zero_profile)" for d
    by (simp add: cached_value_append)
  then have "fst (run_state (GetProfiles env j [i]) (?h' @ [Insert ''hotels'' d None])) = Ret [zero_profile]" for d
    using assms(3)
    by (simp add: GetProfiles_def hotel_profile_of_def store_calls run_state_bind k codec_ok_def del: append_assoc append_Cons)
  ultimately show ?thesis by blast
qed

theorem unknown_profile_sticks_witness:
  "\<exists>h. fst (run_state (GetProfiles (memory_store (\<lambda>c. [])) zetta_codec [''3'']) (h @ [Insert ''hotels'' (profile_doc zetta) None])) =
     Ret [zero_profile]"
proof -
  have "memc_keeps (memory_store (\<lambda>c. []))" by (simp add: memc_keeps_def memory_store_def)
  moreover have "codec_ok zetta_codec {zero_profile}" using zetta_codec_ok by (simp add: codec_ok_def)
  ultimately show ?thesis
    using unknown_profile_sticks [OF _ finds_one_memory(1), of "\<lambda>c. []" zetta_codec "[]" "''3''"]
    by (auto simp: stored_def)
qed

text \<open>
  After start-up on a database that counts and inserts as documented, whatever the
  collection held before, it holds the 80 profiles, with distinct ids.
\<close>

theorem profiles_seeded:
  assumes "seedable init env"
  shows "\<exists>new. run_state (initializeProfileDatabase env url) h = (Ret (), h @ new) \<and>
    map doc_profile (stored init (h @ new) ''hotels'') = hotel_profiles \<and> map Id hotel_profiles = hotel_ids \<and>
    distinct hotel_ids"
proof -
  have "\<exists>new. run_state (initializeProfileDatabase env url) h = (Ret (), h @ new) \<and>
      stored init (h @ new) ''hotels'' = map snd (map (\<lambda>p. (Id p, profile_doc p)) hotel_profiles)"
    unfolding initializeProfileDatabase_def
  proof (rule initialize_collection_run [OF assms])
    show "distinct (map fst (map (\<lambda>p. (Id p, profile_doc p)) hotel_profiles))"
      by (simp add: comp_def Id_hotel_profiles distinct_hotel_ids)
  qed (auto simp: profile_doc_def)
  then show ?thesis
    using Id_hotel_profiles distinct_hotel_ids by (auto simp: comp_def)
qed

theorem profiles_seeded_witness:
  "\<exists>h. map doc_profile (stored (\<lambda>c. [profile_doc zetta]) h ''hotels'') = hotel_profiles"
  using profiles_seeded [OF seedable_memory, of "\<lambda>c. [profile_doc zetta]" "''url''" "[]"]
  by (elim exE conjE) (rule exI)

end
