(* ===== verification/Recommendation.thy ===== *)
theory Recommendation
  imports HotelStore "HOL-Library.AList" "HOL-Library.Multiset"
begin

text \<open>
  \<open>benchmarks/hotel-app/recommendation\<close> (\<open>server.go\<close>, \<open>db.go\<close>): the hotels that are nearest, best
  rated or cheapest. The hotels are kept in a map, which Go walks in an order of its own choosing
  each time: the orders of the two loops are parameters, as is the distance of two places.
\<close>

subsection \<open>Data\<close>

record rec_hotel =
  HId :: string
  HLat :: rat
  HLon :: rat
  HRate :: rat
  HPrice :: rat

definition rec_doc :: "rec_hotel \<Rightarrow> document" where
  "rec_doc p = [(''hotelid'', BStr (HId p)), (''lat'', BNum (HLat p)), (''lon'', BNum (HLon p)),
     (''rate'', BNum (HRate p)), (''price'', BNum (HPrice p))]"

definition doc_rec :: "document \<Rightarrow> rec_hotel" where
  "doc_rec d = \<lparr>HId = str_field ''hotelid'' d, HLat = num_field ''lat'' d, HLon = num_field ''lon'' d,
     HRate = num_field ''rate'' d, HPrice = num_field ''price'' d\<rparr>"

lemma doc_rec_doc [simp]: "doc_rec (rec_doc p) = p"
  by (simp add: doc_rec_def rec_doc_def str_field_def num_field_def)

text \<open>The great-circle distance of two places in metres, and the order of a walk over the map.\<close>

type_synonym geo_distance = "rat \<times> rat \<Rightarrow> rat \<times> rat \<Rightarrow> rat"

type_synonym walk = "rec_hotel list \<Rightarrow> rec_hotel list"

text \<open>\<open>math.MaxFloat64\<close>.\<close>

definition max_float64 :: rat where "max_float64 = of_int ((2 ^ 53 - 1) * 2 ^ 971)"

subsection \<open>\<open>GetRecommendations\<close>\<close>

definition kilometres :: "geo_distance \<Rightarrow> rat \<Rightarrow> rat \<Rightarrow> rec_hotel \<Rightarrow> rat" where
  "kilometres metres lat lon hotel = fl_div (metres (lat, lon) (HLat hotel, HLon hotel)) 1000"

definition least_by :: "(rec_hotel \<Rightarrow> rat) \<Rightarrow> rec_hotel list \<Rightarrow> rat" where
  "least_by f hotels = foldl (\<lambda>least hotel. if f hotel < least then f hotel else least) max_float64 hotels"

definition greatest_by :: "(rec_hotel \<Rightarrow> rat) \<Rightarrow> rec_hotel list \<Rightarrow> rat" where
  "greatest_by f hotels = foldl (\<lambda>greatest hotel. if f hotel > greatest then f hotel else greatest) 0 hotels"

definition ids_with :: "(rec_hotel \<Rightarrow> rat) \<Rightarrow> rat \<Rightarrow> rec_hotel list \<Rightarrow> string list" where
  "ids_with f x hotels = foldl (\<lambda>ids hotel. if f hotel = x then ids @ [HId hotel] else ids) [] hotels"

definition GetRecommendations ::
  "geo_distance \<Rightarrow> walk \<Rightarrow> walk \<Rightarrow> (string \<times> rec_hotel) list \<Rightarrow> string \<Rightarrow> rat \<Rightarrow> rat \<Rightarrow> string list"
where
  "GetRecommendations metres walk1 walk2 hotels require lat lon =
     (let first = walk1 (map snd hotels); second = walk2 (map snd hotels)
      in if require = ''dis'' then
           ids_with (kilometres metres lat lon) (least_by (kilometres metres lat lon) first) second
         else if require = ''rate'' then ids_with HRate (greatest_by HRate first) second
         else if require = ''price'' then ids_with HPrice (least_by HPrice first) second
         else [])"

subsection \<open>Loading and seeding\<close>

definition loadRecommendations :: "store_env \<Rightarrow> (string \<times> rec_hotel) list hotel" where
  "loadRecommendations env =
     State_Monad.bind (findAll env ''recommendation'' []) (\<lambda>r.
       let hotels = (case r of Inl e \<Rightarrow> [] | Inr ds \<Rightarrow> map doc_rec ds)
       in State_Monad.return (foldl (\<lambda>profiles hotel. AList.update (HId hotel) hotel profiles) [] hotels))"

definition fixed_rec_hotels :: "rec_hotel list" where
  "fixed_rec_hotels =
     [\<lparr>HId = ''1'', HLat = fl_round (377867 / 10000), HLon = fl_round (- 1224112 / 10000), HRate = 109, HPrice = 150\<rparr>,
      \<lparr>HId = ''2'', HLat = fl_round (377854 / 10000), HLon = fl_round (- 1224005 / 10000), HRate = 139, HPrice = 120\<rparr>,
      \<lparr>HId = ''3'', HLat = fl_round (377834 / 10000), HLon = fl_round (- 1224071 / 10000), HRate = 109, HPrice = 190\<rparr>,
      \<lparr>HId = ''4'', HLat = fl_round (377936 / 10000), HLon = fl_round (- 1223930 / 10000), HRate = 129, HPrice = 160\<rparr>,
      \<lparr>HId = ''5'', HLat = fl_round (377831 / 10000), HLon = fl_round (- 1224181 / 10000), HRate = 119, HPrice = 140\<rparr>,
      \<lparr>HId = ''6'', HLat = fl_round (377863 / 10000), HLon = fl_round (- 1224015 / 10000), HRate = 149, HPrice = 200\<rparr>]"

definition rec_rates :: "nat \<Rightarrow> rat \<times> rat" where
  "rec_rates i =
     (if i mod 3 = 0
      then if i mod 5 = 0 then (109, fl_round (12317 / 100)) else if i mod 5 = 1 then (120, 140)
           else if i mod 5 = 2 then (124, 144) else if i mod 5 = 3 then (132, 158) else (232, 258)
      else (135, 179))"

definition generated_rec_hotel :: "nat \<Rightarrow> rec_hotel" where
  "generated_rec_hotel i =
     \<lparr>HId = itoa (int i),
      HLat = fl_add (fl_round (377835 / 10000)) (fl_mul (fl_div (of_nat i) 500) 3),
      HLon = fl_add (fl_round (- 12241 / 100)) (fl_mul (fl_div (of_nat i) 500) 4),
      HRate = fst (rec_rates i), HPrice = snd (rec_rates i)\<rparr>"

definition rec_hotels :: "rec_hotel list" where
  "rec_hotels = fixed_rec_hotels @ map generated_rec_hotel [7..<81]"

text \<open>A generated hotel is counted twice, and only the second count decides.\<close>

primrec seed_generated :: "store_env \<Rightarrow> nat list \<Rightarrow> unit outcome hotel" where
  "seed_generated env [] = oreturn ()"
| "seed_generated env (i # is) =
     obind (or_fatal ''find'' (findCount env ''recommendation'' [(''hotelid'', BStr (itoa (int i)))])) (\<lambda>_.
     obind (seed_doc env ''recommendation'' ''hotelid'' (itoa (int i)) (rec_doc (generated_rec_hotel i))) (\<lambda>_.
     seed_generated env is))"

definition initializeRecommendationDatabase :: "store_env \<Rightarrow> string \<Rightarrow> unit outcome hotel" where
  "initializeRecommendationDatabase env url =
     obind (or_panic_err (mongoDial env url)) (\<lambda>_.
     obind (ignore_result (dropCollection env ''recommendation'')) (\<lambda>_.
     obind (seed_docs env ''recommendation'' ''hotelid'' (map (\<lambda>p. (HId p, rec_doc p)) fixed_rec_hotels)) (\<lambda>_.
     obind (seed_generated env [7..<81]) (\<lambda>_.
     or_fatal_err ''index'' (ensureIndexKey env ''recommendation'' ''hotelid'')))))"

subsection \<open>The two passes\<close>

lemma ids_with_eq: "ids_with f x hotels = map HId (filter (\<lambda>p. f p = x) hotels)"
proof -
  have "foldl (\<lambda>ids hotel. if f hotel = x then ids @ [HId hotel] else ids) acc hotels =
      acc @ map HId (filter (\<lambda>p. f p = x) hotels)" for acc
    by (induction hotels arbitrary: acc) simp_all
  then show ?thesis by (simp add: ids_with_def)
qed

lemma Min_insert2: "finite S \<Longrightarrow> Min (insert x (insert y S)) = Min (insert (min x y) (S :: rat set))"
  by (cases "S = {}") (simp_all add: min.assoc)

lemma Max_insert2: "finite S \<Longrightarrow> Max (insert x (insert y S)) = Max (insert (max x y) (S :: rat set))"
  by (cases "S = {}") (simp_all add: max.assoc)

lemma least_by_Min: "least_by f hotels = Min (insert max_float64 (f ` set hotels))"
proof -
  have "foldl (\<lambda>least hotel. if f hotel < least then f hotel else least) x hotels = Min (insert x (f ` set hotels))" for x
    proof (induction hotels arbitrary: x)
    case (Cons p ps)
    have "(if f p < x then f p else x) = min x (f p)" by (simp add: min_def)
    then show ?case by (simp only: foldl_Cons Cons list.set image_insert) (simp only: Min_insert2 finite_imageI finite_set)
  qed simp
  then show ?thesis by (simp add: least_by_def)
qed

lemma greatest_by_Max: "greatest_by f hotels = Max (insert 0 (f ` set hotels))"
proof -
  have "foldl (\<lambda>greatest hotel. if f hotel > greatest then f hotel else greatest) x hotels = Max (insert x (f ` set hotels))" for x
    proof (induction hotels arbitrary: x)
    case (Cons p ps)
    have "(if f p > x then f p else x) = max x (f p)" by (simp add: max_def)
    then show ?case by (simp only: foldl_Cons Cons list.set image_insert) (simp only: Max_insert2 finite_imageI finite_set)
  qed simp
  then show ?thesis by (simp add: greatest_by_def)
qed

lemma least_by_iff:
  assumes "\<forall>q\<in>set hotels. f q \<le> max_float64" and "p \<in> set hotels"
  shows "f p = least_by f hotels \<longleftrightarrow> (\<forall>q\<in>set hotels. f p \<le> f q)"
proof
  assume "f p = least_by f hotels"
  then show "\<forall>q\<in>set hotels. f p \<le> f q" by (simp add: least_by_Min)
next
  assume "\<forall>q\<in>set hotels. f p \<le> f q"
  with assms show "f p = least_by f hotels"
    unfolding least_by_Min by (intro Min_eqI [symmetric]) auto
qed

lemma greatest_by_iff:
  assumes "p \<in> set hotels"
  shows "f p = greatest_by f hotels \<longleftrightarrow> 0 \<le> f p \<and> (\<forall>q\<in>set hotels. f q \<le> f p)"
proof
  assume "f p = greatest_by f hotels"
  then show "0 \<le> f p \<and> (\<forall>q\<in>set hotels. f q \<le> f p)" by (simp add: greatest_by_Max)
next
  assume "0 \<le> f p \<and> (\<forall>q\<in>set hotels. f q \<le> f p)"
  with assms show "f p = greatest_by f hotels"
    unfolding greatest_by_Max by (intro Max_eqI [symmetric]) auto
qed

text \<open>A walk visits every hotel once.\<close>

definition walks :: "walk \<Rightarrow> bool" where
  "walks w \<longleftrightarrow> (\<forall>xs. mset (w xs) = mset xs)"

lemma walks_set: "walks w \<Longrightarrow> set (w xs) = set xs"
  unfolding walks_def by (metis set_mset_mset)

lemma recommended_least:
  assumes w: "walks walk1" "walks walk2" and fin: "\<forall>p\<in>set ps. f p \<le> max_float64"
  shows "set (ids_with f (least_by f (walk1 ps)) (walk2 ps)) = HId ` {p \<in> set ps. \<forall>q\<in>set ps. f p \<le> f q}"
proof -
  have "p \<in> set ps \<Longrightarrow> f p = least_by f (walk1 ps) \<longleftrightarrow> (\<forall>q\<in>set ps. f p \<le> f q)" for p
    using least_by_iff [of "walk1 ps" f p] fin by (simp add: walks_set [OF w(1)])
  then show ?thesis by (auto simp: ids_with_eq walks_set [OF w(2)])
qed

lemma recommended_greatest:
  assumes w: "walks walk1" "walks walk2"
  shows "set (ids_with f (greatest_by f (walk1 ps)) (walk2 ps)) =
    HId ` {p \<in> set ps. 0 \<le> f p \<and> (\<forall>q\<in>set ps. f q \<le> f p)}"
proof -
  have "p \<in> set ps \<Longrightarrow> f p = greatest_by f (walk1 ps) \<longleftrightarrow> 0 \<le> f p \<and> (\<forall>q\<in>set ps. f q \<le> f p)" for p
    using greatest_by_iff [of p "walk1 ps" f] by (simp add: walks_set [OF w(1)])
  then show ?thesis by (auto simp: ids_with_eq walks_set [OF w(2)])
qed

subsection \<open>Properties\<close>

text \<open>
  What is recommended, whatever the orders in which the map is walked. For \<open>dis\<close> and
  \<open>price\<close> exactly the hotels than which none is nearer or cheaper, provided that no distance and
  no price is beyond the largest float; for \<open>rate\<close> exactly the hotels than which none is rated
  higher, except those rated below zero; for any other requirement none.
\<close>

theorem GetRecommendations_spec:
  assumes w: "walks walk1" "walks walk2"
    and d: "\<forall>p\<in>set (map snd hotels). kilometres metres lat lon p \<le> max_float64"
    and pr: "\<forall>p\<in>set (map snd hotels). HPrice p \<le> max_float64"
  shows "set (GetRecommendations metres walk1 walk2 hotels require lat lon) =
    HId ` {p \<in> set (map snd hotels).
      if require = ''dis'' then \<forall>q\<in>set (map snd hotels). kilometres metres lat lon p \<le> kilometres metres lat lon q
      else if require = ''rate'' then 0 \<le> HRate p \<and> (\<forall>q\<in>set (map snd hotels). HRate q \<le> HRate p)
      else if require = ''price'' then \<forall>q\<in>set (map snd hotels). HPrice p \<le> HPrice q
      else False}"
  unfolding GetRecommendations_def Let_def
  using recommended_least [OF w d] recommended_greatest [OF w, of HRate "map snd hotels"] recommended_least [OF w pr]
  by (cases "require = ''dis''"; cases "require = ''rate''"; cases "require = ''price''") (simp_all del: set_map)

definition demo_hotels :: "(string \<times> rec_hotel) list" where
  "demo_hotels =
     [(''1'', \<lparr>HId = ''1'', HLat = 0, HLon = 0, HRate = 109, HPrice = 150\<rparr>),
      (''2'', \<lparr>HId = ''2'', HLat = 0, HLon = 0, HRate = 139, HPrice = 120\<rparr>)]"

lemma walks_examples: "walks (\<lambda>ps. ps)" "walks rev"
  by (simp_all add: walks_def)

lemma max_float64_ge: "x \<le> 1000 \<Longrightarrow> x \<le> max_float64"
  by (rule order_trans [of _ 1000]) (simp_all add: max_float64_def)

theorem GetRecommendations_spec_witness:
  "set (GetRecommendations (\<lambda>p q. 0) (\<lambda>ps. ps) rev demo_hotels ''rate'' 0 0) = {''2''} \<and>
   set (GetRecommendations (\<lambda>p q. 0) rev (\<lambda>ps. ps) demo_hotels ''dis'' 0 0) = {''1'', ''2''}"
proof -
  have k: "kilometres (\<lambda>p q. 0) 0 0 p = 0" for p
    by (simp add: kilometres_def fl_div_def fl_round_def)
  have d: "\<forall>p\<in>set (map snd demo_hotels). kilometres (\<lambda>p q. 0) 0 0 p \<le> max_float64"
    and pr: "\<forall>p\<in>set (map snd demo_hotels). HPrice p \<le> max_float64"
    by (simp_all add: k demo_hotels_def max_float64_ge)
  show ?thesis
    unfolding GetRecommendations_spec [OF walks_examples d pr]
      GetRecommendations_spec [OF walks_examples(2) walks_examples(1) d pr] k
    by (auto simp: demo_hotels_def image_iff conj_disj_distribR ex_disj_distrib)
qed

subsection \<open>After start-up\<close>

lemma update_fresh: "k \<notin> fst ` set m \<Longrightarrow> AList.update k v m = m @ [(k, v)]"
  by (induction m) auto

lemma foldl_update_distinct:
  "\<lbrakk>distinct (map key ps); \<forall>p\<in>set ps. key p \<notin> fst ` set acc\<rbrakk>
     \<Longrightarrow> foldl (\<lambda>m p. AList.update (key p) p m) acc ps = acc @ map (\<lambda>p. (key p, p)) ps"
proof (induction ps arbitrary: acc)
  case (Cons p ps)
  have "\<forall>q\<in>set ps. key q \<noteq> key p" using Cons.prems(1) by simp (metis imageI)
  then show ?case using Cons by (simp add: update_fresh)
qed simp

lemma HId_rec_hotels: "map HId rec_hotels = hotel_ids"
  unfolding rec_hotels_def map_append hotel_ids_split map_map
  by (simp add: fixed_rec_hotels_def generated_rec_hotel_def comp_def del: upt_rec_numeral)

lemma seed_generated_run:
  assumes "seedable init env" and "distinct is"
    and "\<forall>d\<in>set (stored init h ''recommendation''). \<forall>i\<in>set is. map_of d ''hotelid'' \<noteq> Some (BStr (itoa (int i)))"
  shows "\<exists>new. run_state (seed_generated env is) h = (Ret (), h @ new) \<and>
    stored init (h @ new) ''recommendation'' =
      stored init h ''recommendation'' @ map (\<lambda>i. rec_doc (generated_rec_hotel i)) is"
  using assms(2,3)
proof (induction "is" arbitrary: h)
  case (Cons i js)
  let ?c = "''recommendation''"
  let ?q = "[(''hotelid'', BStr (itoa (int i)))]"
  let ?h = "h @ [FindCount ?c ?q (Inr 0)]"
  have e: "filter (doc_matches ?q) (stored init h ?c) = []"
    using Cons.prems(2) by (auto simp: filter_empty_conv doc_matches_def)
  then have n: "mongo_count env h ?c ?q = Inr 0"
    using assms(1) by (simp add: seedable_def mongo_counts_def)
  have s: "stored init ?h ?c = stored init h ?c" by (simp add: stored_append)
  obtain new where 1: "run_state (seed_doc env ?c ''hotelid'' (itoa (int i)) (rec_doc (generated_rec_hotel i))) ?h = (Ret (), ?h @ new)"
    "stored init (?h @ new) ?c = stored init h ?c @ [rec_doc (generated_rec_hotel i)]"
    using seed_doc_run [OF assms(1), of ?c "''hotelid''" "itoa (int i)" "rec_doc (generated_rec_hotel i)" ?h]
    unfolding s e by auto
  have "\<exists>new'. run_state (seed_generated env js) (?h @ new) = (Ret (), (?h @ new) @ new') \<and>
      stored init ((?h @ new) @ new') ?c = stored init (?h @ new) ?c @ map (\<lambda>i. rec_doc (generated_rec_hotel i)) js"
  proof (rule Cons.IH)
    show "\<forall>d\<in>set (stored init (?h @ new) ?c). \<forall>j\<in>set js. map_of d ''hotelid'' \<noteq> Some (BStr (itoa (int j)))"
      unfolding 1(2) using Cons.prems by (auto simp: rec_doc_def generated_rec_hotel_def)
  qed (use Cons.prems in simp)
  then obtain new' where 2: "run_state (seed_generated env js) (?h @ new) = (Ret (), (?h @ new) @ new')"
    "stored init ((?h @ new) @ new') ?c = stored init h ?c @ map (\<lambda>i. rec_doc (generated_rec_hotel i)) (i # js)"
    unfolding 1(2) by auto
  show ?case
    by (rule exI [of _ "FindCount ?c ?q (Inr 0) # new @ new'"]) (use 1 2 n in \<open>simp add: findCount_def\<close>)
qed (simp add: exI [of _ "[]"])

lemma recommendation_database:
  assumes "seedable init env"
  shows "\<exists>new. run_state (initializeRecommendationDatabase env url) h = (Ret (), h @ new) \<and>
    stored init (h @ new) ''recommendation'' = map rec_doc rec_hotels"
proof -
  let ?c = "''recommendation''"
  let ?h = "h @ [MongoDial url None, DropCollection ?c None]"
  let ?kds = "map (\<lambda>p. (HId p, rec_doc p)) fixed_rec_hotels"
  have ok: "mongo_dial env h url = None" "mongo_drop env h c = None" "mongo_index env h c k = None" for h c k
    using assms by (simp_all add: seedable_def)
  have e: "stored init ?h ?c = []" by (simp add: stored_append)
  have "\<exists>new. run_state (seed_docs env ?c ''hotelid'' ?kds) ?h = (Ret (), ?h @ new) \<and>
      stored init (?h @ new) ?c = stored init ?h ?c @ map snd ?kds"
    by (rule seed_docs_run [OF assms]) (simp_all only: e, simp_all add: fixed_rec_hotels_def rec_doc_def)
  then obtain n1 where 1: "run_state (seed_docs env ?c ''hotelid'' ?kds) ?h = (Ret (), ?h @ n1)"
    "stored init (?h @ n1) ?c = map rec_doc fixed_rec_hotels"
    unfolding e by (auto simp: comp_def)
  have "\<exists>new. run_state (seed_generated env [7..<81]) (?h @ n1) = (Ret (), (?h @ n1) @ new) \<and>
      stored init ((?h @ n1) @ new) ?c = stored init (?h @ n1) ?c @ map (\<lambda>i. rec_doc (generated_rec_hotel i)) [7..<81]"
  proof (rule seed_generated_run [OF assms distinct_upt])
    have "i \<in> set [7..<81] \<Longrightarrow> itoa (int i) \<notin> set (map HId fixed_rec_hotels)" for i
      using distinct_hotel_ids unfolding HId_rec_hotels [symmetric] rec_hotels_def map_append distinct_append
      by (auto simp: generated_rec_hotel_def simp del: upt_rec_numeral set_upt)
    then show "\<forall>d\<in>set (stored init (?h @ n1) ?c). \<forall>i\<in>set [7..<81]. map_of d ''hotelid'' \<noteq> Some (BStr (itoa (int i)))"
      unfolding 1(2) by (auto simp: rec_doc_def simp del: upt_rec_numeral set_upt) (metis imageI)
  qed
  then obtain n2 where 2: "run_state (seed_generated env [7..<81]) (?h @ n1) = (Ret (), (?h @ n1) @ n2)"
    "stored init ((?h @ n1) @ n2) ?c = map rec_doc rec_hotels"
    unfolding 1(2) rec_hotels_def by (auto simp: comp_def simp del: upt_rec_numeral)
  show ?thesis
    by (rule exI [of _ "[MongoDial url None, DropCollection ?c None] @ n1 @ n2 @ [EnsureIndexKey ?c ''hotelid'' None]"])
      (use 1(1) 2 in \<open>simp add: initializeRecommendationDatabase_def store_calls ok stored_append del: upt_rec_numeral\<close>)
qed

lemma recommendations_loaded:
  assumes "mongo_finds init env" and "stored init h ''recommendation'' = map rec_doc rec_hotels"
  shows "fst (run_state (loadRecommendations env) h) = map (\<lambda>p. (HId p, p)) rec_hotels"
proof -
  have "mongo_find env h ''recommendation'' [] = Inr (map rec_doc rec_hotels)"
    using assms by (simp add: mongo_finds_def doc_matches_def)
  moreover have "foldl (\<lambda>m p. AList.update (HId p) p m) [] rec_hotels = [] @ map (\<lambda>p. (HId p, p)) rec_hotels"
    by (rule foldl_update_distinct) (simp_all add: HId_rec_hotels distinct_hotel_ids)
  ultimately show ?thesis
    by (simp add: loadRecommendations_def findAll_def run_state_bind comp_def)
qed

text \<open>The prices of the seeded hotels: 120 for hotel 2, more for all others.\<close>

lemma generated_prices: "120 < snd (rec_rates i)"
proof -
  have "120 < fl_round (12317 / 100)" by code_simp
  then show ?thesis by (auto simp: rec_rates_def)
qed

lemma set_rec_hotels: "set rec_hotels = set fixed_rec_hotels \<union> generated_rec_hotel ` {7..<81}"
  unfolding rec_hotels_def set_append set_map set_upt ..

lemma fixed_price: "p \<in> set fixed_rec_hotels \<Longrightarrow> 120 \<le> HPrice p \<and> (HPrice p = 120 \<longleftrightarrow> HId p = ''2'')"
  unfolding fixed_rec_hotels_def by auto

lemma generated_price: "120 < HPrice (generated_rec_hotel i)"
  by (simp add: generated_rec_hotel_def generated_prices)

lemma highest_price: "p \<in> set rec_hotels \<Longrightarrow> HPrice p \<le> 1000"
proof -
  have "fl_round (12317 / 100) \<le> 1000" by code_simp
  then have "HPrice (generated_rec_hotel i) \<le> 1000" for i
    by (auto simp: generated_rec_hotel_def rec_rates_def)
  moreover have "\<forall>p\<in>set fixed_rec_hotels. HPrice p \<le> 1000"
    by (simp add: fixed_rec_hotels_def)
  moreover assume "p \<in> set rec_hotels"
  ultimately show ?thesis unfolding set_rec_hotels by blast
qed

lemma cheapest_hotel:
  "{p \<in> set rec_hotels. \<forall>q\<in>set rec_hotels. HPrice p \<le> HPrice q} = {p \<in> set fixed_rec_hotels. HId p = ''2''}"
proof -
  have ge: "120 \<le> HPrice q" if "q \<in> set rec_hotels" for q
    using that fixed_price less_imp_le [OF generated_price] unfolding set_rec_hotels by blast
  have "\<exists>q\<in>set fixed_rec_hotels. HPrice q = 120"
    by (simp add: fixed_rec_hotels_def)
  then obtain q where q: "q \<in> set rec_hotels" "HPrice q = 120"
    unfolding set_rec_hotels by blast
  have "(\<forall>q\<in>set rec_hotels. HPrice p \<le> HPrice q) \<longleftrightarrow> HPrice p = 120" if "p \<in> set rec_hotels" for p
    using ge that q by (metis order_antisym)
  moreover have "p \<in> set rec_hotels \<and> HPrice p = 120 \<longleftrightarrow> p \<in> set fixed_rec_hotels \<and> HId p = ''2''" for p
    using fixed_price generated_price unfolding set_rec_hotels by (metis UnE UnI1 imageE less_irrefl)
  ultimately show ?thesis by blast
qed

text \<open>
  What the service recommends out of the box. On a database that behaves as
  documented, seeding and loading yield the 80 hotels, and the hotel recommended by price is
  hotel 2 alone, whatever the orders of the map and the distances.
\<close>

theorem cheapest_after_startup:
  assumes "seedable init env" and "mongo_finds init env" and "walks walk1" and "walks walk2"
  shows "\<exists>h' h'' hotels.
    run_state (initializeRecommendationDatabase env url) h = (Ret (), h') \<and>
    run_state (loadRecommendations env) h' = (hotels, h'') \<and> map fst hotels = hotel_ids \<and>
    set (GetRecommendations metres walk1 walk2 hotels ''price'' lat lon) = {''2''}"
proof -
  obtain new where 1: "run_state (initializeRecommendationDatabase env url) h = (Ret (), h @ new)"
    "stored init (h @ new) ''recommendation'' = map rec_doc rec_hotels"
    using recommendation_database [OF assms(1)] by blast
  have 2: "fst (run_state (loadRecommendations env) (h @ new)) = map (\<lambda>p. (HId p, p)) rec_hotels"
    by (rule recommendations_loaded [OF assms(2) 1(2)])
  have "\<forall>p\<in>set rec_hotels. HPrice p \<le> max_float64"
    by (rule ballI, rule max_float64_ge) (use highest_price in blast)
  then have "set (GetRecommendations metres walk1 walk2 (map (\<lambda>p. (HId p, p)) rec_hotels) ''price'' lat lon) =
      HId ` {p \<in> set fixed_rec_hotels. HId p = ''2''}"
    using recommended_least [OF assms(3,4), of rec_hotels HPrice]
    by (simp add: GetRecommendations_def comp_def cheapest_hotel)
  also have "\<dots> = {''2''}" by (auto simp: fixed_rec_hotels_def image_iff conj_disj_distribR ex_disj_distrib)
  finally have 3: "set (GetRecommendations metres walk1 walk2 (map (\<lambda>p. (HId p, p)) rec_hotels) ''price'' lat lon) = {''2''}" .
  obtain h'' where "run_state (loadRecommendations env) (h @ new) = (map (\<lambda>p. (HId p, p)) rec_hotels, h'')"
    using 2 by (cases "run_state (loadRecommendations env) (h @ new)") simp
  moreover have "map fst (map (\<lambda>p. (HId p, p)) rec_hotels) = hotel_ids"
    by (simp add: comp_def HId_rec_hotels)
  ultimately show ?thesis using 1(1) 3 by blast
qed

theorem cheapest_after_startup_witness:
  "\<exists>hotels. map fst hotels = hotel_ids \<and>
     set (GetRecommendations (\<lambda>p q. 0) rev (\<lambda>ps. ps) hotels ''price'' 0 0) = {''2''}"
  using cheapest_after_startup [OF seedable_memory mongo_finds_memory walks_examples(2) walks_examples(1),
    of "\<lambda>c. []" "''url''" "[]" "\<lambda>p q. 0" 0 0] by blast

end
