(* ===== verification/Sha256.thy ===== *)
theory Sha256
  imports GoPrelude
begin

text \<open>
  SHA-256 (FIPS 180-4), as Go's \<open>crypto/sha256\<close> computes it on a text of bytes, and the \<open>%x\<close>
  format of a byte slice. The lemmas give the length of a digest and the injectivity of its text.
\<close>

unbundle bit_operations_syntax

definition rotr :: "nat \<Rightarrow> uint32 \<Rightarrow> uint32" where
  "rotr n x = drop_bit n x OR push_bit (32 - n) x"

definition sigma0 :: "uint32 \<Rightarrow> uint32" where
  "sigma0 x = rotr 7 x XOR rotr 18 x XOR drop_bit 3 x"

definition sigma1 :: "uint32 \<Rightarrow> uint32" where
  "sigma1 x = rotr 17 x XOR rotr 19 x XOR drop_bit 10 x"

definition big_sigma0 :: "uint32 \<Rightarrow> uint32" where
  "big_sigma0 x = rotr 2 x XOR rotr 13 x XOR rotr 22 x"

definition big_sigma1 :: "uint32 \<Rightarrow> uint32" where
  "big_sigma1 x = rotr 6 x XOR rotr 11 x XOR rotr 25 x"

definition sha_ch :: "uint32 \<Rightarrow> uint32 \<Rightarrow> uint32 \<Rightarrow> uint32" where
  "sha_ch e f g = (e AND f) XOR (NOT e AND g)"

definition sha_maj :: "uint32 \<Rightarrow> uint32 \<Rightarrow> uint32 \<Rightarrow> uint32" where
  "sha_maj a b c = (a AND b) XOR (a AND c) XOR (b AND c)"

text \<open>The constants of the standard, in decimal.\<close>

definition round_constants :: "uint32 list" where
  "round_constants =
    [1116352408, 1899447441, 3049323471, 3921009573, 961987163, 1508970993, 2453635748, 2870763221,
     3624381080, 310598401, 607225278, 1426881987, 1925078388, 2162078206, 2614888103, 3248222580,
     3835390401, 4022224774, 264347078, 604807628, 770255983, 1249150122, 1555081692, 1996064986,
     2554220882, 2821834349, 2952996808, 3210313671, 3336571891, 3584528711, 113926993, 338241895,
     666307205, 773529912, 1294757372, 1396182291, 1695183700, 1986661051, 2177026350, 2456956037,
     2730485921, 2820302411, 3259730800, 3345764771, 3516065817, 3600352804, 4094571909, 275423344,
     430227734, 506948616, 659060556, 883997877, 958139571, 1322822218, 1537002063, 1747873779,
     1955562222, 2024104815, 2227730452, 2361852424, 2428436474, 2756734187, 3204031479, 3329325298]"

definition initial_hash :: "uint32 list" where
  "initial_hash =
    [1779033703, 3144134277, 1013904242, 2773480762, 1359893119, 2600822924, 528734635, 1541459225]"

text \<open>The message schedule, with the latest word in front.\<close>

primrec extend_schedule :: "nat \<Rightarrow> uint32 list \<Rightarrow> uint32 list" where
  "extend_schedule 0 ws = ws"
| "extend_schedule (Suc n) ws =
     extend_schedule n ((sigma1 (ws ! 1) + ws ! 6 + sigma0 (ws ! 14) + ws ! 15) # ws)"

definition schedule :: "uint32 list \<Rightarrow> uint32 list" where
  "schedule block = rev (extend_schedule 48 (rev block))"

definition sha_round :: "uint32 list \<Rightarrow> uint32 \<times> uint32 \<Rightarrow> uint32 list" where
  "sha_round s kw =
     (case s of
        [a, b, c, d, e, f, g, h] \<Rightarrow>
          let t1 = h + big_sigma1 e + sha_ch e f g + fst kw + snd kw;
              t2 = big_sigma0 a + sha_maj a b c
          in [t1 + t2, a, b, c, d + t1, e, f, g]
      | _ \<Rightarrow> s)"

definition compress :: "uint32 list \<Rightarrow> uint32 list \<Rightarrow> uint32 list" where
  "compress hash block = map2 (+) hash (foldl sha_round hash (zip round_constants (schedule block)))"

type_synonym byte = "8 word"

definition word_of_bytes :: "byte list \<Rightarrow> uint32" where
  "word_of_bytes bs = foldl (\<lambda>w b. push_bit 8 w OR ucast b) 0 bs"

definition bytes_of_word :: "'a::len word \<Rightarrow> nat list \<Rightarrow> byte list" where
  "bytes_of_word w shifts = map (\<lambda>i. ucast (drop_bit i w)) shifts"

definition pad_message :: "byte list \<Rightarrow> byte list" where
  "pad_message m =
     m @ [128] @ replicate ((119 - length m mod 64) mod 64) 0 @
     bytes_of_word (of_nat (8 * length m) :: 64 word) [56, 48, 40, 32, 24, 16, 8, 0]"

fun chunks :: "nat \<Rightarrow> 'a list \<Rightarrow> 'a list list" where
  "chunks n xs = (if n = 0 \<or> xs = [] then [] else take n xs # chunks n (drop n xs))"

declare chunks.simps [simp del]

definition sha256 :: "string \<Rightarrow> byte list" where
  "sha256 s =
     (let blocks = chunks 16 (map word_of_bytes (chunks 4 (pad_message (map of_char s))))
      in concat (map (\<lambda>w. bytes_of_word w [24, 16, 8, 0]) (foldl compress initial_hash blocks)))"

text \<open>\<open>fmt.Sprintf("%x", bytes)\<close>.\<close>

definition hex_digit :: "nat \<Rightarrow> char" where
  "hex_digit d = ''0123456789abcdef'' ! d"

definition hex :: "byte list \<Rightarrow> string" where
  "hex bs = concat (map (\<lambda>b. [hex_digit (unat (drop_bit 4 b)), hex_digit (unat (b AND 15))]) bs)"

subsection \<open>Lemmas\<close>

lemma length_bytes_of_word [simp]: "length (bytes_of_word w ns) = length ns"
  by (simp add: bytes_of_word_def)

lemma length_sha_round [simp]: "length (sha_round s kw) = length s"
  by (auto simp: sha_round_def Let_def split: list.split)

lemma length_compress: "length (compress hash block) = length hash"
proof -
  have "length (foldl sha_round s kws) = length s" for s kws
    by (induction kws arbitrary: s) simp_all
  then show ?thesis by (simp add: compress_def)
qed

lemma sha256_length: "length (sha256 s) = 32"
proof -
  have "length (foldl compress h bs) = length h" for h bs
    by (induction bs arbitrary: h) (simp_all add: length_compress)
  moreover have "length (concat (map (\<lambda>w. bytes_of_word w [24, 16, 8, 0]) ws)) = 4 * length ws" for ws :: "uint32 list"
    by (induction ws) simp_all
  ultimately show ?thesis by (simp add: sha256_def Let_def initial_hash_def)
qed

lemma hex_digit_inj: "\<lbrakk>d < 16; e < 16; hex_digit d = hex_digit e\<rbrakk> \<Longrightarrow> d = e"
proof -
  have "distinct ''0123456789abcdef''" by simp
  then show "\<lbrakk>d < 16; e < 16; hex_digit d = hex_digit e\<rbrakk> \<Longrightarrow> d = e"
    unfolding hex_digit_def by (subst (asm) nth_eq_iff_index_eq) simp_all
qed

lemma byte_split: "(b :: byte) = push_bit 4 (drop_bit 4 b) OR (b AND 15)"
proof -
  have "b = push_bit 4 (drop_bit 4 b) OR (b AND mask 4)"
    by (intro bit_word_eqI) (auto simp: bit_simps)
  then show ?thesis by (simp add: mask_eq_exp_minus_1)
qed

lemma hex_byte_inj:
  assumes "hex_digit (unat (drop_bit 4 b)) = hex_digit (unat (drop_bit 4 c))"
    and "hex_digit (unat (b AND 15)) = hex_digit (unat (c AND 15))"
  shows "b = (c :: byte)"
proof -
  have d: "unat (drop_bit 4 x) < 16" for x :: byte
  proof -
    have "unat x < 256" using unsigned_less [of x, where ?'a = nat] by simp
    then show ?thesis by (simp add: drop_bit_eq_div unat_div less_mult_imp_div_less)
  qed
  have m: "unat (x AND 15) < 16" for x :: byte
    using word_and_le1 [of x 15] by (simp add: word_le_nat_alt)
  have "drop_bit 4 b = drop_bit 4 c" "b AND 15 = c AND 15"
    using assms hex_digit_inj [OF d d] hex_digit_inj [OF m m] by (simp_all add: word_unat_eq_iff)
  then show ?thesis by (metis byte_split)
qed

lemma hex_inject [simp]: "hex bs = hex cs \<longleftrightarrow> bs = cs"
proof
  show "hex bs = hex cs \<Longrightarrow> bs = cs"
  proof (induction bs arbitrary: cs)
    case (Cons b bs)
    then show ?case by (cases cs) (auto simp: hex_def intro: hex_byte_inj)
  qed (auto simp: hex_def split: list.splits)
qed simp

lemma length_hex: "length (hex bs) = 2 * length bs"
  by (induction bs) (simp_all add: hex_def)

end
