(* ===== verification/UserService.thy ===== *)
theory UserService
  imports HotelStore Sha256 "HOL-Library.AList"
begin

text \<open>
  \<open>benchmarks/hotel-app/user\<close> (\<open>server.go\<close>, \<open>db.go\<close>): checking a user's password against the
  SHA-256 digest in the database. The MongoDB driver is an argument: every call is an event of
  the log.
\<close>

subsection \<open>Data\<close>

record user =
  Username :: string
  Password :: string

datatype user_event =
    Connect string "go_error option"
  | Disconnect "go_error option"
  | DropUsers "go_error option"
  | InsertUsers "document list" "go_error option"
  | FindUsers "go_error + nat"
  | AllUsers "nat option" "(document list \<times> go_error option) outcome"
  | FindUser string "document \<times> go_error option"

text \<open>A cursor is a number; \<open>All\<close> of a nil cursor is third-party code and may panic. A lookup
  that fails has filled in the fields of the document it answers with.\<close>

record user_db =
  db_connect :: "user_event list \<Rightarrow> string \<Rightarrow> go_error option"
  db_drop :: "user_event list \<Rightarrow> go_error option"
  db_insert :: "user_event list \<Rightarrow> document list \<Rightarrow> go_error option"
  db_find :: "user_event list \<Rightarrow> go_error + nat"
  db_all :: "user_event list \<Rightarrow> nat option \<Rightarrow> (document list \<times> go_error option) outcome"
  db_find_user :: "user_event list \<Rightarrow> string \<Rightarrow> document \<times> go_error option"

type_synonym 'a users = "(user_event, 'a) logged"

definition doc_user :: "document \<Rightarrow> user" where
  "doc_user d = \<lparr>Username = str_field ''username'' d, Password = str_field ''password'' d\<rparr>"

definition password_digest :: "string \<Rightarrow> string" where
  "password_digest password = hex (sha256 password)"

subsection \<open>\<open>CheckUser\<close>\<close>

definition lookupCache :: "(string \<times> string) list \<Rightarrow> string \<Rightarrow> string" where
  "lookupCache users_cached username = (case map_of users_cached username of Some p \<Rightarrow> p | None \<Rightarrow> '''')"

definition lookUpDB :: "user_db \<Rightarrow> string \<Rightarrow> (user \<times> bool) users" where
  "lookUpDB db username =
     State_Monad.bind (perform (\<lambda>h. db_find_user db h username) (FindUser username)) (\<lambda>r.
       case r of (d, Some err) \<Rightarrow> State_Monad.return (doc_user d, False)
       | (d, None) \<Rightarrow> State_Monad.return (doc_user d, True))"

text \<open>The cache is filled at start-up but switched off.\<close>

definition CheckUser :: "user_db \<Rightarrow> (string \<times> string) list \<Rightarrow> string \<Rightarrow> string \<Rightarrow> bool users" where
  "CheckUser db users_cached username password =
     (let pass = password_digest password; use_cache = False
      in if use_cache then State_Monad.return (pass = lookupCache users_cached username)
         else State_Monad.bind (lookUpDB db username) (\<lambda>(user, _). State_Monad.return (pass = Password user)))"

subsection \<open>Start-up\<close>

definition loadUsers :: "user_db \<Rightarrow> (string \<times> string) list outcome users" where
  "loadUsers db =
     State_Monad.bind (perform (db_find db) FindUsers) (\<lambda>r.
       let cursor = (case r of Inl e \<Rightarrow> None | Inr c \<Rightarrow> Some c)
       in obind (perform (\<lambda>h. db_all db h cursor) (AllUsers cursor)) (\<lambda>(docs, _).
          oreturn (foldl (\<lambda>res user. AList.update (Username user) (Password user) res) [] (map doc_user docs))))"

definition connectDatabase :: "user_db \<Rightarrow> string \<Rightarrow> unit outcome users" where
  "connectDatabase db url =
     (let url_s = ''mongodb://'' @ url
      in or_panic_err (perform (\<lambda>h. db_connect db h url_s) (Connect url_s)))"

definition seed_user :: "nat \<Rightarrow> user" where
  "seed_user i = (if i = 0 then \<lparr>Username = ''hello'', Password = ''hello''\<rparr>
     else \<lparr>Username = ''user_'' @ itoa (int i), Password = ''pass_'' @ itoa (int i)\<rparr>)"

definition user_element :: "user \<Rightarrow> document" where
  "user_element u = [(''username'', BStr (Username u)), (''password'', BStr (password_digest (Password u)))]"

definition seed_elements :: "document list" where
  "seed_elements = map (\<lambda>i. user_element (seed_user i)) [0..<500]"

definition initializeUserDatabase :: "user_db \<Rightarrow> unit outcome users" where
  "initializeUserDatabase db =
     obind (ignore_result (perform (db_drop db) DropUsers)) (\<lambda>_.
     or_fatal_err ''insert'' (perform (\<lambda>h. db_insert db h seed_elements) (InsertUsers seed_elements)))"

subsection \<open>Documented behaviour of the database\<close>

fun after_user_event :: "document list \<Rightarrow> user_event \<Rightarrow> document list" where
  "after_user_event ds (DropUsers None) = []"
| "after_user_event ds (InsertUsers es None) = ds @ es"
| "after_user_event ds _ = ds"

definition stored_users :: "document list \<Rightarrow> user_event list \<Rightarrow> document list" where
  "stored_users init h = foldl after_user_event init h"

text \<open>A lookup answers with the first document of the name, or fails with nothing filled in.\<close>

definition user_db_ok :: "document list \<Rightarrow> user_db \<Rightarrow> bool" where
  "user_db_ok init db \<longleftrightarrow>
     (\<forall>h u. case filter (doc_matches [(''username'', BStr u)]) (stored_users init h) of
        [] \<Rightarrow> (\<exists>e. db_find_user db h u = ([], Some e)) | d # _ \<Rightarrow> db_find_user db h u = (d, None)) \<and>
     (\<forall>h. db_drop db h = None) \<and> (\<forall>h es. db_insert db h es = None)"

subsection \<open>Lemmas\<close>

lemma password_digest_inject: "password_digest p = password_digest q \<longleftrightarrow> sha256 p = sha256 q"
  by (simp add: password_digest_def)

lemma length_password_digest: "length (password_digest p) = 64"
  by (simp add: password_digest_def length_hex sha256_length)

lemma CheckUser_run:
  "run_state (CheckUser db users_cached u p) h =
     (password_digest p = str_field ''password'' (fst (db_find_user db h u)), h @ [FindUser u (db_find_user db h u)])"
  by (cases "db_find_user db h u"; cases "snd (db_find_user db h u)")
    (simp_all add: CheckUser_def lookUpDB_def run_state_bind Let_def doc_user_def)

lemma find_user_none:
  assumes "user_db_ok init db" and "filter (doc_matches [(''username'', BStr u)]) (stored_users init h) = []"
  shows "\<exists>e. db_find_user db h u = ([], Some e)"
proof -
  have "case filter (doc_matches [(''username'', BStr u)]) (stored_users init h) of
      [] \<Rightarrow> (\<exists>e. db_find_user db h u = ([], Some e)) | d # _ \<Rightarrow> db_find_user db h u = (d, None)"
    using assms(1) unfolding user_db_ok_def by blast
  with assms(2) show ?thesis by (simp only: list.case)
qed

lemma find_user_first:
  assumes "user_db_ok init db" and "filter (doc_matches [(''username'', BStr u)]) (stored_users init h) = d # ds"
  shows "db_find_user db h u = (d, None)"
proof -
  have "case filter (doc_matches [(''username'', BStr u)]) (stored_users init h) of
      [] \<Rightarrow> (\<exists>e. db_find_user db h u = ([], Some e)) | d # _ \<Rightarrow> db_find_user db h u = (d, None)"
    using assms(1) unfolding user_db_ok_def by blast
  with assms(2) show ?thesis by (simp only: list.case)
qed

lemma seed_username_inj: "Username (seed_user i) = Username (seed_user j) \<longleftrightarrow> i = j"
  by (auto simp: seed_user_def)

lemma seeded_lookup:
  assumes "i < 500"
  shows "filter (doc_matches [(''username'', BStr (Username (seed_user i)))]) seed_elements = [user_element (seed_user i)]"
proof -
  have "filter (doc_matches [(''username'', BStr (Username (seed_user i)))]) (map (\<lambda>i. user_element (seed_user i)) js) =
      (if i \<in> set js then [user_element (seed_user i)] else [])" if "distinct js" for js
    using that
    by (induction js) (auto simp: doc_matches_def user_element_def seed_username_inj)
  from this [of "[0..<500]"] show ?thesis
    using assms unfolding seed_elements_def by (simp only: distinct_upt set_upt) simp
qed

subsection \<open>Properties\<close>

text \<open>
  Nobody logs in as a user the database does not have: the digest of no password is
  the empty text that stands for the missing user. The same holds of a user without a password.
\<close>

theorem unknown_user_rejected:
  assumes "user_db_ok init db"
    and "\<forall>d\<in>set (stored_users init h). map_of d ''username'' \<noteq> Some (BStr u)"
  shows "\<not> fst (run_state (CheckUser db users_cached u p) h)"
proof -
  have "filter (doc_matches [(''username'', BStr u)]) (stored_users init h) = []"
    using assms(2) by (auto simp: filter_empty_conv doc_matches_def)
  then obtain e where "db_find_user db h u = ([], Some e)"
    using find_user_none [OF assms(1)] by blast
  moreover have "password_digest p \<noteq> []" using length_password_digest [of p] by auto
  ultimately show ?thesis by (simp add: CheckUser_run str_field_def)
qed

definition demo_user_db :: "document list \<Rightarrow> user_db" where
  "demo_user_db init =
     \<lparr>db_connect = \<lambda>h url. None, db_drop = \<lambda>h. None, db_insert = \<lambda>h es. None, db_find = \<lambda>h. Inr 0,
      db_all = \<lambda>h c. (case c of None \<Rightarrow> Panic nil_deref | Some _ \<Rightarrow> Ret (stored_users init h, None)),
      db_find_user = \<lambda>h u. (case filter (doc_matches [(''username'', BStr u)]) (stored_users init h) of
        [] \<Rightarrow> ([], Some (NewError ''mongo: no documents in result'')) | d # _ \<Rightarrow> (d, None))\<rparr>"

lemma user_db_ok_demo: "user_db_ok init (demo_user_db init)"
  by (auto simp: user_db_ok_def demo_user_db_def split: list.split)

theorem unknown_user_rejected_witness:
  "\<not> fst (run_state (CheckUser (demo_user_db [user_element (seed_user 1)]) [] ''hello'' ''hello'') [])"
  using unknown_user_rejected [OF user_db_ok_demo, of "[user_element (seed_user 1)]" "[]" "''hello''" "[]" "''hello''"]
  by (simp add: stored_users_def user_element_def seed_user_def)

text \<open>
  After start-up, on a database that behaves as documented and whatever it held
  before, every one of the 500 users logs in with a password exactly if it has the same SHA-256
  digest as the user's own; so the user's own password is accepted.
\<close>

theorem login_after_startup:
  assumes "user_db_ok init db" and "i < 500"
  shows "\<exists>h'. run_state (initializeUserDatabase db) h = (Ret (), h') \<and>
    (fst (run_state (CheckUser db users_cached (Username (seed_user i)) p) h') \<longleftrightarrow> sha256 p = sha256 (Password (seed_user i)))"
proof -
  let ?h' = "h @ [DropUsers None, InsertUsers seed_elements None]"
  have "run_state (initializeUserDatabase db) h = (Ret (), ?h')"
    using assms(1) by (simp add: initializeUserDatabase_def user_db_ok_def)
  moreover have "stored_users init ?h' = seed_elements" by (simp add: stored_users_def)
  then have "filter (doc_matches [(''username'', BStr (Username (seed_user i)))]) (stored_users init ?h') = [user_element (seed_user i)]"
    using seeded_lookup [OF assms(2)] by simp
  then have "db_find_user db ?h' (Username (seed_user i)) = (user_element (seed_user i), None)"
    by (rule find_user_first [OF assms(1)])
  ultimately show ?thesis
    by (auto simp: CheckUser_run user_element_def str_field_def password_digest_inject)
qed

theorem login_after_startup_witness:
  "\<exists>h'. fst (run_state (CheckUser (demo_user_db []) [] ''user_7'' ''pass_7'') h')"
proof -
  have "itoa 7 = ''7''" by code_simp
  then show ?thesis
    using login_after_startup [OF user_db_ok_demo, of 7 "[]" "[]" "[]" "''pass_7''"]
    by (auto simp: seed_user_def)
qed

end
