(* ===== verification/Tracing.thy ===== *)
theory Tracing
  imports EventLog GoFloat
begin

text \<open>
  \<open>utils/tracing/go\<close> (\<open>tracing.go\<close>, \<open>span.go\<close>): the tracer the tools and benchmarks start, and the
  spans they write. The OpenTelemetry packages are parameters. What they set globally is a record
  that the functions pass on; a function that shuts a tracer down is the provider it was made of,
  or \<^term>\<open>None\<close> for the nil function.
\<close>

subsection \<open>The environment\<close>

definition IsTracingEnabled :: "environment \<Rightarrow> bool outcome" where
  "IsTracingEnabled env =
     (case env ''ENABLE_TRACING'' of
        None \<Rightarrow> Ret False
      | Some v \<Rightarrow> if v = ''false'' then Ret False else if v = ''true'' then Ret True
                  else Fatal ''ENABLE_TRACING has unexpected value'')"

subsection \<open>Tracers\<close>

datatype sampler = AlwaysSample | TraceIDRatioBased rat | ParentBased sampler

datatype attribute = StringAttr string string | Int64Attr string int

record exporter =
  ExporterURL :: string
  LoggerPrefix :: string

record tracer_provider =
  Sampler :: sampler
  Syncer :: exporter
  Resource :: "attribute list"

datatype propagator = TraceContext | Baggage

record otel =
  Provider :: "tracer_provider option"
  Propagators :: "propagator list"

text \<open>\<open>zipkin.New\<close> may fail, and so may \<open>Shutdown\<close>.\<close>

record tracing_packages =
  zipkin_new :: "string \<Rightarrow> go_error option"
  provider_shutdown :: "tracer_provider \<Rightarrow> go_error option"

type_synonym shutdown_func = "tracer_provider option"

definition initTracer :: "tracer_provider \<Rightarrow> otel \<Rightarrow> shutdown_func \<times> otel" where
  "initTracer tp s = (Some tp, s\<lparr>Provider := Some tp, Propagators := [TraceContext, Baggage]\<rparr>)"

text \<open>Calling the function that was returned; a nil function is dereferenced.\<close>

definition call_shutdown :: "tracing_packages \<Rightarrow> shutdown_func \<Rightarrow> unit outcome" where
  "call_shutdown pk f =
     (case f of
        None \<Rightarrow> Panic nil_deref
      | Some tp \<Rightarrow> (case provider_shutdown pk tp of Some err \<Rightarrow> Fatal ''Tracer shutdown error'' | None \<Rightarrow> Ret ()))"

text \<open>The error is only logged, and returned with a nil exporter.\<close>

definition newZipkinExporter :: "tracing_packages \<Rightarrow> string \<Rightarrow> string \<Rightarrow> exporter option \<times> go_error option" where
  "newZipkinExporter pk url logger =
     (case zipkin_new pk url of
        Some err \<Rightarrow> (None, Some err)
      | None \<Rightarrow> (Some \<lparr>ExporterURL = url, LoggerPrefix = logger\<rparr>, None))"

definition service_label :: "string \<Rightarrow> string \<Rightarrow> string" where
  "service_label serviceName hostname = serviceName @ ''@'' @ hostname @ ''-FU''"

definition InitBasicTracer ::
  "tracing_packages \<Rightarrow> environment \<Rightarrow> string \<Rightarrow> string \<Rightarrow> otel \<Rightarrow> (shutdown_func \<times> go_error option) \<times> otel"
where
  "InitBasicTracer pk env url serviceName s =
     (let hostname = (case env ''HOSTNAME'' of Some h \<Rightarrow> h | None \<Rightarrow> '''')
      in case newZipkinExporter pk url ''tracer-log'' of
           (Some exporter, None) \<Rightarrow>
             (let tp = \<lparr>Sampler = AlwaysSample, Syncer = exporter,
                        Resource = [StringAttr ''service.name'' (service_label serviceName hostname), Int64Attr ''ID'' 1]\<rparr>;
                  (f, s') = initTracer tp s
              in ((f, None), s'))
         | (_, err) \<Rightarrow> ((None, err), s))"

definition InitCustomTracer ::
  "tracing_packages \<Rightarrow> string \<Rightarrow> rat \<Rightarrow> string \<Rightarrow> attribute list \<Rightarrow> otel \<Rightarrow> (shutdown_func \<times> go_error option) \<times> otel"
where
  "InitCustomTracer pk url traceRate logger attr s =
     (case newZipkinExporter pk url logger of
        (Some exporter, None) \<Rightarrow>
          (let sampler = (if traceRate \<ge> 1 then AlwaysSample else ParentBased (TraceIDRatioBased traceRate));
               tp = \<lparr>Sampler = sampler, Syncer = exporter, Resource = attr\<rparr>;
               (f, s') = initTracer tp s
           in ((f, None), s'))
      | (_, err) \<Rightarrow> ((None, err), s))"

subsection \<open>Interceptors\<close>

text \<open>A keepalive option has a timeout in nanoseconds and may permit pings without a stream.\<close>

datatype grpc_option =
    ServerStats
  | ClientStats
  | InsecureCredentials
  | WithBlock
  | KeepaliveParams int
  | KeepaliveEnforcement bool
  | KeepaliveClient int bool

definition GetGRPCServerWithUnaryInterceptor :: "grpc_option list" where
  "GetGRPCServerWithUnaryInterceptor = [ServerStats]"

definition DialGRPCWithUnaryInterceptor ::
  "(string \<Rightarrow> grpc_option list \<Rightarrow> go_error + 'conn) \<Rightarrow> string \<Rightarrow> grpc_option list \<Rightarrow> go_error + 'conn"
where
  "DialGRPCWithUnaryInterceptor new_client addr opts = new_client addr (opts @ [ClientStats])"

definition GetServerInterceptor :: grpc_option where "GetServerInterceptor = ServerStats"

definition GetClientInterceptor :: grpc_option where "GetClientInterceptor = ClientStats"

subsection \<open>Spans\<close>

text \<open>A context knows the span that is current in it; a span started in it has that span as its
  parent. Spans are numbered in the order in which they are started.\<close>

record span =
  SpanName :: string
  TracerName :: string
  TraceSpan :: "nat option"

datatype span_event = SpanStarted string string "nat option" | SpanEnded nat

type_synonym span_context = "nat option"

definition spans_started :: "span_event list \<Rightarrow> nat" where
  "spans_started h = length (filter (\<lambda>e. case e of SpanStarted t n p \<Rightarrow> True | SpanEnded i \<Rightarrow> False) h)"

text \<open>Both methods have a pointer receiver: the new value of the span is returned.\<close>

definition StartSpan :: "span_context \<Rightarrow> span \<Rightarrow> (span_event, span_context \<times> span) logged" where
  "StartSpan ctx s =
     State (\<lambda>h. let i = spans_started h
                in ((Some i, s\<lparr>TraceSpan := Some i\<rparr>), h @ [SpanStarted (TracerName s) (SpanName s) ctx]))"

definition EndSpan :: "span \<Rightarrow> (span_event, unit outcome) logged" where
  "EndSpan s =
     (case TraceSpan s of
        None \<Rightarrow> opanic nil_deref
      | Some i \<Rightarrow> obind (ignore_result (record_event (SpanEnded i))) (\<lambda>_. oreturn ()))"

subsection \<open>Properties\<close>

text \<open>
  A tracer that was started replaces the global one, samples everything and labels its
  spans with the service and the host; shutting it down shuts down that very provider. If the
  exporter cannot be made, the global tracer stays as it was, and calling the function returned
  beside the error panics.
\<close>

theorem InitBasicTracer_spec:
  "InitBasicTracer pk env url serviceName s =
     (case zipkin_new pk url of
        Some err \<Rightarrow> ((None, Some err), s)
      | None \<Rightarrow>
          (let tp = \<lparr>Sampler = AlwaysSample, Syncer = \<lparr>ExporterURL = url, LoggerPrefix = ''tracer-log''\<rparr>,
             Resource = [StringAttr ''service.name'' (serviceName @ ''@'' @ (case env ''HOSTNAME'' of Some h \<Rightarrow> h | None \<Rightarrow> '''') @ ''-FU''),
               Int64Attr ''ID'' 1]\<rparr>
           in ((Some tp, None), s\<lparr>Provider := Some tp, Propagators := [TraceContext, Baggage]\<rparr>))) \<and>
   call_shutdown pk (fst (fst (InitBasicTracer pk env url serviceName s))) =
     (case zipkin_new pk url of
        Some err \<Rightarrow> Panic nil_deref
      | None \<Rightarrow> (case provider_shutdown pk (the (Provider (snd (InitBasicTracer pk env url serviceName s)))) of
          Some err \<Rightarrow> Fatal ''Tracer shutdown error'' | None \<Rightarrow> Ret ()))"
  by (cases "zipkin_new pk url")
    (simp_all add: InitBasicTracer_def newZipkinExporter_def initTracer_def call_shutdown_def service_label_def Let_def)

lemma spans_started_simps [simp]:
  "spans_started [] = 0" "spans_started (h @ g) = spans_started h + spans_started g"
  "spans_started [SpanStarted t n p] = 1" "spans_started [SpanEnded i] = 0"
  by (simp_all add: spans_started_def)

text \<open>
  Spans nest as their contexts do. A span started in the context another start
  returned has that one as its parent; ending a span ends the one it started last, so a span
  started twice leaves the first of the two open; ending one that was never started panics.
\<close>

theorem span_nesting:
  "\<exists>h' h''. run_state (State_Monad.bind (StartSpan ctx outer) (\<lambda>(ctx', outer). State_Monad.bind (StartSpan ctx' inner)
      (\<lambda>(_, inner). State_Monad.bind (EndSpan inner) (\<lambda>_. EndSpan outer)))) h = (Ret (), h') \<and>
     h' = h @ [SpanStarted (TracerName outer) (SpanName outer) ctx,
       SpanStarted (TracerName inner) (SpanName inner) (Some (spans_started h)),
       SpanEnded (Suc (spans_started h)), SpanEnded (spans_started h)] \<and>
     run_state (State_Monad.bind (StartSpan ctx outer) (\<lambda>(_, s). State_Monad.bind (StartSpan ctx s) (\<lambda>(_, s). EndSpan s))) h = (Ret (), h'') \<and>
     SpanEnded (Suc (spans_started h)) \<in> set (drop (length h) h'') \<and> SpanEnded (spans_started h) \<notin> set (drop (length h) h'') \<and>
     run_state (EndSpan \<lparr>SpanName = n, TracerName = t, TraceSpan = None\<rparr>) h = (Panic nil_deref, h)"
  by (simp add: StartSpan_def EndSpan_def run_state_bind Let_def)

end
