(* ===== verification/HotelServer.thy ===== *)
theory HotelServer
  imports Tracing Geo Profile RateService Recommendation Reservation UserService
begin

text \<open>
  The start of the services of \<open>benchmarks/hotel-app\<close>: \<open>Run\<close> of every \<open>server.go\<close> and \<open>main\<close> of every
  \<open>main.go\<close>. The event log of a process holds the calls to its stores as \<open>OnStore\<close>. \<open>main\<close> hands the
  error of \<open>Run\<close> to \<open>log.Fatal\<close>, so what it has deferred runs when it panics and not otherwise.
\<close>

subsection \<open>A process\<close>

text \<open>\<open>'s\<close> are the calls to the stores, \<open>'d\<close> is what the server has loaded when it serves.\<close>

datatype ('s, 'd) process_event =
    OnStore 's
  | TracerStarted string string "shutdown_func \<times> go_error option"
  | NewMemcClient string int int
  | ServerMade string "grpc_option list"
  | DialTo string "grpc_option list" "go_error option"
  | ListenOn string "go_error option"
  | Served 'd "go_error option"
  | SessionClosed "go_error option"
  | TracerShutDown

type_synonym ('s, 'd, 'a) process = "(('s, 'd) process_event, 'a outcome) logged"

record ('s, 'd) process_world =
  svc_environ :: environment
  svc_otel :: tracing_packages
  svc_dial :: "('s, 'd) process_event list \<Rightarrow> string \<Rightarrow> go_error option"
  svc_listen :: "('s, 'd) process_event list \<Rightarrow> string \<Rightarrow> go_error option"
  svc_serve :: "('s, 'd) process_event list \<Rightarrow> go_error option"

record process_flags =
  ZipkinURL :: string
  ServicePort :: int
  DatabaseAddr :: string
  MemcachedAddr :: string

fun store_call :: "('s, 'd) process_event \<Rightarrow> 's list" where
  "store_call (OnStore e) = [e]"
| "store_call _ = []"

definition store_calls_of :: "('s, 'd) process_event list \<Rightarrow> 's list" where
  "store_calls_of h = concat (map store_call h)"

text \<open>A computation on the stores, as part of a process: the stores see their own calls only.\<close>

definition on_store :: "('s, 'r) logged \<Rightarrow> (('s, 'd) process_event, 'r) logged" where
  "on_store m = within_log OnStore store_call m"

text \<open>\<open>defer d\<close>: \<open>d\<close> runs when the rest returns or panics, and not when the process ends.\<close>

definition deferring :: "('e, unit outcome) logged \<Rightarrow> ('e, 'a outcome) logged \<Rightarrow> ('e, 'a outcome) logged" where
  "deferring d m = State_Monad.bind m (\<lambda>r. case r of
     Ret x \<Rightarrow> obind d (\<lambda>_. oreturn x)
   | Panic e \<Rightarrow> obind d (\<lambda>_. opanic e)
   | Fatal s \<Rightarrow> State_Monad.return (Fatal s))"

subsection \<open>\<open>Run\<close>\<close>

definition second_ns :: int where "second_ns = 1000000000"

definition server_options :: "environment \<Rightarrow> grpc_option list outcome" where
  "server_options env =
     out_bind (IsTracingEnabled env) (\<lambda>tracing.
       Ret ([KeepaliveParams (120 * second_ns), KeepaliveEnforcement True] @ (if tracing then [GetServerInterceptor] else [])))"

definition port_error :: go_error where "port_error = NewError ''server port must be set''"

text \<open>The part all servers share, from the options on; \<open>connect\<close> makes the clients a server needs.\<close>

definition serve_as ::
  "('s, 'd) process_world \<Rightarrow> string \<Rightarrow> int \<Rightarrow> 'd \<Rightarrow> ('s, 'd, go_error option) process \<Rightarrow> ('s, 'd, go_error option) process"
where
  "serve_as w service port loaded connect =
     obind (State_Monad.return (server_options (svc_environ w))) (\<lambda>opts.
     obind (ignore_result (record_event (ServerMade service opts))) (\<lambda>_.
     obind connect (\<lambda>failed. case failed of
         Some err \<Rightarrow> oreturn (Some err)
       | None \<Rightarrow>
           obind (or_fatal_err ''failed to listen'' (perform (\<lambda>h. svc_listen w h ('':'' @ itoa port)) (ListenOn ('':'' @ itoa port)))) (\<lambda>_.
           State_Monad.bind (perform (svc_serve w) (Served loaded)) oreturn))))"

definition no_clients :: "('s, 'd, go_error option) process" where
  "no_clients = oreturn None"

definition profile_Run :: "(store_event, unit) process_world \<Rightarrow> int \<Rightarrow> (store_event, unit, go_error option) process" where
  "profile_Run w port = (if port = 0 then oreturn (Some port_error) else serve_as w ''Profile'' port () no_clients)"

definition rate_Run :: "(store_event, unit) process_world \<Rightarrow> int \<Rightarrow> (store_event, unit, go_error option) process" where
  "rate_Run w port = (if port = 0 then oreturn (Some port_error) else serve_as w ''Rate'' port () no_clients)"

definition reservation_Run :: "(store_event, unit) process_world \<Rightarrow> int \<Rightarrow> (store_event, unit, go_error option) process" where
  "reservation_Run w port = (if port = 0 then oreturn (Some port_error) else serve_as w ''Reservation'' port () no_clients)"

text \<open>The others load what they answer from, unless they have it.\<close>

definition geo_Run ::
  "store_env \<Rightarrow> (store_event, point list) process_world \<Rightarrow> point list option \<Rightarrow> int \<Rightarrow> (store_event, point list, go_error option) process"
where
  "geo_Run env w index port =
     (if port = 0 then oreturn (Some port_error)
      else State_Monad.bind (case index of None \<Rightarrow> on_store (newGeoIndex env) | Some ix \<Rightarrow> State_Monad.return ix) (\<lambda>ix.
        serve_as w ''Geo'' port ix no_clients))"

definition recommendation_Run ::
  "store_env \<Rightarrow> (store_event, (string \<times> rec_hotel) list) process_world \<Rightarrow> (string \<times> rec_hotel) list option \<Rightarrow> int \<Rightarrow>
   (store_event, (string \<times> rec_hotel) list, go_error option) process"
where
  "recommendation_Run env w hotels port =
     (if port = 0 then oreturn (Some port_error)
      else State_Monad.bind (case hotels of None \<Rightarrow> on_store (loadRecommendations env) | Some hs \<Rightarrow> State_Monad.return hs) (\<lambda>hs.
        serve_as w ''Recommendation'' port hs no_clients))"

definition user_Run ::
  "user_db \<Rightarrow> (user_event, (string \<times> string) list) process_world \<Rightarrow> (string \<times> string) list option \<Rightarrow> int \<Rightarrow>
   (user_event, (string \<times> string) list, go_error option) process"
where
  "user_Run db w users_cached port =
     (if port = 0 then oreturn (Some port_error)
      else obind (case users_cached of None \<Rightarrow> on_store (loadUsers db) | Some us \<Rightarrow> oreturn us) (\<lambda>us.
        serve_as w ''User'' port us no_clients))"

text \<open>The search service dials the geo and the rate service. Its server holds clients of their addresses.\<close>

definition dial :: "('s, 'd) process_world \<Rightarrow> string \<Rightarrow> ('s, 'd, go_error option) process" where
  "dial w address =
     obind (State_Monad.return (IsTracingEnabled (svc_environ w))) (\<lambda>tracing.
       let opts = [KeepaliveClient (120 * second_ns) True, InsecureCredentials] @ (if tracing then [GetClientInterceptor] else [])
       in State_Monad.bind (perform (\<lambda>h. svc_dial w h address) (DialTo address opts)) oreturn)"

definition initGeoClient :: "('s, 'd) process_world \<Rightarrow> string \<Rightarrow> ('s, 'd, go_error option) process" where
  "initGeoClient w addr = obind (dial w addr) (\<lambda>failed.
     oreturn (case failed of Some err \<Rightarrow> Some (Errorf ''did not connect to geo service: %v'' [ArgE err]) | None \<Rightarrow> None))"

definition initRateClient :: "('s, 'd) process_world \<Rightarrow> string \<Rightarrow> ('s, 'd, go_error option) process" where
  "initRateClient w addr = obind (dial w addr) (\<lambda>failed.
     oreturn (case failed of Some err \<Rightarrow> Some (Errorf ''did not connect to rate service: %v'' [ArgE err]) | None \<Rightarrow> None))"

definition search_Run ::
  "(unit, string \<times> string) process_world \<Rightarrow> string \<Rightarrow> string \<Rightarrow> int \<Rightarrow> (unit, string \<times> string, go_error option) process"
where
  "search_Run w geoAddr rateAddr port =
     (if port = 0 then oreturn (Some port_error)
      else serve_as w ''Search'' port (geoAddr, rateAddr)
        (obind (initGeoClient w geoAddr) (\<lambda>err. if err \<noteq> None then oreturn err else initRateClient w rateAddr)))"

subsection \<open>\<open>main\<close>\<close>

definition start_tracing :: "('s, 'd) process_world \<Rightarrow> process_flags \<Rightarrow> string \<Rightarrow> ('s, 'd, shutdown_func option) process" where
  "start_tracing w f name =
     obind (State_Monad.return (IsTracingEnabled (svc_environ w))) (\<lambda>tracing.
       if tracing
       then State_Monad.bind (perform (\<lambda>h. fst (InitBasicTracer (svc_otel w) (svc_environ w) (ZipkinURL f) name
              \<lparr>Provider = None, Propagators = []\<rparr>)) (TracerStarted (ZipkinURL f) name)) (\<lambda>r. oreturn (Some (fst r)))
       else oreturn None)"

definition shut_tracer :: "('s, 'd) process_world \<Rightarrow> shutdown_func option \<Rightarrow> ('s, 'd, unit) process" where
  "shut_tracer w deferred =
     (case deferred of
        None \<Rightarrow> oreturn ()
      | Some None \<Rightarrow> opanic nil_deref
      | Some (Some tp) \<Rightarrow> obind (ignore_result (record_event TracerShutDown)) (\<lambda>_.
          State_Monad.return (call_shutdown (svc_otel w) (Some tp))))"

definition close_session :: "('s, 'd, unit) process" where
  "close_session = ignore_result (record_event (SessionClosed None))"

definition new_memc :: "process_flags \<Rightarrow> ('s, 'd, unit) process" where
  "new_memc f = ignore_result (record_event (NewMemcClient (MemcachedAddr f) (2 * second_ns) 512))"

text \<open>\<open>log.Fatal(srv.Run())\<close>, whether \<open>Run\<close> returned an error or not.\<close>

definition fatal_run :: "('s, 'd, go_error option) process \<Rightarrow> ('s, 'd, unit) process" where
  "fatal_run run = obind run (\<lambda>err. State_Monad.return (Fatal ''Run''))"

definition hotel_main ::
  "('s, 'd) process_world \<Rightarrow> process_flags \<Rightarrow> string \<Rightarrow> ('s, 'd, unit) process \<Rightarrow> ('s, 'd, unit) process \<Rightarrow>
   ('s, 'd, unit) process \<Rightarrow> ('s, 'd, go_error option) process \<Rightarrow> ('s, 'd, unit) process"
where
  "hotel_main w f tracer open_db close_db setup run =
     obind (start_tracing w f tracer) (\<lambda>shutdown.
     deferring (shut_tracer w shutdown)
       (obind open_db (\<lambda>_.
        deferring close_db
          (obind setup (\<lambda>_. fatal_run run)))))"

definition geo_main :: "store_env \<Rightarrow> (store_event, point list) process_world \<Rightarrow> process_flags \<Rightarrow> (store_event, point list, unit) process" where
  "geo_main env w f = hotel_main w f ''Hotel app - geo function''
     (on_store (initializeGeoDatabase env (DatabaseAddr f))) close_session (oreturn ()) (geo_Run env w None (ServicePort f))"

definition profile_main :: "store_env \<Rightarrow> (store_event, unit) process_world \<Rightarrow> process_flags \<Rightarrow> (store_event, unit, unit) process" where
  "profile_main env w f = hotel_main w f ''Hotel app - profile function''
     (on_store (initializeProfileDatabase env (DatabaseAddr f))) close_session (new_memc f) (profile_Run w (ServicePort f))"

definition rate_main :: "store_env \<Rightarrow> (store_event, unit) process_world \<Rightarrow> process_flags \<Rightarrow> (store_event, unit, unit) process" where
  "rate_main env w f = hotel_main w f ''aes function''
     (on_store (initializeRateDatabase env (DatabaseAddr f))) close_session (new_memc f) (rate_Run w (ServicePort f))"

definition reservation_main :: "store_env \<Rightarrow> (store_event, unit) process_world \<Rightarrow> process_flags \<Rightarrow> (store_event, unit, unit) process" where
  "reservation_main env w f = hotel_main w f ''reservation function''
     (on_store (initializeReservationDatabase env (DatabaseAddr f))) close_session (new_memc f) (reservation_Run w (ServicePort f))"

definition recommendation_main ::
  "store_env \<Rightarrow> (store_event, (string \<times> rec_hotel) list) process_world \<Rightarrow> process_flags \<Rightarrow> (store_event, (string \<times> rec_hotel) list, unit) process"
where
  "recommendation_main env w f = hotel_main w f ''Hotel app - recommendation function''
     (on_store (initializeRecommendationDatabase env (DatabaseAddr f))) close_session (oreturn ())
     (recommendation_Run env w None (ServicePort f))"

text \<open>The user service connects first and seeds afterwards; disconnecting may fail.\<close>

definition user_main ::
  "user_db \<Rightarrow> ((user_event, (string \<times> string) list) process_event list \<Rightarrow> go_error option) \<Rightarrow>
   (user_event, (string \<times> string) list) process_world \<Rightarrow> process_flags \<Rightarrow> (user_event, (string \<times> string) list, unit) process"
where
  "user_main db disconnect w f = hotel_main w f ''Hotel app - user function''
     (on_store (connectDatabase db (DatabaseAddr f))) (or_fatal_err ''disconnect'' (perform disconnect SessionClosed))
     (on_store (initializeUserDatabase db)) (user_Run db w None (ServicePort f))"

definition search_main :: "(unit, string \<times> string) process_world \<Rightarrow> string \<Rightarrow> string \<Rightarrow> process_flags \<Rightarrow> (unit, string \<times> string, unit) process" where
  "search_main w geoaddr rateaddr f =
     obind (start_tracing w f ''Hotel app - search function'') (\<lambda>shutdown.
     deferring (shut_tracer w shutdown) (fatal_run (search_Run w geoaddr rateaddr (ServicePort f))))"

subsection \<open>What a process has done when it ends\<close>

definition cleaned_up :: "('s, 'd) process_event \<Rightarrow> bool" where
  "cleaned_up e \<longleftrightarrow> e = TracerShutDown \<or> (\<exists>r. e = SessionClosed r)"

definition serves :: "('s, 'd) process_event \<Rightarrow> bool" where
  "serves e \<longleftrightarrow> (\<exists>d r. e = Served d r)"

text \<open>The process never returns, and it has cleaned up nothing once it has served.\<close>

definition never_cleaned :: "'a outcome \<Rightarrow> ('s, 'd) process_event list \<Rightarrow> bool" where
  "never_cleaned r new \<longleftrightarrow> (\<forall>x. r \<noteq> Ret x) \<and> (list_ex serves new \<longrightarrow> (\<exists>m. r = Fatal m) \<and> \<not> list_ex cleaned_up new)"

text \<open>Before \<open>log.Fatal\<close> nothing is cleaned up, and a server that has served does not panic.\<close>

definition quiet :: "'r \<Rightarrow> ('s, 'd) process_event list \<Rightarrow> bool" where
  "quiet r new \<longleftrightarrow> \<not> list_ex serves new \<and> \<not> list_ex cleaned_up new"

definition runs :: "'a outcome \<Rightarrow> ('s, 'd) process_event list \<Rightarrow> bool" where
  "runs r new \<longleftrightarrow> \<not> list_ex cleaned_up new \<and> (list_ex serves new \<longrightarrow> (\<exists>x. r = Ret x))"

lemma emits_on_store: "emits (on_store m) quiet"
  unfolding on_store_def
proof (rule emits_within_log)
  fix r new
  show "quiet r (map OnStore new)" by (induction new) (simp_all add: quiet_def serves_def cleaned_up_def)
qed

lemma events_quiet [simp]:
  "\<not> serves (OnStore c)" "\<not> serves (TracerStarted u n t0)" "\<not> serves (NewMemcClient a k i)" "\<not> serves (ServerMade s os)"
  "\<not> serves (DialTo a os r)" "\<not> serves (ListenOn a r)" "serves (Served d r)" "\<not> serves (SessionClosed r)" "\<not> serves TracerShutDown"
  "\<not> cleaned_up (OnStore c)" "\<not> cleaned_up (TracerStarted u n t0)" "\<not> cleaned_up (NewMemcClient a k i)"
  "\<not> cleaned_up (ServerMade s os)" "\<not> cleaned_up (DialTo a os r)" "\<not> cleaned_up (ListenOn a r)" "\<not> cleaned_up (Served d r)"
  by (simp_all add: serves_def cleaned_up_def)

lemma emits_quiet:
  "emits (oreturn x) quiet" "emits (State_Monad.return y) quiet" "emits (new_memc f) quiet" "emits no_clients quiet"
  by (rule emitsI, simp add: new_memc_def no_clients_def quiet_def)+

lemma emits_serve_as:
  assumes "emits connect quiet"
  shows "emits (serve_as w service port loaded connect) runs"
proof (rule emitsI)
  fix h
  let ?m = "serve_as w service port loaded connect"
  show "\<exists>new. snd (run_state ?m h) = h @ new \<and> runs (fst (run_state ?m h)) new"
  proof (cases "server_options (svc_environ w)")
    case (Ret opts)
    let ?h = "h @ [ServerMade service opts]"
    obtain c new where c: "run_state connect ?h = (c, ?h @ new)" "quiet c new" using assms by (rule emits_run)
    show ?thesis
    proof (cases c)
      case (Ret e)
      then show ?thesis
        using \<open>server_options (svc_environ w) = Ret opts\<close> c
        by (cases e; cases "svc_listen w (h @ ServerMade service opts # new) ('':'' @ itoa port)")
          (simp_all add: serve_as_def runs_def quiet_def run_state_bind run_state_return)
    qed (use Ret c in \<open>simp_all add: serve_as_def runs_def quiet_def run_state_return\<close>)
  qed (simp_all add: serve_as_def runs_def)
qed

lemma emits_serve: "emits (serve_as w service port d no_clients) runs"
  by (rule emits_serve_as [OF emits_quiet(4)])

lemma emits_load_serve: "emits load quiet \<Longrightarrow> emits (State_Monad.bind load (\<lambda>d. serve_as w service port d no_clients)) runs"
  by (erule emits_bind, rule emits_weaken [OF emits_serve]) (auto simp: runs_def quiet_def)

lemma emits_port_error: "emits (oreturn (Some port_error)) runs"
  by (simp add: emits_oreturn runs_def)

lemma emits_Run:
  "emits (profile_Run w1 port) runs" "emits (rate_Run w2 port) runs" "emits (reservation_Run w3 port) runs"
  "emits (geo_Run env w4 index port) runs" "emits (recommendation_Run env w5 hotels port) runs"
  "emits (user_Run db w6 users_cached port) runs"
proof -
  show "emits (profile_Run w1 port) runs" "emits (rate_Run w2 port) runs" "emits (reservation_Run w3 port) runs"
    by (simp_all add: profile_Run_def rate_Run_def reservation_Run_def emits_port_error emits_serve)
  show "emits (geo_Run env w4 index port) runs" "emits (recommendation_Run env w5 hotels port) runs"
    by (cases index; simp add: geo_Run_def emits_port_error emits_load_serve emits_on_store emits_serve)
      (cases hotels; simp add: recommendation_Run_def emits_port_error emits_load_serve emits_on_store emits_serve)
  have "emits (case users_cached of None \<Rightarrow> on_store (loadUsers db) | Some us \<Rightarrow> oreturn us) quiet"
    by (cases users_cached) (simp_all add: emits_on_store emits_quiet)
  then show "emits (user_Run db w6 users_cached port) runs"
    unfolding user_Run_def
    by (auto intro!: emits_if emits_port_error emits_obind [where Q = quiet]
        emits_weaken [OF emits_serve] simp: runs_def quiet_def)
qed

lemma emits_start_tracing: "emits (start_tracing w f name) quiet"
  by (rule emitsI) (simp add: start_tracing_def quiet_def run_state_bind run_state_return split: outcome.split)


text \<open>What may be deferred does not serve; what has been deferred to runs on after a panic only.\<close>

definition mute :: "'r \<Rightarrow> ('s, 'd) process_event list \<Rightarrow> bool" where
  "mute r new \<longleftrightarrow> \<not> list_ex serves new"

lemma emits_deferring:
  fixes m :: "('s, 'd, 'a) process"
  assumes "emits m never_cleaned" and "emits d mute"
  shows "emits (deferring d m) never_cleaned"
  unfolding deferring_def
proof (rule emits_bind [OF assms(1)])
  fix r :: "'a outcome" and new :: "('s, 'd) process_event list"
  assume r: "never_cleaned r new"
  show "emits (case r of Ret x \<Rightarrow> obind d (\<lambda>_. oreturn x) | Panic e \<Rightarrow> obind d (\<lambda>_. opanic e)
      | Fatal s \<Rightarrow> State_Monad.return (Fatal s)) (\<lambda>r' new'. never_cleaned r' (new @ new'))"
  proof (cases r)
    case (Panic e)
    then have "\<not> list_ex serves new" using r by (auto simp: never_cleaned_def)
    then have "emits (obind d (\<lambda>_. opanic e)) (\<lambda>r' new'. never_cleaned r' (new @ new'))"
      by (intro emits_obind [OF assms(2)]) (auto simp: mute_def never_cleaned_def intro!: emits_opanic)
    then show ?thesis using Panic by simp
  qed (use r in \<open>auto simp: never_cleaned_def intro!: emits_return\<close>)
qed

lemma emits_after_quiet:
  assumes "emits m quiet" and "\<And>x. emits (f x) never_cleaned"
  shows "emits (obind m f) never_cleaned"
  by (rule emits_obind [OF assms(1)])
    (auto simp: quiet_def never_cleaned_def intro!: emits_weaken [OF assms(2)])

lemma emits_fatal_run: "emits run runs \<Longrightarrow> emits (fatal_run run) never_cleaned"
  unfolding fatal_run_def by (erule emits_obind) (auto simp: runs_def never_cleaned_def intro!: emits_return)

lemma emits_shut_tracer: "emits (shut_tracer w d) mute"
  by (rule emitsI) (auto simp: shut_tracer_def mute_def run_state_return split: option.split)

lemma emits_hotel_main:
  assumes "emits open_db quiet" and "emits close_db mute" and "emits setup quiet" and "emits run runs"
  shows "emits (hotel_main w f tracer open_db close_db setup run) never_cleaned"
  unfolding hotel_main_def
  by (intro emits_after_quiet emits_deferring emits_start_tracing emits_shut_tracer emits_fatal_run assms)

lemma emits_search_main: "emits (search_main w geoaddr rateaddr f) never_cleaned"
proof -
  have dial: "emits (dial w a) quiet" for a
    by (rule emitsI) (simp add: dial_def quiet_def Let_def run_state_bind run_state_return split: outcome.split)
  have init: "emits (initGeoClient w a) quiet" "emits (initRateClient w a) quiet" for a
    unfolding initGeoClient_def initRateClient_def
    by (auto intro!: emits_obind [OF dial] emits_oreturn simp: quiet_def)
  then have "emits (obind (initGeoClient w geoaddr) (\<lambda>err. if err \<noteq> None then oreturn err else initRateClient w rateaddr)) quiet"
    by (intro emits_obind [OF init(1)] emits_if) (auto simp: quiet_def intro!: emits_oreturn emits_weaken [OF init(2)])
  then have "emits (search_Run w geoaddr rateaddr port) runs" for port
    by (simp add: search_Run_def emits_port_error emits_serve_as)
  then show ?thesis
    unfolding search_main_def
    by (intro emits_after_quiet emits_deferring emits_start_tracing emits_shut_tracer emits_fatal_run)
qed

lemma emits_close:
  "emits close_session mute" "emits (or_fatal_err ''disconnect'' (perform disconnect SessionClosed)) mute"
  by (rule emitsI, simp add: close_session_def mute_def)+

lemma run_on_store:
  "run_state m (store_calls_of h) = (r, store_calls_of h @ g) \<Longrightarrow> run_state (on_store m) h = (r, h @ map OnStore g)"
  unfolding on_store_def store_calls_of_def by (rule run_within_log)

lemma store_calls_of_simps [simp]:
  "store_calls_of [] = []" "store_calls_of (h @ g) = store_calls_of h @ store_calls_of g"
  "store_calls_of (e # h) = store_call e @ store_calls_of h" "store_calls_of (map OnStore cs) = cs"
proof -
  show "store_calls_of (map OnStore cs) = cs" by (induction cs) (simp_all add: store_calls_of_def)
qed (simp_all add: store_calls_of_def)

text \<open>The geo service does come to serve: with the 80 hotels of the seeded database.\<close>

theorem geo_serves_hotels:
  assumes db: "seedable init env" "mongo_finds init env" and tr: "IsTracingEnabled (svc_environ w) = Ret tracing"
    and port: "ServicePort f \<noteq> 0" and listen: "\<And>h a. svc_listen w h a = None"
  shows "\<exists>new index r. run_state (geo_main env w f) [] = (Fatal ''Run'', new @ [Served index r]) \<and> map Pid index = hotel_ids \<and>
    stored init (store_calls_of new) ''geo'' = map point_doc index"
proof -
  obtain h0 d where h0: "run_state (start_tracing w f ''Hotel app - geo function'') [] = (Ret d, h0)" "store_calls_of h0 = []"
    using tr by (cases tracing) (simp_all add: start_tracing_def run_state_bind run_state_return)
  obtain new where new: "run_state (initializeGeoDatabase env (DatabaseAddr f)) [] = (Ret (), new)"
    "stored init new ''geo'' = map point_doc hotel_points"
    "run_state (newGeoIndex env) new = (hotel_points, new @ [Find ''geo'' [] (Inr (map point_doc hotel_points))])"
    using geo_startup [OF db, of "DatabaseAddr f" "[]"] by auto
  let ?e = "Find ''geo'' [] (Inr (map point_doc hotel_points))"
  have seed: "run_state (on_store (initializeGeoDatabase env (DatabaseAddr f))) h0 = (Ret (), h0 @ map OnStore new)"
    by (rule run_on_store) (simp add: h0 new)
  have load: "run_state (on_store (newGeoIndex env)) (h0 @ map OnStore new) = (hotel_points, (h0 @ map OnStore new) @ map OnStore [?e])"
    by (rule run_on_store) (simp add: h0 new)
  obtain opts where opts: "server_options (svc_environ w) = Ret opts" using tr by (simp add: server_options_def)
  let ?h = "h0 @ map OnStore new @ [OnStore ?e, ServerMade ''Geo'' opts, ListenOn ('':'' @ itoa (ServicePort f)) None]"
  have "run_state (geo_main env w f) [] = (Fatal ''Run'', ?h @ [Served hotel_points (svc_serve w ?h)])"
    using port listen
    by (simp add: geo_main_def hotel_main_def h0 seed deferring_def run_state_bind run_state_return fatal_run_def geo_Run_def load
        serve_as_def opts no_clients_def)
  moreover have "stored init (store_calls_of ?h) ''geo'' = map point_doc hotel_points"
    using new(2) by (simp add: h0 stored_append)
  ultimately show ?thesis using Pid_hotel_points by blast
qed

subsection \<open>Properties\<close>

text \<open>
  Property C40: no service of the hotel application ever returns from \<open>main\<close>, and none cleans up: once it
  has served it ends through \<open>log.Fatal\<close>, whatever \<open>Run\<close> returned, and so the deferred calls that flush the
  tracer and close the database session have not run.
\<close>

theorem mains_never_clean_up:
  "emits (geo_main env wg f) never_cleaned \<and> emits (profile_main env wp f) never_cleaned \<and>
   emits (rate_main env wr f) never_cleaned \<and> emits (reservation_main env ws f) never_cleaned \<and>
   emits (recommendation_main env wc f) never_cleaned \<and> emits (user_main db disconnect wu f) never_cleaned \<and>
   emits (search_main wq geoaddr rateaddr f) never_cleaned"
  unfolding geo_main_def profile_main_def rate_main_def reservation_main_def recommendation_main_def user_main_def
  by (intro conjI emits_hotel_main emits_on_store emits_close emits_quiet emits_Run emits_search_main)

end
