(* ===== verification/SearchService.thy ===== *)
theory SearchService
  imports HotelServer
begin

text \<open>
  \<open>benchmarks/hotel-app/search/server.go\<close>: \<open>Nearby\<close>, which asks the geo service for the hotels near a
  place and the rate service for their plans. Both are reached through clients, here put together
  with the handlers of \<open>Geo\<close> and \<open>RateService\<close>.
\<close>

subsection \<open>The handler\<close>

text \<open>A client is nil before \<open>Run\<close> has made it. A remote call answers with an error or a result.\<close>

record search_clients =
  GeoClient :: "(rat \<Rightarrow> rat \<Rightarrow> (go_error + string list) hotel) option"
  RateClient :: "(string list \<Rightarrow> string \<Rightarrow> string \<Rightarrow> (go_error + rate_plan list) hotel) option"

definition search_Nearby :: "search_clients \<Rightarrow> rat \<Rightarrow> rat \<Rightarrow> string \<Rightarrow> string \<Rightarrow> (go_error + string list) outcome hotel" where
  "search_Nearby s lat lon inDate outDate =
     (case GeoClient s of
        None \<Rightarrow> opanic nil_deref
      | Some nearby_of \<Rightarrow>
          State_Monad.bind (nearby_of lat lon) (\<lambda>nearby. case nearby of
              Inl err \<Rightarrow> oreturn (Inl err)
            | Inr hotelIds \<Rightarrow>
                (case RateClient s of
                   None \<Rightarrow> opanic nil_deref
                 | Some rates_of \<Rightarrow>
                     State_Monad.bind (rates_of hotelIds inDate outDate) (\<lambda>rates. case rates of
                         Inl err \<Rightarrow> oreturn (Inl err)
                       | Inr ratePlans \<Rightarrow> oreturn (Inr (foldl (\<lambda>ids ratePlan. ids @ [RpHotelId ratePlan]) [] ratePlans))))))"

subsection \<open>The services it calls\<close>

text \<open>A call of a handler over gRPC. A handler that panics takes its server down, and the client sees
  some error \<open>down\<close>.\<close>

definition remote :: "go_error \<Rightarrow> 'a outcome hotel \<Rightarrow> (go_error + 'a) hotel" where
  "remote down m = State_Monad.bind m (\<lambda>r. State_Monad.return (case r of Ret x \<Rightarrow> Inr x | _ \<Rightarrow> Inl down))"

text \<open>The rate service is sent the dates and does not look at them.\<close>

definition hotel_clients :: "k_nearest \<Rightarrow> point list \<Rightarrow> store_env \<Rightarrow> rate_plan codec \<Rightarrow> sorter \<Rightarrow> go_error \<Rightarrow> search_clients" where
  "hotel_clients knn index env j srt down =
     \<lparr>GeoClient = Some (\<lambda>lat lon. remote down (oreturn (geo_Nearby knn index lat lon))),
      RateClient = Some (\<lambda>hotelIds inDate outDate. remote down (GetRates env j srt hotelIds))\<rparr>"

type_synonym search_request = "rat \<times> rat \<times> string \<times> string"

definition search :: "search_clients \<Rightarrow> search_request \<Rightarrow> (go_error + string list) outcome hotel" where
  "search s req = (case req of (lat, lon, inDate, outDate) \<Rightarrow> search_Nearby s lat lon inDate outDate)"

definition nearby_of :: "k_nearest \<Rightarrow> point list \<Rightarrow> search_request \<Rightarrow> string list" where
  "nearby_of knn index req = geo_Nearby knn index (fst req) (fst (snd req))"

lemma run_remote [simp]:
  "run_state (remote down m) h = (case fst (run_state m h) of Ret x \<Rightarrow> Inr x | _ \<Rightarrow> Inl down, snd (run_state m h))"
  by (simp add: remote_def run_state_bind split: prod.split)

interpretation searching: transparent_service "search (hotel_clients knn index env j srt down)"
    "\<lambda>req. Inr (map RpHotelId (sorted_rates srt ds (nearby_of knn index req)))" "rates_ready env init j ds"
  for knn index env init j ds srt down
proof unfold_locales
  fix h req assume "rates_ready env init j ds h"
  then obtain new where "run_state (GetRates env j srt (nearby_of knn index req)) h =
      (Ret (sorted_rates srt ds (nearby_of knn index req)), h @ new)" "rates_ready env init j ds (h @ new)"
    using rates.serve_run by blast
  then show "\<exists>new. run_state (search (hotel_clients knn index env j srt down) req) h =
      (Ret (Inr (map RpHotelId (sorted_rates srt ds (nearby_of knn index req)))), h @ new) \<and> rates_ready env init j ds (h @ new)"
    by (cases req) (auto simp: search_def search_Nearby_def hotel_clients_def nearby_of_def run_state_bind foldl_snoc_map)
qed

subsection \<open>What a search finds\<close>

text \<open>The total rate of a hotel with a plan.\<close>

definition rate_of :: "document list \<Rightarrow> string \<Rightarrow> rat" where
  "rate_of ds i = (case rates_in ds i of p # _ \<Rightarrow> (case RoomType p of Some t \<Rightarrow> TotalRate t | None \<Rightarrow> 0) | [] \<Rightarrow> 0)"

lemma rates_in_id: "p \<in> set (rates_in ds i) \<Longrightarrow> RpHotelId p = i"
  by (auto simp: rates_in_def doc_matches_def doc_plan_def str_field_def)

lemma rate_of_only:
  assumes "length (rates_in ds i) \<le> 1" and "p \<in> set (rates_in ds i)" and "RoomType p = Some t"
  shows "rate_of ds (RpHotelId p) = TotalRate t"
proof -
  have "rates_in ds i = [p]" using assms(1,2) by (cases "rates_in ds i") auto
  then show ?thesis using rates_in_id [OF assms(2)] assms(3) by (simp add: rate_of_def)
qed

lemma sorted_rates_ids:
  assumes srt: "sorts srt" and ready: "rates_ready env init j ds h"
  shows "length (map RpHotelId (sorted_rates srt ds is)) \<le> length is \<and>
    set (map RpHotelId (sorted_rates srt ds is)) = {i \<in> set is. rates_in ds i \<noteq> []} \<and>
    sorted_wrt (\<lambda>i k. rate_of ds k \<le> rate_of ds i) (map RpHotelId (sorted_rates srt ds is))"
proof (intro conjI)
  let ?ps = "concat (map (rates_in ds) is)"
  have one: "length (rates_in ds i) \<le> 1" for i using ready by (simp add: rates_ready_def)
  have "sort_plans srt ?ps = Ret (sorted_rates srt ds is)"
    using ready by (intro sort_plans_ready) (simp add: rates_ready_def)
  from sort_plans_cases [OF srt this] have s: "set (sorted_rates srt ds is) = set ?ps"
    "sorted_wrt (\<lambda>p q. \<exists>s t. RoomType p = Some s \<and> RoomType q = Some t \<and> TotalRate t \<le> TotalRate s) (sorted_rates srt ds is)"
    by blast+
  have "length ?ps \<le> length is"
  proof (induction "is")
    case (Cons i js)
    then show ?case using one [of i] by simp
  qed simp
  moreover have "length (sorted_rates srt ds is) = length ?ps"
    using srt by (simp add: sorted_rates_def sorts_def Let_def)
  ultimately show "length (map RpHotelId (sorted_rates srt ds is)) \<le> length is" by simp
  show "set (map RpHotelId (sorted_rates srt ds is)) = {i \<in> set is. rates_in ds i \<noteq> []}"
  proof -
    have "RpHotelId ` set (rates_in ds i) = (if rates_in ds i = [] then {} else {i})" for i
      using rates_in_id [of _ ds i] by (cases "rates_in ds i") auto
    then show ?thesis using s(1) by (auto simp: image_UN split: if_splits)
  qed
  show "sorted_wrt (\<lambda>i k. rate_of ds k \<le> rate_of ds i) (map RpHotelId (sorted_rates srt ds is))"
    unfolding sorted_wrt_map
    by (rule sorted_wrt_mono_rel [OF _ s(2)]) (use s(1) one in \<open>auto simp: rate_of_only\<close>)
qed

text \<open>
  Property C21: what a search finds. While the two services are up and every hotel has one plan at most,
  any sequence of searches is answered: with at most five hotels, all of them within ten kilometres of
  the place and having a plan, those of the near hotels that have none left out, and the dearest hotel
  first. The dates of the request play no part.
\<close>

theorem search_results:
  assumes "k_nearest_ok metres knn" and "sorts srt" and "rates_ready env init j ds h"
  shows "\<exists>answers new. run_state (serve_all (search (hotel_clients knn index env j srt down)) requests) h =
      (Ret (map Inr answers), h @ new) \<and>
    list_all2 (\<lambda>(lat, lon, inDate, outDate) ids.
      length ids \<le> 5 \<and> set ids = {i \<in> set (geo_Nearby knn index lat lon). rates_in ds i \<noteq> []} \<and>
      list_all (\<lambda>i. \<exists>p\<in>set index. Pid p = i \<and> metres \<lparr>Pid = '''', Plat = lat, Plon = lon\<rparr> p \<le> 10000) ids \<and>
      sorted_wrt (\<lambda>i k. rate_of ds k \<le> rate_of ds i) ids) requests answers"
proof -
  let ?answer = "\<lambda>req. map RpHotelId (sorted_rates srt ds (nearby_of knn index req))"
  obtain new where "run_state (serve_all (search (hotel_clients knn index env j srt down)) requests) h =
      (Ret (map Inr (map ?answer requests)), h @ new)"
    using searching.all_answered [OF assms(3)] unfolding map_map comp_def by blast
  moreover have "list_all2 (\<lambda>(lat, lon, inDate, outDate) ids.
      length ids \<le> 5 \<and> set ids = {i \<in> set (geo_Nearby knn index lat lon). rates_in ds i \<noteq> []} \<and>
      list_all (\<lambda>i. \<exists>p\<in>set index. Pid p = i \<and> metres \<lparr>Pid = '''', Plat = lat, Plon = lon\<rparr> p \<le> 10000) ids \<and>
      sorted_wrt (\<lambda>i k. rate_of ds k \<le> rate_of ds i) ids) requests (map ?answer requests)"
    unfolding list_all2_map2
  proof (rule list_all2_refl, clarify)
    fix lat lon :: rat and inDate outDate :: string
    show "length (?answer (lat, lon, inDate, outDate)) \<le> 5 \<and>
      set (?answer (lat, lon, inDate, outDate)) = {i \<in> set (geo_Nearby knn index lat lon). rates_in ds i \<noteq> []} \<and>
      list_all (\<lambda>i. \<exists>p\<in>set index. Pid p = i \<and> metres \<lparr>Pid = '''', Plat = lat, Plon = lon\<rparr> p \<le> 10000) (?answer (lat, lon, inDate, outDate)) \<and>
      sorted_wrt (\<lambda>i k. rate_of ds k \<le> rate_of ds i) (?answer (lat, lon, inDate, outDate))"
      using sorted_rates_ids [OF assms(2,3), of "geo_Nearby knn index lat lon"] geo_Nearby_sound [OF assms(1), of index lat lon]
      unfolding nearby_of_def list_all_iff by auto
  qed
  ultimately show ?thesis by blast
qed

text \<open>One hotel with a plan, and one without.\<close>

definition two_hotels :: "point list" where
  "two_hotels = [\<lparr>Pid = RpHotelId plan1, Plat = 38, Plon = - 122\<rparr>, \<lparr>Pid = ''none'', Plat = 38, Plon = - 122\<rparr>]"

lemma rates_ready_demo: "rates_ready (memory_store (\<lambda>c. [plan_doc plan1])) (\<lambda>c. [plan_doc plan1]) demo_codec [plan_doc plan1] []"
proof -
  have "json_ok demo_codec (doc_plan ` set [plan_doc plan1])" using json_ok_demo by (auto simp: json_ok_def)
  moreover have "length (rates_in [plan_doc plan1] i) \<le> 1" for i by (simp add: rates_in_def)
  moreover have "RoomType plan1 \<noteq> None" by (simp add: plan1_def rack_plan_def)
  ultimately show ?thesis
    by (simp add: rates_ready_def memc_sound_memory mongo_finds_memory rates_cached_def stored_def)
qed

theorem search_results_witness:
  "\<exists>ids. fst (run_state (serve_all (search (hotel_clients demo_knn two_hotels (memory_store (\<lambda>c. [plan_doc plan1])) demo_codec
       insertion_sorter nil_deref)) [(38, - 122, ''2015-04-09'', ''2015-04-10'')]) []) = Ret [Inr ids] \<and> set ids = {RpHotelId plan1}"
proof -
  let ?run = "run_state (serve_all (search (hotel_clients demo_knn two_hotels (memory_store (\<lambda>c. [plan_doc plan1])) demo_codec
    insertion_sorter nil_deref)) [(38, - 122, ''2015-04-09'', ''2015-04-10'')]) []"
  obtain ids where ids: "fst ?run = Ret [Inr ids]" "set ids = {i \<in> set (geo_Nearby demo_knn two_hotels 38 (- 122)). rates_in [plan_doc plan1] i \<noteq> []}"
    using search_results [OF k_nearest_ok_demo sorts_insertion rates_ready_demo,
        of two_hotels nil_deref "[(38, - 122, ''2015-04-09'', ''2015-04-10'')]"]
    by (auto simp: list_all2_Cons1)
  have "geo_Nearby demo_knn two_hotels 38 (- 122) = [RpHotelId plan1, ''none'']"
    by (simp add: geo_Nearby_eq getNearbyPoints_def demo_knn_def demo_metres_def two_hotels_def maxSearchResults_def
        maxSearchRadius_def km_def)
  moreover have "rates_in [plan_doc plan1] i \<noteq> [] \<longleftrightarrow> i = RpHotelId plan1" for i
    by (auto simp: rates_in_def doc_matches_def plan_doc_def)
  ultimately show ?thesis using ids by auto
qed

end
