(* ===== verification/Goroutines.thy ===== *)
theory Goroutines
  imports GoPrelude "HOL-Library.Multiset"
begin

text \<open>
  Programs of several goroutines as step relations: a run is a sequence of steps of any of them.
  The contracts such a program may meet extend each other: \<open>invariant_system\<close> has an invariant;
  \<open>terminating_system\<close> ends under every schedule, by a measure that every step lowers and without
  deadlock; \<open>computing_system\<close> has a result when it has ended. The lemmas on lists say what changes
  when one goroutine moves.
\<close>

inductive runs_by :: "('s \<Rightarrow> 's \<Rightarrow> bool) \<Rightarrow> 's \<Rightarrow> nat \<Rightarrow> 's \<Rightarrow> bool" for step s where
  start: "runs_by step s 0 s"
| more: "\<lbrakk>runs_by step s n s'; step s' s''\<rbrakk> \<Longrightarrow> runs_by step s (Suc n) s''"

locale invariant_system =
  fixes step :: "'s \<Rightarrow> 's \<Rightarrow> bool" and init :: 's and ok :: "'s \<Rightarrow> bool"
  assumes init_ok: "ok init"
    and step_ok: "\<lbrakk>ok s; step s s'\<rbrakk> \<Longrightarrow> ok s'"
begin

lemma runs_ok: "runs_by step init n s \<Longrightarrow> ok s"
  by (induction rule: runs_by.induct) (auto intro: init_ok step_ok)

end

locale terminating_system = invariant_system step init ok
  for step :: "'s \<Rightarrow> 's \<Rightarrow> bool" and init :: 's and ok :: "'s \<Rightarrow> bool" +
  fixes work :: "'s \<Rightarrow> nat" and ended :: "'s \<Rightarrow> bool"
  assumes work_less: "\<lbrakk>ok s; step s s'\<rbrakk> \<Longrightarrow> work s' < work s"
    and progress: "\<lbrakk>ok s; \<not> ended s\<rbrakk> \<Longrightarrow> \<exists>s'. step s s'"
begin

lemma runs_bounded: "runs_by step init n s \<Longrightarrow> n + work s \<le> work init"
proof (induction rule: runs_by.induct)
  case (more n s' s'')
  then show ?case using work_less [OF runs_ok [OF more.hyps(1)] more.hyps(2)] by simp
qed simp

lemma runs_end:
  assumes "runs_by step init n s"
  shows "\<exists>m s'. runs_by step init m s' \<and> ended s'"
  using assms
proof (induction "work s" arbitrary: n s rule: less_induct)
  case less
  show ?case
  proof (cases "ended s")
    case True
    then show ?thesis using less.prems by blast
  next
    case False
    have ok: "ok s" by (rule runs_ok [OF less.prems])
    obtain s' where s': "step s s'" using progress [OF ok False] by blast
    show ?thesis by (rule less.hyps [OF work_less [OF ok s'] runs_by.more [OF less.prems s']])
  qed
qed

lemma some_run_ends: "\<exists>n s. runs_by step init n s \<and> ended s"
  by (rule runs_end [OF runs_by.start])

lemma no_deadlock: "runs_by step init n s \<Longrightarrow> ended s \<or> (\<exists>s'. step s s')"
  using runs_ok progress by blast

end

text \<open>A program that ends with a result: a run of it comes to an end, and every run is bounded, is not
  stuck before the end, and has the result there.\<close>

locale computing_system = terminating_system step init ok work ended
  for step :: "'s \<Rightarrow> 's \<Rightarrow> bool" and init :: 's and ok :: "'s \<Rightarrow> bool" and work :: "'s \<Rightarrow> nat" and ended :: "'s \<Rightarrow> bool" +
  fixes result :: "'s \<Rightarrow> bool"
  assumes ended_result: "\<lbrakk>ok s; ended s\<rbrakk> \<Longrightarrow> result s"
begin

lemma computes:
  "(\<exists>n s. runs_by step init n s \<and> ended s) \<and>
   (\<forall>n s. runs_by step init n s \<longrightarrow> n \<le> work init \<and> ok s \<and> (if ended s then result s else \<exists>s'. step s s'))"
proof (intro conjI allI impI)
  show "\<exists>n s. runs_by step init n s \<and> ended s" by (rule some_run_ends)
  fix n s assume run: "runs_by step init n s"
  show "n \<le> work init" using runs_bounded [OF run] by simp
  show ok: "ok s" by (rule runs_ok [OF run])
  show "if ended s then result s else \<exists>s'. step s s'" using ended_result [OF ok] progress [OF ok] by simp
qed

end

subsection \<open>One goroutine moves\<close>

lemma mset_concat_update:
  "i < length xs \<Longrightarrow> mset (concat (map f (xs[i := y]))) + mset (f (xs ! i)) = mset (concat (map f xs)) + mset (f y)"
  by (induction xs arbitrary: i) (auto split: nat.split simp: nth_Cons')

lemma length_filter_update:
  "i < length xs \<Longrightarrow> length (filter P (xs[i := y])) + (if P (xs ! i) then 1 else 0) =
     length (filter P xs) + (if P y then 1 else 0)"
proof (induction xs arbitrary: i)
  case (Cons x xs)
  show ?case
  proof (cases i)
    case (Suc k)
    then have "length (filter P (xs[k := y])) + (if P (xs ! k) then 1 else 0) = length (filter P xs) + (if P y then 1 else 0)"
      using Cons by simp
    then show ?thesis using Suc by simp
  qed simp
qed simp

lemma sum_list_update_nat:
  "i < length xs \<Longrightarrow> sum_list (map f (xs[i := y])) + f (xs ! i) = sum_list (map f xs) + (f y :: nat)"
  by (induction xs arbitrary: i) (auto split: nat.split simp: nth_Cons')

end
