(* ===== verification/ShopProcess.thy ===== *)
theory ShopProcess
  imports Goroutines Tracing
begin

text \<open>
  Processes of several goroutines. The code of a goroutine is a tree of its calls to packages; a call
  succeeds or fails. A process runs the calls of its goroutines in any order, until one of them ends it.
  Two things are read off the code and hold in every run: what the goroutines spend at most, and what
  each may do after the calls it has made.
\<close>

subsection \<open>Goroutines and the process\<close>

text \<open>\<open>'a\<close> is what a server is registered with.\<close>

datatype 'a action =
    StartGoroutine
  | NewJaegerExporter string string
  | RegisterJaeger
  | NewStackdriverExporter
  | RegisterStackdriver
  | SampleAlways
  | SetReportingPeriod int
  | RegisterViewExporter
  | RegisterViews
  | StartProfiler string string
  | Sleep nat
  | NotifySignals
  | Listen string
  | NewServer "grpc_option list"
  | RegisterReflection
  | Serve 'a

text \<open>A goroutine returns, ends the process through \<open>log.Fatal\<close>, panics, waits for others for ever,
  starts another one, or calls.\<close>

datatype 'a code =
    Finish
  | Exit string
  | Throw go_error
  | Block
  | Go "'a code" "'a code"
  | Call "'a action" "bool \<Rightarrow> 'a code"

text \<open>Goroutine 0 is \<open>main\<close>. An event has the number of its goroutine and the answer.\<close>

type_synonym 'a occurrence = "nat \<times> 'a action \<times> bool"

record 'a process =
  threads :: "'a code list"
  occurred :: "'a occurrence list"
  over :: "unit outcome option"

definition boot :: "'a code \<Rightarrow> 'a process" where
  "boot c = \<lparr>threads = [c], occurred = [], over = None\<rparr>"

text \<open>The next step of goroutine \<open>i\<close>, if it has one; \<open>b\<close> is the answer to its call. The process is over
  when \<open>main\<close> returns, or when any goroutine ends it or panics.\<close>

definition advance :: "nat \<Rightarrow> bool \<Rightarrow> 'a process \<Rightarrow> 'a process option" where
  "advance i b s =
     (if over s \<noteq> None \<or> length (threads s) \<le> i then None
      else case threads s ! i of
        Finish \<Rightarrow> if i = 0 then Some (s\<lparr>over := Some (Ret ())\<rparr>) else None
      | Exit m \<Rightarrow> Some (s\<lparr>over := Some (Fatal m)\<rparr>)
      | Throw e \<Rightarrow> Some (s\<lparr>over := Some (Panic e)\<rparr>)
      | Block \<Rightarrow> None
      | Go c k \<Rightarrow> Some (s\<lparr>threads := (threads s)[i := k] @ [c], occurred := occurred s @ [(i, StartGoroutine, True)]\<rparr>)
      | Call a k \<Rightarrow> Some (s\<lparr>threads := (threads s)[i := k b], occurred := occurred s @ [(i, a, b)]\<rparr>))"

definition process_step :: "'a process \<Rightarrow> 'a process \<Rightarrow> bool" where
  "process_step s s' \<longleftrightarrow> (\<exists>i b. advance i b s = Some s')"

fun follow_schedule :: "(nat \<times> bool) list \<Rightarrow> 'a process \<Rightarrow> 'a process option" where
  "follow_schedule [] s = Some s"
| "follow_schedule ((i, b) # is) s = (case advance i b s of None \<Rightarrow> None | Some s' \<Rightarrow> follow_schedule is s')"

subsection \<open>Budgets\<close>

text \<open>The most a goroutine and those it starts may spend, for a cost of each call.\<close>

primrec budget :: "('a action \<Rightarrow> nat) \<Rightarrow> 'a code \<Rightarrow> nat" where
  "budget f Finish = 0"
| "budget f (Exit m) = 0"
| "budget f (Throw e) = 0"
| "budget f Block = 0"
| "budget f (Go c k) = f StartGoroutine + budget f c + budget f k"
| "budget f (Call a k) = f a + max (budget f (k True)) (budget f (k False))"

definition action_of :: "'a occurrence \<Rightarrow> 'a action" where
  "action_of e = fst (snd e)"

definition spent :: "('a action \<Rightarrow> nat) \<Rightarrow> 'a process \<Rightarrow> nat" where
  "spent f s = sum_list (map (f \<circ> action_of) (occurred s))"

definition to_spend :: "('a action \<Rightarrow> nat) \<Rightarrow> 'a process \<Rightarrow> nat" where
  "to_spend f s = sum_list (map (budget f) (threads s))"

lemma action_of_simps [simp]: "action_of (i, a, b) = a"
  by (simp add: action_of_def)

lemma advance_budget:
  assumes "advance i b s = Some s'"
  shows "spent f s' + to_spend f s' \<le> spent f s + to_spend f s"
proof -
  have i: "i < length (threads s)" using assms by (auto simp: advance_def split: if_splits)
  note upd = sum_list_update_nat [OF i, of "budget f"]
  show ?thesis
  proof (cases "threads s ! i")
    case (Call a k)
    then have "s' = s\<lparr>threads := (threads s)[i := k b], occurred := occurred s @ [(i, a, b)]\<rparr>"
      using assms by (auto simp: advance_def split: if_splits)
    then show ?thesis using upd [of "k b"] Call by (cases b) (simp_all add: spent_def to_spend_def)
  next
    case (Go c k)
    then have "s' = s\<lparr>threads := (threads s)[i := k] @ [c], occurred := occurred s @ [(i, StartGoroutine, True)]\<rparr>"
      using assms by (auto simp: advance_def split: if_splits)
    then show ?thesis using upd [of k] Go by (simp add: spent_def to_spend_def)
  qed (use assms in \<open>auto simp: advance_def spent_def to_spend_def split: if_splits\<close>)
qed

text \<open>The steps left: the calls, and the step that ends the process.\<close>

definition steps_left :: "'a process \<Rightarrow> nat" where
  "steps_left s = (if over s = None then Suc (to_spend (\<lambda>_. 1) s) else 0)"

lemma advance_steps_left:
  assumes "advance i b s = Some s'"
  shows "steps_left s' < steps_left s"
proof -
  have "over s = None" using assms by (auto simp: advance_def split: if_splits)
  moreover have "over s' \<noteq> None \<or> length (occurred s') = Suc (length (occurred s))"
    using assms by (auto simp: advance_def split: if_splits code.splits)
  moreover have "spent (\<lambda>_. 1) t = length (occurred t)" for t :: "'a process"
    by (simp add: spent_def comp_def sum_list_triv)
  ultimately show ?thesis
    using advance_budget [OF assms, of "\<lambda>_. 1"] by (auto simp: steps_left_def)
qed

subsection \<open>What the goroutines may do\<close>

text \<open>\<open>P h a\<close>: a goroutine may do \<open>a\<close> after the calls \<open>h\<close> of its own; \<open>Q h r\<close>: it may then end the process
  with \<open>r\<close>. Goroutines other than \<open>main\<close> may return at any time.\<close>

type_synonym 'a calls = "('a action \<times> bool) list"

primrec allowed :: "('a calls \<Rightarrow> 'a action \<Rightarrow> bool) \<Rightarrow> ('a calls \<Rightarrow> unit outcome \<Rightarrow> bool) \<Rightarrow> 'a calls \<Rightarrow> 'a code \<Rightarrow> bool" where
  "allowed P Q h Finish = Q h (Ret ())"
| "allowed P Q h (Exit m) = Q h (Fatal m)"
| "allowed P Q h (Throw e) = Q h (Panic e)"
| "allowed P Q h Block = True"
| "allowed P Q h (Go c k) = (P h StartGoroutine \<and> allowed P (\<lambda>h r. Q h r \<or> r = Ret ()) [] c \<and> allowed P Q (h @ [(StartGoroutine, True)]) k)"
| "allowed P Q h (Call a k) = (P h a \<and> allowed P Q (h @ [(a, True)]) (k True) \<and> allowed P Q (h @ [(a, False)]) (k False))"

definition own :: "nat \<Rightarrow> 'a occurrence list \<Rightarrow> 'a calls" where
  "own i es = map snd (filter (\<lambda>e. fst e = i) es)"

definition ends_by :: "('a calls \<Rightarrow> unit outcome \<Rightarrow> bool) \<Rightarrow> nat \<Rightarrow> 'a calls \<Rightarrow> unit outcome \<Rightarrow> bool" where
  "ends_by Q i = (if i = 0 then Q else (\<lambda>h r. Q h r \<or> r = Ret ()))"

definition lawful :: "('a calls \<Rightarrow> 'a action \<Rightarrow> bool) \<Rightarrow> ('a calls \<Rightarrow> unit outcome \<Rightarrow> bool) \<Rightarrow> 'a process \<Rightarrow> bool" where
  "lawful P Q s \<longleftrightarrow>
     threads s \<noteq> [] \<and>
     (\<forall>i<length (threads s). allowed P (ends_by Q i) (own i (occurred s)) (threads s ! i)) \<and>
     (\<forall>e\<in>set (occurred s). fst e < length (threads s) \<and> (\<exists>h. P h (action_of e))) \<and>
     (\<forall>r. over s = Some r \<longrightarrow> (\<exists>i. Q (own i (occurred s)) r))"

lemma own_simps [simp]:
  "own i [] = []" "own i (es @ [(j, e)]) = (if j = i then own i es @ [e] else own i es)"
  by (simp_all add: own_def)

lemma lawful_boot: "allowed P Q [] c \<Longrightarrow> lawful P Q (boot c)"
  by (simp add: lawful_def boot_def ends_by_def)

lemma lawful_advance:
  assumes s: "lawful P Q s" and step: "advance i b s = Some s'"
  shows "lawful P Q s'"
proof -
  have i: "i < length (threads s)" and running: "over s = None" using step by (auto simp: advance_def split: if_splits)
  have it: "allowed P (ends_by Q i) (own i (occurred s)) (threads s ! i)" using s i by (simp add: lawful_def)
  have ending: "lawful P Q (s\<lparr>over := Some r\<rparr>)" if "Q (own i (occurred s)) r" for r
    using s that by (auto simp: lawful_def)
  show ?thesis
  proof (cases "threads s ! i")
    case (Call a k)
    then have s': "s' = s\<lparr>threads := (threads s)[i := k b], occurred := occurred s @ [(i, a, b)]\<rparr>"
      using step by (auto simp: advance_def split: if_splits)
    have "P (own i (occurred s)) a \<and> allowed P (ends_by Q i) (own i (occurred s) @ [(a, b)]) (k b)"
      using it Call by (cases b) simp_all
    then show ?thesis using s i running by (auto simp: lawful_def s' nth_list_update)
  next
    case (Go c k)
    then have s': "s' = s\<lparr>threads := (threads s)[i := k] @ [c], occurred := occurred s @ [(i, StartGoroutine, True)]\<rparr>"
      using step by (auto simp: advance_def split: if_splits)
    have fresh: "own (length (threads s)) (occurred s) = []"
      using s unfolding lawful_def own_def by (auto simp: filter_empty_conv)
    have new: "ends_by Q (length (threads s)) = (\<lambda>h r. ends_by Q i h r \<or> r = Ret ())"
      using i by (auto simp: ends_by_def fun_eq_iff)
    show ?thesis using s i running it Go fresh
      by (auto simp: lawful_def s' nth_list_update nth_append new less_Suc_eq)
  next
    case Finish
    then have "i = 0 \<Longrightarrow> Q (own i (occurred s)) (Ret ())" using it by (simp add: ends_by_def)
    then show ?thesis using ending step Finish by (auto simp: advance_def split: if_splits)
  next
    case (Exit m)
    then have "Q (own i (occurred s)) (Fatal m)" using it by (simp add: ends_by_def split: if_splits)
    then show ?thesis using ending step Exit by (auto simp: advance_def split: if_splits)
  next
    case (Throw e)
    then have "Q (own i (occurred s)) (Panic e)" using it by (simp add: ends_by_def split: if_splits)
    then show ?thesis using ending step Throw by (auto simp: advance_def split: if_splits)
  qed (use step in \<open>auto simp: advance_def split: if_splits\<close>)
qed

text \<open>A process at rest is over, or every goroutine has returned or waits for ever.\<close>

fun idle :: "'a code \<Rightarrow> bool" where
  "idle Finish = True"
| "idle Block = True"
| "idle _ = False"

definition at_rest :: "'a process \<Rightarrow> bool" where
  "at_rest s \<longleftrightarrow> over s \<noteq> None \<or> (list_all idle (threads s) \<and> (case threads s of Finish # _ \<Rightarrow> False | _ \<Rightarrow> True))"

lemma advances:
  assumes "threads s \<noteq> []" and "\<not> at_rest s"
  shows "\<exists>s'. process_step s s'"
proof -
  obtain i where i: "i < length (threads s)" "\<not> idle (threads s ! i) \<or> i = 0 \<and> threads s ! i = Finish"
  proof (cases "\<exists>i<length (threads s). \<not> idle (threads s ! i)")
    case False
    then have "list_all idle (threads s)" by (auto simp: list_all_length)
    then show ?thesis using assms that [of 0] by (cases "threads s") (auto simp: at_rest_def split: code.splits)
  qed (use that in blast)
  then have "\<exists>s'. advance i True s = Some s'"
    using assms(2) by (cases "threads s ! i") (auto simp: advance_def at_rest_def)
  then show ?thesis unfolding process_step_def by blast
qed

text \<open>So a program whose code is allowed meets the contract of a program that ends.\<close>

lemma process_computes:
  assumes "allowed P Q [] c"
  shows "computing_system process_step (boot c) (lawful P Q) steps_left at_rest (lawful P Q)"
proof
  show "lawful P Q (boot c)" by (rule lawful_boot [OF assms])
next
  fix s s' assume "lawful P Q s" "process_step s s'"
  then show "lawful P Q s'" "steps_left s' < steps_left s"
    unfolding process_step_def by (auto intro: lawful_advance advance_steps_left)
next
  fix s assume "lawful P Q s" "\<not> at_rest s"
  then show "\<exists>s'. process_step s s'" by (intro advances) (auto simp: lawful_def)
qed

lemma runs_budget: "runs_by process_step s n s' \<Longrightarrow> spent f s' + to_spend f s' \<le> spent f s + to_spend f s"
  by (induction rule: runs_by.induct) (auto simp: process_step_def dest!: advance_budget [where f = f])

lemma follow_runs: "follow_schedule is s = Some s' \<Longrightarrow> runs_by process_step r n s \<Longrightarrow> runs_by process_step r (n + length is) s'"
proof (induction "is" s arbitrary: n rule: follow_schedule.induct)
  case (2 i b "is" s)
  then obtain t where t: "advance i b s = Some t" "follow_schedule is t = Some s'" by (auto split: option.splits)
  have "runs_by process_step r (Suc n) t"
    by (rule runs_by.more [OF 2(3)]) (use t(1) in \<open>auto simp: process_step_def\<close>)
  from 2(1) [OF t(1) t(2) this] show ?case by simp
qed simp

end
