(* ===== verification/GoDuration.thy ===== *)
theory GoDuration
  imports GoStrings GoFloat
begin

text \<open>
  Go's \<open>time.ParseDuration\<close>: a sign, then numbers with a unit each, such as \<open>1h15m30.918s\<close>. A duration
  is a number of nanoseconds. The sum is kept in a \<open>uint64\<close>; what may wrap around there is written
  out. The main lemma reads what \<open>Itoa\<close> and a unit make of a number.
\<close>

definition two63 :: nat where "two63 = 9223372036854775808"

text \<open>\<open>leadingInt\<close>: \<^term>\<open>None\<close> when the number is above \<open>1 << 63\<close>.\<close>

fun leading_int :: "nat \<Rightarrow> string \<Rightarrow> (nat \<times> string) option" where
  "leading_int x [] = Some (x, [])"
| "leading_int x (c # cs) =
     (if \<not> is_digit c then Some (x, c # cs)
      else if x > two63 div 10 then None
      else let x = x * 10 + digit_val c in if x > two63 then None else leading_int x cs)"

text \<open>\<open>leadingFraction\<close>: digits that no longer fit are dropped. The scale is a power of ten that a
  \<open>float64\<close> holds exactly.\<close>

fun leading_fraction :: "nat \<Rightarrow> nat \<Rightarrow> bool \<Rightarrow> string \<Rightarrow> nat \<times> nat \<times> string" where
  "leading_fraction x scale overflow [] = (x, scale, [])"
| "leading_fraction x scale overflow (c # cs) =
     (if \<not> is_digit c then (x, scale, c # cs)
      else if overflow then leading_fraction x scale True cs
      else if x > (two63 - 1) div 10 then leading_fraction x scale True cs
      else let y = x * 10 + digit_val c
           in if y > two63 then leading_fraction x scale True cs else leading_fraction y (scale * 10) False cs)"

text \<open>The micro sign and the Greek letter mu are two bytes each.\<close>

definition unit_map :: "(string \<times> nat) list" where
  "unit_map = [(''ns'', 1), (''us'', 1000), ([CHR 0xC2, CHR 0xB5] @ ''s'', 1000), ([CHR 0xCE, CHR 0xBC] @ ''s'', 1000),
     (''ms'', 1000000), (''s'', 1000000000), (''m'', 60000000000), (''h'', 3600000000000)]"

definition unit_of :: "string \<Rightarrow> string \<times> string" where
  "unit_of s = (takeWhile (\<lambda>c. \<not> (c = CHR ''.'' \<or> is_digit c)) s, dropWhile (\<lambda>c. \<not> (c = CHR ''.'' \<or> is_digit c)) s)"

text \<open>One number with its unit: the whole part, the fraction with its scale, and what they make in
  nanoseconds, with the rest of the text.\<close>

definition fraction_of :: "string \<Rightarrow> nat \<times> nat \<times> string" where
  "fraction_of s = (if s \<noteq> '''' \<and> hd s = CHR ''.'' then leading_fraction 0 1 False (tl s) else (0, 1, s))"

definition in_nanoseconds :: "nat \<Rightarrow> nat \<Rightarrow> nat \<Rightarrow> string \<Rightarrow> (nat \<times> string) option" where
  "in_nanoseconds v f scale s =
     (let (u, r) = unit_of s
      in if u = '''' then None
         else case map_of unit_map u of
           None \<Rightarrow> None
         | Some ns \<Rightarrow>
             if v > two63 div ns then None
             else let v = v * ns;
                      v = (if f > 0 then v + nat (fl_trunc (fl_mul (fl_round (of_nat f)) (fl_div (of_nat ns) (of_nat scale)))) else v)
                  in if v > two63 then None else Some (v, r))"

definition duration_part :: "string \<Rightarrow> (nat \<times> string) option" where
  "duration_part s =
     (if s = '''' \<or> \<not> (hd s = CHR ''.'' \<or> is_digit (hd s)) then None
      else case leading_int 0 s of
        None \<Rightarrow> None
      | Some (v, s1) \<Rightarrow>
          (let (f, scale, s2) = fraction_of s1;
               pre = length s1 \<noteq> length s; post = s1 \<noteq> '''' \<and> hd s1 = CHR ''.'' \<and> length s2 \<noteq> length (tl s1)
           in if \<not> pre \<and> \<not> post then None else in_nanoseconds v f scale s2))"

lemma leading_int_length: "leading_int x s = Some (v, r) \<Longrightarrow> length r \<le> length s"
  by (induction x s rule: leading_int.induct) (auto split: if_splits simp: Let_def)

lemma leading_fraction_length: "leading_fraction x k b s = (f, l, r) \<Longrightarrow> length r \<le> length s"
  by (induction x k b s rule: leading_fraction.induct) (auto split: if_splits simp: Let_def)

lemma unit_of_length: "unit_of s = (u, r) \<Longrightarrow> u \<noteq> '''' \<Longrightarrow> length r < length s"
proof -
  assume "unit_of s = (u, r)" "u \<noteq> ''''"
  then have "s = u @ r" unfolding unit_of_def by (metis prod.inject takeWhile_dropWhile_id)
  then show "length r < length s" using \<open>u \<noteq> ''''\<close> by simp
qed

lemma fraction_of_length: "fraction_of s = (f, l, r) \<Longrightarrow> length r \<le> length s"
  using leading_fraction_length [of 0 1 False "tl s" f l r] by (auto simp: fraction_of_def split: if_splits)

lemma in_nanoseconds_length: "in_nanoseconds v f l s = Some (d, r) \<Longrightarrow> length r < length s"
  using unit_of_length [of s "fst (unit_of s)" "snd (unit_of s)"]
  by (auto simp: in_nanoseconds_def Let_def split: prod.splits if_splits option.splits)

lemma duration_part_length: "duration_part s = Some (v, r) \<Longrightarrow> length r < length s"
proof -
  assume part: "duration_part s = Some (v, r)"
  then obtain n s1 where 1: "leading_int 0 s = Some (n, s1)" by (auto simp: duration_part_def split: if_splits option.splits)
  obtain f l s2 where f: "fraction_of s1 = (f, l, s2)" by (cases "fraction_of s1")
  have "in_nanoseconds n f l s2 = Some (v, r)"
    using part 1 f by (simp add: duration_part_def Let_def split: if_splits)
  from in_nanoseconds_length [OF this] fraction_of_length [OF f] leading_int_length [OF 1] show ?thesis by simp
qed

function duration_parts :: "nat \<Rightarrow> string \<Rightarrow> nat option" where
  "duration_parts d s =
     (if s = '''' then Some d
      else case duration_part s of
        None \<Rightarrow> None
      | Some (v, r) \<Rightarrow> (let d = (d + v) mod 2 ^ 64 in if d > two63 then None else duration_parts d r))"
  by pat_completeness auto
termination
  by (relation "measure (length \<circ> snd)") (auto dest: duration_part_length)

declare duration_parts.simps [simp del]

text \<open>The code tells a missing and an unknown unit apart in the text of the error.\<close>

definition invalid_duration :: "string \<Rightarrow> go_error" where
  "invalid_duration orig = Errorf ''time: invalid duration %q'' [ArgS orig]"

definition ParseDuration :: "string \<Rightarrow> go_error + int" where
  "ParseDuration orig =
     (let neg = (orig \<noteq> '''' \<and> hd orig = CHR ''-'');
          s = (if orig \<noteq> '''' \<and> (hd orig = CHR ''-'' \<or> hd orig = CHR ''+'') then tl orig else orig)
      in if s = ''0'' then Inr 0
         else if s = '''' then Inl (invalid_duration orig)
         else case duration_parts 0 s of
           None \<Rightarrow> Inl (invalid_duration orig)
         | Some d \<Rightarrow> if neg then Inr (- int d) else if d > two63 - 1 then Inl (invalid_duration orig) else Inr (int d))"

text \<open>A decimal number with a unit.\<close>

lemma leading_int_digits:
  assumes "\<forall>c\<in>set ds. is_digit c" and "digits_val x ds \<le> two63" and "rest = [] \<or> \<not> is_digit (hd rest)"
  shows "leading_int x (ds @ rest) = Some (digits_val x ds, rest)"
  using assms(1,2)
proof (induction ds arbitrary: x)
  case Nil
  then show ?case using assms(3) by (cases rest) (auto simp: digits_val_def)
next
  case (Cons c cs)
  have le: "x * 10 + digit_val c \<le> digits_val (x * 10 + digit_val c) cs" by (rule digits_val_mono)
  with Cons.prems(2) have small: "x * 10 + digit_val c \<le> two63" by (simp add: digits_val_def)
  then have "\<not> x > two63 div 10" by (simp add: two63_def)
  then show ?case using Cons small by (simp add: digits_val_def Let_def)
qed

lemma duration_part_digits:
  assumes "map_of unit_map u = Some ns" and "n * ns \<le> two63" and "0 < ns" and "\<forall>c\<in>set u. \<not> (c = CHR ''.'' \<or> is_digit c)" and "u \<noteq> ''''"
  shows "duration_part (nat_digits n @ u) = Some (n * ns, '''')"
proof -
  have "n * 1 \<le> n * ns" using assms(3) by (intro mult_le_mono2) simp
  then have "n \<le> two63" using assms(2) by linarith
  moreover have u: "hd u \<noteq> CHR ''.''" "\<not> is_digit (hd u)" using assms(4,5) by (auto simp: hd_in_set)
  ultimately have int: "leading_int 0 (nat_digits n @ u) = Some (n, u)"
    using leading_int_digits [of "nat_digits n" 0 u] nat_digits_all by simp
  have "is_digit (hd (nat_digits n))" using nat_digits_all [of "hd (nat_digits n)" n] by (simp add: hd_in_set)
  moreover have "takeWhile (\<lambda>c. \<not> (c = CHR ''.'' \<or> is_digit c)) u = u" "dropWhile (\<lambda>c. \<not> (c = CHR ''.'' \<or> is_digit c)) u = []"
    using assms(4) by (auto simp: takeWhile_eq_all_conv dropWhile_eq_Nil_conv)
  then have "unit_of u = (u, '''')" by (simp only: unit_of_def)
  moreover have "\<not> n > two63 div ns" using assms(2,3) by (simp add: not_less less_eq_div_iff_mult_less_eq)
  ultimately have "in_nanoseconds n 0 1 u = Some (n * ns, '''')" using assms(1,2,5) by (simp add: in_nanoseconds_def Let_def)
  moreover have "fraction_of u = (0, 1, u)" using u(1) by (simp add: fraction_of_def)
  ultimately show ?thesis using int \<open>is_digit (hd (nat_digits n))\<close> by (simp add: duration_part_def Let_def)
qed

text \<open>So a number of milliseconds is read as that many millions of nanoseconds, up to the range of a duration.\<close>

lemma ParseDuration_ms:
  assumes "n * 1000000 < two63"
  shows "ParseDuration (nat_digits n @ ''ms'') = Inr (int n * 1000000)"
proof -
  have part: "duration_part (nat_digits n @ ''ms'') = Some (n * 1000000, '''')"
    by (rule duration_part_digits) (use assms in \<open>auto simp: unit_map_def is_digit_def\<close>)
  have "n * 1000000 < 2 ^ 64" using assms by (simp add: two63_def)
  then have "duration_parts 0 (nat_digits n @ ''ms'') = Some (n * 1000000)"
    using assms part by (simp add: duration_parts.simps Let_def)
  moreover have "hd (nat_digits n @ ''ms'') \<noteq> CHR ''-''" "hd (nat_digits n @ ''ms'') \<noteq> CHR ''+''"
    using nat_digits_all [of "hd (nat_digits n)" n] by (auto simp: hd_in_set is_digit_def)
  moreover have "nat_digits n @ ''ms'' \<noteq> ''0''" by (cases "nat_digits n") auto
  ultimately show ?thesis using assms by (auto simp: ParseDuration_def Let_def)
qed

end
