(* ===== verification/ShopServer.thy ===== *)
theory ShopServer
  imports ShopProcess GoDuration
begin

text \<open>
  The start of the Go services of \<open>benchmarks/online-shop\<close>: \<open>main\<close> of the checkout, the shipping and the
  product catalog service, with the goroutines they start for tracing and profiling.
  Their code is a tree of calls, run by the processes of \<open>ShopProcess\<close>.
\<close>

subsection \<open>Tracing, profiling and the statistics\<close>

definition seconds :: "nat \<Rightarrow> nat" where "seconds n = n * 1000000000"

definition initJaegerTracing :: "environment \<Rightarrow> string \<Rightarrow> 'a code \<Rightarrow> 'a code" where
  "initJaegerTracing env service k =
     (let svcAddr = getenv env ''JAEGER_SERVICE_ADDR''
      in if svcAddr = '''' then k
         else Call (NewJaegerExporter (''http://'' @ svcAddr) service)
           (\<lambda>ok. if \<not> ok then Exit ''jaeger'' else Call RegisterJaeger (\<lambda>_. k)))"

text \<open>A failure to register the views is logged only.\<close>

definition initStats :: "'a code \<Rightarrow> 'a code" where
  "initStats k = Call (SetReportingPeriod (60 * 1000000000)) (\<lambda>_. Call RegisterViewExporter (\<lambda>_. Call RegisterViews (\<lambda>ok. k)))"

text \<open>\<open>for i := 1; i <= 3; i++\<close>: try, and sleep ten seconds more after every failure.\<close>

function retry_loop :: "'a action \<Rightarrow> 'a code \<Rightarrow> 'a code \<Rightarrow> nat \<Rightarrow> 'a code" where
  "retry_loop attempt success give_up i =
     (if i \<le> 3
      then Call attempt (\<lambda>ok. if ok then success else Call (Sleep (seconds (10 * i))) (\<lambda>_. retry_loop attempt success give_up (Suc i)))
      else give_up)"
  by pat_completeness auto
termination
  by (relation "measure (\<lambda>(a, s, g, i). 4 - i)") auto

declare retry_loop.simps [simp del]

text \<open>The checkout service does not set the sampler.\<close>

definition initStackdriverTracing :: "bool \<Rightarrow> 'a code \<Rightarrow> 'a code" where
  "initStackdriverTracing sample k =
     retry_loop NewStackdriverExporter
       (Call RegisterStackdriver (\<lambda>_. if sample then Call SampleAlways (\<lambda>_. initStats k) else initStats k)) k 1"

definition initTracing :: "environment \<Rightarrow> string \<Rightarrow> bool \<Rightarrow> 'a code" where
  "initTracing env service sample = initJaegerTracing env service (initStackdriverTracing sample Finish)"

definition initProfiling :: "string \<Rightarrow> string \<Rightarrow> 'a code" where
  "initProfiling service version = retry_loop (StartProfiler service version) Finish Finish 1"

definition enabled :: "environment \<Rightarrow> string \<Rightarrow> bool" where
  "enabled env switch \<longleftrightarrow> getenv env switch = ''''"

text \<open>What the three \<open>main\<close> functions begin with.\<close>

definition start_helpers :: "environment \<Rightarrow> string \<Rightarrow> bool \<Rightarrow> 'a code \<Rightarrow> 'a code" where
  "start_helpers env service sample k =
     (let rest = (if enabled env ''DISABLE_PROFILER'' then Go (initProfiling service ''1.0.0'') k else k)
      in if enabled env ''DISABLE_TRACING'' then Go (initTracing env service sample) rest else rest)"

definition server_stats :: "environment \<Rightarrow> grpc_option list" where
  "server_stats env = (if enabled env ''DISABLE_STATS'' then [ServerStats] else [])"

subsection \<open>The checkout service\<close>

record checkoutService =
  productCatalogSvcAddr :: string
  cartSvcAddr :: string
  currencySvcAddr :: string
  shippingSvcAddr :: string
  emailSvcAddr :: string
  paymentSvcAddr :: string

definition not_set :: "string \<Rightarrow> go_error" where
  "not_set envKey = Errorf ''environment variable %q not set'' [ArgS envKey]"

definition mustMapEnv :: "environment \<Rightarrow> string \<Rightarrow> (string \<Rightarrow> 'a code) \<Rightarrow> 'a code" where
  "mustMapEnv env envKey k = (let v = getenv env envKey in if v = '''' then Throw (not_set envKey) else k v)"

definition port_or :: "string \<Rightarrow> environment \<Rightarrow> string" where
  "port_or usual env = (if getenv env ''PORT'' \<noteq> '''' then getenv env ''PORT'' else usual)"

definition serve_checkout :: "environment \<Rightarrow> checkoutService \<Rightarrow> checkoutService code" where
  "serve_checkout env svc =
     Call (Listen ('':'' @ port_or ''5050'' env)) (\<lambda>ok.
       if \<not> ok then Exit ''listen''
       else Call (NewServer (server_stats env)) (\<lambda>_. Call (Serve svc) (\<lambda>_. Exit ''serve'')))"

definition checkout_main :: "environment \<Rightarrow> checkoutService code" where
  "checkout_main env =
     start_helpers env ''checkoutservice'' False
       (mustMapEnv env ''SHIPPING_SERVICE_ADDR'' (\<lambda>shipping.
        mustMapEnv env ''PRODUCT_CATALOG_SERVICE_ADDR'' (\<lambda>catalog.
        mustMapEnv env ''CART_SERVICE_ADDR'' (\<lambda>cart.
        mustMapEnv env ''CURRENCY_SERVICE_ADDR'' (\<lambda>currency.
        mustMapEnv env ''EMAIL_SERVICE_ADDR'' (\<lambda>email.
        mustMapEnv env ''PAYMENT_SERVICE_ADDR'' (\<lambda>payment.
        serve_checkout env
          \<lparr>productCatalogSvcAddr = catalog, cartSvcAddr = cart, currencySvcAddr = currency, shippingSvcAddr = shipping,
           emailSvcAddr = email, paymentSvcAddr = payment\<rparr>)))))))"

subsection \<open>The shipping service\<close>

text \<open>A \<open>PORT\<close> that is set to the empty string is used as it is. \<open>main\<close> returns when \<open>Serve\<close> returns
  without an error.\<close>

definition shipping_main :: "environment \<Rightarrow> unit code" where
  "shipping_main env =
     start_helpers env ''shippingservice'' True
       (Call (Listen ('':'' @ (case env ''PORT'' of Some p \<Rightarrow> p | None \<Rightarrow> ''50051''))) (\<lambda>ok.
          if \<not> ok then Exit ''failed to listen''
          else Call (NewServer (server_stats env)) (\<lambda>_. Call RegisterReflection (\<lambda>_.
            Call (Serve ()) (\<lambda>ok. if \<not> ok then Exit ''failed to serve'' else Finish)))))"

subsection \<open>The product catalog service\<close>

text \<open>What is served is the extra latency. The loop over the signals waits like \<open>select {}\<close> does; what a
  signal does to the catalog is \<open>handle_signal\<close> of \<open>ProductCatalog\<close>. \<open>Serve\<close> has a goroutine of its own.\<close>

definition catalog_run :: "environment \<Rightarrow> string \<Rightarrow> int \<Rightarrow> int code \<Rightarrow> int code" where
  "catalog_run env port latency k =
     Call (Listen ('':'' @ port)) (\<lambda>ok.
       if \<not> ok then Exit ''listen''
       else Call (NewServer (server_stats env)) (\<lambda>_. Go (Call (Serve latency) (\<lambda>_. Finish)) k))"

definition with_latency :: "environment \<Rightarrow> (int \<Rightarrow> int code) \<Rightarrow> int code" where
  "with_latency env k =
     (let s = getenv env ''EXTRA_LATENCY''
      in if s \<noteq> ''''
         then case ParseDuration s of
           Inl err \<Rightarrow> Exit ''failed to parse EXTRA_LATENCY''
         | Inr v \<Rightarrow> k v
         else k 0)"

definition catalog_main :: "environment \<Rightarrow> int code" where
  "catalog_main env =
     start_helpers env ''productcatalogservice'' True
       (with_latency env (\<lambda>latency.
          Call NotifySignals (\<lambda>_. Go Block (catalog_run env (port_or ''3550'' env) latency Block))))"

subsection \<open>What a start does\<close>

fun listen_address :: "'a occurrence \<Rightarrow> string list" where
  "listen_address (i, Listen a, b) = [a]"
| "listen_address _ = []"

fun serve_with :: "'a occurrence \<Rightarrow> 'a list" where
  "serve_with (i, Serve c, b) = [c]"
| "serve_with _ = []"

fun sleep_of :: "'a action \<Rightarrow> nat" where
  "sleep_of (Sleep d) = d"
| "sleep_of _ = 0"

definition listened :: "'a process \<Rightarrow> string list" where
  "listened s = concat (map listen_address (occurred s))"

definition served :: "'a process \<Rightarrow> 'a list" where
  "served s = concat (map serve_with (occurred s))"

definition tries :: "'a action \<Rightarrow> 'a process \<Rightarrow> nat" where
  "tries a s = length (filter (\<lambda>e. action_of e = a) (occurred s))"

definition slept :: "'a process \<Rightarrow> nat" where
  "slept s = sum_list (map (sleep_of \<circ> action_of) (occurred s))"

lemma tries_spent: "tries a s = spent (\<lambda>x. if x = a then 1 else 0) s"
proof -
  have "length (filter (\<lambda>e. action_of e = a) es) = sum_list (map ((\<lambda>x. if x = a then 1 else 0) \<circ> action_of) es)" for es
    by (induction es) auto
  then show ?thesis by (simp add: tries_def spent_def)
qed

lemma slept_spent: "slept s = spent sleep_of s"
  by (simp add: slept_def spent_def)

lemma in_listened: "a \<in> set (listened s) \<longleftrightarrow> (\<exists>e\<in>set (occurred s). action_of e = Listen a)"
proof -
  have "a \<in> set (listen_address e) \<longleftrightarrow> action_of e = Listen a" for e
    by (cases e rule: listen_address.cases) auto
  then show ?thesis by (auto simp: listened_def)
qed

lemma in_served: "c \<in> set (served s) \<longleftrightarrow> (\<exists>e\<in>set (occurred s). action_of e = Serve c)"
proof -
  have "c \<in> set (serve_with e) \<longleftrightarrow> action_of e = Serve c" for e
    by (cases e rule: serve_with.cases) auto
  then show ?thesis by (auto simp: served_def)
qed

text \<open>The helpers may do what does not listen or serve, and end the process when the Jaeger exporter
  fails.\<close>

lemmas start_code =
  start_helpers_def initTracing_def initJaegerTracing_def initStackdriverTracing_def initStats_def initProfiling_def
  retry_loop.simps Let_def


lemma helpers_allowed:
  assumes "\<And>h a. (\<And>x. a \<noteq> Listen x) \<Longrightarrow> (\<And>c. a \<noteq> Serve c) \<Longrightarrow> P h a"
    and "\<And>h u v. (NewJaegerExporter u v, False) \<in> set h \<Longrightarrow> Q h (Fatal ''jaeger'')"
    and "\<And>h. allowed P Q h k"
  shows "allowed P Q [] (start_helpers env service sample k)"
proof -
  have prof: "allowed P (\<lambda>h r. Q h r \<or> r = Ret ()) [] (initProfiling service ''1.0.0'')"
    by (simp add: start_code assms(1))
  have trac: "allowed P (\<lambda>h r. Q h r \<or> r = Ret ()) [] (initTracing env service sample)"
    by (auto simp: start_code assms(1) intro!: assms(2))
  show ?thesis by (auto simp: start_helpers_def Let_def prof trac assms(1,3))
qed

lemma helpers_budget:
  "budget (\<lambda>_. 1) (start_helpers env service sample k) \<le> 20 + budget (\<lambda>_. 1) k"
  "budget (\<lambda>x. if x = NewStackdriverExporter then 1 else 0) (start_helpers env service sample k)
     \<le> 3 + budget (\<lambda>x. if x = NewStackdriverExporter then 1 else 0) k"
  "budget (\<lambda>x. if x = StartProfiler service ''1.0.0'' then 1 else 0) (start_helpers env service sample k)
     \<le> 3 + budget (\<lambda>x. if x = StartProfiler service ''1.0.0'' then 1 else 0) k"
  "budget sleep_of (start_helpers env service sample k) \<le> seconds 120 + budget sleep_of k"
  by (simp_all add: start_code seconds_def)

subsection \<open>The services\<close>

definition checkout_variables :: "string list" where
  "checkout_variables = [''SHIPPING_SERVICE_ADDR'', ''PRODUCT_CATALOG_SERVICE_ADDR'', ''CART_SERVICE_ADDR'', ''CURRENCY_SERVICE_ADDR'',
     ''EMAIL_SERVICE_ADDR'', ''PAYMENT_SERVICE_ADDR'']"

definition missing :: "environment \<Rightarrow> string list" where
  "missing env = filter (\<lambda>v. getenv env v = '''') checkout_variables"

definition configured :: "environment \<Rightarrow> checkoutService" where
  "configured env =
     \<lparr>productCatalogSvcAddr = getenv env ''PRODUCT_CATALOG_SERVICE_ADDR'', cartSvcAddr = getenv env ''CART_SERVICE_ADDR'',
      currencySvcAddr = getenv env ''CURRENCY_SERVICE_ADDR'', shippingSvcAddr = getenv env ''SHIPPING_SERVICE_ADDR'',
      emailSvcAddr = getenv env ''EMAIL_SERVICE_ADDR'', paymentSvcAddr = getenv env ''PAYMENT_SERVICE_ADDR''\<rparr>"

text \<open>What a server may do: listen at one address and serve as configured, or neither, and then it may
  end as said, or through a failing exporter.\<close>

definition acts :: "bool \<Rightarrow> string \<Rightarrow> 'a \<Rightarrow> 'a calls \<Rightarrow> 'a action \<Rightarrow> bool" where
  "acts starts address svc h a =
     (case a of Listen x \<Rightarrow> starts \<and> x = address | Serve c \<Rightarrow> starts \<and> c = svc | _ \<Rightarrow> True)"

definition ends :: "bool \<Rightarrow> bool \<Rightarrow> unit outcome \<Rightarrow> 'a calls \<Rightarrow> unit outcome \<Rightarrow> bool" where
  "ends starts returns otherwise h r =
     (case r of
        Ret _ \<Rightarrow> returns \<and> starts
      | Panic e \<Rightarrow> \<not> starts \<and> r = otherwise
      | Fatal m \<Rightarrow> starts \<or> r = otherwise \<or> (\<exists>u v. (NewJaegerExporter u v, False) \<in> set h))"

lemma start_allowed:
  assumes "\<And>h. allowed (acts starts address svc) (ends starts returns otherwise) h k"
  shows "allowed (acts starts address svc) (ends starts returns otherwise) [] (start_helpers env service sample k)"
  by (rule helpers_allowed) (use assms in \<open>auto simp: acts_def ends_def split: action.split\<close>)

text \<open>What a lawful process has done.\<close>

definition as_configured :: "bool \<Rightarrow> string \<Rightarrow> 'a \<Rightarrow> 'a process \<Rightarrow> bool" where
  "as_configured starts address svc s \<longleftrightarrow>
     list_all (\<lambda>x. starts \<and> x = address) (listened s) \<and> list_all (\<lambda>c. starts \<and> c = svc) (served s)"

lemma lawful_as_configured:
  assumes "lawful (acts starts address svc) Q s"
  shows "as_configured starts address svc s"
proof -
  have "\<exists>h. acts starts address svc h (action_of e)" if "e \<in> set (occurred s)" for e
    using assms that by (auto simp: lawful_def)
  then show ?thesis by (fastforce simp: as_configured_def list_all_iff in_listened in_served acts_def)
qed

definition jaeger_failed :: "'a process \<Rightarrow> bool" where
  "jaeger_failed s \<longleftrightarrow> list_ex (\<lambda>(i, a, b). (case a of NewJaegerExporter u v \<Rightarrow> \<not> b | _ \<Rightarrow> False)) (occurred s)"

lemma lawful_over:
  assumes "lawful P (ends starts returns otherwise) s" and "over s = Some r"
  shows "case r of Ret _ \<Rightarrow> returns \<and> starts | Panic e \<Rightarrow> \<not> starts \<and> r = otherwise | Fatal m \<Rightarrow> starts \<or> r = otherwise \<or> jaeger_failed s"
proof -
  obtain i where "ends starts returns otherwise (own i (occurred s)) r" using assms unfolding lawful_def by blast
  moreover have "(NewJaegerExporter u v, False) \<in> set (own i (occurred s)) \<Longrightarrow> jaeger_failed s" for u v
    by (auto simp: own_def jaeger_failed_def list_ex_iff intro!: bexI)
  ultimately show ?thesis by (auto simp: ends_def split: outcome.splits)
qed

lemma checkout_allowed:
  defines "starts env \<equiv> missing env = []"
  shows "allowed (acts (starts env) ('':'' @ port_or ''5050'' env) (configured env))
    (ends (starts env) False (Panic (not_set (hd (missing env))))) [] (checkout_main env)"
  unfolding checkout_main_def
  by (rule start_allowed)
    (simp add: mustMapEnv_def serve_checkout_def acts_def ends_def starts_def missing_def checkout_variables_def configured_def Let_def)

lemma shipping_allowed:
  "allowed (acts True ('':'' @ (case env ''PORT'' of Some p \<Rightarrow> p | None \<Rightarrow> ''50051'')) ()) (ends True True (Ret ())) [] (shipping_main env)"
  unfolding shipping_main_def by (rule start_allowed) (simp add: acts_def ends_def)

definition latency_of :: "environment \<Rightarrow> go_error + int" where
  "latency_of env = (if getenv env ''EXTRA_LATENCY'' = '''' then Inr 0 else ParseDuration (getenv env ''EXTRA_LATENCY''))"

lemma catalog_allowed:
  "allowed (acts (\<not> isl (latency_of env)) ('':'' @ port_or ''3550'' env) (projr (latency_of env)))
    (ends (\<not> isl (latency_of env)) False (Fatal ''failed to parse EXTRA_LATENCY'')) [] (catalog_main env)"
  unfolding catalog_main_def
proof (rule start_allowed)
  show "allowed (acts (\<not> isl (latency_of env)) ('':'' @ port_or ''3550'' env) (projr (latency_of env)))
    (ends (\<not> isl (latency_of env)) False (Fatal ''failed to parse EXTRA_LATENCY'')) h
    (with_latency env (\<lambda>latency. Call NotifySignals (\<lambda>_. Go Block (catalog_run env (port_or ''3550'' env) latency Block))))" for h
    by (cases "ParseDuration (getenv env ''EXTRA_LATENCY'')")
      (simp_all add: with_latency_def latency_of_def catalog_run_def acts_def ends_def Let_def)
qed

text \<open>The programs meet the contract.\<close>

interpretation checkout_process:
  computing_system process_step "boot (checkout_main env)"
    "lawful (acts (missing env = []) ('':'' @ port_or ''5050'' env) (configured env))
       (ends (missing env = []) False (Panic (not_set (hd (missing env)))))" steps_left at_rest
    "lawful (acts (missing env = []) ('':'' @ port_or ''5050'' env) (configured env))
       (ends (missing env = []) False (Panic (not_set (hd (missing env)))))" for env
  by (rule process_computes [OF checkout_allowed])

interpretation shipping_process:
  computing_system process_step "boot (shipping_main env)"
    "lawful (acts True ('':'' @ (case env ''PORT'' of Some p \<Rightarrow> p | None \<Rightarrow> ''50051'')) ()) (ends True True (Ret ()))" steps_left at_rest
    "lawful (acts True ('':'' @ (case env ''PORT'' of Some p \<Rightarrow> p | None \<Rightarrow> ''50051'')) ()) (ends True True (Ret ()))" for env
  by (rule process_computes [OF shipping_allowed])

interpretation catalog_process:
  computing_system process_step "boot (catalog_main env)"
    "lawful (acts (\<not> isl (latency_of env)) ('':'' @ port_or ''3550'' env) (projr (latency_of env)))
       (ends (\<not> isl (latency_of env)) False (Fatal ''failed to parse EXTRA_LATENCY''))" steps_left at_rest
    "lawful (acts (\<not> isl (latency_of env)) ('':'' @ port_or ''3550'' env) (projr (latency_of env)))
       (ends (\<not> isl (latency_of env)) False (Fatal ''failed to parse EXTRA_LATENCY''))" for env
  by (rule process_computes [OF catalog_allowed])

text \<open>With all six addresses set the checkout service comes to serve, and with a port that is taken it does not.\<close>

lemma checkout_serves:
  assumes "missing env = []"
  shows "\<exists>n s. runs_by process_step (boot (checkout_main env)) n s \<and> served s = [configured env]"
proof -
  have "getenv env v \<noteq> ''''" if "v \<in> set checkout_variables" for v
    using assms that by (auto simp: missing_def filter_empty_conv)
  then have main: "checkout_main env = start_helpers env ''checkoutservice'' False (serve_checkout env (configured env))"
    by (simp add: checkout_main_def mustMapEnv_def configured_def checkout_variables_def)
  define k where "k = (if enabled env ''DISABLE_TRACING'' then 1 else 0) + (if enabled env ''DISABLE_PROFILER'' then 1 else 0) + (3::nat)"
  have "\<exists>s. follow_schedule (replicate k (0, True)) (boot (checkout_main env)) = Some s \<and> served s = [configured env]"
    by (auto simp: k_def main start_helpers_def Let_def boot_def advance_def serve_checkout_def served_def eval_nat_numeral)
  then show ?thesis using follow_runs [OF _ runs_by.start] by blast
qed

text \<open>What every start keeps to.\<close>

definition moderate :: "string \<Rightarrow> nat \<Rightarrow> 'a process \<Rightarrow> bool" where
  "moderate service n s \<longleftrightarrow>
     n \<le> 29 \<and> tries NewStackdriverExporter s \<le> 3 \<and> tries (StartProfiler service ''1.0.0'') s \<le> 3 \<and> slept s \<le> seconds 120"

lemma runs_moderate:
  assumes c: "c = start_helpers env service sample k"
    and run: "runs_by process_step (boot c) n s" and steps: "n + steps_left s \<le> steps_left (boot c)"
    and budgets: "budget (\<lambda>_. 1) k \<le> 8"
      "budget (\<lambda>x. if x = NewStackdriverExporter then 1 else 0) k = 0"
      "budget (\<lambda>x. if x = StartProfiler service ''1.0.0'' then 1 else 0) k = 0"
      "budget sleep_of k = 0"
  shows "moderate service n s"
proof -
  note helpers = helpers_budget [where env = env and service = service and sample = sample and k = k, folded c]
  have spent: "spent f s \<le> budget f c" for f
    using runs_budget [OF run, of f] by (simp add: boot_def spent_def to_spend_def)
  have "steps_left (boot c) = Suc (budget (\<lambda>_. 1) c)"
    by (simp add: steps_left_def boot_def to_spend_def)
  then have "n \<le> 29" using steps budgets(1) helpers(1) by linarith
  moreover have "tries NewStackdriverExporter s \<le> 3" "tries (StartProfiler service ''1.0.0'') s \<le> 3" "slept s \<le> seconds 120"
    unfolding tries_spent slept_spent using order_trans [OF spent helpers(2)] order_trans [OF spent helpers(3)]
      order_trans [OF spent helpers(4)] budgets(2-4) by simp_all
  ultimately show ?thesis by (simp add: moderate_def)
qed

lemma main_budgets:
  "budget f (mustMapEnv env v k) = (if getenv env v = '''' then 0 else budget f (k (getenv env v)))"
  "budget g (with_latency env l) = (case latency_of env of Inl e \<Rightarrow> 0 | Inr d \<Rightarrow> budget g (l d))"
  by (auto simp: mustMapEnv_def with_latency_def latency_of_def Let_def split: sum.split)

lemma starts_moderate:
  "runs_by process_step (boot (checkout_main env)) n s1 \<Longrightarrow> moderate ''checkoutservice'' n s1"
  "runs_by process_step (boot (shipping_main env)) n s2 \<Longrightarrow> moderate ''shippingservice'' n s2"
  "runs_by process_step (boot (catalog_main env)) n s3 \<Longrightarrow> moderate ''productcatalogservice'' n s3"
proof -
  assume "runs_by process_step (boot (checkout_main env)) n s1"
  from this checkout_process.runs_bounded [OF this] show "moderate ''checkoutservice'' n s1"
    by (rule runs_moderate [OF checkout_main_def]) (simp_all add: main_budgets serve_checkout_def)
next
  assume "runs_by process_step (boot (shipping_main env)) n s2"
  from this shipping_process.runs_bounded [OF this] show "moderate ''shippingservice'' n s2"
    by (rule runs_moderate [OF shipping_main_def]) simp_all
next
  assume "runs_by process_step (boot (catalog_main env)) n s3"
  from this catalog_process.runs_bounded [OF this] show "moderate ''productcatalogservice'' n s3"
    by (rule runs_moderate [OF catalog_main_def]) (simp_all add: main_budgets catalog_run_def split: sum.split)
qed

lemma checkout_main_missing:
  "missing env \<noteq> [] \<Longrightarrow>
     checkout_main env = start_helpers env ''checkoutservice'' False (Throw (not_set (hd (missing env))))"
  by (auto simp: checkout_main_def mustMapEnv_def missing_def checkout_variables_def Let_def)

lemma checkout_panics:
  assumes "missing env \<noteq> []"
  shows "\<exists>n s. runs_by process_step (boot (checkout_main env)) n s \<and> over s = Some (Panic (not_set (hd (missing env))))"
proof -
  define k where "k = (if enabled env ''DISABLE_TRACING'' then 1 else 0) + (if enabled env ''DISABLE_PROFILER'' then 1 else 0) + (1::nat)"
  have "\<exists>s. follow_schedule (replicate k (0, True)) (boot (checkout_main env)) = Some s \<and>
      over s = Some (Panic (not_set (hd (missing env))))"
    by (auto simp: k_def checkout_main_missing [OF assms] start_helpers_def Let_def boot_def advance_def eval_nat_numeral)
  then show ?thesis using follow_runs [OF _ runs_by.start] by blast
qed

text \<open>An environment without a variable set, apart from those given.\<close>

definition environ :: "(string \<times> string) list \<Rightarrow> environment" where
  "environ vs = map_of vs"

definition quiet_start :: "(string \<times> string) list" where
  "quiet_start = [(''DISABLE_TRACING'', ''1''), (''DISABLE_PROFILER'', ''1''), (''DISABLE_STATS'', ''1'')]"

text \<open>The product catalog service runs on when \<open>Serve\<close> has failed, and serves nobody.\<close>

lemma catalog_serves_nobody:
  "\<exists>n s. runs_by process_step (boot (catalog_main (environ quiet_start))) n s \<and> at_rest s \<and> over s = None \<and>
     (2, Serve 0, False) \<in> set (occurred s)"
proof -
  have "\<exists>s. follow_schedule (replicate 5 (0, True) @ [(2, False)]) (boot (catalog_main (environ quiet_start))) = Some s \<and>
      at_rest s \<and> over s = None \<and> (2, Serve 0, False) \<in> set (occurred s)"
    by (simp add: eval_nat_numeral environ_def quiet_start_def catalog_main_def start_helpers_def enabled_def getenv_def Let_def
        with_latency_def catalog_run_def boot_def advance_def at_rest_def)
  then show ?thesis using follow_runs [OF _ runs_by.start] by blast
qed

text \<open>An empty \<open>PORT\<close> makes the shipping service listen at \<open>:\<close>, and the checkout service at its default.\<close>

lemma empty_port:
  "port_or ''5050'' (environ [(''PORT'', '''')]) = ''5050'' \<and>
   (runs_by process_step (boot (shipping_main (environ [(''PORT'', '''')]))) n s \<longrightarrow> list_all (\<lambda>a. a = '':'') (listened s))"
proof (intro conjI impI)
  assume "runs_by process_step (boot (shipping_main (environ [(''PORT'', '''')]))) n s"
  from lawful_as_configured [OF shipping_process.runs_ok [OF this]] show "list_all (\<lambda>a. a = '':'') (listened s)"
    by (simp add: as_configured_def environ_def list_all_iff)
qed (simp add: port_or_def environ_def getenv_def)

subsection \<open>Properties\<close>

text \<open>
  Property C28: the checkout service serves only with all six addresses of its environment, and at its port;
  otherwise it neither listens nor serves. It never returns; it panics exactly when an address is missing,
  with the name of the first one, and ends otherwise only once it could have served or when the Jaeger
  exporter failed. Each of the two ends does come about.
\<close>

theorem checkout_starts:
  assumes run: "runs_by process_step (boot (checkout_main env)) n s"
  shows "as_configured (missing env = []) ('':'' @ port_or ''5050'' env) (configured env) s \<and>
    (case over s of
       None \<Rightarrow> True
     | Some (Ret _) \<Rightarrow> False
     | Some (Panic e) \<Rightarrow> missing env \<noteq> [] \<and> e = not_set (hd (missing env))
     | Some (Fatal m) \<Rightarrow> missing env = [] \<or> jaeger_failed s) \<and>
    (\<exists>m t. runs_by process_step (boot (checkout_main env)) m t \<and>
       (if missing env = [] then served t = [configured env] else over t = Some (Panic (not_set (hd (missing env))))))"
proof (intro conjI)
  note ok = checkout_process.runs_ok [OF run]
  show "as_configured (missing env = []) ('':'' @ port_or ''5050'' env) (configured env) s"
    by (rule lawful_as_configured [OF ok])
  show "case over s of None \<Rightarrow> True | Some (Ret _) \<Rightarrow> False
     | Some (Panic e) \<Rightarrow> missing env \<noteq> [] \<and> e = not_set (hd (missing env)) | Some (Fatal m) \<Rightarrow> missing env = [] \<or> jaeger_failed s"
    using lawful_over [OF ok] by (fastforce split: option.split outcome.splits)
  show "\<exists>m t. runs_by process_step (boot (checkout_main env)) m t \<and>
       (if missing env = [] then served t = [configured env] else over t = Some (Panic (not_set (hd (missing env)))))"
    using checkout_serves checkout_panics by (cases "missing env = []") auto
qed

text \<open>At an environment with a missing address, where the run has started both helpers and panicked.\<close>

theorem checkout_starts_witness:
  "\<exists>n s. missing (environ [(''SHIPPING_SERVICE_ADDR'', ''shipping:50051'')]) \<noteq> [] \<and>
     runs_by process_step (boot (checkout_main (environ [(''SHIPPING_SERVICE_ADDR'', ''shipping:50051'')]))) n s \<and>
     as_configured False '':5050'' (configured (environ [(''SHIPPING_SERVICE_ADDR'', ''shipping:50051'')])) s \<and>
     over s = Some (Panic (not_set ''PRODUCT_CATALOG_SERVICE_ADDR''))"
proof -
  let ?env = "environ [(''SHIPPING_SERVICE_ADDR'', ''shipping:50051'')]"
  have missing: "missing ?env \<noteq> []" "hd (missing ?env) = ''PRODUCT_CATALOG_SERVICE_ADDR''"
    by (simp_all add: missing_def checkout_variables_def environ_def getenv_def)
  obtain n s where run: "runs_by process_step (boot (checkout_main ?env)) n s"
    and over: "over s = Some (Panic (not_set ''PRODUCT_CATALOG_SERVICE_ADDR''))"
    using checkout_panics [OF missing(1)] unfolding missing(2) by blast
  have "(missing ?env = []) = False" "'':'' @ port_or ''5050'' ?env = '':5050''"
    using missing(1) by (simp_all add: port_or_def environ_def getenv_def)
  then have "as_configured False '':5050'' (configured ?env) s"
    using checkout_starts [OF run] by (simp only:)
  with missing(1) run over show ?thesis by blast
qed

text \<open>
  Property C29: no schedule of the three services keeps trying for ever. A start takes at most 29 steps, tries
  the Stackdriver exporter and the profiler at most three times each, and sleeps at most two minutes;
  until it is at rest some goroutine can go on.
\<close>

theorem shop_starts_bounded:
  assumes "runs_by process_step (boot (checkout_main env1)) n1 s1" and "runs_by process_step (boot (shipping_main env2)) n2 s2"
    and "runs_by process_step (boot (catalog_main env3)) n3 s3"
  shows "moderate ''checkoutservice'' n1 s1 \<and> moderate ''shippingservice'' n2 s2 \<and> moderate ''productcatalogservice'' n3 s3 \<and>
    (at_rest s1 \<or> (\<exists>t. process_step s1 t)) \<and> (at_rest s2 \<or> (\<exists>t. process_step s2 t)) \<and> (at_rest s3 \<or> (\<exists>t. process_step s3 t))"
  using starts_moderate(1) [OF assms(1)] starts_moderate(2) [OF assms(2)] starts_moderate(3) [OF assms(3)]
    checkout_process.no_deadlock [OF assms(1)] shipping_process.no_deadlock [OF assms(2)] catalog_process.no_deadlock [OF assms(3)]
  by blast

text \<open>A start of the shipping service whose profiler fails three times, for a minute, and which serves by then.\<close>

definition no_tracing :: environment where
  "no_tracing = environ [(''DISABLE_TRACING'', ''1'')]"

lemma profiler_fails:
  "\<exists>s. runs_by process_step (boot (shipping_main no_tracing)) 11 s \<and> served s = [()] \<and> slept s = seconds 60"
proof -
  have "\<exists>s. follow_schedule
      [(0, True), (1, False), (0, True), (1, True), (1, False), (0, True), (1, True), (0, True), (1, False), (1, True), (0, True)]
      (boot (shipping_main no_tracing)) = Some s \<and> served s = [()] \<and> slept s = seconds 60"
    by (simp add: no_tracing_def environ_def shipping_main_def start_helpers_def enabled_def getenv_def Let_def initProfiling_def
        retry_loop.simps boot_def advance_def served_def slept_def seconds_def)
  then obtain s where s: "follow_schedule
      [(0, True), (1, False), (0, True), (1, True), (1, False), (0, True), (1, True), (0, True), (1, False), (1, True), (0, True)]
      (boot (shipping_main no_tracing)) = Some s" "served s = [()]" "slept s = seconds 60"
    by blast
  from follow_runs [OF s(1) runs_by.start] s(2,3) show ?thesis by (auto simp: eval_nat_numeral)
qed

theorem shop_starts_bounded_witness:
  "\<exists>s. runs_by process_step (boot (shipping_main no_tracing)) 11 s \<and> slept s = seconds 60 \<and> moderate ''shippingservice'' 11 s"
  using profiler_fails shop_starts_bounded [OF runs_by.start _ runs_by.start] by blast

text \<open>
  The product catalog service serves with the delay in \<open>EXTRA_LATENCY\<close>, and ends before it
  listens when that cannot be parsed; a number of milliseconds is read as that. It never returns and
  never panics.
\<close>

theorem catalog_starts:
  assumes run: "runs_by process_step (boot (catalog_main env)) n s"
  shows "(case latency_of env of
      Inl err \<Rightarrow> listened s = [] \<and> served s = []
    | Inr d \<Rightarrow> list_all (\<lambda>a. a = '':'' @ port_or ''3550'' env) (listened s) \<and> list_all (\<lambda>x. x = d) (served s)) \<and>
    (case over s of None \<Rightarrow> True | Some (Fatal m) \<Rightarrow> \<not> isl (latency_of env) \<or> m = ''failed to parse EXTRA_LATENCY'' \<or> jaeger_failed s | _ \<Rightarrow> False) \<and>
    (\<forall>k. env ''EXTRA_LATENCY'' = Some (nat_digits k @ ''ms'') \<and> k < 9223372036854 \<longrightarrow> latency_of env = Inr (int k * 1000000))"
proof (intro conjI allI impI)
  note ok = catalog_process.runs_ok [OF run]
  show "case latency_of env of Inl err \<Rightarrow> listened s = [] \<and> served s = []
    | Inr d \<Rightarrow> list_all (\<lambda>a. a = '':'' @ port_or ''3550'' env) (listened s) \<and> list_all (\<lambda>x. x = d) (served s)"
    using lawful_as_configured [OF ok] by (auto simp: as_configured_def list_all_iff split: sum.split)
  show "case over s of None \<Rightarrow> True | Some (Fatal m) \<Rightarrow> \<not> isl (latency_of env) \<or> m = ''failed to parse EXTRA_LATENCY'' \<or> jaeger_failed s | _ \<Rightarrow> False"
    using lawful_over [OF ok] by (fastforce split: option.split outcome.splits)
next
  fix k
  assume "env ''EXTRA_LATENCY'' = Some (nat_digits k @ ''ms'') \<and> k < 9223372036854"
  then have "getenv env ''EXTRA_LATENCY'' = nat_digits k @ ''ms''" "k * 1000000 < two63" by (simp_all add: getenv_def two63_def)
  then show "latency_of env = Inr (int k * 1000000)" by (simp add: latency_of_def ParseDuration_ms)
qed

theorem catalog_starts_witness:
  "\<exists>n s. runs_by process_step (boot (catalog_main (environ ((''EXTRA_LATENCY'', ''250ms'') # quiet_start)))) n s \<and>
     served s = [250000000] \<and> listened s = ['':3550''] \<and> over s = None"
proof -
  let ?env = "environ ((''EXTRA_LATENCY'', ''250ms'') # quiet_start)"
  have digits: "''250ms'' = nat_digits 250 @ ''ms''" by (simp add: nat_digits.simps digit_char_def char_of_def bit_0)
  then have set: "?env ''EXTRA_LATENCY'' = Some (nat_digits 250 @ ''ms'') \<and> (250::nat) < 9223372036854"
    by (simp add: environ_def)
  have latency: "latency_of ?env = Inr 250000000"
    using catalog_starts [OF runs_by.start, of ?env] set by fastforce
  then have parsed: "ParseDuration ''250ms'' = Inr 250000000"
    by (simp add: latency_of_def environ_def getenv_def)
  have "\<exists>s. follow_schedule (replicate 5 (0, True) @ [(2, True)]) (boot (catalog_main ?env)) = Some s \<and>
      served s = [250000000] \<and> listened s = ['':3550''] \<and> over s = None"
    by (simp add: eval_nat_numeral environ_def quiet_start_def catalog_main_def start_helpers_def enabled_def getenv_def Let_def
        with_latency_def parsed catalog_run_def boot_def advance_def served_def listened_def port_or_def)
  then show ?thesis using follow_runs [OF _ runs_by.start] by blast
qed

end
