(* ===== verification/Gather.thy ===== *)
theory Gather
  imports EventLog Goroutines
begin

text \<open>
  A pattern of the chained functions: start a goroutine for each item, each sends one result to a
  buffered channel, and the caller receives so many results, up to the first that is an error. The channel
  has room for all results, so no goroutine waits to send. A goroutine takes turns on the log of
  events that all share. What a goroutine knows of the log is that its last turn is in it and that an
  invariant, which every turn keeps, still holds. What it has added itself is known exactly, so at the
  end the log is accounted for, goroutine by goroutine.
\<close>

subsection \<open>Goroutines and their gathering\<close>

datatype ('e, 'r) thread =
    Yield 'r
  | Halt string
  | Turn "'e list \<Rightarrow> 'e list \<times> ('e, 'r) thread"

record ('e, 'r) gathering =
  workers :: "('e, 'r) thread option list"
  shared :: "'e list"
  channel :: "'r list"
  received :: "'r list"
  answer :: "'r list option"
  halted :: "string option"

definition gather_start :: "nat \<Rightarrow> ('e, 'r) thread list \<Rightarrow> 'e list \<Rightarrow> ('e, 'r) gathering" where
  "gather_start n ts h =
     \<lparr>workers = map Some ts, shared = h, channel = [], received = [], answer = (if n = 0 then Some [] else None), halted = None\<rparr>"

text \<open>The next step of worker \<open>i\<close>; the step of the caller has the number after the last worker. A worker that
  calls \<open>log.Fatal\<close> ends the process.\<close>

definition gather_move :: "('r \<Rightarrow> bool) \<Rightarrow> nat \<Rightarrow> nat \<Rightarrow> ('e, 'r) gathering \<Rightarrow> ('e, 'r) gathering option" where
  "gather_move bad n i s =
     (if halted s \<noteq> None then None
      else if i < length (workers s) then
        (case workers s ! i of
           None \<Rightarrow> None
         | Some (Yield r) \<Rightarrow> Some (s\<lparr>workers := (workers s)[i := None], channel := channel s @ [r]\<rparr>)
         | Some (Halt m) \<Rightarrow> Some (s\<lparr>halted := Some m\<rparr>)
         | Some (Turn f) \<Rightarrow> (let (new, t) = f (shared s) in Some (s\<lparr>workers := (workers s)[i := Some t], shared := shared s @ new\<rparr>)))
      else if i = length (workers s) \<and> answer s = None then
        (case channel s of
           [] \<Rightarrow> None
         | r # rs \<Rightarrow> (let got = received s @ [r]
                    in Some (s\<lparr>channel := rs, received := got, answer := (if bad r \<or> length got = n then Some got else None)\<rparr>)))
      else None)"

definition gather_step :: "('r \<Rightarrow> bool) \<Rightarrow> nat \<Rightarrow> ('e, 'r) gathering \<Rightarrow> ('e, 'r) gathering \<Rightarrow> bool" where
  "gather_step bad n s s' \<longleftrightarrow> (\<exists>i. gather_move bad n i s = Some s')"

definition stuck :: "('r \<Rightarrow> bool) \<Rightarrow> nat \<Rightarrow> ('e, 'r) gathering \<Rightarrow> bool" where
  "stuck bad n s \<longleftrightarrow> (\<forall>i \<le> length (workers s). gather_move bad n i s = None)"

fun gather_schedule :: "('r \<Rightarrow> bool) \<Rightarrow> nat \<Rightarrow> nat list \<Rightarrow> ('e, 'r) gathering \<Rightarrow> ('e, 'r) gathering option" where
  "gather_schedule bad n [] s = Some s"
| "gather_schedule bad n (i # is) s = (case gather_move bad n i s of None \<Rightarrow> None | Some s' \<Rightarrow> gather_schedule bad n is s')"

text \<open>A computation on the log as a single turn. A panic in a goroutine ends the process as well.\<close>

definition turn :: "('e, 'a outcome) logged \<Rightarrow> ('a \<Rightarrow> ('e, 'r) thread) \<Rightarrow> ('e, 'r) thread" where
  "turn m k = Turn (\<lambda>h. let (r, h') = run_state m h
     in (drop (length h) h', case r of Ret x \<Rightarrow> k x | Panic e \<Rightarrow> Halt ''panic'' | Fatal msg \<Rightarrow> Halt msg))"

subsection \<open>What a goroutine does\<close>

text \<open>\<open>turns k t\<close>: \<open>t\<close> takes at most \<open>k\<close> turns. \<open>meets J Q t own g\<close>: when \<open>t\<close> has added the events \<open>own\<close> and its last turn
  left the log \<open>g\<close>, it keeps \<open>J\<close>, yields a result that has \<open>Q\<close> with all the events it has added and the log
  its last turn has left, and does not end the process.\<close>

primrec turns :: "('e, 'r) thread \<Rightarrow> nat \<Rightarrow> bool" where
  "turns (Yield r) = (\<lambda>k. True)"
| "turns (Halt m) = (\<lambda>k. True)"
| "turns (Turn f) = (\<lambda>k. 0 < k \<and> (\<forall>h. snd (map_prod id turns (f h)) (k - 1)))"

primrec meets ::
  "('e list \<Rightarrow> bool) \<Rightarrow> ('e list \<Rightarrow> 'e list \<Rightarrow> 'r \<Rightarrow> bool) \<Rightarrow> ('e, 'r) thread \<Rightarrow> 'e list \<Rightarrow> 'e list \<Rightarrow> bool"
where
  "meets J Q (Yield r) = (\<lambda>own g. Q own g r)"
| "meets J Q (Halt m) = (\<lambda>own g. False)"
| "meets J Q (Turn f) = (\<lambda>own g. \<forall>h. prefix g h \<and> J h \<longrightarrow>
     (let (new, t) = map_prod id (meets J Q) (f h) in J (h @ new) \<and> t (own @ new) (h @ new)))"

lemma turns_Turn [simp]: "turns (Turn f) k \<longleftrightarrow> 0 < k \<and> (\<forall>h. turns (snd (f h)) (k - 1))"
  by (simp add: map_prod_def case_prod_beta)

lemma meets_Turn [simp]:
  "meets J Q (Turn f) own g \<longleftrightarrow>
     (\<forall>h. prefix g h \<and> J h \<longrightarrow> J (h @ fst (f h)) \<and> meets J Q (snd (f h)) (own @ fst (f h)) (h @ fst (f h)))"
  by (simp add: map_prod_def case_prod_beta Let_def)

declare turns.simps(3) [simp del] meets.simps(3) [simp del]

lemma turns_turn: "(\<And>x. turns (k x) n) \<Longrightarrow> turns (turn m k) (Suc n)"
  by (auto simp: turn_def split: prod.split outcome.split)

lemma meets_turn:
  assumes "\<And>h. prefix g h \<Longrightarrow> J h \<Longrightarrow>
    \<exists>x new. run_state m h = (Ret x, h @ new) \<and> J (h @ new) \<and> meets J Q (k x) (own @ new) (h @ new)"
  shows "meets J Q (turn m k) own g"
proof -
  have "J (h @ fst (f h)) \<and> meets J Q (snd (f h)) (own @ fst (f h)) (h @ fst (f h))"
    if h: "prefix g h" "J h" and f: "f = (\<lambda>h. let (r, h') = run_state m h
     in (drop (length h) h', case r of Ret x \<Rightarrow> k x | Panic e \<Rightarrow> Halt ''panic'' | Fatal msg \<Rightarrow> Halt msg))" for h f
    using assms [OF h] f by auto
  then show ?thesis unfolding turn_def by simp
qed

subsection \<open>Every schedule\<close>

definition left_turns :: "('e, 'r) thread \<Rightarrow> nat" where
  "left_turns t = (LEAST k. turns t k)"

definition worker_work :: "('e, 'r) thread option \<Rightarrow> nat" where
  "worker_work w = (case w of None \<Rightarrow> 0 | Some t \<Rightarrow> left_turns t + 2)"

definition gather_work :: "('e, 'r) gathering \<Rightarrow> nat" where
  "gather_work s = (if halted s = None then Suc (sum_list (map worker_work (workers s)) + length (channel s)) else 0)"

text \<open>The invariant: \<open>n\<close> results are on their way, and the caller has received good ones so far. A result was
  sent when the log was a prefix of what it is now. The log holds what it held at the start and what each
  goroutine has added.\<close>

definition sent_in :: "('e list \<Rightarrow> 'e list \<Rightarrow> 'r \<Rightarrow> bool) \<Rightarrow> 'e list \<Rightarrow> 'r \<Rightarrow> bool" where
  "sent_in Q h r \<longleftrightarrow> (\<exists>own g. prefix g h \<and> Q own g r)"

lemma sent_in_append: "list_all (sent_in Q h) rs \<Longrightarrow> list_all (sent_in Q (h @ new)) rs"
  unfolding list_all_iff sent_in_def by (meson prefix_prefix)

definition worker_ok ::
  "('e list \<Rightarrow> bool) \<Rightarrow> ('e list \<Rightarrow> 'e list \<Rightarrow> 'r \<Rightarrow> bool) \<Rightarrow> 'e list \<Rightarrow> 'e list \<Rightarrow> ('e, 'r) thread option \<Rightarrow> bool"
where
  "worker_ok J Q h own w \<longleftrightarrow> (case w of
     None \<Rightarrow> \<exists>g r. prefix g h \<and> Q own g r
   | Some t \<Rightarrow> (\<exists>g. prefix g h \<and> meets J Q t own g) \<and> (\<exists>k. turns t k))"

lemma worker_ok_append: "worker_ok J Q h own w \<Longrightarrow> worker_ok J Q (h @ new) own w"
  unfolding worker_ok_def by (cases w) (auto intro: prefix_prefix)

definition accounted ::
  "('e list \<Rightarrow> bool) \<Rightarrow> ('e list \<Rightarrow> 'e list \<Rightarrow> 'r \<Rightarrow> bool) \<Rightarrow> 'e list \<Rightarrow> 'e list \<Rightarrow> ('e, 'r) thread option list \<Rightarrow> 'e list list \<Rightarrow> bool"
where
  "accounted J Q h0 h ws owns \<longleftrightarrow> length owns = length ws \<and> mset h = mset h0 + mset (concat owns) \<and>
     (\<forall>i<length ws. worker_ok J Q h (owns ! i) (ws ! i))"

definition gather_ok ::
  "('e list \<Rightarrow> bool) \<Rightarrow> ('e list \<Rightarrow> 'e list \<Rightarrow> 'r \<Rightarrow> bool) \<Rightarrow> ('r \<Rightarrow> bool) \<Rightarrow> nat \<Rightarrow> 'e list \<Rightarrow> ('e, 'r) gathering \<Rightarrow> bool"
where
  "gather_ok J Q bad n h0 s \<longleftrightarrow>
     J (shared s) \<and> halted s = None \<and> (\<exists>owns. accounted J Q h0 (shared s) (workers s) owns) \<and>
     list_all (sent_in Q (shared s)) (channel s) \<and> list_all (sent_in Q (shared s)) (received s) \<and>
     length (filter (\<lambda>w. w \<noteq> None) (workers s)) + length (channel s) + length (received s) = n \<and>
     (case answer s of
        None \<Rightarrow> length (received s) < n \<and> list_all (\<lambda>r. \<not> bad r) (received s)
      | Some rs \<Rightarrow> rs = received s \<and> (length rs = n \<or> rs \<noteq> [] \<and> bad (last rs)))"

lemma mset_concat_append:
  "i < length xs \<Longrightarrow> mset (concat (xs[i := xs ! i @ new])) = mset (concat xs) + mset new"
  by (induction xs arbitrary: i) (auto split: nat.split)

lemma accounted_turn:
  assumes acc: "accounted J Q h0 h ws owns" and i: "i < length ws"
    and w: "worker_ok J Q (h @ new) (owns ! i @ new) w"
  shows "accounted J Q h0 (h @ new) (ws[i := w]) (owns[i := owns ! i @ new])"
  unfolding accounted_def
proof (intro conjI allI impI)
  fix j assume "j < length (ws[i := w])"
  then show "worker_ok J Q (h @ new) (owns[i := owns ! i @ new] ! j) (ws[i := w] ! j)"
    using acc i w worker_ok_append [of J Q h "owns ! j" "ws ! j" new] by (cases "j = i") (simp_all add: accounted_def)
qed (use acc i in \<open>simp_all add: accounted_def mset_concat_append\<close>)

lemma left_turns_less:
  assumes "turns (Turn f) k"
  shows "left_turns (snd (f h)) < left_turns (Turn f)"
proof -
  have "turns (Turn f) (left_turns (Turn f))" unfolding left_turns_def by (rule LeastI [of "turns (Turn f)" k]) (rule assms)
  then have "0 < left_turns (Turn f)" "turns (snd (f h)) (left_turns (Turn f) - 1)" by simp_all
  moreover from this(2) have "left_turns (snd (f h)) \<le> left_turns (Turn f) - 1"
    unfolding left_turns_def by (rule Least_le)
  ultimately show ?thesis by linarith
qed

text \<open>One step of a worker, of the caller.\<close>

lemma gather_move_cases:
  assumes "gather_move bad n i s = Some s'"
  obtains (turn) f where "i < length (workers s)" "workers s ! i = Some (Turn f)"
      "s' = s\<lparr>workers := (workers s)[i := Some (snd (f (shared s)))], shared := shared s @ fst (f (shared s))\<rparr>"
    | (yield) r where "i < length (workers s)" "workers s ! i = Some (Yield r)"
      "s' = s\<lparr>workers := (workers s)[i := None], channel := channel s @ [r]\<rparr>"
    | (halt) m where "i < length (workers s)" "workers s ! i = Some (Halt m)" "s' = s\<lparr>halted := Some m\<rparr>"
    | (receive) r rs where "answer s = None" "channel s = r # rs"
      "s' = s\<lparr>channel := rs, received := received s @ [r],
              answer := (if bad r \<or> Suc (length (received s)) = n then Some (received s @ [r]) else None)\<rparr>"
proof (cases "i < length (workers s)")
  case True
  then obtain t where t: "workers s ! i = Some t" using assms by (auto simp: gather_move_def split: option.splits if_splits)
  show thesis
    using True t assms
    by (cases t) (auto simp: gather_move_def Let_def case_prod_beta split: if_splits intro: that)
next
  case False
  then show thesis
    using assms by (auto simp: gather_move_def Let_def split: if_splits list.splits intro: that)
qed

lemma gather_ok_move:
  assumes ok: "gather_ok J Q bad n h0 s" and move: "gather_move bad n i s = Some s'"
  shows "gather_ok J Q bad n h0 s' \<and> gather_work s' < gather_work s"
proof -
  obtain owns where acc: "accounted J Q h0 (shared s) (workers s) owns" using ok by (auto simp: gather_ok_def)
  then have w: "worker_ok J Q (shared s) (owns ! i) (workers s ! i)" if "i < length (workers s)"
    using that by (simp add: accounted_def)
  show ?thesis
    using move
  proof (cases rule: gather_move_cases)
    case (turn f)
    let ?new = "fst (f (shared s))" and ?t = "snd (f (shared s))"
    obtain g k where g: "prefix g (shared s)" "meets J Q (Turn f) (owns ! i) g" "turns (Turn f) k"
      using w turn(1,2) by (auto simp: worker_ok_def)
    then have after: "J (shared s @ ?new)" "meets J Q ?t (owns ! i @ ?new) (shared s @ ?new)" "turns ?t (k - 1)"
      using ok by (simp_all add: gather_ok_def)
    then have "worker_ok J Q (shared s @ ?new) (owns ! i @ ?new) (Some ?t)" unfolding worker_ok_def by auto
    note acc' = accounted_turn [OF acc turn(1) this]
    have "length (filter (\<lambda>w. w \<noteq> None) (workers s')) = length (filter (\<lambda>w. w \<noteq> None) (workers s))"
      using length_filter_update [OF turn(1), of "\<lambda>w. w \<noteq> None" "Some ?t"] turn(2,3) by simp
    then have "gather_ok J Q bad n h0 s'"
      using ok acc' after(1) turn(3) by (auto simp: gather_ok_def sent_in_append split: option.splits)
    moreover have "gather_work s' < gather_work s"
      using sum_list_update_nat [OF turn(1), of worker_work "Some ?t"] left_turns_less [OF g(3), of "shared s"] ok turn(2,3)
      by (simp add: gather_work_def worker_work_def gather_ok_def)
    ultimately show ?thesis by blast
  next
    case (yield r)
    obtain g where g: "prefix g (shared s)" "Q (owns ! i) g r" using w yield(1,2) by (auto simp: worker_ok_def)
    then have "sent_in Q (shared s) r" by (auto simp: sent_in_def)
    moreover have "worker_ok J Q (shared s @ []) (owns ! i @ []) None" using g by (auto simp: worker_ok_def)
    note accounted_turn [OF acc yield(1) this]
    moreover have "Suc (length (filter (\<lambda>w. w \<noteq> None) (workers s'))) = length (filter (\<lambda>w. w \<noteq> None) (workers s))"
      using length_filter_update [OF yield(1), of "\<lambda>w. w \<noteq> None" None] yield(2,3) by simp
    ultimately have "gather_ok J Q bad n h0 s'"
      using ok yield(3) by (auto simp: gather_ok_def split: option.splits)
    moreover have "gather_work s' < gather_work s"
      using sum_list_update_nat [OF yield(1), of worker_work None] ok yield(2,3)
      by (simp add: gather_work_def worker_work_def gather_ok_def)
    ultimately show ?thesis by blast
  next
    case (halt m)
    then show ?thesis using w by (auto simp: worker_ok_def)
  next
    case (receive r rs)
    then show ?thesis using ok by (auto simp: gather_ok_def gather_work_def split: if_splits)
  qed
qed

lemma gather_ok_start:
  assumes "J h" and "\<And>t. t \<in> set ts \<Longrightarrow> meets J Q t [] h \<and> (\<exists>k. turns t k)" and "length ts = n"
  shows "gather_ok J Q bad n h (gather_start n ts h)"
proof -
  have "accounted J Q h h (map Some ts) (replicate n [])"
    using assms(2,3) unfolding accounted_def worker_ok_def by (auto intro: nth_mem)
  then show ?thesis using assms(1,3) by (auto simp: gather_ok_def gather_start_def filter_map comp_def)
qed

text \<open>When nothing can move, every worker is done, and with as many workers as results the caller is
  answered.\<close>

lemma stuck_workers:
  assumes "halted s = None" and "stuck bad n s" and "i < length (workers s)"
  shows "workers s ! i = None"
proof (cases "workers s ! i")
  case (Some t)
  have "gather_move bad n i s = None" using assms(2,3) by (simp add: stuck_def)
  then show ?thesis using assms(1,3) Some by (cases t) (simp_all add: gather_move_def Let_def case_prod_beta)
qed simp

lemma gather_answered:
  assumes ok: "gather_ok J Q bad n h0 s" and stuck: "stuck bad n s"
  shows "answer s = Some (received s)"
proof (rule ccontr)
  assume "answer s \<noteq> Some (received s)"
  then have none: "answer s = None" using ok by (auto simp: gather_ok_def split: option.splits)
  have run: "halted s = None" using ok by (simp add: gather_ok_def)
  then have "filter (\<lambda>w. w \<noteq> None) (workers s) = []"
    using stuck_workers [OF run stuck] by (auto simp: filter_empty_conv in_set_conv_nth)
  moreover have "gather_move bad n (length (workers s)) s = None" using stuck by (simp add: stuck_def)
  then have "channel s = []" using run none by (cases "channel s") (simp_all add: gather_move_def Let_def)
  ultimately show False using ok none by (auto simp: gather_ok_def)
qed

text \<open>What the goroutines have added when all are done.\<close>

definition added_by :: "('e list \<Rightarrow> 'e list \<Rightarrow> bool) \<Rightarrow> nat \<Rightarrow> 'e list \<Rightarrow> 'e list \<Rightarrow> bool" where
  "added_by K n h0 h \<longleftrightarrow> (\<exists>owns. length owns = n \<and> mset h = mset h0 + mset (concat owns) \<and>
     (\<forall>own\<in>set owns. \<exists>g. prefix g h \<and> K own g))"

lemma gather_added:
  assumes ok: "gather_ok J Q bad n h0 s" and stuck: "stuck bad n s"
  shows "added_by (\<lambda>own g. \<exists>r. Q own g r) (length (workers s)) h0 (shared s)"
proof -
  have run: "halted s = None" using ok by (simp add: gather_ok_def)
  obtain owns where acc: "accounted J Q h0 (shared s) (workers s) owns" using ok by (auto simp: gather_ok_def)
  have "\<exists>g r. prefix g (shared s) \<and> Q own g r" if "own \<in> set owns" for own
  proof -
    obtain i where i: "i < length (workers s)" "own = owns ! i"
      using \<open>own \<in> set owns\<close> acc unfolding accounted_def in_set_conv_nth by metis
    then have "worker_ok J Q (shared s) own (workers s ! i)" using acc by (simp add: accounted_def)
    then show ?thesis by (simp add: stuck_workers [OF run stuck i(1)] worker_ok_def)
  qed
  then show ?thesis using acc unfolding added_by_def accounted_def by blast
qed

text \<open>So a gathering of as many results as goroutines meets the contract, whatever it knows of them.\<close>

lemma length_workers: "runs_by (gather_step bad n) s0 m s \<Longrightarrow> length (workers s) = length (workers s0)"
proof (induction rule: runs_by.induct)
  case (more m s' s'')
  then show ?case by (auto simp: gather_step_def elim!: gather_move_cases)
qed simp

lemma gather_computes:
  assumes "J h" and "\<And>t. t \<in> set ts \<Longrightarrow> meets J Q t [] h \<and> (\<exists>k. turns t k)" and "length ts = n"
  shows "computing_system (gather_step bad n) (gather_start n ts h) (gather_ok J Q bad n h) gather_work (stuck bad n)
    (\<lambda>s. \<exists>rs. answer s = Some rs \<and> list_all (sent_in Q (shared s)) rs \<and> (length rs = n \<or> rs \<noteq> [] \<and> bad (last rs)) \<and>
       added_by (\<lambda>own g. \<exists>r. Q own g r) (length (workers s)) h (shared s))"
proof
  show "gather_ok J Q bad n h (gather_start n ts h)" by (rule gather_ok_start) (use assms in auto)
next
  fix s s' assume "gather_ok J Q bad n h s" "gather_step bad n s s'"
  then show "gather_ok J Q bad n h s'" "gather_work s' < gather_work s"
    unfolding gather_step_def by (auto dest: gather_ok_move)
next
  fix s assume "\<not> stuck bad n s"
  then show "\<exists>s'. gather_step bad n s s'" by (auto simp: stuck_def gather_step_def)
next
  fix s assume "gather_ok J Q bad n h s" "stuck bad n s"
  from gather_answered [OF this] gather_added [OF this] this(1)
  show "\<exists>rs. answer s = Some rs \<and> list_all (sent_in Q (shared s)) rs \<and> (length rs = n \<or> rs \<noteq> [] \<and> bad (last rs)) \<and>
      added_by (\<lambda>own g. \<exists>r. Q own g r) (length (workers s)) h (shared s)"
    by (auto simp: gather_ok_def)
qed

text \<open>A gathering all of whose goroutines keep \<open>J\<close>, yield the same good result \<open>v\<close>, and have \<open>K\<close> of what they have
  added and the log they left.\<close>

definition gathers_all ::
  "('e list \<Rightarrow> bool) \<Rightarrow> ('e list \<Rightarrow> 'e list \<Rightarrow> bool) \<Rightarrow> 'r \<Rightarrow> ('r \<Rightarrow> bool) \<Rightarrow> nat \<Rightarrow> ('e, 'r) gathering \<Rightarrow> bool"
where
  "gathers_all J K v bad n s0 \<longleftrightarrow>
     (\<exists>m s. runs_by (gather_step bad n) s0 m s \<and> stuck bad n s) \<and>
     (\<forall>m s. runs_by (gather_step bad n) s0 m s \<longrightarrow>
        J (shared s) \<and> halted s = None \<and>
        (if stuck bad n s then answer s = Some (replicate n v) \<and> added_by K n (shared s0) (shared s)
         else \<exists>s'. gather_step bad n s s'))"

lemma gathers_allI:
  assumes "J g" and "\<And>t. t \<in> set ts \<Longrightarrow> meets J (\<lambda>own g r. r = v \<and> K own g) t [] g \<and> (\<exists>k. turns t k)"
    and "length ts = n" and good: "\<not> bad v"
  shows "gathers_all J K v bad n (gather_start n ts g)"
proof -
  let ?s0 = "gather_start n ts g" and ?Q = "\<lambda>own g r. r = v \<and> K own g"
  note computes = computing_system.computes [OF gather_computes [of J g ts ?Q n bad, OF assms(1-3)]]
  have "J (shared s) \<and> halted s = None \<and>
      (if stuck bad n s then answer s = Some (replicate n v) \<and> added_by K n (shared ?s0) (shared s)
       else \<exists>s'. gather_step bad n s s')"
    if run: "runs_by (gather_step bad n) ?s0 m s" for m s
  proof -
    have ok: "gather_ok J ?Q bad n g s" using computes run by blast
    have "answer s = Some (replicate n v) \<and> added_by K n (shared ?s0) (shared s)" if rest: "stuck bad n s"
    proof -
      obtain rs where rs: "answer s = Some rs" "list_all (sent_in ?Q (shared s)) rs" "length rs = n \<or> rs \<noteq> [] \<and> bad (last rs)"
        and added: "added_by (\<lambda>own g. \<exists>r. ?Q own g r) (length (workers s)) g (shared s)"
        using computes run rest by fastforce
      have each: "r = v" if "r \<in> set rs" for r
        using bspec [OF rs(2) [unfolded list_all_iff] that] by (auto simp: sent_in_def)
      then have "\<not> bad (last rs)" if "rs \<noteq> []" using last_in_set [OF that] good by simp
      then have "length rs = n" using rs(3) by blast
      moreover have "rs = replicate (length rs) v" using each by (auto intro: replicate_eqI)
      moreover have "length (workers s) = n" "shared ?s0 = g"
        using length_workers [OF run] assms(3) by (simp_all add: gather_start_def)
      ultimately show ?thesis using rs(1) added by simp
    qed
    moreover have "\<exists>s'. gather_step bad n s s'" if "\<not> stuck bad n s"
      using computes run that by fastforce
    ultimately show ?thesis using ok by (simp add: gather_ok_def)
  qed
  then show ?thesis unfolding gathers_all_def using computes by blast
qed

text \<open>Without goroutines the caller waits for ever.\<close>

lemma gather_nobody:
  assumes "0 < n" and "runs_by (gather_step bad n) (gather_start n [] h) m s"
  shows "m = 0 \<and> s = gather_start n [] h \<and> answer s = None"
proof -
  have "\<not> gather_step bad n (gather_start n [] h) s'" for s'
    using assms(1) by (auto simp: gather_step_def gather_move_def gather_start_def split: if_splits)
  with assms(2) have "m = 0 \<and> s = gather_start n [] h"
    by (induction rule: runs_by.induct) auto
  then show ?thesis using assms(1) by (simp add: gather_start_def)
qed

end
