(* ===== verification/Storage.thy ===== *)
theory Storage
  imports Tracing
begin

text \<open>
  \<open>utils/storage/go/storage.go\<close>: payloads kept in S3 or in ElastiCache (redis). The clients of both
  services are third-party code: a call to one is an event with its answer. An error of S3 ends
  the process, one of redis panics.
\<close>

subsection \<open>The module\<close>

definition XDT :: string where "XDT = ''XDT''"
definition S3 :: string where "S3 = ''S3''"
definition ELASTICACHE :: string where "ELASTICACHE = ''ELASTICACHE''"
definition TOKEN :: string where "TOKEN = ''''"

record aws_config =
  Region :: string
  AccessKey :: string
  SecretKey :: string
  SessionToken :: string

record redis_options =
  Addr :: string
  RedisPassword :: string
  DB :: nat

record storage =
  transferType :: string
  bucketName :: string
  AWS_ACCESS_KEY :: string
  AWS_SECRET_KEY :: string
  AWS_REGION :: string
  redisClient :: "redis_options option"
  s3session :: "aws_config option"

datatype storage_event =
    Upload string string string "go_error option"
  | Fetch string string "go_error + string"
  | RedisSet string string string "go_error option"
  | RedisGet string string "go_error + string"

record storage_world =
  new_session :: "aws_config \<Rightarrow> go_error option"
  s3_upload :: "storage_event list \<Rightarrow> aws_config \<Rightarrow> string \<Rightarrow> string \<Rightarrow> string \<Rightarrow> go_error option"
  s3_download :: "storage_event list \<Rightarrow> aws_config \<Rightarrow> string \<Rightarrow> string \<Rightarrow> go_error + string"
  redis_set :: "storage_event list \<Rightarrow> string \<Rightarrow> string \<Rightarrow> string \<Rightarrow> go_error option"
  redis_get :: "storage_event list \<Rightarrow> string \<Rightarrow> string \<Rightarrow> go_error + string"

text \<open>The region defaults to \<open>us-west-1\<close> for the session; the fields of the module are read from the
  environment again.\<close>

definition new_storage :: "storage_world \<Rightarrow> environment \<Rightarrow> string \<Rightarrow> string \<Rightarrow> storage outcome" where
  "new_storage w env transfer bucket =
     out_bind
       (if transfer = S3
        then let region = (case env ''AWS_REGION'' of Some awsRegion \<Rightarrow> awsRegion | None \<Rightarrow> ''us-west-1'')
             in case env ''AWS_ACCESS_KEY'' of
                  None \<Rightarrow> Fatal ''AWS access key not found in env.''
                | Some accessKey \<Rightarrow>
                    (case env ''AWS_SECRET_KEY'' of
                       None \<Rightarrow> Fatal ''AWS secret key not found in env.''
                     | Some secretKey \<Rightarrow>
                         (let cfg = \<lparr>Region = region, AccessKey = accessKey, SecretKey = secretKey, SessionToken = TOKEN\<rparr>
                          in case new_session w cfg of
                               Some err \<Rightarrow> Fatal ''Failed establish s3 session''
                             | None \<Rightarrow> Ret (Some cfg, None)))
        else if transfer = ELASTICACHE then Ret (None, Some \<lparr>Addr = bucket, RedisPassword = '''', DB = 0\<rparr>)
        else Ret (None, None))
       (\<lambda>(session, redis).
          Ret \<lparr>transferType = transfer, bucketName = bucket, AWS_ACCESS_KEY = getenv env ''AWS_ACCESS_KEY'',
               AWS_SECRET_KEY = getenv env ''AWS_SECRET_KEY'', AWS_REGION = getenv env ''AWS_REGION'',
               redisClient = redis, s3session = session\<rparr>)"

subsection \<open>Operations\<close>

text \<open>A module without the client that an operation needs dereferences nil.\<close>

definition s3_put :: "storage_world \<Rightarrow> storage \<Rightarrow> string \<Rightarrow> string \<Rightarrow> (storage_event, string outcome) logged" where
  "s3_put w s key payload =
     (case s3session s of
        None \<Rightarrow> opanic nil_deref
      | Some session \<Rightarrow>
          obind (or_fatal_err ''Failed to upload bytes to s3''
            (perform (\<lambda>h. s3_upload w h session (bucketName s) key payload) (Upload (bucketName s) key payload))) (\<lambda>_. oreturn key))"

definition Put :: "storage_world \<Rightarrow> storage \<Rightarrow> string \<Rightarrow> string \<Rightarrow> (storage_event, string outcome) logged" where
  "Put w s key payloadData =
     (if transferType s = S3 then s3_put w s key payloadData
      else if transferType s = ELASTICACHE then
        (case redisClient s of
           None \<Rightarrow> opanic nil_deref
         | Some c \<Rightarrow>
             obind (or_panic_err (perform (\<lambda>h. redis_set w h (Addr c) key payloadData) (RedisSet (Addr c) key payloadData)))
               (\<lambda>_. oreturn key))
      else State_Monad.return (Fatal ''Unsupported transfer type''))"

text \<open>\<open>PutFile\<close> takes the content of the file; there is no ElastiCache for files.\<close>

definition PutFile :: "storage_world \<Rightarrow> storage \<Rightarrow> string \<Rightarrow> string \<Rightarrow> (storage_event, string outcome) logged" where
  "PutFile w s key content =
     (if transferType s = S3 then s3_put w s key content
      else if transferType s = ELASTICACHE
      then State_Monad.return (Fatal ''File transfer via ElastiCache is currently not supported'')
      else State_Monad.return (Fatal ''Unsupported transfer type''))"

definition Get :: "storage_world \<Rightarrow> storage \<Rightarrow> string \<Rightarrow> (storage_event, string outcome) logged" where
  "Get w s key =
     (if transferType s = S3 then
        (case s3session s of
           None \<Rightarrow> opanic nil_deref
         | Some session \<Rightarrow>
             or_fatal ''Failed to fetch bytes from s3''
               (perform (\<lambda>h. s3_download w h session (bucketName s) key) (Fetch (bucketName s) key)))
      else if transferType s = ELASTICACHE then
        (case redisClient s of
           None \<Rightarrow> opanic nil_deref
         | Some c \<Rightarrow> or_panic (perform (\<lambda>h. redis_get w h (Addr c) key) (RedisGet (Addr c) key)))
      else State_Monad.return (Fatal ''Unsupported transfer type''))"

subsection \<open>Documented behaviour of the services\<close>

text \<open>A key reads as what was last written to it without an error.\<close>

fun s3_update :: "string \<Rightarrow> string \<Rightarrow> string option \<Rightarrow> storage_event \<Rightarrow> string option" where
  "s3_update b k v (Upload b' k' d None) = (if b' = b \<and> k' = k then Some d else v)"
| "s3_update b k v e = v"

fun redis_update :: "string \<Rightarrow> string \<Rightarrow> string option \<Rightarrow> storage_event \<Rightarrow> string option" where
  "redis_update a k v (RedisSet a' k' d None) = (if a' = a \<and> k' = k then Some d else v)"
| "redis_update a k v e = v"

definition reads :: "(storage_event list \<Rightarrow> go_error + string) \<Rightarrow> (string option \<Rightarrow> storage_event \<Rightarrow> string option) \<Rightarrow> bool" where
  "reads answer upd \<longleftrightarrow> (\<forall>h. case foldl upd None h of Some d \<Rightarrow> answer h = Inr d | None \<Rightarrow> (\<exists>e. answer h = Inl e))"

definition services_ok :: "storage_world \<Rightarrow> bool" where
  "services_ok w \<longleftrightarrow> (\<forall>cfg b k. reads (\<lambda>h. s3_download w h cfg b k) (s3_update b k)) \<and>
     (\<forall>a k. reads (\<lambda>h. redis_get w h a k) (redis_update a k))"

subsection \<open>Properties\<close>

lemma readsD: "\<lbrakk>reads answer upd; foldl upd None h = Some d\<rbrakk> \<Longrightarrow> answer h = Inr d"
  by (auto simp: reads_def split: option.splits)

lemma foldl_frame: "\<forall>e\<in>set es. \<forall>v. upd v e = v \<Longrightarrow> foldl upd v es = v"
  by (induction es arbitrary: v) auto

text \<open>What other uses of the services leave alone.\<close>

definition leaves_key :: "storage \<Rightarrow> string \<Rightarrow> storage_event \<Rightarrow> bool" where
  "leaves_key s key e \<longleftrightarrow> (case e of
     Upload b k d None \<Rightarrow> transferType s = S3 \<longrightarrow> b \<noteq> bucketName s \<or> k \<noteq> key
   | RedisSet a k d None \<Rightarrow> transferType s = ELASTICACHE \<longrightarrow> (\<forall>c. redisClient s = Some c \<longrightarrow> a \<noteq> Addr c \<or> k \<noteq> key)
   | _ \<Rightarrow> True)"

lemma leaves_key_updates:
  "\<lbrakk>leaves_key s key e; transferType s = S3\<rbrakk> \<Longrightarrow> s3_update (bucketName s) key v e = v"
  "\<lbrakk>leaves_key s key e; transferType s = ELASTICACHE; redisClient s = Some c\<rbrakk> \<Longrightarrow> redis_update (Addr c) key v e = v"
  by (cases "(bucketName s, key, v, e)" rule: s3_update.cases; auto simp: leaves_key_def)
    (cases "(Addr c, key, v, e)" rule: redis_update.cases; auto simp: leaves_key_def)

text \<open>What a service holds under a key, for a module that has a client. Modules with the same service and
  bucket, and a client if the other has one, read the same.\<close>

definition holds :: "storage \<Rightarrow> string \<Rightarrow> string \<Rightarrow> storage_event list \<Rightarrow> bool" where
  "holds s key d h \<longleftrightarrow>
     (if transferType s = S3 then s3session s \<noteq> None \<and> foldl (s3_update (bucketName s) key) None h = Some d
      else transferType s = ELASTICACHE \<and> (\<exists>c. redisClient s = Some c \<and> foldl (redis_update (Addr c) key) None h = Some d))"

definition same_store :: "storage \<Rightarrow> storage \<Rightarrow> bool" where
  "same_store s s' \<longleftrightarrow> transferType s' = transferType s \<and> bucketName s' = bucketName s \<and> redisClient s' = redisClient s \<and>
     (s3session s' = None \<longleftrightarrow> s3session s = None)"

definition fetched :: "storage \<Rightarrow> string \<Rightarrow> string \<Rightarrow> storage_event" where
  "fetched s key d = (if transferType s = S3 then Fetch (bucketName s) key (Inr d) else RedisGet (Addr (the (redisClient s))) key (Inr d))"

lemma put_holds:
  assumes "run_state (Put w s key payload) h = (Ret k, h')"
  shows "k = key" "holds s key payload h'"
  using assms by (auto simp: Put_def s3_put_def holds_def split: option.splits if_splits)

lemma holds_append:
  assumes "holds s key d h" and "\<And>e. e \<in> set rest \<Longrightarrow> leaves_key s key e"
  shows "holds s key d (h @ rest)"
proof (cases "transferType s = S3")
  case True
  then show ?thesis
    using assms foldl_frame [of rest "s3_update (bucketName s) key"] leaves_key_updates(1) [OF _ True] by (simp add: holds_def)
next
  case False
  then obtain c where c: "transferType s = ELASTICACHE" "redisClient s = Some c"
    using assms(1) by (auto simp: holds_def)
  then show ?thesis
    using False assms foldl_frame [of rest "redis_update (Addr c) key"] leaves_key_updates(2) [OF _ c] by (simp add: holds_def)
qed

lemma holds_get:
  assumes "services_ok w" and "holds s key d h" and "same_store s s'"
  shows "run_state (Get w s' key) h = (Ret d, h @ [fetched s' key d])"
proof (cases "transferType s = S3")
  case True
  then have "foldl (s3_update (bucketName s) key) None h = Some d" using assms(2) by (simp add: holds_def)
  then have "s3_download w h session (bucketName s) key = Inr d" for session
    using assms(1) readsD unfolding services_ok_def by blast
  moreover have "s3session s' \<noteq> None" using True assms(2,3) by (simp add: holds_def same_store_def)
  ultimately show ?thesis using True assms(3) by (auto simp: Get_def fetched_def same_store_def)
next
  case False
  then obtain c where c: "transferType s = ELASTICACHE" "redisClient s = Some c" "foldl (redis_update (Addr c) key) None h = Some d"
    using assms(2) by (auto simp: holds_def)
  then have "redis_get w h (Addr c) key = Inr d" using assms(1) readsD unfolding services_ok_def by blast
  then show ?thesis using c False assms(3) by (simp add: Get_def fetched_def same_store_def)
qed

text \<open>
  Property C32: a payload that was put is got back, from either service, whatever else has been done
  in between that did not write to the same key.
\<close>

theorem put_get:
  assumes ok: "services_ok w" and put: "run_state (Put w s key payload) h = (Ret k, h')" and "\<forall>e\<in>set rest. leaves_key s key e"
  shows "k = key \<and> fst (run_state (Get w s k) (h' @ rest)) = Ret payload"
proof -
  have "holds s key payload (h' @ rest)" using put_holds(2) [OF put] assms(3) by (auto intro: holds_append)
  then show ?thesis using holds_get [OF ok _, of s key payload "h' @ rest" s] put_holds(1) [OF put] by (simp add: same_store_def)
qed

text \<open>
  The module that \<open>New\<close> makes. For S3 it needs both keys in the environment, and its
  session uses \<open>us-west-1\<close> where the environment names no region, while the field \<open>AWS_REGION\<close> stays
  empty; for ElastiCache it makes a client of the address given as bucket; and every other
  transfer type, XDT included, is accepted but then every operation is fatal.
\<close>

theorem new_storage_spec:
  "(case new_storage w env transfer bucket of
      Ret s \<Rightarrow> transferType s = transfer \<and> bucketName s = bucket \<and>
        s3session s = (if transfer = S3 then Some \<lparr>Region = (case env ''AWS_REGION'' of Some r \<Rightarrow> r | None \<Rightarrow> ''us-west-1''),
          AccessKey = AWS_ACCESS_KEY s, SecretKey = AWS_SECRET_KEY s, SessionToken = ''''\<rparr> else None) \<and>
        AWS_REGION s = (case env ''AWS_REGION'' of Some r \<Rightarrow> r | None \<Rightarrow> '''') \<and>
        redisClient s = (if transfer = ELASTICACHE then Some \<lparr>Addr = bucket, RedisPassword = '''', DB = 0\<rparr> else None)
    | Panic e \<Rightarrow> False
    | Fatal m \<Rightarrow> transfer = S3 \<and> (env ''AWS_ACCESS_KEY'' = None \<or> env ''AWS_SECRET_KEY'' = None \<or> (\<exists>cfg err. new_session w cfg = Some err))) \<and>
   (\<exists>s. new_storage w env XDT bucket = Ret s \<and> fst (run_state (Put w s key payload) h) = Fatal ''Unsupported transfer type'' \<and>
      fst (run_state (PutFile w s key payload) h) = Fatal ''Unsupported transfer type'' \<and>
      fst (run_state (Get w s key) h) = Fatal ''Unsupported transfer type'')"
proof
  have differ: "S3 \<noteq> ELASTICACHE" "XDT \<noteq> S3" "XDT \<noteq> ELASTICACHE" by (simp_all add: S3_def ELASTICACHE_def XDT_def)
  show "case new_storage w env transfer bucket of
      Ret s \<Rightarrow> transferType s = transfer \<and> bucketName s = bucket \<and>
        s3session s = (if transfer = S3 then Some \<lparr>Region = (case env ''AWS_REGION'' of Some r \<Rightarrow> r | None \<Rightarrow> ''us-west-1''),
          AccessKey = AWS_ACCESS_KEY s, SecretKey = AWS_SECRET_KEY s, SessionToken = ''''\<rparr> else None) \<and>
        AWS_REGION s = (case env ''AWS_REGION'' of Some r \<Rightarrow> r | None \<Rightarrow> '''') \<and>
        redisClient s = (if transfer = ELASTICACHE then Some \<lparr>Addr = bucket, RedisPassword = '''', DB = 0\<rparr> else None)
    | Panic e \<Rightarrow> False
    | Fatal m \<Rightarrow> transfer = S3 \<and> (env ''AWS_ACCESS_KEY'' = None \<or> env ''AWS_SECRET_KEY'' = None \<or> (\<exists>cfg err. new_session w cfg = Some err))"
  proof (cases "transfer = S3")
    case True
    show ?thesis
    proof (cases "env ''AWS_ACCESS_KEY''")
      case (Some a)
      show ?thesis
      proof (cases "env ''AWS_SECRET_KEY''")
        case (Some b)
        define cfg where "cfg = \<lparr>Region = (case env ''AWS_REGION'' of Some r \<Rightarrow> r | None \<Rightarrow> ''us-west-1''),
          AccessKey = a, SecretKey = b, SessionToken = TOKEN\<rparr>"
        show ?thesis
          using True Some \<open>env ''AWS_ACCESS_KEY'' = Some a\<close> differ
          by (cases "new_session w cfg")
            (auto simp: new_storage_def cfg_def getenv_def TOKEN_def Let_def)
      qed (use True Some in \<open>simp add: new_storage_def Let_def\<close>)
    qed (use True in \<open>simp add: new_storage_def Let_def\<close>)
  next
    case False
    then show ?thesis by (simp add: new_storage_def getenv_def)
  qed
  show "\<exists>s. new_storage w env XDT bucket = Ret s \<and> fst (run_state (Put w s key payload) h) = Fatal ''Unsupported transfer type'' \<and>
      fst (run_state (PutFile w s key payload) h) = Fatal ''Unsupported transfer type'' \<and>
      fst (run_state (Get w s key) h) = Fatal ''Unsupported transfer type''"
    using differ by (simp add: new_storage_def Put_def PutFile_def Get_def run_state_return)
qed

definition memory_services :: storage_world where
  "memory_services = \<lparr>new_session = \<lambda>cfg. None, s3_upload = \<lambda>h cfg b k d. None,
     s3_download = \<lambda>h cfg b k. (case foldl (s3_update b k) None h of Some d \<Rightarrow> Inr d | None \<Rightarrow> Inl (NewError ''NoSuchKey'')),
     redis_set = \<lambda>h a k d. None,
     redis_get = \<lambda>h a k. (case foldl (redis_update a k) None h of Some d \<Rightarrow> Inr d | None \<Rightarrow> Inl (NewError ''redis: nil''))\<rparr>"

lemma services_ok_memory: "services_ok memory_services"
  by (auto simp: services_ok_def reads_def memory_services_def split: option.split)

theorem put_get_witness:
  "\<exists>s h. new_storage memory_services (\<lambda>v. None) ELASTICACHE ''redis:6379'' = Ret s \<and>
     run_state (Put memory_services s ''k'' ''payload'') [] = (Ret ''k'', h) \<and>
     fst (run_state (Get memory_services s ''k'') (h @ [RedisSet ''redis:6379'' ''other'' ''x'' None])) = Ret ''payload''"
proof -
  have differ: "ELASTICACHE \<noteq> S3" by (simp add: S3_def ELASTICACHE_def)
  then obtain s where s: "new_storage memory_services (\<lambda>v. None) ELASTICACHE ''redis:6379'' = Ret s"
    "transferType s = ELASTICACHE" "redisClient s = Some \<lparr>Addr = ''redis:6379'', RedisPassword = '''', DB = 0\<rparr>"
    by (simp add: new_storage_def)
  let ?h = "[RedisSet ''redis:6379'' ''k'' ''payload'' None]"
  have put: "run_state (Put memory_services s ''k'' ''payload'') [] = (Ret ''k'', ?h)"
    using s(2,3) differ by (simp add: Put_def memory_services_def)
  have "\<forall>e\<in>set [RedisSet ''redis:6379'' ''other'' ''x'' None]. leaves_key s ''k'' e" by (simp add: leaves_key_def)
  from put_get [OF services_ok_memory put this] s(1) put show ?thesis by blast
qed

definition storage_ok :: "storage \<Rightarrow> bool" where
  "storage_ok s \<longleftrightarrow> (transferType s = S3 \<longrightarrow> s3session s \<noteq> None) \<and> (transferType s = ELASTICACHE \<longrightarrow> redisClient s \<noteq> None)"

lemma new_storage_ok:
  assumes "new_storage w env transfer bucket = Ret s"
  shows "storage_ok s" "transferType s = transfer" "transfer = ELASTICACHE \<Longrightarrow> \<exists>c. redisClient s = Some c \<and> Addr c = bucket"
proof -
  have "S3 \<noteq> ELASTICACHE" by (simp add: S3_def ELASTICACHE_def)
  then show "storage_ok s" "transferType s = transfer" "transfer = ELASTICACHE \<Longrightarrow> \<exists>c. redisClient s = Some c \<and> Addr c = bucket"
    using assms by (auto simp: new_storage_def storage_ok_def Let_def split: if_splits option.splits)
qed

lemma new_storage_same:
  assumes "new_storage w env t b = Ret s" and "new_storage w' env' t b = Ret s'"
  shows "same_store s s'"
  using assms by (auto simp: new_storage_def same_store_def Let_def split: if_splits option.splits)

text \<open>
  Property C33: a module that \<open>New\<close> returned is well formed: the client its transfer type needs is there.
  So no operation on it dereferences a nil client: the only panics are the errors redis itself
  answers with, and those end an operation on ElastiCache only.
\<close>

theorem new_storage_type:
  assumes "new_storage w env transfer bucket = Ret s"
  shows "storage_ok s \<and>
    (case fst (run_state (Put w s key payload) h) of
       Panic e \<Rightarrow> transfer = ELASTICACHE \<and> redis_set w h bucket key payload = Some e | _ \<Rightarrow> True) \<and>
    (case fst (run_state (Get w s key) h) of
       Panic e \<Rightarrow> transfer = ELASTICACHE \<and> redis_get w h bucket key = Inl e | _ \<Rightarrow> True) \<and>
    (case fst (run_state (PutFile w s key payload) h) of Panic e \<Rightarrow> False | _ \<Rightarrow> True)"
proof -
  have differ: "S3 \<noteq> ELASTICACHE" by (simp add: S3_def ELASTICACHE_def)
  note made = new_storage_ok [OF assms]
  have "case fst (run_state (Put w s key payload) h) of
      Panic e \<Rightarrow> transfer = ELASTICACHE \<and> redis_set w h bucket key payload = Some e | _ \<Rightarrow> True"
    using made differ by (auto simp: Put_def s3_put_def storage_ok_def run_state_return split: option.splits)
  moreover have "case fst (run_state (Get w s key) h) of
      Panic e \<Rightarrow> transfer = ELASTICACHE \<and> redis_get w h bucket key = Inl e | _ \<Rightarrow> True"
    using made differ by (auto simp: Get_def storage_ok_def run_state_return split: option.splits sum.splits)
  moreover have "case fst (run_state (PutFile w s key payload) h) of Panic e \<Rightarrow> False | _ \<Rightarrow> True"
    using made by (auto simp: PutFile_def s3_put_def storage_ok_def run_state_return split: option.splits)
  ultimately show ?thesis using made(1) by blast
qed

theorem new_storage_type_witness:
  "\<exists>s. new_storage memory_services (\<lambda>v. None) ELASTICACHE ''redis:6379'' = Ret s \<and> storage_ok s \<and>
     (case fst (run_state (Get memory_services s ''missing'') []) of
        Panic e \<Rightarrow> redis_get memory_services [] ''redis:6379'' ''missing'' = Inl e | _ \<Rightarrow> True)"
proof -
  have "ELASTICACHE \<noteq> S3" by (simp add: S3_def ELASTICACHE_def)
  then obtain s where s: "new_storage memory_services (\<lambda>v. None) ELASTICACHE ''redis:6379'' = Ret s"
    by (simp add: new_storage_def)
  from new_storage_type [OF s, where key = "''missing''" and h = "[]"] s show ?thesis by (auto split: outcome.splits)
qed

end
