(* ===== verification/ChainedFunctions.thy ===== *)
theory ChainedFunctions
  imports Gather Storage GoStrings
begin

text \<open>
  The producer and the consumer of \<open>benchmarks/chained-function-serving\<close> (\<open>producer.go\<close>, \<open>uBenchProd.go\<close>,
  \<open>consumer.go\<close>, \<open>uBenchCons.go\<close>). The producer hands a payload to the consumer: in the request, through
  the storage module, or through XDT, which is a third-party transport and answers from the world, like
  gRPC. The producer's calls to its consumer are an argument of its operations, so that the model of
  the consumer can be put there. The spans around the storage calls are left out.
\<close>

subsection \<open>Events and worlds\<close>

datatype chain_event =
    OnStorage storage_event
  | Dialed string "grpc_option list" "go_error option"
  | Consumed string "go_error + bool"
  | XDTInvoked string string "go_error option"
  | XDTPut string "go_error + string"
  | XDTBroadcastPut string "go_error + string"
  | XDTGet string "go_error + string"
  | XDTBroadcastGet string "go_error + string"

type_synonym 'r chain = "(chain_event, 'r) logged"

record chain_world =
  chain_environ :: environment
  chain_storage :: storage_world
  chain_dial :: "chain_event list \<Rightarrow> string \<Rightarrow> go_error option"
  xdt_invoke :: "chain_event list \<Rightarrow> string \<Rightarrow> string \<Rightarrow> go_error option"
  xdt_put :: "chain_event list \<Rightarrow> string \<Rightarrow> go_error + string"
  xdt_broadcast_put :: "chain_event list \<Rightarrow> string \<Rightarrow> go_error + string"
  xdt_get :: "chain_event list \<Rightarrow> string \<Rightarrow> go_error + string"
  xdt_broadcast_get :: "chain_event list \<Rightarrow> string \<Rightarrow> go_error + string"

fun storage_call :: "chain_event \<Rightarrow> storage_event list" where
  "storage_call (OnStorage e) = [e]"
| "storage_call _ = []"

definition storage_log :: "chain_event list \<Rightarrow> storage_event list" where
  "storage_log h = concat (map storage_call h)"

definition on_storage :: "(storage_event, 'r) logged \<Rightarrow> 'r chain" where
  "on_storage m = within_log OnStorage storage_call m"

definition INLINE :: string where "INLINE = ''INLINE''"

definition via_storage :: "string \<Rightarrow> bool" where
  "via_storage transfer \<longleftrightarrow> transfer = S3 \<or> transfer = ELASTICACHE"

subsection \<open>The producer\<close>

record producer =
  consumerAddr :: string
  consumerPort :: int
  payloadData :: string
  transfer :: string
  randomStr :: string
  storageBackend :: storage

definition consumer_address :: "producer \<Rightarrow> string" where
  "consumer_address p = consumerAddr p @ '':'' @ itoa (consumerPort p)"

definition payload_key :: "string \<Rightarrow> string" where
  "payload_key rand = ''payload_bytes_'' @ rand @ ''.txt''"

definition uploadToStorage :: "chain_world \<Rightarrow> string \<Rightarrow> string \<Rightarrow> storage \<Rightarrow> string outcome chain" where
  "uploadToStorage w payload rand backend = on_storage (Put (chain_storage w) backend (payload_key rand) payload)"

definition getGRPCclient :: "chain_world \<Rightarrow> string \<Rightarrow> unit outcome chain" where
  "getGRPCclient w addr =
     obind (State_Monad.return (IsTracingEnabled (chain_environ w))) (\<lambda>tracing.
       let opts = [WithBlock, InsecureCredentials] @ (if tracing then [ClientStats] else [])
       in or_fatal_err ''[producer] fail to dial'' (perform (\<lambda>h. chain_dial w h addr) (Dialed addr opts)))"

definition xdt_transfer :: "chain_world \<Rightarrow> string \<Rightarrow> string \<Rightarrow> go_error option chain" where
  "xdt_transfer w addr payload = perform (\<lambda>h. xdt_invoke w h addr payload) (XDTInvoked addr payload)"

text \<open>A call to the consumer that fails ends the producer.\<close>

definition send_payload :: "(string \<Rightarrow> (go_error + bool) chain) \<Rightarrow> string \<Rightarrow> bool outcome chain" where
  "send_payload consume v = or_fatal ''[producer] client error in string consumption'' (consume v)"

definition producer_SayHello :: "chain_world \<Rightarrow> (string \<Rightarrow> (go_error + bool) chain) \<Rightarrow> producer \<Rightarrow> string outcome chain" where
  "producer_SayHello w consume p =
     (if transfer p = INLINE \<or> via_storage (transfer p) then
        obind (getGRPCclient w (consumer_address p)) (\<lambda>_.
        obind (if via_storage (transfer p) then uploadToStorage w (payloadData p) (randomStr p) (storageBackend p)
               else oreturn (payloadData p)) (\<lambda>v.
        obind (send_payload consume v) (\<lambda>ack. oreturn ''Success'')))
      else if transfer p = XDT then
        obind (or_fatal_err ''SQP_to_dQP_data_transfer failed'' (xdt_transfer w (consumer_address p) (payloadData p))) (\<lambda>_.
          oreturn ''Success'')
      else oreturn ''Success'')"

text \<open>\<open>uBenchProd.go\<close>. \<open>putData\<close> returns a capability and whether it has one.\<close>

definition putData :: "chain_world \<Rightarrow> producer \<Rightarrow> (string \<times> bool) outcome chain" where
  "putData w p =
     (if via_storage (transfer p) then
        obind (uploadToStorage w (payloadData p) (randomStr p) (storageBackend p)) (\<lambda>key. oreturn (key, True))
      else if transfer p = XDT then
        obind (or_fatal ''SQP_to_dQP_data_transfer failed'' (perform (\<lambda>h. xdt_put w h (payloadData p)) (XDTPut (payloadData p)))) (\<lambda>capability.
          oreturn (capability, True))
      else oreturn ('''', False))"

text \<open>The goroutines of \<open>fanOut\<close> and \<open>broadcast\<close> send \<open>nil\<close> or an error; the caller gives up at the first error.\<close>

type_synonym bench_thread = "(chain_event, go_error option) thread"

definition is_error :: "go_error option \<Rightarrow> bool" where
  "is_error r \<longleftrightarrow> r \<noteq> None"

definition send_thread :: "(string \<Rightarrow> (go_error + bool) chain) \<Rightarrow> string \<Rightarrow> bench_thread" where
  "send_thread consume v = turn (send_payload consume v) (\<lambda>ack. Yield None)"

definition fan_out_thread :: "chain_world \<Rightarrow> (string \<Rightarrow> (go_error + bool) chain) \<Rightarrow> producer \<Rightarrow> nat \<Rightarrow> bench_thread" where
  "fan_out_thread w consume p i =
     turn (getGRPCclient w (consumer_address p)) (\<lambda>_.
       if via_storage (transfer p)
       then turn (uploadToStorage w (payloadData p) (randomStr p @ ''-'' @ itoa (int i)) (storageBackend p)) (send_thread consume)
       else send_thread consume (payloadData p))"

definition xdt_thread :: "chain_world \<Rightarrow> producer \<Rightarrow> bench_thread" where
  "xdt_thread w p =
     turn (State_Monad.bind (xdt_transfer w (consumer_address p) (payloadData p)) oreturn) Yield"

definition fanOut ::
  "chain_world \<Rightarrow> (string \<Rightarrow> (go_error + bool) chain) \<Rightarrow> producer \<Rightarrow> nat \<Rightarrow> chain_event list \<Rightarrow> (chain_event, go_error option) gathering"
where
  "fanOut w consume p n h =
     gather_start n
       (if transfer p = INLINE \<or> via_storage (transfer p) then map (fan_out_thread w consume p) [0..<n]
        else if transfer p = XDT then replicate n (xdt_thread w p)
        else []) h"

text \<open>\<open>broadcast\<close> makes one client, and uploads once; then it starts its goroutines, if it knows how.\<close>

definition broadcast_value :: "chain_world \<Rightarrow> producer \<Rightarrow> string option outcome chain" where
  "broadcast_value w p =
     obind (getGRPCclient w (consumer_address p)) (\<lambda>_.
       if via_storage (transfer p)
       then obind (uploadToStorage w (payloadData p) (randomStr p) (storageBackend p)) (\<lambda>key. oreturn (Some key))
       else if transfer p = INLINE then oreturn (Some (payloadData p))
       else if transfer p = XDT
       then obind (or_fatal ''SQP_to_dQP_data_transfer failed''
              (perform (\<lambda>h. xdt_broadcast_put w h (payloadData p)) (XDTBroadcastPut (payloadData p)))) (\<lambda>capability. oreturn (Some capability))
       else oreturn None)"

definition broadcast ::
  "(string \<Rightarrow> (go_error + bool) chain) \<Rightarrow> string option \<Rightarrow> nat \<Rightarrow> chain_event list \<Rightarrow> (chain_event, go_error option) gathering"
where
  "broadcast consume value n h = gather_start n (case value of None \<Rightarrow> [] | Some v \<Rightarrow> replicate n (send_thread consume v)) h"

text \<open>A benchmark replies at once, or when its gathering has an answer. The reply to the latter never says
  what came of it. A channel of a negative size panics.\<close>

datatype bench_run =
    Replies "(string \<times> bool) outcome" "chain_event list"
  | Gathers "(chain_event, go_error option) gathering"

definition FANOUT :: string where "FANOUT = ''FANOUT''"
definition FANIN :: string where "FANIN = ''FANIN''"
definition BROADCAST :: string where "BROADCAST = ''BROADCAST''"

definition channel_size :: go_error where "channel_size = NewError ''makechan: size out of range''"

definition gathered_reply :: "string \<times> bool" where "gathered_reply = ('''', False)"

definition Benchmark ::
  "chain_world \<Rightarrow> (string \<Rightarrow> (go_error + bool) chain) \<Rightarrow> producer \<Rightarrow> string \<Rightarrow> int \<Rightarrow> chain_event list \<Rightarrow> bench_run"
where
  "Benchmark w consume p name amount h =
     (if name = FANOUT then
        if amount < 0 then Replies (Panic channel_size) h else Gathers (fanOut w consume p (nat amount) h)
      else if name = FANIN then (let (r, h') = run_state (putData w p) h in Replies r h')
      else if name = BROADCAST then
        if amount < 0 then Replies (Panic channel_size) h
        else (case run_state (broadcast_value w p) h of
            (Ret v, h') \<Rightarrow> Gathers (broadcast consume v (nat amount) h')
          | (Panic e, h') \<Rightarrow> Replies (Panic e) h'
          | (Fatal m, h') \<Rightarrow> Replies (Fatal m) h')
      else Replies (Ret gathered_reply) h)"

subsection \<open>The consumer\<close>

record consumer =
  c_transfer :: string
  c_storage :: storage

text \<open>\<open>Get\<close> never returns a nil slice, so the error for that cannot come about.\<close>

definition fetchFromStorage :: "chain_world \<Rightarrow> string \<Rightarrow> storage \<Rightarrow> (go_error + nat) outcome chain" where
  "fetchFromStorage w key backend =
     obind (on_storage (Get (chain_storage w) backend key)) (\<lambda>payload. oreturn (Inr (length payload)))"

definition reply_of :: "go_error + 'a \<Rightarrow> go_error + bool" where
  "reply_of r = (case r of Inl err \<Rightarrow> Inl err | Inr x \<Rightarrow> Inr True)"

definition ConsumeByte :: "chain_world \<Rightarrow> consumer \<Rightarrow> string \<Rightarrow> (go_error + bool) outcome chain" where
  "ConsumeByte w c v =
     obind (State_Monad.return (IsTracingEnabled (chain_environ w))) (\<lambda>tracing.
       if via_storage (c_transfer c) then obind (fetchFromStorage w v (c_storage c)) (\<lambda>r. oreturn (reply_of r))
       else if c_transfer c = INLINE then oreturn (Inr True)
       else if c_transfer c = XDT
       then State_Monad.bind (perform (\<lambda>h. xdt_broadcast_get w h v) (XDTBroadcastGet v)) (\<lambda>r. oreturn (reply_of r))
       else oreturn (Inr True))"

text \<open>The client of a stream closes it, sends, or breaks it; \<^term>\<open>None\<close> when the stream stays open. The last reply
  is sent.\<close>

datatype stream_item = Chunk string | EOF | Broken go_error

fun ConsumeStream :: "stream_item list \<Rightarrow> (go_error + bool) option" where
  "ConsumeStream [] = None"
| "ConsumeStream (EOF # _) = Some (Inr True)"
| "ConsumeStream (Broken err # _) = Some (Inl err)"
| "ConsumeStream (Chunk s # rest) = ConsumeStream rest"

definition outcome_error :: "go_error + 'a \<Rightarrow> go_error option" where
  "outcome_error r = (case r of Inl err \<Rightarrow> Some err | Inr x \<Rightarrow> None)"

definition fetch_thread :: "chain_world \<Rightarrow> storage \<Rightarrow> string \<Rightarrow> bench_thread" where
  "fetch_thread w backend capability = turn (fetchFromStorage w capability backend) (\<lambda>r. Yield (outcome_error r))"

definition xdt_get_thread :: "chain_world \<Rightarrow> string \<Rightarrow> bench_thread" where
  "xdt_get_thread w capability =
     turn (State_Monad.bind (perform (\<lambda>h. xdt_get w h capability) (XDTGet capability)) oreturn) (\<lambda>r. Yield (outcome_error r))"

definition FetchByte :: "chain_world \<Rightarrow> consumer \<Rightarrow> string list \<Rightarrow> chain_event list \<Rightarrow> (chain_event, go_error option) gathering" where
  "FetchByte w c capabilities h =
     gather_start (length capabilities)
       (if via_storage (c_transfer c) then map (fetch_thread w (c_storage c)) capabilities
        else if c_transfer c = XDT then map (xdt_get_thread w) capabilities
        else []) h"

text \<open>What the caller returns of the results it has received.\<close>

definition fetch_reply :: "go_error option list \<Rightarrow> go_error + bool" where
  "fetch_reply rs = (case find is_error rs of Some (Some err) \<Rightarrow> Inl err | _ \<Rightarrow> Inr True)"

text \<open>The producer's client of this consumer; gRPC answers for a consumer that ended.\<close>

definition unavailable :: go_error where "unavailable = NewError ''rpc error: code = Unavailable''"

definition consume_via :: "chain_world \<Rightarrow> consumer \<Rightarrow> string \<Rightarrow> (go_error + bool) chain" where
  "consume_via w c v =
     State_Monad.bind (ConsumeByte w c v) (\<lambda>r.
       perform (\<lambda>h. case r of Ret x \<Rightarrow> x | Panic e \<Rightarrow> Inl unavailable | Fatal m \<Rightarrow> Inl unavailable) (Consumed v))"

subsection \<open>When everything is up\<close>

lemma storage_log_simps [simp]:
  "storage_log [] = []" "storage_log (h @ g) = storage_log h @ storage_log g" "storage_log (e # h) = storage_call e @ storage_log h"
  by (simp_all add: storage_log_def)

lemma run_on_storage:
  "run_state m (storage_log h) = (r, storage_log h @ new) \<Longrightarrow> run_state (on_storage m) h = (r, h @ map OnStorage new)"
  unfolding on_storage_def storage_log_def by (rule run_within_log)

definition chain_up :: "chain_world \<Rightarrow> bool" where
  "chain_up w \<longleftrightarrow>
     (\<exists>tracing. IsTracingEnabled (chain_environ w) = Ret tracing) \<and> (\<forall>h a. chain_dial w h a = None) \<and>
     services_ok (chain_storage w) \<and> (\<forall>h cfg b k d. s3_upload (chain_storage w) h cfg b k d = None) \<and>
     (\<forall>h a k d. redis_set (chain_storage w) h a k d = None)"

text \<open>Producer and consumer are set up for the same transfer, and the same bucket if it is through storage.\<close>

definition matched :: "producer \<Rightarrow> consumer \<Rightarrow> bool" where
  "matched p c \<longleftrightarrow> c_transfer c = transfer p \<and>
     (if via_storage (transfer p)
      then storage_ok (storageBackend p) \<and> transferType (storageBackend p) = transfer p \<and> same_store (storageBackend p) (c_storage c)
      else transfer p = INLINE)"

text \<open>Uses of the storage that write or read nothing but \<open>d\<close>.\<close>

fun fine :: "string \<Rightarrow> storage_event \<Rightarrow> bool" where
  "fine d (Upload b k d' r) \<longleftrightarrow> d' = d \<and> r = None"
| "fine d (RedisSet a k d' r) \<longleftrightarrow> d' = d \<and> r = None"
| "fine d (Fetch b k r) \<longleftrightarrow> r = Inr d"
| "fine d (RedisGet a k r) \<longleftrightarrow> r = Inr d"

text \<open>The payloads that reach the consumer: what it fetches, or what it is sent.\<close>

fun taken_in :: "bool \<Rightarrow> chain_event \<Rightarrow> string list" where
  "taken_in True (OnStorage (Fetch b k (Inr d))) = [d]"
| "taken_in True (OnStorage (RedisGet a k (Inr d))) = [d]"
| "taken_in False (Consumed v r) = [v]"
| "taken_in _ _ = []"

definition taken :: "string \<Rightarrow> chain_event list \<Rightarrow> string list" where
  "taken tr h = concat (map (taken_in (via_storage tr)) h)"

lemma taken_simps [simp]:
  "taken tr [] = []" "taken tr (h @ g) = taken tr h @ taken tr g" "taken tr (e # h) = taken_in (via_storage tr) e @ taken tr h"
  by (simp_all add: taken_def)

lemma fine_updates:
  "fine d e \<Longrightarrow> s3_update b k (Some d) e = Some d" "fine d e \<Longrightarrow> redis_update a k (Some d) e = Some d"
  by (cases e; simp)+

lemma holds_fine: "holds s key d h \<Longrightarrow> list_all (fine d) rest \<Longrightarrow> holds s key d (h @ rest)"
proof (induction rest rule: rev_induct)
  case (snoc e rest)
  then have "holds s key d (h @ rest)" "fine d e" by simp_all
  then show ?case by (auto simp: holds_def fine_updates split: if_splits)
qed simp

lemma transfers_differ [simp]:
  "S3 \<noteq> ELASTICACHE" "ELASTICACHE \<noteq> S3" "\<not> via_storage INLINE" "\<not> via_storage XDT" "via_storage S3" "via_storage ELASTICACHE"
  "XDT \<noteq> INLINE" "INLINE \<noteq> XDT" "S3 \<noteq> XDT" "ELASTICACHE \<noteq> XDT" "XDT \<noteq> S3" "XDT \<noteq> ELASTICACHE" "INLINE \<noteq> S3" "INLINE \<noteq> ELASTICACHE"
  by (simp_all add: via_storage_def INLINE_def XDT_def S3_def ELASTICACHE_def)

lemma run_upload:
  assumes up: "chain_up w" and s: "storage_ok s" "via_storage (transferType s)"
  obtains e where "run_state (uploadToStorage w d rand s) h = (Ret (payload_key rand), h @ [OnStorage e])" "fine d e"
    "holds s (payload_key rand) d (storage_log (h @ [OnStorage e]))" "taken_in via (OnStorage e) = []"
proof -
  obtain e where e: "run_state (Put (chain_storage w) s (payload_key rand) d) (storage_log h) = (Ret (payload_key rand), storage_log h @ [e])"
    "fine d e" "taken_in via (OnStorage e) = []"
  proof (cases "transferType s = S3")
    case True
    then obtain session where "s3session s = Some session" using s(1) by (auto simp: storage_ok_def)
    then show thesis using True up that [of "Upload (bucketName s) (payload_key rand) d None"]
      by (simp add: Put_def s3_put_def chain_up_def)
  next
    case False
    then obtain c where "transferType s = ELASTICACHE" "redisClient s = Some c"
      using s by (auto simp: via_storage_def storage_ok_def)
    then show thesis using up that [of "RedisSet (Addr c) (payload_key rand) d None"] by (simp add: Put_def chain_up_def)
  qed
  from run_on_storage [OF this(1)] put_holds(2) [OF this(1)] this(2,3) show thesis
    by (intro that) (simp_all add: uploadToStorage_def)
qed

lemma run_getGRPCclient:
  assumes "chain_up w"
  obtains opts where "run_state (getGRPCclient w addr) h = (Ret (), h @ [Dialed addr opts None])"
  using assms that by (auto simp: chain_up_def getGRPCclient_def Let_def run_state_return)

lemma run_fetch:
  assumes "chain_up w" and "holds s key d (storage_log h)" and "same_store s s'"
  shows "run_state (fetchFromStorage w key s') h = (Ret (Inr (length d)), h @ [OnStorage (fetched s' key d)])"
proof -
  have "services_ok (chain_storage w)" using assms(1) by (simp add: chain_up_def)
  from run_on_storage [OF holds_get [OF this assms(2,3)]] show ?thesis by (simp add: fetchFromStorage_def)
qed

lemma fine_fetched [simp]: "fine d (fetched s key d)"
  by (simp add: fetched_def)

text \<open>What the consumer does with a value.\<close>

lemma run_consume:
  assumes "chain_up w" and "matched p c"
    and "if via_storage (transfer p) then holds (storageBackend p) v d (storage_log h) else v = d"
  shows "run_state (consume_via w c v) h =
    (Inr True, h @ (if via_storage (transfer p) then [OnStorage (fetched (c_storage c) v d)] else []) @ [Consumed v (Inr True)])"
proof (cases "via_storage (transfer p)")
  case True
  then have "run_state (ConsumeByte w c v) h = (Ret (Inr True), h @ [OnStorage (fetched (c_storage c) v d)])"
    using assms run_fetch [OF assms(1), of "storageBackend p" v d h "c_storage c"]
    by (auto simp: ConsumeByte_def matched_def chain_up_def reply_of_def run_state_return)
  then show ?thesis using True by (simp add: consume_via_def run_state_bind)
next
  case False
  then have "run_state (ConsumeByte w c v) h = (Ret (Inr True), h)"
    using assms by (auto simp: ConsumeByte_def matched_def chain_up_def run_state_return)
  then show ?thesis using False by (simp add: consume_via_def run_state_bind)
qed

lemma taken_consume:
  "taken tr ((if via_storage tr then [OnStorage (fetched s v d)] else []) @ [Consumed v' r]) = (if via_storage tr then [d] else [v'])"
  by (simp add: fetched_def)

text \<open>
  Property C13: the consumer gets exactly the payload of the producer, whether it is sent in the request or
  through S3 or ElastiCache, and the producer answers with success.
\<close>

theorem hello_delivers:
  assumes up: "chain_up w" and matched: "matched p c"
  shows "\<exists>new. run_state (producer_SayHello w (consume_via w c) p) h = (Ret ''Success'', h @ new) \<and>
    taken (transfer p) new = [payloadData p] \<and> list_all (fine (payloadData p)) (storage_log new)"
proof -
  obtain opts where dial: "run_state (getGRPCclient w (consumer_address p)) h = (Ret (), h @ [Dialed (consumer_address p) opts None])"
    by (rule run_getGRPCclient [OF up])
  let ?h = "h @ [Dialed (consumer_address p) opts None]"
  show ?thesis
  proof (cases "via_storage (transfer p)")
    case True
    then have s: "storage_ok (storageBackend p)" "via_storage (transferType (storageBackend p))"
      using matched by (auto simp: matched_def)
    obtain e where e: "run_state (uploadToStorage w (payloadData p) (randomStr p) (storageBackend p)) ?h =
        (Ret (payload_key (randomStr p)), ?h @ [OnStorage e])" "fine (payloadData p) e"
      "holds (storageBackend p) (payload_key (randomStr p)) (payloadData p) (storage_log (?h @ [OnStorage e]))"
      "taken_in True (OnStorage e) = []"
      by (rule run_upload [OF up s])
    note new = run_consume [OF up matched, of "payload_key (randomStr p)" "payloadData p" "?h @ [OnStorage e]"]
    show ?thesis
      using True dial e new by (simp add: producer_SayHello_def send_payload_def fetched_def)
  next
    case False
    then have inline: "transfer p = INLINE" using matched by (simp add: matched_def)
    note new = run_consume [OF up matched, of "payloadData p" "payloadData p" ?h]
    show ?thesis using False inline dial new by (simp add: producer_SayHello_def send_payload_def)
  qed
qed

definition memory_chain :: chain_world where
  "memory_chain = \<lparr>chain_environ = \<lambda>v. None, chain_storage = memory_services, chain_dial = \<lambda>h a. None,
     xdt_invoke = \<lambda>h a d. None, xdt_put = \<lambda>h d. Inr d, xdt_broadcast_put = \<lambda>h d. Inr d, xdt_get = \<lambda>h k. Inr k,
     xdt_broadcast_get = \<lambda>h k. Inr k\<rparr>"

lemma chain_up_memory: "chain_up memory_chain"
proof -
  have "IsTracingEnabled (chain_environ memory_chain) = Ret False" by (simp add: memory_chain_def IsTracingEnabled_def)
  moreover have "chain_storage memory_chain = memory_services" by (simp add: memory_chain_def)
  ultimately show ?thesis using services_ok_memory by (auto simp: chain_up_def memory_chain_def) (simp_all add: memory_services_def)
qed

definition redis_module :: storage where
  "redis_module = \<lparr>transferType = ELASTICACHE, bucketName = ''redis:6379'', AWS_ACCESS_KEY = '''', AWS_SECRET_KEY = '''',
     AWS_REGION = '''', redisClient = Some \<lparr>Addr = ''redis:6379'', RedisPassword = '''', DB = 0\<rparr>, s3session = None\<rparr>"

definition demo_producer :: producer where
  "demo_producer = \<lparr>consumerAddr = ''consumer.default'', consumerPort = 80, payloadData = ''0123456789'', transfer = ELASTICACHE,
     randomStr = ''producer-1'', storageBackend = redis_module\<rparr>"

definition demo_consumer :: consumer where
  "demo_consumer = \<lparr>c_transfer = ELASTICACHE, c_storage = redis_module\<rparr>"

lemma matched_demo: "matched demo_producer demo_consumer"
  by (simp add: matched_def demo_producer_def demo_consumer_def redis_module_def storage_ok_def same_store_def)

theorem hello_delivers_witness:
  "\<exists>new. run_state (producer_SayHello memory_chain (consume_via memory_chain demo_consumer) demo_producer) [] = (Ret ''Success'', new) \<and>
     taken ELASTICACHE new = [''0123456789'']"
  using hello_delivers [OF chain_up_memory matched_demo, of "[]"] by (auto simp: demo_producer_def)

subsection \<open>Many goroutines\<close>

text \<open>What the goroutines of a benchmark keep: since the log \<open>h0\<close> nothing but \<open>d\<close> has been written, read or
  taken in.\<close>

definition carries :: "string \<Rightarrow> string \<Rightarrow> chain_event list \<Rightarrow> chain_event list \<Rightarrow> bool" where
  "carries tr d h0 h \<longleftrightarrow> (\<exists>new. h = h0 @ new \<and> list_all (fine d) (storage_log new) \<and> list_all (\<lambda>x. x = d) (taken tr new))"

lemma carries_refl [simp]: "carries tr d h h"
  by (simp add: carries_def)

lemma carries_append:
  "carries tr d h0 h \<Longrightarrow> list_all (fine d) (storage_log new) \<Longrightarrow> list_all (\<lambda>x. x = d) (taken tr new) \<Longrightarrow> carries tr d h0 (h @ new)"
proof -
  assume "carries tr d h0 h" and new: "list_all (fine d) (storage_log new)" "list_all (\<lambda>x. x = d) (taken tr new)"
  then obtain old where "h = h0 @ old" "list_all (fine d) (storage_log old)" "list_all (\<lambda>x. x = d) (taken tr old)"
    by (auto simp: carries_def)
  with new show "carries tr d h0 (h @ new)" unfolding carries_def by (intro exI [of _ "old @ new"]) simp
qed

text \<open>So what a service holds stays.\<close>

lemma carries_holds:
  assumes "carries tr d h0 g" and "carries tr d h0 h" and "prefix g h" and "holds s key d (storage_log g)"
  shows "holds s key d (storage_log h)"
proof -
  obtain rest where "h = g @ rest" using assms(3) by (auto simp: prefix_def)
  then have "list_all (fine d) (storage_log rest)" using assms(1,2) by (auto simp: carries_def)
  from holds_fine [OF assms(4) this] show ?thesis by (simp add: \<open>h = g @ rest\<close>)
qed

text \<open>A goroutine that delivers: it yields \<open>nil\<close>, and what it has added lets the payload be taken in, once.\<close>

definition delivered :: "string \<Rightarrow> string \<Rightarrow> chain_event list \<Rightarrow> chain_event list \<Rightarrow> bool" where
  "delivered tr d own g \<longleftrightarrow> taken tr own = [d]"

lemma send_thread_meets:
  assumes up: "chain_up w" and matched: "matched p c" and g: "carries (transfer p) d h0 g"
    and v: "if via_storage (transfer p) then holds (storageBackend p) v d (storage_log g) else v = d"
    and own: "taken (transfer p) own = []"
  shows "meets (carries (transfer p) d h0) (\<lambda>own g r. r = None \<and> delivered (transfer p) d own g) (send_thread (consume_via w c) v) own g"
  unfolding send_thread_def
proof (rule meets_turn)
  let ?J = "carries (transfer p) d h0" and ?Q = "\<lambda>own g r. r = None \<and> delivered (transfer p) d own g"
  fix h
  assume h: "prefix g h" "?J h"
  let ?new = "(if via_storage (transfer p) then [OnStorage (fetched (c_storage c) v d)] else []) @ [Consumed v (Inr True)]"
  have "run_state (consume_via w c v) h = (Inr True, h @ ?new)"
    by (rule run_consume [OF up matched]) (use v carries_holds [OF g h(2,1)] in auto)
  then have "run_state (send_payload (consume_via w c) v) h = (Ret True, h @ ?new)" by (simp add: send_payload_def)
  moreover have taken: "taken (transfer p) ?new = [d]" using v by (auto simp: fetched_def)
  then have "?J (h @ ?new)" by (intro carries_append [OF h(2)]) (simp_all add: fetched_def)
  moreover have "meets ?J ?Q (Yield None) (own @ ?new) (h @ ?new)" using own taken by (simp add: delivered_def del: append_assoc)
  ultimately show "\<exists>x new. run_state (send_payload (consume_via w c) v) h = (Ret x, h @ new) \<and> ?J (h @ new) \<and>
      meets ?J ?Q (Yield None) (own @ new) (h @ new)"
    by blast
qed

lemma fan_out_thread_meets:
  assumes up: "chain_up w" and matched: "matched p c"
  shows "meets (carries (transfer p) (payloadData p) h0) (\<lambda>own g r. r = None \<and> delivered (transfer p) (payloadData p) own g)
    (fan_out_thread w (consume_via w c) p i) [] g"
  unfolding fan_out_thread_def
proof (rule meets_turn)
  let ?J = "carries (transfer p) (payloadData p) h0" and ?Q = "\<lambda>own g r. r = None \<and> delivered (transfer p) (payloadData p) own g"
  let ?rand = "randomStr p @ ''-'' @ itoa (int i)"
  fix h
  assume h: "prefix g h" "?J h"
  obtain opts where dial: "run_state (getGRPCclient w (consumer_address p)) h = (Ret (), h @ [Dialed (consumer_address p) opts None])"
    by (rule run_getGRPCclient [OF up])
  let ?own = "[] @ [Dialed (consumer_address p) opts None]" and ?h = "h @ [Dialed (consumer_address p) opts None]"
  have J: "?J ?h" by (rule carries_append [OF h(2)]) simp_all
  have rest: "meets ?J ?Q (if via_storage (transfer p)
       then turn (uploadToStorage w (payloadData p) ?rand (storageBackend p)) (send_thread (consume_via w c))
       else send_thread (consume_via w c) (payloadData p)) ?own ?h"
  proof (cases "via_storage (transfer p)")
    case True
    then have s: "storage_ok (storageBackend p)" "via_storage (transferType (storageBackend p))"
      using matched by (auto simp: matched_def)
    have "\<exists>x new. run_state (uploadToStorage w (payloadData p) ?rand (storageBackend p)) h' = (Ret x, h' @ new) \<and> ?J (h' @ new) \<and>
        meets ?J ?Q (send_thread (consume_via w c) x) (?own @ new) (h' @ new)" if h': "prefix ?h h'" "?J h'" for h'
    proof -
      obtain e where e: "run_state (uploadToStorage w (payloadData p) ?rand (storageBackend p)) h' = (Ret (payload_key ?rand), h' @ [OnStorage e])"
        "fine (payloadData p) e" "holds (storageBackend p) (payload_key ?rand) (payloadData p) (storage_log (h' @ [OnStorage e]))"
        "taken_in (via_storage (transfer p)) (OnStorage e) = []"
        by (rule run_upload [OF up s])
      have J': "?J (h' @ [OnStorage e])" by (rule carries_append [OF h'(2)]) (use e(2,4) in simp_all)
      have "meets ?J ?Q (send_thread (consume_via w c) (payload_key ?rand)) (?own @ [OnStorage e]) (h' @ [OnStorage e])"
        by (rule send_thread_meets [OF up matched J']) (use e(3,4) True in simp_all)
      with e(1) J' show ?thesis by blast
    qed
    then show ?thesis using True by (simp only: if_True) (rule meets_turn)
  qed (use send_thread_meets [OF up matched J, of "payloadData p" ?own] in simp)
  show "\<exists>x new. run_state (getGRPCclient w (consumer_address p)) h = (Ret x, h @ new) \<and> ?J (h @ new) \<and>
      meets ?J ?Q (if via_storage (transfer p)
       then turn (uploadToStorage w (payloadData p) ?rand (storageBackend p)) (send_thread (consume_via w c))
       else send_thread (consume_via w c) (payloadData p)) ([] @ new) (h @ new)"
    using dial J rest by blast
qed

lemma bench_turns:
  "turns (send_thread consume v) 1" "turns (fan_out_thread w consume p i) 3" "turns (fetch_thread w s k) 1"
proof -
  show send: "turns (send_thread consume v) 1" for v using turns_turn [of "\<lambda>ack. Yield None" 0] by (simp add: send_thread_def)
  have "turns (turn m (send_thread consume)) 2" for m :: "string outcome chain"
    using turns_turn [of "send_thread consume" 1 m] send by (simp add: numeral_2_eq_2)
  moreover have "turns (send_thread consume v) 2" for v by (simp add: send_thread_def turn_def split: prod.split outcome.split)
  ultimately show "turns (fan_out_thread w consume p i) 3"
    unfolding fan_out_thread_def numeral_3_eq_3 by (intro turns_turn) (simp add: numeral_2_eq_2)
  show "turns (fetch_thread w s k) 1"
    using turns_turn [of "\<lambda>r. Yield (outcome_error r)" 0] by (simp add: fetch_thread_def)
qed

text \<open>A gathering of \<open>n\<close> goroutines that delivers: it can end, and it cannot get stuck before it has. Nothing but
  \<open>d\<close> is written, read or taken in on the way, and at the end \<open>d\<close> has been taken in \<open>n\<close> times, and the caller
  has \<open>n\<close> results, all \<open>nil\<close>.\<close>

definition delivers :: "string \<Rightarrow> string \<Rightarrow> nat \<Rightarrow> chain_event list \<Rightarrow> (chain_event, go_error option) gathering \<Rightarrow> bool" where
  "delivers tr d n h s0 \<longleftrightarrow>
     (\<exists>m s. runs_by (gather_step is_error n) s0 m s \<and> stuck is_error n s) \<and>
     (\<forall>m s. runs_by (gather_step is_error n) s0 m s \<longrightarrow>
        (\<exists>new. shared s = h @ new \<and> halted s = None \<and> list_all (fine d) (storage_log new) \<and> list_all (\<lambda>x. x = d) (taken tr new) \<and>
           (if stuck is_error n s then answer s = Some (replicate n None) \<and> taken tr new = replicate n d
            else \<exists>s'. gather_step is_error n s s')))"

lemma taken_mset: "mset xs = mset ys \<Longrightarrow> mset (taken tr xs) = mset (taken tr ys)"
proof -
  have "mset (taken tr xs) = sum_mset (image_mset (\<lambda>e. mset (taken_in (via_storage tr) e)) (mset xs))" for xs
    by (induction xs) simp_all
  then show "mset xs = mset ys \<Longrightarrow> mset (taken tr xs) = mset (taken tr ys)" by simp
qed

lemma added_taken:
  assumes added: "added_by (delivered tr d) n (h @ pre) (h @ new)" and pre: "taken tr pre = []"
  shows "taken tr new = replicate n d"
proof -
  obtain owns where owns: "length owns = n" "mset (h @ new) = mset (h @ pre) + mset (concat owns)"
    "\<forall>own\<in>set owns. taken tr own = [d]"
    using added by (auto simp: added_by_def delivered_def)
  have all: "taken tr (concat owns) = replicate (length owns) d" using owns(3) by (induction owns) simp_all
  have "mset new = mset (pre @ concat owns)" using owns(2) by simp
  then have "mset (taken tr new) = mset (replicate n d)"
    using taken_mset [of new "pre @ concat owns" tr] pre all owns(1) by simp
  then have "length (taken tr new) = n" "set (taken tr new) \<subseteq> {d}"
    using mset_eq_length mset_eq_setD by (metis length_replicate, fastforce)
  then show ?thesis by (intro replicate_eqI) auto
qed

lemma delivers_gathering:
  assumes "carries tr d h (h @ pre)" and "taken tr pre = []"
    and "\<And>t. t \<in> set ts \<Longrightarrow> meets (carries tr d h) (\<lambda>own g r. r = None \<and> delivered tr d own g) t [] (h @ pre) \<and> (\<exists>k. turns t k)"
    and "length ts = n"
  shows "delivers tr d n h (gather_start n ts (h @ pre))"
proof -
  have all: "gathers_all (carries tr d h) (delivered tr d) None is_error n (gather_start n ts (h @ pre))"
    by (rule gathers_allI) (use assms in \<open>simp_all add: is_error_def\<close>)
  have start: "shared (gather_start n ts (h @ pre)) = h @ pre" by (simp add: gather_start_def)
  have "\<exists>new. shared s = h @ new \<and> halted s = None \<and> list_all (fine d) (storage_log new) \<and> list_all (\<lambda>x. x = d) (taken tr new) \<and>
      (if stuck is_error n s then answer s = Some (replicate n None) \<and> taken tr new = replicate n d
       else \<exists>s'. gather_step is_error n s s')"
    if run: "runs_by (gather_step is_error n) (gather_start n ts (h @ pre)) m s" for m s
  proof -
    have s: "carries tr d h (shared s)" "halted s = None" "if stuck is_error n s
        then answer s = Some (replicate n None) \<and> added_by (delivered tr d) n (h @ pre) (shared s)
        else \<exists>s'. gather_step is_error n s s'"
      using all run unfolding gathers_all_def start by blast+
    from s(1) obtain new where new: "shared s = h @ new" "list_all (fine d) (storage_log new)" "list_all (\<lambda>x. x = d) (taken tr new)"
      by (auto simp: carries_def)
    with s(2,3) show ?thesis using added_taken [OF _ assms(2)] by (intro exI [of _ new]) auto
  qed
  then show ?thesis using all unfolding delivers_def gathers_all_def by blast
qed

lemma fanOut_delivers:
  assumes up: "chain_up w" and matched: "matched p c"
  shows "delivers (transfer p) (payloadData p) n h (fanOut w (consume_via w c) p n h)"
proof -
  have "transfer p = INLINE \<or> via_storage (transfer p)" using matched by (auto simp: matched_def split: if_splits)
  then have start: "fanOut w (consume_via w c) p n h = gather_start n (map (fan_out_thread w (consume_via w c) p) [0..<n]) h"
    by (simp add: fanOut_def)
  show ?thesis unfolding start
    by (rule delivers_gathering [of _ _ _ "[]", unfolded append_Nil2])
      (use fan_out_thread_meets [OF up matched] bench_turns(2) in \<open>auto intro: exI [of _ 3]\<close>)
qed

lemma broadcast_delivers:
  assumes up: "chain_up w" and matched: "matched p c"
  obtains v h' where "run_state (broadcast_value w p) h = (Ret v, h')"
    "delivers (transfer p) (payloadData p) n h (broadcast (consume_via w c) v n h')"
proof -
  let ?J = "carries (transfer p) (payloadData p) h"
  obtain opts where dial: "run_state (getGRPCclient w (consumer_address p)) h = (Ret (), h @ [Dialed (consumer_address p) opts None])"
    by (rule run_getGRPCclient [OF up])
  let ?h = "h @ [Dialed (consumer_address p) opts None]"
  have J: "?J ?h" by (rule carries_append) simp_all
  obtain v pre where v: "run_state (broadcast_value w p) h = (Ret (Some v), h @ pre)" "?J (h @ pre)" "taken (transfer p) pre = []"
    "if via_storage (transfer p) then holds (storageBackend p) v (payloadData p) (storage_log (h @ pre)) else v = payloadData p"
  proof (cases "via_storage (transfer p)")
    case True
    then have s: "storage_ok (storageBackend p)" "via_storage (transferType (storageBackend p))"
      using matched by (auto simp: matched_def)
    obtain e where e: "run_state (uploadToStorage w (payloadData p) (randomStr p) (storageBackend p)) ?h =
        (Ret (payload_key (randomStr p)), ?h @ [OnStorage e])" "fine (payloadData p) e"
      "holds (storageBackend p) (payload_key (randomStr p)) (payloadData p) (storage_log (?h @ [OnStorage e]))"
      "taken_in (via_storage (transfer p)) (OnStorage e) = []"
      by (rule run_upload [OF up s])
    have "?J (?h @ [OnStorage e])" by (rule carries_append [OF J]) (use e(2,4) in simp_all)
    with that [of "payload_key (randomStr p)" "[Dialed (consumer_address p) opts None, OnStorage e]"] True dial e show thesis
      by (simp add: broadcast_value_def)
  next
    case False
    then have "transfer p = INLINE" using matched by (simp add: matched_def)
    with that [of "payloadData p" "[Dialed (consumer_address p) opts None]"] False dial J show thesis
      by (simp add: broadcast_value_def)
  qed
  have "delivers (transfer p) (payloadData p) n h (broadcast (consume_via w c) (Some v) n (h @ pre))"
    unfolding broadcast_def option.case
    by (rule delivers_gathering [OF v(2,3)]) (use send_thread_meets [OF up matched v(2,4)] bench_turns(1) in auto)
  with that v(1) show thesis by blast
qed

text \<open>
  Property C15: under every schedule of their goroutines the fan-out and the broadcast benchmark bring the
  payload to every consumer: when they end, it has been taken in exactly as many times as there are
  consumers asked for, and there are as many results, all \<open>nil\<close>. Whatever is written, read or taken in on
  the way is the payload, no call fails, and the benchmark cannot get stuck before its end.
\<close>

theorem benchmark_delivers:
  assumes up: "chain_up w" and matched: "matched p c" and name: "name = FANOUT \<or> name = BROADCAST"
  shows "\<exists>s0. Benchmark w (consume_via w c) p name (int n) h = Gathers s0 \<and> delivers (transfer p) (payloadData p) n h s0"
proof (cases "name = FANOUT")
  case True
  then show ?thesis using fanOut_delivers [OF up matched] by (simp add: Benchmark_def)
next
  case False
  obtain v h' where v: "run_state (broadcast_value w p) h = (Ret v, h')"
    "delivers (transfer p) (payloadData p) n h (broadcast (consume_via w c) v n h')"
    by (rule broadcast_delivers [OF up matched])
  have "BROADCAST \<noteq> FANIN" by (simp add: BROADCAST_def FANIN_def)
  then show ?thesis using False name v by (simp add: Benchmark_def)
qed

theorem benchmark_delivers_witness:
  "\<exists>s0 m s. Benchmark memory_chain (consume_via memory_chain demo_consumer) demo_producer FANOUT 3 [] = Gathers s0 \<and>
     runs_by (gather_step is_error 3) s0 m s \<and> answer s = Some [None, None, None] \<and>
     taken ELASTICACHE (shared s) = [''0123456789'', ''0123456789'', ''0123456789'']"
proof -
  obtain s0 where s0: "Benchmark memory_chain (consume_via memory_chain demo_consumer) demo_producer FANOUT 3 [] = Gathers s0"
    "delivers ELASTICACHE ''0123456789'' 3 [] s0"
    using benchmark_delivers [OF chain_up_memory matched_demo, of FANOUT 3 "[]"] by (auto simp: demo_producer_def)
  then obtain m s where run: "runs_by (gather_step is_error 3) s0 m s" "stuck is_error 3 s"
    unfolding delivers_def by blast
  with s0(2) have "answer s = Some (replicate 3 None)" "taken ELASTICACHE (shared s) = replicate 3 ''0123456789''"
    unfolding delivers_def by (metis append_Nil)+
  then show ?thesis using s0(1) run(1) by (auto simp: numeral_3_eq_3)
qed

end
