(* ===== verification/ChainDriver.thy ===== *)
theory ChainDriver
  imports ChainedFunctions
begin

text \<open>
  The chain of \<open>benchmarks/chained-function-serving\<close> as a whole: how the producer and the consumer are set up
  by their \<open>main\<close>, and the driver (\<open>driver.go\<close>) that calls them, for one item, or for a benchmark that fans
  out or in. The driver's calls are arguments; the theorems put the producer and the consumer there.
\<close>

subsection \<open>Setting up producer and consumer\<close>

definition transfer_type :: "environment \<Rightarrow> string" where
  "transfer_type env = (case env ''TRANSFER_TYPE'' of None \<Rightarrow> INLINE | Some t \<Rightarrow> t)"

definition bucket_name :: "environment \<Rightarrow> string" where
  "bucket_name env = (case env ''BUCKET_NAME'' of None \<Rightarrow> ''vhive-prodcon-bench'' | Some b \<Rightarrow> b)"

definition transfer_size_kb :: "environment \<Rightarrow> int" where
  "transfer_size_kb env =
     (case env ''TRANSFER_SIZE_KB'' of
        None \<Rightarrow> 4095
      | Some v \<Rightarrow> (case atoi v of (x, None) \<Rightarrow> x | (_, Some err) \<Rightarrow> 4095))"

text \<open>\<open>make([]byte, n)\<close> for an \<open>int\<close> that may have wrapped around; a slice has at most \<open>2 ^ 48\<close> bytes.\<close>

definition slice_size :: "int \<Rightarrow> nat outcome" where
  "slice_size n =
     (let n = (n + 2 ^ 63) mod 2 ^ 64 - 2 ^ 63
      in if n < 0 \<or> 2 ^ 48 < n then Panic (NewError ''runtime error: makeslice: len out of range'') else Ret (nat n))"

text \<open>The zero value of the storage module.\<close>

definition no_storage :: storage where
  "no_storage = \<lparr>transferType = '''', bucketName = '''', AWS_ACCESS_KEY = '''', AWS_SECRET_KEY = '''', AWS_REGION = '''',
     redisClient = None, s3session = None\<rparr>"

definition storage_backend :: "chain_world \<Rightarrow> environment \<Rightarrow> storage outcome" where
  "storage_backend w env =
     (if via_storage (transfer_type env) then new_storage (chain_storage w) env (transfer_type env) (bucket_name env)
      else Ret no_storage)"

text \<open>\<open>rand\<close> fills a slice, \<open>new_xdt\<close> makes the client for XDT.\<close>

definition producer_setup ::
  "chain_world \<Rightarrow> (nat \<Rightarrow> go_error + string) \<Rightarrow> go_error option \<Rightarrow> environment \<Rightarrow> string \<Rightarrow> int \<Rightarrow> producer outcome"
where
  "producer_setup w rand new_xdt env addr port =
     out_bind (slice_size (transfer_size_kb env * 1024)) (\<lambda>n.
     case rand n of
       Inl err \<Rightarrow> Fatal ''rand''
     | Inr payload \<Rightarrow>
         out_bind (if transfer_type env = XDT
                   then (case new_xdt of Some err \<Rightarrow> Fatal ''InitXDT failed'' | None \<Rightarrow> Ret no_storage)
                   else storage_backend w env) (\<lambda>backend.
           Ret \<lparr>consumerAddr = addr, consumerPort = port, payloadData = payload, transfer = transfer_type env,
                randomStr = getenv env ''HOSTNAME'', storageBackend = backend\<rparr>))"

definition positive :: "environment \<Rightarrow> string \<Rightarrow> bool" where
  "positive env v = (case env v of None \<Rightarrow> False | Some x \<Rightarrow> (case atoi x of (i, None) \<Rightarrow> i > 0 | (_, Some err) \<Rightarrow> False))"

datatype consumer_server = XDTDestination | GrpcServer consumer

definition consumer_setup :: "chain_world \<Rightarrow> environment \<Rightarrow> consumer_server outcome" where
  "consumer_setup w env =
     out_bind (storage_backend w env) (\<lambda>backend.
       if transfer_type env = XDT \<and> \<not> positive env ''FANIN'' \<and> \<not> positive env ''BROADCAST'' then Ret XDTDestination
       else Ret (GrpcServer \<lparr>c_transfer = transfer_type env, c_storage = backend\<rparr>))"

subsection \<open>The driver\<close>

record driverServer =
  prodEndpoint :: string
  consEndpoint :: string
  consPort :: int
  prodPort :: int
  fanIn :: int
  fanOutAmount :: int
  broadcastAmount :: int

text \<open>What \<open>Atoi\<close> returns beside an error is used. For the ports the test of the error is the wrong way round.\<close>

definition env_amount :: "environment \<Rightarrow> string \<Rightarrow> int \<Rightarrow> int" where
  "env_amount env v flag = (case env v of None \<Rightarrow> flag | Some x \<Rightarrow> fst (atoi x))"

definition env_endpoint :: "environment \<Rightarrow> string \<Rightarrow> string \<Rightarrow> string" where
  "env_endpoint env v flag = (case env v of None \<Rightarrow> flag | Some x \<Rightarrow> x)"

definition env_port :: "environment \<Rightarrow> string \<Rightarrow> int \<Rightarrow> int" where
  "env_port env v flag =
     (case env v of None \<Rightarrow> flag | Some x \<Rightarrow> (case atoi x of (i, None) \<Rightarrow> flag | (i, Some err) \<Rightarrow> i))"

definition setEnv :: "environment \<Rightarrow> driverServer \<Rightarrow> driverServer" where
  "setEnv env flags =
     \<lparr>prodEndpoint = env_endpoint env ''PROD_ENDPOINT'' (prodEndpoint flags),
      consEndpoint = env_endpoint env ''CONS_ENDPOINT'' (consEndpoint flags),
      consPort = env_port env ''CONS_PORT'' (consPort flags), prodPort = env_port env ''PROD_PORT'' (prodPort flags),
      fanIn = env_amount env ''FANIN'' (fanIn flags), fanOutAmount = env_amount env ''FANOUT'' (fanOutAmount flags),
      broadcastAmount = env_amount env ''BROADCAST'' (broadcastAmount flags)\<rparr>"

text \<open>What the driver calls: the producer's \<open>Benchmark\<close> and \<open>SayHello\<close>, by address, and the consumer's
  \<open>FetchByte\<close>.\<close>

record driver_world =
  driver_dial :: "chain_event list \<Rightarrow> string \<Rightarrow> go_error option"
  driver_tracing :: bool
  bench :: "string \<Rightarrow> string \<Rightarrow> int \<Rightarrow> (go_error + string) chain"
  hello :: "string \<Rightarrow> (go_error + string) chain"
  fetch :: "string \<Rightarrow> string list \<Rightarrow> (go_error + bool) chain"

definition driver_connect :: "driver_world \<Rightarrow> string \<Rightarrow> unit outcome chain" where
  "driver_connect d addr =
     or_fatal_err ''did not connect'' (perform (\<lambda>h. driver_dial d h addr)
       (Dialed addr ([WithBlock, InsecureCredentials] @ (if driver_tracing d then [ClientStats] else []))))"

definition driver_SayHello :: "driver_world \<Rightarrow> string \<Rightarrow> unit outcome chain" where
  "driver_SayHello d address = obind (driver_connect d address) (\<lambda>_. ignore_result (hello d address))"

text \<open>A goroutine of the fan-in sends its error, or \<open>nil\<close>, on one channel and then its capability on another.
  The caller takes a capability for each \<open>nil\<close>; here both are one result.\<close>

definition fan_in_thread :: "driver_world \<Rightarrow> string \<Rightarrow> nat \<Rightarrow> (chain_event, go_error + string) thread" where
  "fan_in_thread d prodAddr n =
     turn (driver_connect d prodAddr) (\<lambda>_. turn (State_Monad.bind (bench d prodAddr FANIN (int n)) oreturn) Yield)"

definition benchFanIn :: "driver_world \<Rightarrow> string \<Rightarrow> nat \<Rightarrow> chain_event list \<Rightarrow> (chain_event, go_error + string) gathering" where
  "benchFanIn d prodAddr n h = gather_start n (replicate n (fan_in_thread d prodAddr n)) h"

text \<open>When no push failed the capabilities go to the consumer.\<close>

definition reduce :: "driver_world \<Rightarrow> string \<Rightarrow> string list \<Rightarrow> unit outcome chain" where
  "reduce d consAddr capabilities = obind (driver_connect d consAddr) (\<lambda>_. ignore_result (fetch d consAddr capabilities))"

definition after_fan_in :: "driver_world \<Rightarrow> string \<Rightarrow> (go_error + string) list \<Rightarrow> unit outcome chain" where
  "after_fan_in d consAddr rs = (if list_ex isl rs then oreturn () else reduce d consAddr (map projr rs))"

definition benchFanOut :: "driver_world \<Rightarrow> string \<Rightarrow> int \<Rightarrow> unit outcome chain" where
  "benchFanOut d prodAddr amount = obind (driver_connect d prodAddr) (\<lambda>_. ignore_result (bench d prodAddr FANOUT amount))"

definition benchBroadcast :: "driver_world \<Rightarrow> string \<Rightarrow> int \<Rightarrow> unit outcome chain" where
  "benchBroadcast d prodAddr amount = obind (driver_connect d prodAddr) (\<lambda>_. ignore_result (bench d prodAddr BROADCAST amount))"

text \<open>An invocation fans in, or is one computation. The reply of the driver is always a success.\<close>

datatype invocation = FanIn nat | Single "unit outcome chain"

definition invokeServingFunction :: "driver_world \<Rightarrow> string \<Rightarrow> int \<Rightarrow> int \<Rightarrow> int \<Rightarrow> invocation" where
  "invokeServingFunction d prodAddr fanInN fanOutN broadcastN =
     (if fanInN > 0 then FanIn (nat fanInN)
      else if fanOutN > 0 then Single (benchFanOut d prodAddr fanOutN)
      else if broadcastN > 0 then Single (benchBroadcast d prodAddr broadcastN)
      else Single (driver_SayHello d prodAddr))"

definition driver_serve :: "driver_world \<Rightarrow> driverServer \<Rightarrow> invocation \<times> string" where
  "driver_serve d s =
     (invokeServingFunction d (prodEndpoint s @ '':'' @ itoa (prodPort s)) (fanIn s) (fanOutAmount s) (broadcastAmount s),
      consEndpoint s @ '':'' @ itoa (consPort s))"

subsection \<open>Lemmas\<close>

lemma out_bind_RetE: "out_bind m f = Ret y \<Longrightarrow> (\<And>x. m = Ret x \<Longrightarrow> f x = Ret y \<Longrightarrow> P) \<Longrightarrow> P"
  by (cases m) auto

lemma storage_backend_made:
  assumes "storage_backend w env = Ret s" and "via_storage (transfer_type env)"
  shows "storage_ok s" "transferType s = transfer_type env"
  using assms new_storage_ok [of "chain_storage w" env "transfer_type env" "bucket_name env" s] by (auto simp: storage_backend_def)

text \<open>The producer as the driver's fan-in sees it; gRPC answers for a producer that ended.\<close>

definition push_via :: "chain_world \<Rightarrow> producer \<Rightarrow> (go_error + string) chain" where
  "push_via w p =
     State_Monad.bind (putData w p) (\<lambda>r.
       State_Monad.return (case r of Ret (capability, ok) \<Rightarrow> Inr capability | Panic e \<Rightarrow> Inl unavailable | Fatal m \<Rightarrow> Inl unavailable))"

definition driver_of :: "driver_world \<Rightarrow> chain_world \<Rightarrow> producer \<Rightarrow> bool" where
  "driver_of d w p \<longleftrightarrow> (\<forall>h a. driver_dial d h a = None) \<and> (\<forall>a k. bench d a FANIN k = push_via w p)"

lemma run_driver_connect: "driver_of d w p \<Longrightarrow> \<exists>opts. run_state (driver_connect d addr) h = (Ret (), h @ [Dialed addr opts None])"
  by (simp add: driver_of_def driver_connect_def)

text \<open>A push, and the capability it gives: the key of the one payload, or nothing.\<close>

definition capability_of :: "producer \<Rightarrow> string" where
  "capability_of p = (if via_storage (transfer p) then payload_key (randomStr p) else '''')"

lemma run_push:
  assumes up: "chain_up w" and matched: "matched p c"
  obtains new where "run_state (push_via w p) h = (Inr (capability_of p), h @ new)"
    "list_all (fine (payloadData p)) (storage_log new)" "taken (transfer p) new = []"
    "via_storage (transfer p) \<longrightarrow> holds (storageBackend p) (capability_of p) (payloadData p) (storage_log (h @ new))"
proof (cases "via_storage (transfer p)")
  case True
  then have s: "storage_ok (storageBackend p)" "via_storage (transferType (storageBackend p))"
    using matched by (auto simp: matched_def)
  obtain e where "run_state (uploadToStorage w (payloadData p) (randomStr p) (storageBackend p)) h =
      (Ret (payload_key (randomStr p)), h @ [OnStorage e])" "fine (payloadData p) e"
    "holds (storageBackend p) (payload_key (randomStr p)) (payloadData p) (storage_log (h @ [OnStorage e]))"
    "taken_in (via_storage (transfer p)) (OnStorage e) = []"
    by (rule run_upload [OF up s])
  then show thesis using True that [of "[OnStorage e]"]
    by (simp add: push_via_def putData_def capability_of_def run_state_bind run_state_return)
next
  case False
  then have "transfer p \<noteq> XDT" using matched by (simp add: matched_def)
  then show thesis using False that [of "[]"]
    by (simp add: push_via_def putData_def capability_of_def run_state_bind run_state_return)
qed

text \<open>A log of the fan-in after a push.\<close>

definition pushed :: "producer \<Rightarrow> chain_event list \<Rightarrow> chain_event list \<Rightarrow> bool" where
  "pushed p h0 h \<longleftrightarrow> carries (transfer p) (payloadData p) h0 h \<and>
     (via_storage (transfer p) \<longrightarrow> holds (storageBackend p) (capability_of p) (payloadData p) (storage_log h))"

lemma fan_in_thread_meets:
  assumes up: "chain_up w" and matched: "matched p c" and d: "driver_of d w p"
  shows "meets (carries (transfer p) (payloadData p) h0) (\<lambda>own g r. r = Inr (capability_of p) \<and> pushed p h0 g)
    (fan_in_thread d addr n) own g"
  unfolding fan_in_thread_def
proof (rule meets_turn)
  let ?J = "carries (transfer p) (payloadData p) h0" and ?Q = "\<lambda>own g r. r = Inr (capability_of p) \<and> pushed p h0 g"
  let ?push = "State_Monad.bind (bench d addr FANIN (int n)) oreturn"
  fix h
  assume h: "prefix g h" "?J h"
  obtain opts where dial: "run_state (driver_connect d addr) h = (Ret (), h @ [Dialed addr opts None])"
    using run_driver_connect [OF d] by blast
  have J: "?J (h @ [Dialed addr opts None])" by (rule carries_append [OF h(2)]) simp_all
  have "meets ?J ?Q (turn ?push Yield) (own @ [Dialed addr opts None]) (h @ [Dialed addr opts None])"
  proof (rule meets_turn)
    fix h' assume h': "?J h'"
    obtain new where new: "run_state (push_via w p) h' = (Inr (capability_of p), h' @ new)"
      "list_all (fine (payloadData p)) (storage_log new)" "taken (transfer p) new = []"
      "via_storage (transfer p) \<longrightarrow> holds (storageBackend p) (capability_of p) (payloadData p) (storage_log (h' @ new))"
      by (rule run_push [OF up matched, where h = h'])
    have "?J (h' @ new)" by (rule carries_append [OF h']) (use new in simp_all)
    then have "?J (h' @ new) \<and> pushed p h0 (h' @ new)" using new(4) by (auto simp: pushed_def)
    moreover have "run_state ?push h' = (Ret (Inr (capability_of p)), h' @ new)"
      using d new(1) by (simp add: driver_of_def run_state_bind)
    ultimately show "\<exists>x new. run_state ?push h' = (Ret x, h' @ new) \<and> ?J (h' @ new) \<and>
        meets ?J ?Q (Yield x) ((own @ [Dialed addr opts None]) @ new) (h' @ new)"
      by (intro exI [of _ "Inr (capability_of p)"] exI [of _ new]) simp
  qed
  with dial J show "\<exists>x new. run_state (driver_connect d addr) h = (Ret x, h @ new) \<and> ?J (h @ new) \<and>
      meets ?J ?Q (turn ?push Yield) (own @ new) (h @ new)"
    by blast
qed

lemma fan_in_gathers:
  assumes up: "chain_up w" and matched: "matched p c" and d: "driver_of d w p"
  shows "gathers_all (carries (transfer p) (payloadData p) h) (\<lambda>own. pushed p h) (Inr (capability_of p)) isl n (benchFanIn d addr n h)"
proof -
  have "turns (fan_in_thread d addr n) 2"
    unfolding fan_in_thread_def numeral_2_eq_2 by (intro turns_turn) simp
  then show ?thesis
    unfolding benchFanIn_def by (intro gathers_allI) (use fan_in_thread_meets [OF up matched d] in auto)
qed

text \<open>The consumer fetches each capability that its storage holds, and does nothing else.\<close>

abbreviation fetches :: "consumer \<Rightarrow> string \<Rightarrow> string \<Rightarrow> chain_event" where
  "fetches c k d \<equiv> OnStorage (fetched (c_storage c) k d)"

lemma fetch_thread_meets:
  assumes up: "chain_up w" and matched: "matched p c" and via: "via_storage (transfer p)"
    and held: "holds (storageBackend p) k d (storage_log h0)"
  shows "meets (carries (transfer p) d h0) (\<lambda>own g r. r = None \<and> own = [fetches c k d]) (fetch_thread w (c_storage c) k) [] h0"
  unfolding fetch_thread_def
proof (rule meets_turn)
  fix h
  assume h: "prefix h0 h" "carries (transfer p) d h0 h"
  have same: "same_store (storageBackend p) (c_storage c)" using matched via by (simp add: matched_def)
  have "run_state (fetchFromStorage w k (c_storage c)) h = (Ret (Inr (length d)), h @ [fetches c k d])"
    by (rule run_fetch [OF up carries_holds [OF carries_refl h(2,1) held] same])
  moreover have "carries (transfer p) d h0 (h @ [fetches c k d])"
    by (rule carries_append [OF h(2)]) (use via in \<open>simp_all add: fetched_def\<close>)
  ultimately show "\<exists>x new. run_state (fetchFromStorage w k (c_storage c)) h = (Ret x, h @ new) \<and> carries (transfer p) d h0 (h @ new) \<and>
      meets (carries (transfer p) d h0) (\<lambda>own g r. r = None \<and> own = [fetches c k d]) (Yield (outcome_error x)) ([] @ new) (h @ new)"
    by (auto simp: outcome_error_def intro!: exI)
qed

lemma added_same:
  assumes "added_by (\<lambda>own g. own = [e]) n h (h @ new)"
  shows "new = replicate n e"
proof -
  obtain owns where owns: "length owns = n" "mset new = mset (concat owns)" "\<forall>own\<in>set owns. own = [e]"
    using assms by (auto simp: added_by_def)
  have "concat owns = replicate (length owns) e" using owns(3) by (induction owns) simp_all
  then have "mset new = mset (replicate n e)" using owns(1,2) by simp
  then have "length new = n" "set new \<subseteq> {e}"
    using mset_eq_length mset_eq_setD by (metis length_replicate, fastforce)
  then show ?thesis by (intro replicate_eqI) auto
qed

lemma FetchByte_fetches:
  assumes up: "chain_up w" and matched: "matched p c" and via: "via_storage (transfer p)"
    and held: "0 < n \<Longrightarrow> holds (storageBackend p) k d (storage_log h)"
  shows "(\<exists>m t. runs_by (gather_step is_error n) (FetchByte w c (replicate n k) h) m t \<and> stuck is_error n t) \<and>
    (\<forall>m t. runs_by (gather_step is_error n) (FetchByte w c (replicate n k) h) m t \<longrightarrow>
       (if stuck is_error n t then answer t = Some (replicate n None) \<and> shared t = h @ replicate n (fetches c k d)
        else \<exists>t'. gather_step is_error n t t'))"
proof -
  let ?s0 = "gather_start n (map (fetch_thread w (c_storage c)) (replicate n k)) h"
  have start: "FetchByte w c (replicate n k) h = ?s0" "shared ?s0 = h"
    using matched via by (simp_all add: FetchByte_def matched_def gather_start_def)
  have all: "gathers_all (carries (transfer p) d h) (\<lambda>own g. own = [fetches c k d]) None is_error n ?s0"
    by (rule gathers_allI)
      (use fetch_thread_meets [OF up matched via held] bench_turns(3) in \<open>auto simp: is_error_def intro!: exI [of _ 1]\<close>)
  have "if stuck is_error n t then answer t = Some (replicate n None) \<and> shared t = h @ replicate n (fetches c k d)
        else \<exists>t'. gather_step is_error n t t'"
    if run: "runs_by (gather_step is_error n) ?s0 m t" for m t
  proof -
    have t: "carries (transfer p) d h (shared t)" "if stuck is_error n t
        then answer t = Some (replicate n None) \<and> added_by (\<lambda>own g. own = [fetches c k d]) n h (shared t)
        else \<exists>t'. gather_step is_error n t t'"
      using all run unfolding gathers_all_def start(2) by blast+
    then show ?thesis using added_same by (auto simp: carries_def)
  qed
  then show ?thesis using all unfolding start gathers_all_def by blast
qed

subsection \<open>Properties\<close>

text \<open>
  What \<open>main\<close> sets up from environments that agree on the transfer type and the bucket fits
  together: the consumer serves gRPC with the producer's transfer, and its storage module reads what
  the producer's writes. The payload has 4095 kB unless the environment says otherwise.
\<close>

theorem setup_matched:
  assumes p: "producer_setup w rand new_xdt env addr port = Ret p" and c: "consumer_setup w' env' = Ret server"
    and env: "env ''TRANSFER_TYPE'' = env' ''TRANSFER_TYPE''" "env ''BUCKET_NAME'' = env' ''BUCKET_NAME''"
    and kind: "transfer p = INLINE \<or> transfer p = S3 \<or> transfer p = ELASTICACHE"
  shows "\<exists>c. server = GrpcServer c \<and> matched p c \<and>
    (env ''TRANSFER_SIZE_KB'' = None \<longrightarrow> rand 4193280 = Inr (payloadData p))"
proof -
  obtain n where n: "slice_size (transfer_size_kb env * 1024) = Ret n" "rand n = Inr (payloadData p)"
    and p': "transfer p = transfer_type env" "transfer_type env \<noteq> XDT \<longrightarrow> storage_backend w env = Ret (storageBackend p)"
  proof -
    obtain n where n: "slice_size (transfer_size_kb env * 1024) = Ret n"
      using p by (auto simp: producer_setup_def)
    then show thesis using p that by (cases "rand n"; cases "transfer_type env = XDT") (auto simp: producer_setup_def)
  qed
  have not_xdt: "transfer_type env \<noteq> XDT" using kind p'(1) by auto
  with p'(2) have backend: "storage_backend w env = Ret (storageBackend p)" by blast
  have same: "transfer_type env' = transfer_type env" "bucket_name env' = bucket_name env"
    using env by (simp_all add: transfer_type_def bucket_name_def)
  obtain backend' where c': "storage_backend w' env' = Ret backend'"
    "server = GrpcServer \<lparr>c_transfer = transfer_type env, c_storage = backend'\<rparr>"
    using c not_xdt same by (auto simp: consumer_setup_def)
  have "matched p \<lparr>c_transfer = transfer_type env, c_storage = backend'\<rparr>"
  proof (cases "via_storage (transfer_type env)")
    case True
    then have "same_store (storageBackend p) backend'"
      using backend c'(1) same new_storage_same by (simp add: storage_backend_def)
    then show ?thesis using True p'(1) storage_backend_made [OF backend True] by (simp add: matched_def)
  next
    case False
    then show ?thesis using p'(1) kind by (auto simp: matched_def)
  qed
  moreover have "n = 4193280" if "env ''TRANSFER_SIZE_KB'' = None"
    using n(1) that by (simp add: transfer_size_kb_def slice_size_def)
  ultimately show ?thesis using c'(2) n(2) by auto
qed

theorem setup_matched_witness:
  "\<exists>p c. producer_setup memory_chain (\<lambda>n. Inr ''bytes'') None [''TRANSFER_TYPE'' \<mapsto> ''ELASTICACHE'', ''HOSTNAME'' \<mapsto> ''p1''] ''consumer'' 80 = Ret p \<and>
     consumer_setup memory_chain [''TRANSFER_TYPE'' \<mapsto> ''ELASTICACHE''] = Ret (GrpcServer c) \<and> matched p c"
proof -
  let ?env = "[''TRANSFER_TYPE'' \<mapsto> ''ELASTICACHE'', ''HOSTNAME'' \<mapsto> ''p1'']" and ?env' = "[''TRANSFER_TYPE'' \<mapsto> ''ELASTICACHE'']"
  have "XDT \<noteq> ''ELASTICACHE''" by (simp add: XDT_def)
  then obtain p where p: "producer_setup memory_chain (\<lambda>n. Inr ''bytes'') None ?env ''consumer'' 80 = Ret p" "transfer p = ''ELASTICACHE''"
    by (auto simp: producer_setup_def transfer_size_kb_def slice_size_def transfer_type_def storage_backend_def via_storage_def
        S3_def ELASTICACHE_def new_storage_def)
  obtain server where c: "consumer_setup memory_chain ?env' = Ret server"
    using \<open>XDT \<noteq> ''ELASTICACHE''\<close> by (auto simp: consumer_setup_def transfer_type_def storage_backend_def via_storage_def
        S3_def ELASTICACHE_def new_storage_def)
  from setup_matched [OF p(1) c] p c show ?thesis by (auto simp: ELASTICACHE_def)
qed

text \<open>
  Property C14: a fan-in through storage, under every schedule of its pushes and then of the fetches. The
  driver gets as many capabilities as it asked for and passes them to the consumer. The consumer can
  finish and cannot get stuck before; when it has, it has fetched the payload under each of the
  capabilities, once each, has done nothing else with the storage, and has only \<open>nil\<close> results, so that it
  replies with success. But all capabilities are one key: every push has overwritten the one before.
\<close>

theorem fan_in_reduces:
  assumes up: "chain_up w" and matched: "matched p c" and via: "via_storage (transfer p)" and d: "driver_of d w p"
  shows "(\<exists>m s. runs_by (gather_step isl n) (benchFanIn d addr n h) m s \<and> stuck isl n s) \<and>
    (\<forall>m s. runs_by (gather_step isl n) (benchFanIn d addr n h) m s \<and> stuck isl n s \<longrightarrow>
      (let key = payload_key (randomStr p); s' = FetchByte w c (replicate n key) (shared s)
       in answer s = Some (replicate n (Inr key)) \<and>
          after_fan_in d consAddr (replicate n (Inr key)) = reduce d consAddr (replicate n key) \<and>
          carries (transfer p) (payloadData p) h (shared s) \<and>
          (\<exists>k t. runs_by (gather_step is_error n) s' k t \<and> stuck is_error n t) \<and>
          (\<forall>k t. runs_by (gather_step is_error n) s' k t \<longrightarrow>
             (if stuck is_error n t
              then shared t = shared s @ replicate n (fetches c key (payloadData p)) \<and>
                answer t = Some (replicate n None) \<and> fetch_reply (replicate n None) = Inr True
              else \<exists>t'. gather_step is_error n t t'))))"
proof (intro conjI allI impI)
  note all = fan_in_gathers [OF up matched d, of h n addr, unfolded gathers_all_def]
  show "\<exists>m s. runs_by (gather_step isl n) (benchFanIn d addr n h) m s \<and> stuck isl n s" using all by blast
  fix m s
  assume run: "runs_by (gather_step isl n) (benchFanIn d addr n h) m s \<and> stuck isl n s"
  let ?key = "payload_key (randomStr p)"
  have key: "capability_of p = ?key" using via by (simp add: capability_of_def)
  have s: "carries (transfer p) (payloadData p) h (shared s)" "answer s = Some (replicate n (Inr ?key))"
    "added_by (\<lambda>own. pushed p h) n (shared (benchFanIn d addr n h)) (shared s)"
    using all run unfolding key by (auto split: if_splits)
  have held: "holds (storageBackend p) ?key (payloadData p) (storage_log (shared s))" if "0 < n"
  proof -
    obtain owns :: "chain_event list list" where "length owns = n" "\<forall>own\<in>set owns. \<exists>g. prefix g (shared s) \<and> pushed p h g"
      using s(3) unfolding added_by_def by blast
    then obtain g where "prefix g (shared s)" "pushed p h g" using \<open>0 < n\<close> by (cases owns) auto
    then show ?thesis using via carries_holds [OF _ s(1)] by (auto simp: pushed_def key)
  qed
  have reply: "fetch_reply (replicate n None) = Inr True" "\<not> list_ex isl (replicate n (Inr ?key :: go_error + string))"
  proof -
    have "find is_error (replicate n None) = None" by (simp add: find_None_iff is_error_def)
    then show "fetch_reply (replicate n None) = Inr True" by (simp add: fetch_reply_def)
  qed (auto simp: list_ex_iff)
  show "let key = ?key; s' = FetchByte w c (replicate n key) (shared s)
       in answer s = Some (replicate n (Inr key)) \<and>
          after_fan_in d consAddr (replicate n (Inr key)) = reduce d consAddr (replicate n key) \<and>
          carries (transfer p) (payloadData p) h (shared s) \<and>
          (\<exists>k t. runs_by (gather_step is_error n) s' k t \<and> stuck is_error n t) \<and>
          (\<forall>k t. runs_by (gather_step is_error n) s' k t \<longrightarrow>
             (if stuck is_error n t
              then shared t = shared s @ replicate n (fetches c key (payloadData p)) \<and>
                answer t = Some (replicate n None) \<and> fetch_reply (replicate n None) = Inr True
              else \<exists>t'. gather_step is_error n t t'))"
    using FetchByte_fetches [OF up matched via held, where n = n] s(1,2) reply
    unfolding Let_def by (simp add: after_fan_in_def)
qed

definition demo_driver :: driver_world where
  "demo_driver = \<lparr>driver_dial = \<lambda>h a. None, driver_tracing = False, bench = \<lambda>a name k. push_via memory_chain demo_producer,
     hello = \<lambda>a. State_Monad.return (Inr ''Success''), fetch = \<lambda>a ks. State_Monad.return (Inr True)\<rparr>"

theorem fan_in_reduces_witness:
  "\<exists>m s k t. runs_by (gather_step isl 3) (benchFanIn demo_driver ''producer:80'' 3 []) m s \<and>
     runs_by (gather_step is_error 3)
       (FetchByte memory_chain demo_consumer (replicate 3 ''payload_bytes_producer-1.txt'') (shared s)) k t \<and>
     shared t = shared s @ replicate 3 (OnStorage (RedisGet ''redis:6379'' ''payload_bytes_producer-1.txt'' (Inr ''0123456789''))) \<and>
     answer t = Some [None, None, None]"
proof -
  have "driver_of demo_driver memory_chain demo_producer" by (simp add: driver_of_def demo_driver_def)
  moreover have "via_storage (transfer demo_producer)" by (simp add: demo_producer_def)
  moreover have key: "payload_key (randomStr demo_producer) = ''payload_bytes_producer-1.txt''"
    "fetches demo_consumer k (payloadData demo_producer) = OnStorage (RedisGet ''redis:6379'' k (Inr ''0123456789''))" for k
    by (simp_all add: payload_key_def demo_producer_def demo_consumer_def redis_module_def fetched_def)
  ultimately have "\<exists>m s. runs_by (gather_step isl 3) (benchFanIn demo_driver ''producer:80'' 3 []) m s \<and> stuck isl 3 s"
    and run: "\<And>m s. runs_by (gather_step isl 3) (benchFanIn demo_driver ''producer:80'' 3 []) m s \<and> stuck isl 3 s \<Longrightarrow>
      (\<exists>k t. runs_by (gather_step is_error 3)
         (FetchByte memory_chain demo_consumer (replicate 3 ''payload_bytes_producer-1.txt'') (shared s)) k t \<and> stuck is_error 3 t) \<and>
      (\<forall>k t. runs_by (gather_step is_error 3)
         (FetchByte memory_chain demo_consumer (replicate 3 ''payload_bytes_producer-1.txt'') (shared s)) k t \<longrightarrow>
           (if stuck is_error 3 t
            then shared t = shared s @ replicate 3 (OnStorage (RedisGet ''redis:6379'' ''payload_bytes_producer-1.txt'' (Inr ''0123456789''))) \<and>
              answer t = Some (replicate 3 None) \<and> fetch_reply (replicate 3 None) = Inr True
            else \<exists>t'. gather_step is_error 3 t t'))"
    using fan_in_reduces [OF chain_up_memory matched_demo, of demo_driver 3 "''producer:80''" "[]"]
    unfolding Let_def key by blast+
  then obtain m s where s: "runs_by (gather_step isl 3) (benchFanIn demo_driver ''producer:80'' 3 []) m s \<and> stuck isl 3 s" by blast
  from run [OF s] obtain k t where "runs_by (gather_step is_error 3)
      (FetchByte memory_chain demo_consumer (replicate 3 ''payload_bytes_producer-1.txt'') (shared s)) k t"
    "shared t = shared s @ replicate 3 (OnStorage (RedisGet ''redis:6379'' ''payload_bytes_producer-1.txt'' (Inr ''0123456789'')))"
    "answer t = Some (replicate 3 None)"
    by fastforce
  with s show ?thesis by (intro exI [of _ m] exI [of _ s] exI [of _ k] exI [of _ t]) (simp add: numeral_3_eq_3)
qed

text \<open>
  Property C30: a fan-in with the payload sent inline never comes to an end. The pushes give empty
  capabilities and report no error, so the driver asks the consumer to fetch them; the consumer starts no
  goroutine for this transfer, and waits for results that nobody sends.
\<close>

theorem inline_fan_in_hangs:
  assumes up: "chain_up w" and matched: "matched p c" and inline: "transfer p = INLINE" and d: "driver_of d w p" and n: "0 < n"
  shows "(\<exists>m s. runs_by (gather_step isl n) (benchFanIn d addr n h) m s \<and> stuck isl n s) \<and>
    (\<forall>m s. runs_by (gather_step isl n) (benchFanIn d addr n h) m s \<and> stuck isl n s \<longrightarrow>
      answer s = Some (replicate n (Inr '''')) \<and> after_fan_in d consAddr (replicate n (Inr '''')) = reduce d consAddr (replicate n '''') \<and>
      (\<forall>k t. runs_by (gather_step is_error n) (FetchByte w c (replicate n '''') (shared s)) k t \<longrightarrow> k = 0 \<and> answer t = None))"
proof (intro conjI allI impI)
  note all = fan_in_gathers [OF up matched d, of h n addr, unfolded gathers_all_def]
  have empty: "capability_of p = ''''" using inline by (simp add: capability_of_def)
  show "\<exists>m s. runs_by (gather_step isl n) (benchFanIn d addr n h) m s \<and> stuck isl n s" using all by blast
  fix m s
  assume run: "runs_by (gather_step isl n) (benchFanIn d addr n h) m s \<and> stuck isl n s"
  show "answer s = Some (replicate n (Inr ''''))" using all run unfolding empty by (auto split: if_splits)
  show "after_fan_in d consAddr (replicate n (Inr '''')) = reduce d consAddr (replicate n '''')"
    by (auto simp: after_fan_in_def list_ex_iff)
  fix k t
  have "c_transfer c = INLINE" using matched inline by (simp add: matched_def)
  then have "FetchByte w c (replicate n '''') (shared s) = gather_start n [] (shared s)" by (simp add: FetchByte_def)
  moreover assume "runs_by (gather_step is_error n) (FetchByte w c (replicate n '''') (shared s)) k t"
  ultimately show "k = 0" "answer t = None" using gather_nobody [OF n] by auto
qed

definition inline_producer :: producer where
  "inline_producer = demo_producer\<lparr>transfer := INLINE, storageBackend := no_storage\<rparr>"

definition inline_driver :: driver_world where
  "inline_driver = demo_driver\<lparr>bench := \<lambda>a name k. push_via memory_chain inline_producer\<rparr>"

theorem inline_fan_in_hangs_witness:
  "\<exists>m s. runs_by (gather_step isl 2) (benchFanIn inline_driver ''producer:80'' 2 []) m s \<and> answer s = Some [Inr '''', Inr ''''] \<and>
     (\<forall>k t. runs_by (gather_step is_error 2) (FetchByte memory_chain \<lparr>c_transfer = INLINE, c_storage = no_storage\<rparr> ['''', ''''] (shared s)) k t
        \<longrightarrow> answer t = None)"
proof -
  have "matched inline_producer \<lparr>c_transfer = INLINE, c_storage = no_storage\<rparr>" "transfer inline_producer = INLINE"
    by (simp_all add: matched_def inline_producer_def)
  moreover have "driver_of inline_driver memory_chain inline_producer"
    by (simp add: driver_of_def inline_driver_def demo_driver_def)
  ultimately show ?thesis
    using inline_fan_in_hangs [OF chain_up_memory, of inline_producer "\<lparr>c_transfer = INLINE, c_storage = no_storage\<rparr>" inline_driver 2 "''producer:80''" "[]"]
    by (simp add: numeral_2_eq_2) blast
qed

text \<open>The environment cannot set the driver's ports: a number in it is ignored, and of anything else the
  value beside the error of \<open>Atoi\<close> is taken.\<close>

theorem ports_from_environment:
  "prodPort (setEnv env flags) \<in> {prodPort flags, 0, 9223372036854775807, - 9223372036854775808} \<and>
   consPort (setEnv env flags) \<in> {consPort flags, 0, 9223372036854775807, - 9223372036854775808} \<and>
   prodPort (setEnv [''PROD_PORT'' \<mapsto> itoa 8080] flags) = prodPort flags \<and> prodPort (setEnv [''PROD_PORT'' \<mapsto> ''tcp://10.0.0.1:80''] flags) = 0"
proof -
  have "env_port env v flag \<in> {flag, 0, 9223372036854775807, - 9223372036854775808}" for v flag
    by (auto simp: env_port_def parse_int64_def Let_def split: option.split prod.splits if_splits)
  moreover have "atoi (itoa 8080) = (8080, None)" by (rule atoi_itoa) simp_all
  moreover have "atoi ''tcp://10.0.0.1:80'' = (0, Some ErrSyntax)"
    by (simp add: parse_int64_def parse_sign_def parse_uint_def is_digit_def)
  ultimately show ?thesis by (simp add: setEnv_def env_port_def)
qed

end
