(* ===== verification/ExperimentInterface.thy ===== *)
theory ExperimentInterface
  imports GoPrelude GoStrings "HOL-Library.AList" "HOL-Library.Multiset"
begin

text \<open>
  The messages of \<open>tools/benchmarking_eventing/proto/timeseries.proto\<close> and the contract between
  the time-series database and the invoker that reads its results. A Go map is an association
  list with distinct keys; its order stands for the unspecified order of a range loop. Points
  in time and durations are numbers of nanoseconds, a missing (nil) duration is \<^term>\<open>None\<close>.
\<close>

datatype invocation_status = NULL | COMPLETED | CANCELLED

record vhive_metadata =
  WorkflowId :: string
  InvocationId :: string
  InvokedOn :: int

record proto_event =
  VHiveMetadata :: vhive_metadata
  Attributes :: "(string \<times> string) list"
  Data :: string

record event_record =
  RecEvent :: proto_event
  RecordedOn :: int
  IsCompletion :: bool

type_synonym matchers = "(string \<times> string) list"

record invocation_descriptor =
  InvId :: string
  InvInvokedOn :: int
  Duration :: "int option"
  EventRecords :: "event_record list"
  Status :: invocation_status

record workflow_definition =
  WdId :: string
  CompletionEventDescriptors :: "matchers list"

type_synonym experiment_definition = "(string \<times> workflow_definition) list"
type_synonym experiment_result = "(string \<times> invocation_descriptor list) list"

text \<open>\<open>x.AsDuration()\<close> of a nil duration is 0.\<close>

definition as_duration :: "int option \<Rightarrow> int" where
  "as_duration d = (case d of None \<Rightarrow> 0 | Some n \<Rightarrow> n)"

definition int64_min :: int where "int64_min = - 9223372036854775808"
definition int64_max :: int where "int64_max = 9223372036854775807"

text \<open>\<open>t.Sub(u)\<close> saturates at the bounds of an \<open>int64\<close> number of nanoseconds.\<close>

definition time_sub :: "int \<Rightarrow> int \<Rightarrow> int" where
  "time_sub t u = max int64_min (min int64_max (t - u))"

lemma time_sub_exact: "\<lbrakk>int64_min \<le> t - u; t - u \<le> int64_max\<rbrakk> \<Longrightarrow> time_sub t u = t - u"
  by (simp add: time_sub_def)

text \<open>\<open>d.Microseconds()\<close> truncates towards zero.\<close>

definition microseconds :: "int \<Rightarrow> int" where
  "microseconds d = d sdiv 1000"

definition all_descriptors :: "experiment_result \<Rightarrow> invocation_descriptor list" where
  "all_descriptors res = concat (map snd res)"

text \<open>The loop of the invoker over the results: skip what is not completed.\<close>

definition completed_durations :: "experiment_result \<Rightarrow> int list" where
  "completed_durations res =
     foldl (\<lambda>durations (wid, invs).
       foldl (\<lambda>durations d.
         if Status d \<noteq> COMPLETED then durations else durations @ [as_duration (Duration d)])
       durations invs) [] res"

lemma completed_durations_eq:
  "completed_durations res =
     map (\<lambda>d. as_duration (Duration d)) (filter (\<lambda>d. Status d = COMPLETED) (all_descriptors res))"
proof -
  have inner: "foldl (\<lambda>ds d. if Status d \<noteq> COMPLETED then ds else ds @ [as_duration (Duration d)]) acc invs =
      acc @ map (\<lambda>d. as_duration (Duration d)) (filter (\<lambda>d. Status d = COMPLETED) invs)" for acc invs
    by (induction invs arbitrary: acc) simp_all
  have "foldl (\<lambda>durations (wid, invs). foldl (\<lambda>ds d. if Status d \<noteq> COMPLETED then ds
          else ds @ [as_duration (Duration d)]) durations invs) acc res =
      acc @ map (\<lambda>d. as_duration (Duration d)) (filter (\<lambda>d. Status d = COMPLETED) (all_descriptors res))" for acc
    by (induction res arbitrary: acc) (auto simp: all_descriptors_def inner)
  then show ?thesis by (simp add: completed_durations_def)
qed

locale experiment_db =
  fixes results :: "'s \<Rightarrow> experiment_result"
    and ok :: "'s \<Rightarrow> bool"
  assumes completed_duration:
    "\<lbrakk>ok s; d \<in> set (all_descriptors (results s)); Status d = COMPLETED\<rbrakk> \<Longrightarrow> Duration d \<noteq> None"
begin

text \<open>No duration the invoker collects is the default of a missing one.\<close>

lemma collected_durations:
  assumes "ok s"
  shows "map Some (completed_durations (results s)) =
    map Duration (filter (\<lambda>d. Status d = COMPLETED) (all_descriptors (results s)))"
  using completed_duration [OF assms]
  by (fastforce simp: completed_durations_eq as_duration_def split: option.splits)

end

end
