(* ===== verification/TimeseriesDB.thy ===== *)
theory TimeseriesDB
  imports ExperimentInterface
begin

text \<open>
  \<open>tools/benchmarking_eventing/timeseriesdb/main.go\<close>: the database that follows the
  invocations of event-driven workflows. It keeps per workflow the descriptors of the events
  that complete an invocation and per invocation those still awaited. The decoder of the
  \<open>vhivemetadata\<close> extension is an argument here, to which \<open>TimeseriesServer\<close> gives the code's; a
  handler that ends the process is the outcome \<^term>\<open>Fatal\<close>.
\<close>

subsection \<open>State\<close>

record invocation =
  completionEventDescriptors :: "matchers list"
  descriptor :: invocation_descriptor

record workflow =
  wf_id :: string
  completionEventDescriptorsT :: "matchers list"
  invocations :: "(string \<times> invocation) list"

record tsdb =
  workflows :: "(string \<times> workflow) list"

text \<open>A CloudEvent: its id, source and type, its extension attributes and its data.\<close>

datatype ext_value = ExtBool bool | ExtInt int32 | ExtString string | ExtOther

record cloud_event =
  CeId :: string
  CeSource :: string
  CeType :: string
  CeExtensions :: "(string \<times> ext_value) list"
  CeData :: string

type_synonym metadata_decoder = "string \<Rightarrow> vhive_metadata option"

subsection \<open>Operations\<close>

definition StartExperiment :: "experiment_definition \<Rightarrow> tsdb \<Rightarrow> tsdb" where
  "StartExperiment definition s =
     s\<lparr>workflows := foldl (\<lambda>wfs (key, wd).
         AList.update (WdId wd)
           \<lparr>wf_id = WdId wd, completionEventDescriptorsT = CompletionEventDescriptors wd, invocations = []\<rparr> wfs)
       [] definition\<rparr>"

definition EndExperiment :: "tsdb \<Rightarrow> experiment_result" where
  "EndExperiment s =
     foldl (\<lambda>res (key, wrk).
        AList.update (wf_id wrk)
          (foldl (\<lambda>invs (iid, iv). invs @ [descriptor iv]) [] (invocations wrk)) res)
       [] (workflows s)"

text \<open>One extension attribute as a string; \<^term>\<open>None\<close> is a type that is not supported.\<close>

definition ext_string :: "ext_value \<Rightarrow> string option" where
  "ext_string v = (case v of
       ExtBool b \<Rightarrow> Some (if b then ''true'' else ''false'')
     | ExtInt i \<Rightarrow> Some (itoa (sint i))
     | ExtString t \<Rightarrow> Some t
     | ExtOther \<Rightarrow> None)"

primrec ext_attributes :: "(string \<times> ext_value) list \<Rightarrow> (string \<times> string) list \<Rightarrow> (string \<times> string) list outcome" where
  "ext_attributes [] attrs = Ret attrs"
| "ext_attributes (kv # kvs) attrs =
     (if fst kv = ''vhivemetadata'' then ext_attributes kvs attrs
      else case ext_string (snd kv) of
             None \<Rightarrow> Fatal ''extension has an unsupported type''
           | Some t \<Rightarrow> ext_attributes kvs (AList.update (fst kv) t attrs))"

definition morphCloudEventToProtoEvent :: "metadata_decoder \<Rightarrow> cloud_event \<Rightarrow> proto_event outcome" where
  "morphCloudEventToProtoEvent decode event =
     (case map_of (CeExtensions event) ''vhivemetadata'' of
        Some (ExtString vhm) \<Rightarrow>
          (case decode vhm of
             None \<Rightarrow> Fatal ''failed to decode vhivemetadata''
           | Some md \<Rightarrow>
               out_bind (ext_attributes (CeExtensions event)
                 (AList.update ''type'' (CeType event)
                   (AList.update ''source'' (CeSource event)
                     (AList.update ''id'' (CeId event) []))))
               (\<lambda>attrs. Ret \<lparr>VHiveMetadata = md, Attributes = attrs, Data = CeData event\<rparr>))
      | _ \<Rightarrow> Fatal ''vhivemetadata is not of type []byte'')"

text \<open>\<open>isCompletion\<close> of one descriptor: every matcher finds its attribute with its value.\<close>

definition matches :: "(string \<times> string) list \<Rightarrow> matchers \<Rightarrow> bool" where
  "matches attrs ms \<longleftrightarrow>
     list_all (\<lambda>(attr, expected). case map_of attrs attr of None \<Rightarrow> False | Some actual \<Rightarrow> actual = expected) ms"

primrec first_match :: "(string \<times> string) list \<Rightarrow> nat \<Rightarrow> matchers list \<Rightarrow> nat option" where
  "first_match attrs i [] = None"
| "first_match attrs i (d # ds) = (if matches attrs d then Some i else first_match attrs (Suc i) ds)"

text \<open>\<open>s.workflows[w].invocations[i]\<close>, a pointer that is nil where an entry is missing, and the
  assignment through it.\<close>

definition lookup_invocation :: "tsdb \<Rightarrow> vhive_metadata \<Rightarrow> invocation option" where
  "lookup_invocation s md =
     (case map_of (workflows s) (WorkflowId md) of
        None \<Rightarrow> None | Some wrk \<Rightarrow> map_of (invocations wrk) (InvocationId md))"

definition put_invocation :: "vhive_metadata \<Rightarrow> invocation \<Rightarrow> tsdb \<Rightarrow> tsdb" where
  "put_invocation md iv s =
     (case map_of (workflows s) (WorkflowId md) of
        None \<Rightarrow> s
      | Some wrk \<Rightarrow> s\<lparr>workflows := AList.update (WorkflowId md)
          (wrk\<lparr>invocations := AList.update (InvocationId md) iv (invocations wrk)\<rparr>) (workflows s)\<rparr>)"

text \<open>The pair \<open>(i, true)\<close> of the code is \<open>Some i\<close>, the pair \<open>(-1, false)\<close> is \<^term>\<open>None\<close>.\<close>

definition checkCompletion :: "proto_event \<Rightarrow> tsdb \<Rightarrow> nat option outcome" where
  "checkCompletion event s =
     (case lookup_invocation s (VHiveMetadata event) of
        None \<Rightarrow> Panic nil_deref
      | Some iv \<Rightarrow> Ret (first_match (Attributes event) 0 (completionEventDescriptors iv)))"

definition new_invocation :: "workflow \<Rightarrow> vhive_metadata \<Rightarrow> invocation" where
  "new_invocation wrk md =
     \<lparr>completionEventDescriptors = completionEventDescriptorsT wrk,
      descriptor = \<lparr>InvId = InvocationId md, InvInvokedOn = InvokedOn md, Duration = None,
        EventRecords = [], Status = CANCELLED\<rparr>\<rparr>"

definition registerInvocation :: "vhive_metadata \<Rightarrow> tsdb \<Rightarrow> tsdb outcome" where
  "registerInvocation md s =
     (case map_of (workflows s) (WorkflowId md) of
        None \<Rightarrow> Panic nil_deref
      | Some wrk \<Rightarrow> Ret (put_invocation md (new_invocation wrk md) s))"

definition complete_descriptor :: "proto_event \<Rightarrow> nat \<Rightarrow> int \<Rightarrow> invocation \<Rightarrow> invocation" where
  "complete_descriptor event descriptorIdx now iv =
     (let ds = take descriptorIdx (completionEventDescriptors iv) @
               drop (Suc descriptorIdx) (completionEventDescriptors iv);
          sinceInvocation = time_sub now (InvokedOn (VHiveMetadata event));
          desc = descriptor iv;
          desc = (if Duration desc = None \<or> sinceInvocation > as_duration (Duration desc)
                  then desc\<lparr>Duration := Some sinceInvocation\<rparr> else desc);
          desc = (if length ds = 0 then desc\<lparr>Status := COMPLETED\<rparr> else desc)
      in iv\<lparr>completionEventDescriptors := ds, descriptor := desc\<rparr>)"

text \<open>The descriptor the code is handed is the one of the invocation it looks up.\<close>

definition onCompletionEvent :: "proto_event \<Rightarrow> nat \<Rightarrow> int \<Rightarrow> tsdb \<Rightarrow> tsdb outcome" where
  "onCompletionEvent event descriptorIdx now s =
     (case lookup_invocation s (VHiveMetadata event) of
        None \<Rightarrow> Panic nil_deref
      | Some iv \<Rightarrow> Ret (put_invocation (VHiveMetadata event) (complete_descriptor event descriptorIdx now iv) s))"

definition append_record :: "event_record \<Rightarrow> invocation \<Rightarrow> invocation" where
  "append_record r iv =
     iv\<lparr>descriptor := (descriptor iv)\<lparr>EventRecords := EventRecords (descriptor iv) @ [r]\<rparr>\<rparr>"

definition record_on :: "proto_event \<Rightarrow> int \<Rightarrow> bool \<Rightarrow> tsdb \<Rightarrow> tsdb outcome" where
  "record_on event now isCompletion s =
     (case lookup_invocation s (VHiveMetadata event) of
        None \<Rightarrow> Panic nil_deref
      | Some iv \<Rightarrow> Ret (put_invocation (VHiveMetadata event)
          (append_record \<lparr>RecEvent = event, RecordedOn = now, IsCompletion = isCompletion\<rparr> iv) s))"

text \<open>The handler once the invocation is known.\<close>

definition process_event :: "proto_event \<Rightarrow> int \<Rightarrow> tsdb \<Rightarrow> tsdb outcome" where
  "process_event event now s =
     out_bind (checkCompletion event s) (\<lambda>idx.
     out_bind (case idx of Some i \<Rightarrow> onCompletionEvent event i now s | None \<Rightarrow> Ret s) (\<lambda>s.
     record_on event now (idx \<noteq> None) s))"

definition registerEvent :: "metadata_decoder \<Rightarrow> int \<Rightarrow> cloud_event \<Rightarrow> tsdb \<Rightarrow> tsdb outcome" where
  "registerEvent decode now cloudEvent s =
     out_bind (morphCloudEventToProtoEvent decode cloudEvent) (\<lambda>event.
       if map_of (workflows s) (WorkflowId (VHiveMetadata event)) = None
       then Fatal ''failed to register an event to an unknown workflow''
       else
         out_bind (if lookup_invocation s (VHiveMetadata event) = None
                   then registerInvocation (VHiveMetadata event) s else Ret s)
           (process_event event now))"

declare map_of_eq_Some_iff [simp del]

subsection \<open>One invocation at a time\<close>

text \<open>What an event does to the invocation it belongs to.\<close>

definition invocation_step :: "proto_event \<Rightarrow> int \<Rightarrow> invocation \<Rightarrow> invocation" where
  "invocation_step event now iv =
     (case first_match (Attributes event) 0 (completionEventDescriptors iv) of
        Some i \<Rightarrow> append_record \<lparr>RecEvent = event, RecordedOn = now, IsCompletion = True\<rparr>
                   (complete_descriptor event i now iv)
      | None \<Rightarrow> append_record \<lparr>RecEvent = event, RecordedOn = now, IsCompletion = False\<rparr> iv)"

lemma AList_update_update [simp]: "AList.update k v (AList.update k w xs) = AList.update k v xs"
  by (induction xs) simp_all

lemma map_of_AList_update [simp]: "map_of (AList.update k v xs) j = (if j = k then Some v else map_of xs j)"
  by (simp add: update_conv')

lemma lookup_put [simp]:
  "map_of (workflows s) (WorkflowId md) \<noteq> None \<Longrightarrow>
   lookup_invocation (put_invocation md iv s) md' =
     (if WorkflowId md' = WorkflowId md \<and> InvocationId md' = InvocationId md then Some iv
      else lookup_invocation s md')"
  by (auto simp: lookup_invocation_def put_invocation_def split: option.splits)

lemma workflow_put [simp]:
  "(map_of (workflows (put_invocation md iv s)) w = None) = (map_of (workflows s) w = None)"
  by (auto simp: put_invocation_def split: option.splits)

lemma put_put [simp]: "put_invocation md iv (put_invocation md iv' s) = put_invocation md iv s"
  by (auto simp: put_invocation_def split: option.splits)

text \<open>A registered event changes exactly the invocation it names, by \<open>invocation_step\<close>.\<close>

lemma registerEvent_step:
  "registerEvent decode now ce s =
     out_bind (morphCloudEventToProtoEvent decode ce) (\<lambda>event.
       case map_of (workflows s) (WorkflowId (VHiveMetadata event)) of
         None \<Rightarrow> Fatal ''failed to register an event to an unknown workflow''
       | Some wrk \<Rightarrow> Ret (put_invocation (VHiveMetadata event)
           (invocation_step event now
             (case lookup_invocation s (VHiveMetadata event) of
                Some iv \<Rightarrow> iv | None \<Rightarrow> new_invocation wrk (VHiveMetadata event))) s))"
proof -
  have step: "process_event event now s = Ret (put_invocation (VHiveMetadata event) (invocation_step event now iv) s)"
    if "lookup_invocation s (VHiveMetadata event) = Some iv"
      "map_of (workflows s) (WorkflowId (VHiveMetadata event)) \<noteq> None" for event s iv
    using that
    by (simp add: process_event_def checkCompletion_def onCompletionEvent_def record_on_def invocation_step_def
        split: option.split)
  show ?thesis
    unfolding registerEvent_def
    by (rule arg_cong2 [where f = out_bind], rule refl, rule ext)
      (simp add: registerInvocation_def step split: option.split)
qed

lemma registerEvent_Ret:
  assumes "registerEvent decode now ce s = Ret s'"
  obtains event wrk where "map_of (workflows s) (WorkflowId (VHiveMetadata event)) = Some wrk"
    and "s' = put_invocation (VHiveMetadata event) (invocation_step event now
             (case lookup_invocation s (VHiveMetadata event) of
                Some iv \<Rightarrow> iv | None \<Rightarrow> new_invocation wrk (VHiveMetadata event))) s"
  using assms by (auto simp: registerEvent_step split: option.splits)

subsection \<open>The invariant\<close>

lemma first_match_Some:
  "first_match attrs k ds = Some i \<longleftrightarrow>
     k \<le> i \<and> i < k + length ds \<and> matches attrs (ds ! (i - k)) \<and> (\<forall>j<i - k. \<not> matches attrs (ds ! j))"
proof (induction ds arbitrary: k)
  case (Cons d ds)
  show ?case
  proof (cases "matches attrs d")
    case True
    then show ?thesis by (cases "i - k") (force dest: spec [of _ 0])+
  next
    case False
    show ?thesis
    proof (cases "i - k")
      case 0
      then show ?thesis using False Cons.IH [of "Suc k"] by auto
    next
      case (Suc m)
      then have "i - Suc k = m" "k \<le> i" "Suc k \<le> i" by simp_all
      then show ?thesis
        using False Cons.IH [of "Suc k"] Suc by (auto simp: All_less_Suc2)
    qed
  qed
qed simp

lemma first_match_None: "first_match attrs k ds = None \<longleftrightarrow> (\<forall>d\<in>set ds. \<not> matches attrs d)"
  by (induction ds arbitrary: k) auto

abbreviation records :: "invocation \<Rightarrow> event_record list" where
  "records iv \<equiv> EventRecords (descriptor iv)"

abbreviation completions :: "invocation \<Rightarrow> event_record list" where
  "completions iv \<equiv> filter IsCompletion (records iv)"

definition latency :: "event_record \<Rightarrow> int" where
  "latency r = time_sub (RecordedOn r) (InvokedOn (VHiveMetadata (RecEvent r)))"

text \<open>
  An invocation of a workflow with the descriptors \<open>T\<close>: the completion events recorded so far
  match, one each, the descriptors that were removed; the duration is the greatest of their
  latencies; the status is \<open>COMPLETED\<close> once a descriptor was removed and none is left.
\<close>

definition invocation_ok :: "matchers list \<Rightarrow> invocation \<Rightarrow> bool" where
  "invocation_ok T iv \<longleftrightarrow>
     (\<exists>ds. mset T = mset (completionEventDescriptors iv) + mset ds \<and>
        list_all2 (\<lambda>r d. matches (Attributes (RecEvent r)) d) (completions iv) ds) \<and>
     Duration (descriptor iv) =
       (if completions iv = [] then None else Some (Max (latency ` set (completions iv)))) \<and>
     Status (descriptor iv) =
       (if completions iv \<noteq> [] \<and> completionEventDescriptors iv = [] then COMPLETED else CANCELLED)"

lemma invocation_ok_new: "invocation_ok (completionEventDescriptorsT wrk) (new_invocation wrk md)"
  by (simp add: invocation_ok_def new_invocation_def)

lemma mset_remove_nth: "i < length xs \<Longrightarrow> mset xs = mset (take i xs @ drop (Suc i) xs) + {#xs ! i#}"
  by (metis append_take_drop_id Cons_nth_drop_Suc mset_append mset.simps(2) union_mset_add_mset_right add_mset_add_single)

lemma complete_descriptor_simps:
  "completionEventDescriptors (complete_descriptor event i now iv) =
     take i (completionEventDescriptors iv) @ drop (Suc i) (completionEventDescriptors iv)"
  "EventRecords (descriptor (complete_descriptor event i now iv)) = EventRecords (descriptor iv)"
  "InvId (descriptor (complete_descriptor event i now iv)) = InvId (descriptor iv)"
  "Duration (descriptor (complete_descriptor event i now iv)) =
     (let l = time_sub now (InvokedOn (VHiveMetadata event))
      in case Duration (descriptor iv) of None \<Rightarrow> Some l | Some d \<Rightarrow> Some (max d l))"
  "Status (descriptor (complete_descriptor event i now iv)) =
     (if take i (completionEventDescriptors iv) @ drop (Suc i) (completionEventDescriptors iv) = []
      then COMPLETED else Status (descriptor iv))"
  by (simp_all add: complete_descriptor_def Let_def as_duration_def max_def split: option.split)

lemma append_record_simps [simp]:
  "completionEventDescriptors (append_record r iv) = completionEventDescriptors iv"
  "EventRecords (descriptor (append_record r iv)) = EventRecords (descriptor iv) @ [r]"
  "InvId (descriptor (append_record r iv)) = InvId (descriptor iv)"
  "Duration (descriptor (append_record r iv)) = Duration (descriptor iv)"
  "Status (descriptor (append_record r iv)) = Status (descriptor iv)"
  by (simp_all add: append_record_def)

lemma invocation_ok_step:
  assumes "invocation_ok T iv"
  shows "invocation_ok T (invocation_step event now iv)"
proof (cases "first_match (Attributes event) 0 (completionEventDescriptors iv)")
  case None
  then show ?thesis using assms by (simp add: invocation_step_def invocation_ok_def)
next
  case (Some i)
  let ?rem = "completionEventDescriptors iv"
  let ?l = "time_sub now (InvokedOn (VHiveMetadata event))"
  have i: "i < length ?rem" "matches (Attributes event) (?rem ! i)"
    using Some by (auto simp: first_match_Some)
  obtain ds where ds: "mset T = mset ?rem + mset ds"
      "list_all2 (\<lambda>r d. matches (Attributes (RecEvent r)) d) (completions iv) ds"
    using assms unfolding invocation_ok_def by blast
  let ?r = "\<lparr>RecEvent = event, RecordedOn = now, IsCompletion = True\<rparr>"
  let ?iv = "invocation_step event now iv"
  have step: "?iv = append_record ?r (complete_descriptor event i now iv)"
    using Some by (simp add: invocation_step_def)
  have rem: "completionEventDescriptors ?iv = take i ?rem @ drop (Suc i) ?rem"
    and recs: "completions ?iv = completions iv @ [?r]"
    by (simp_all add: step complete_descriptor_simps)
  have "mset T = mset (completionEventDescriptors ?iv) + mset (ds @ [?rem ! i])"
    unfolding rem using ds(1) mset_remove_nth [OF i(1)] by simp
  moreover have "list_all2 (\<lambda>r d. matches (Attributes (RecEvent r)) d) (completions ?iv) (ds @ [?rem ! i])"
    unfolding recs using ds(2) i(2) by (intro list_all2_appendI) simp_all
  moreover have "Duration (descriptor ?iv) = Some (Max (latency ` set (completions ?iv)))"
  proof (cases "completions iv = []")
    case True
    then show ?thesis
      using assms unfolding recs
      by (simp add: step complete_descriptor_simps invocation_ok_def latency_def)
  next
    case False
    then have "Duration (descriptor iv) = Some (Max (latency ` set (completions iv)))"
      using assms by (simp add: invocation_ok_def)
    moreover have "Max (latency ` set (completions ?iv)) = max (Max (latency ` set (completions iv))) ?l"
      unfolding recs using False by (simp add: latency_def max.commute del: set_filter)
    ultimately show ?thesis by (simp add: step complete_descriptor_simps)
  qed
  moreover have "Status (descriptor ?iv) = (if completionEventDescriptors ?iv = [] then COMPLETED else CANCELLED)"
    using assms i(1) unfolding rem by (auto simp: step complete_descriptor_simps invocation_ok_def)
  ultimately show ?thesis
    unfolding invocation_ok_def by (metis recs snoc_eq_iff_butlast)
qed

definition db_ok :: "tsdb \<Rightarrow> bool" where
  "db_ok s \<longleftrightarrow> distinct (map fst (workflows s)) \<and>
     (\<forall>w wrk. map_of (workflows s) w = Some wrk \<longrightarrow> wf_id wrk = w \<and> distinct (map fst (invocations wrk)) \<and>
        (\<forall>i iv. map_of (invocations wrk) i = Some iv \<longrightarrow>
           InvId (descriptor iv) = i \<and> invocation_ok (completionEventDescriptorsT wrk) iv))"

inductive reachable :: "metadata_decoder \<Rightarrow> tsdb \<Rightarrow> bool" for decode where
  started: "reachable decode (StartExperiment wds s)"
| registered: "\<lbrakk>reachable decode s; registerEvent decode now ce s = Ret s'\<rbrakk> \<Longrightarrow> reachable decode s'"

lemma StartExperiment_ok: "db_ok (StartExperiment def s)"
proof -
  let ?f = "\<lambda>wfs (key, wd). AList.update (WdId wd)
    \<lparr>wf_id = WdId wd, completionEventDescriptorsT = CompletionEventDescriptors wd, invocations = []\<rparr> wfs"
  let ?ok = "\<lambda>wfs. distinct (map fst wfs) \<and>
    (\<forall>w wrk. map_of wfs w = Some wrk \<longrightarrow> wf_id wrk = w \<and> invocations wrk = [])"
  have "?ok acc \<Longrightarrow> ?ok (foldl ?f acc def)" for acc
  proof (induction "def" arbitrary: acc)
    case (Cons x xs)
    have "?ok (?f acc x)" using Cons.prems by (auto simp: distinct_update split: prod.splits)
    from Cons.IH [OF this] show ?case by simp
  qed simp
  from this [of "[]"] show ?thesis
    unfolding db_ok_def StartExperiment_def by (auto dest: spec)
qed

lemma put_invocation_ok:
  assumes "db_ok s" and "map_of (workflows s) (WorkflowId md) = Some wrk"
    and "invocation_ok (completionEventDescriptorsT wrk) iv" and "InvId (descriptor iv) = InvocationId md"
  shows "db_ok (put_invocation md iv s)"
  using assms by (auto simp: db_ok_def put_invocation_def distinct_update)

lemma InvId_step: "InvId (descriptor (invocation_step event now iv)) = InvId (descriptor iv)"
  by (simp add: invocation_step_def complete_descriptor_simps split: option.split)

lemma registerEvent_ok:
  assumes "db_ok s" and "registerEvent decode now ce s = Ret s'"
  shows "db_ok s'"
proof -
  obtain event wrk where wrk: "map_of (workflows s) (WorkflowId (VHiveMetadata event)) = Some wrk"
    and s': "s' = put_invocation (VHiveMetadata event) (invocation_step event now
             (case lookup_invocation s (VHiveMetadata event) of
                Some iv \<Rightarrow> iv | None \<Rightarrow> new_invocation wrk (VHiveMetadata event))) s"
    using assms(2) by (rule registerEvent_Ret)
  let ?iv = "case lookup_invocation s (VHiveMetadata event) of
                Some iv \<Rightarrow> iv | None \<Rightarrow> new_invocation wrk (VHiveMetadata event)"
  have "invocation_ok (completionEventDescriptorsT wrk) ?iv \<and> InvId (descriptor ?iv) = InvocationId (VHiveMetadata event)"
  proof (cases "lookup_invocation s (VHiveMetadata event)")
    case None
    then show ?thesis by (simp add: invocation_ok_new) (simp add: new_invocation_def)
  next
    case (Some iv)
    then show ?thesis using assms(1) wrk by (auto simp: lookup_invocation_def db_ok_def)
  qed
  then show ?thesis
    unfolding s' using put_invocation_ok [OF assms(1) wrk] by (simp add: invocation_ok_step InvId_step)
qed

lemma reachable_ok: "reachable decode s \<Longrightarrow> db_ok s"
  by (induction rule: reachable.induct) (auto intro: StartExperiment_ok registerEvent_ok)

text \<open>The results list, per workflow, the descriptors of its invocations.\<close>

definition result_of :: "tsdb \<Rightarrow> experiment_result" where
  "result_of s = map (\<lambda>(w, wrk). (w, map (descriptor \<circ> snd) (invocations wrk))) (workflows s)"

lemma foldl_descriptors: "foldl (\<lambda>invs (iid, iv). invs @ [descriptor iv]) acc xs = acc @ map (descriptor \<circ> snd) xs"
  by (induction xs arbitrary: acc) auto

lemma AList_update_fresh: "k \<notin> fst ` set xs \<Longrightarrow> AList.update k v xs = xs @ [(k, v)]"
  by (induction xs) auto

lemma EndExperiment_result:
  assumes "db_ok s"
  shows "EndExperiment s = result_of s"
proof -
  let ?f = "\<lambda>res (key, wrk). AList.update (wf_id wrk)
      (foldl (\<lambda>invs (iid, iv). invs @ [descriptor iv]) [] (invocations wrk)) res"
  have fold: "foldl ?f acc xs = acc @ map (\<lambda>(w, wrk). (w, map (descriptor \<circ> snd) (invocations wrk))) xs"
    if "distinct (map fst xs)" "\<forall>(w, wrk)\<in>set xs. wf_id wrk = w" "fst ` set acc \<inter> fst ` set xs = {}" for acc xs
    using that
  proof (induction xs arbitrary: acc)
    case (Cons x xs)
    obtain w wrk where x: "x = (w, wrk)" by (cases x)
    have "?f acc x = acc @ [(w, map (descriptor \<circ> snd) (invocations wrk))]"
      using Cons.prems unfolding x by (simp add: foldl_descriptors AList_update_fresh)
    with Cons.IH [of "acc @ [(w, map (descriptor \<circ> snd) (invocations wrk))]"] Cons.prems show ?case
      by (auto simp: x)
  qed simp
  have "\<forall>(w, wrk)\<in>set (workflows s). wf_id wrk = w" "distinct (map fst (workflows s))"
    using assms by (auto simp: db_ok_def map_of_eq_Some_iff)
  then show ?thesis using fold [of "workflows s" "[]"] by (simp add: EndExperiment_def result_of_def)
qed

lemma EndExperiment_durations:
  assumes "db_ok s" and "d \<in> set (all_descriptors (EndExperiment s))" and "Status d = COMPLETED"
  shows "Duration d \<noteq> None"
proof -
  obtain w wrk i iv where "(w, wrk) \<in> set (workflows s)" "(i, iv) \<in> set (invocations wrk)" and d: "d = descriptor iv"
    using assms(2) unfolding EndExperiment_result [OF assms(1)] all_descriptors_def result_of_def by auto
  then have "invocation_ok (completionEventDescriptorsT wrk) iv"
    using assms(1) unfolding db_ok_def by (metis map_of_eq_Some_iff)
  then show ?thesis using assms(3) unfolding d by (auto simp: invocation_ok_def split: if_splits)
qed

interpretation tsdb: experiment_db EndExperiment db_ok
  by unfold_locales (rule EndExperiment_durations)

subsection \<open>Properties\<close>

text \<open>
  Property C3: in every state the database can reach, the completion events an invocation has
  recorded match, one each and in order, descriptors \<open>ds\<close> of its workflow, and \<open>ds\<close> with the
  descriptors still awaited make up exactly the workflow's descriptors; its duration is the
  greatest latency of those events, missing when there is none; and it is \<open>COMPLETED\<close> exactly
  when nothing is awaited and some event completed it. So an invocation of a workflow without
  descriptors is never completed.
\<close>

theorem reachable_invocation:
  assumes "reachable decode s" and "map_of (workflows s) w = Some wrk" and "map_of (invocations wrk) i = Some iv"
  shows "(\<exists>ds. mset (completionEventDescriptorsT wrk) = mset (completionEventDescriptors iv) + mset ds \<and>
      list_all2 (\<lambda>r d. matches (Attributes (RecEvent r)) d) (completions iv) ds) \<and>
    Duration (descriptor iv) =
      (if completions iv = [] then None else Some (Max (latency ` set (completions iv)))) \<and>
    (Status (descriptor iv) = COMPLETED \<longleftrightarrow> completions iv \<noteq> [] \<and> completionEventDescriptors iv = [])"
proof -
  have "invocation_ok (completionEventDescriptorsT wrk) iv"
    using reachable_ok [OF assms(1)] assms(2,3) by (simp add: db_ok_def)
  then show ?thesis by (simp add: invocation_ok_def)
qed

text \<open>A decoder for examples: the extension is the invocation id, of workflow \<open>w\<close>, invoked at 0.\<close>

definition demo_decode :: metadata_decoder where
  "demo_decode t = Some \<lparr>WorkflowId = ''w'', InvocationId = t, InvokedOn = 0\<rparr>"

definition demo_event :: "string \<Rightarrow> string \<Rightarrow> cloud_event" where
  "demo_event typ src = \<lparr>CeId = ''1'', CeSource = src, CeType = typ,
     CeExtensions = [(''vhivemetadata'', ExtString ''i1'')], CeData = ''''\<rparr>"

definition demo_definition :: "matchers list \<Rightarrow> experiment_definition" where
  "demo_definition ds = [(''w'', \<lparr>WdId = ''w'', CompletionEventDescriptors = ds\<rparr>)]"

definition run_events :: "(int \<times> cloud_event) list \<Rightarrow> tsdb \<Rightarrow> tsdb outcome" where
  "run_events evs s = foldl (\<lambda>r (now, ce). out_bind r (registerEvent demo_decode now ce)) (Ret s) evs"

lemma reachable_run:
  assumes "reachable demo_decode s" "run_events evs s = Ret s'"
  shows "reachable demo_decode s'"
proof -
  have "foldl (\<lambda>r (now, ce). out_bind r (registerEvent demo_decode now ce)) m evs = Ret s' \<Longrightarrow>
      \<forall>s. m = Ret s \<longrightarrow> reachable demo_decode s \<Longrightarrow> reachable demo_decode s'" for m
  proof (induction evs arbitrary: m)
    case (Cons x xs)
    show ?case
      by (rule Cons.IH [of "out_bind m (registerEvent demo_decode (fst x) (snd x))"])
        (use Cons.prems in \<open>auto simp: case_prod_beta intro: reachable.registered\<close>)
  qed simp
  from this [of "Ret s"] assms show ?thesis by (auto simp: run_events_def)
qed

definition demo_result :: "matchers list \<Rightarrow> (int \<times> cloud_event) list \<Rightarrow> experiment_result outcome" where
  "demo_result ds evs =
     out_bind (run_events evs (StartExperiment (demo_definition ds) \<lparr>workflows = []\<rparr>)) (\<lambda>s. Ret (EndExperiment s))"

lemmas demo_simps =
  demo_result_def run_events_def demo_definition_def demo_event_def demo_decode_def StartExperiment_def
  registerEvent_def morphCloudEventToProtoEvent_def registerInvocation_def process_event_def
  checkCompletion_def onCompletionEvent_def record_on_def lookup_invocation_def put_invocation_def
  new_invocation_def complete_descriptor_def append_record_def matches_def as_duration_def
  EndExperiment_def Let_def

lemma demo_state:
  "run_events [(7, demo_event ''done'' ''a'')] (StartExperiment (demo_definition [[(''type'', ''done'')]]) \<lparr>workflows = []\<rparr>) =
     Ret \<lparr>workflows = [(''w'', \<lparr>wf_id = ''w'', completionEventDescriptorsT = [[(''type'', ''done'')]],
       invocations = [(''i1'', \<lparr>completionEventDescriptors = [],
         descriptor = \<lparr>InvId = ''i1'', InvInvokedOn = 0, Duration = Some 7,
           EventRecords = [\<lparr>RecEvent = \<lparr>VHiveMetadata = \<lparr>WorkflowId = ''w'', InvocationId = ''i1'', InvokedOn = 0\<rparr>,
             Attributes = [(''id'', ''1''), (''source'', ''a''), (''type'', ''done'')], Data = ''''\<rparr>,
             RecordedOn = 7, IsCompletion = True\<rparr>], Status = COMPLETED\<rparr>\<rparr>)]\<rparr>)]\<rparr>"
  by (simp add: demo_simps time_sub_def int64_min_def int64_max_def)

theorem reachable_invocation_witness:
  "\<exists>(iv :: invocation) ds. mset [[(''type'', ''done'')]] = mset (completionEventDescriptors iv) + mset ds \<and>
     Status (descriptor iv) = COMPLETED"
proof -
  obtain s wrk iv where s: "run_events [(7, demo_event ''done'' ''a'')]
        (StartExperiment (demo_definition [[(''type'', ''done'')]]) \<lparr>workflows = []\<rparr>) = Ret s"
    and w: "map_of (workflows s) ''w'' = Some wrk" and iv: "map_of (invocations wrk) ''i1'' = Some iv"
    and p: "completionEventDescriptorsT wrk = [[(''type'', ''done'')]]" "Status (descriptor iv) = COMPLETED"
    unfolding demo_state by simp
  from reachable_invocation [OF reachable_run [OF reachable.started s] w iv]
  obtain ds where "mset (completionEventDescriptorsT wrk) = mset (completionEventDescriptors iv) + mset ds"
    by blast
  with p show ?thesis by (intro exI [of _ iv] exI [of _ ds]) simp
qed

text \<open>
  Registering an event changes at most the one invocation that its metadata names,
  which then ends with the record of this event; no other invocation and no workflow's
  descriptors change. The call fails (and ends the process) exactly when the event cannot be
  decoded or names an unknown workflow.
\<close>

theorem registerEvent_frame:
  "(case morphCloudEventToProtoEvent decode ce of
      Ret event \<Rightarrow>
        (case map_of (workflows s) (WorkflowId (VHiveMetadata event)) of
           None \<Rightarrow> registerEvent decode now ce s = Fatal ''failed to register an event to an unknown workflow''
         | Some wrk \<Rightarrow> \<exists>s' iv pre c. registerEvent decode now ce s = Ret s' \<and>
             (\<forall>w. map_option completionEventDescriptorsT (map_of (workflows s') w) =
                  map_option completionEventDescriptorsT (map_of (workflows s) w)) \<and>
             (\<forall>md. lookup_invocation s' md =
                (if WorkflowId md = WorkflowId (VHiveMetadata event) \<and>
                    InvocationId md = InvocationId (VHiveMetadata event)
                 then Some iv else lookup_invocation s md)) \<and>
             records iv = pre @ [\<lparr>RecEvent = event, RecordedOn = now, IsCompletion = c\<rparr>])
    | Panic e \<Rightarrow> registerEvent decode now ce s = Panic e
    | Fatal m \<Rightarrow> registerEvent decode now ce s = Fatal m)"
proof (cases "morphCloudEventToProtoEvent decode ce")
  case (Ret event)
  have "\<exists>pre c. records (invocation_step event now iv) = pre @ [\<lparr>RecEvent = event, RecordedOn = now, IsCompletion = c\<rparr>]" for iv
    by (auto simp: invocation_step_def split: option.split)
  moreover have "map_option completionEventDescriptorsT (map_of (workflows (put_invocation md iv s)) w) =
      map_option completionEventDescriptorsT (map_of (workflows s) w)" for md iv w
    by (auto simp: put_invocation_def split: option.split)
  ultimately show ?thesis
    by (auto simp: registerEvent_step Ret split: option.split)
qed (simp_all add: registerEvent_step)

text \<open>
  \<open>EndExperiment\<close> in a reachable state reports every workflow of the experiment,
  once, with the descriptors of exactly its invocations.
\<close>

theorem EndExperiment_reports:
  assumes "reachable decode s"
  shows "distinct (map fst (EndExperiment s)) \<and>
    (\<forall>w. map_of (EndExperiment s) w =
      map_option (\<lambda>wrk. map (descriptor \<circ> snd) (invocations wrk)) (map_of (workflows s) w))"
  using reachable_ok [OF assms]
  by (simp add: EndExperiment_result result_of_def map_of_map db_ok_def case_prod_beta comp_def)

theorem EndExperiment_reports_witness:
  "map_of (EndExperiment (StartExperiment (demo_definition []) \<lparr>workflows = []\<rparr>)) ''w'' = Some []"
  using EndExperiment_reports [OF reachable.started [of demo_decode "demo_definition []" "\<lparr>workflows = []\<rparr>"]]
  by (simp add: demo_simps)

text \<open>
  The matching of events to descriptors is greedy, so an invocation can hang although
  all its descriptors could have been matched. With the descriptors \<open>type=t\<close> and \<open>type=t,
  source=a\<close>, the event from \<open>a\<close> takes the first, and the event from \<open>b\<close> does not match the second.
\<close>

theorem greedy_matching_strands:
  "let general = [(''type'', ''t'')]; special = [(''type'', ''t''), (''source'', ''a'')];
       evs = [(1, demo_event ''t'' ''a''), (2, demo_event ''t'' ''b'')]
   in (\<exists>inv1. demo_result [general, special] evs = Ret [(''w'', [inv1])] \<and> Status inv1 = CANCELLED) \<and>
      (\<exists>inv2. demo_result [special, general] evs = Ret [(''w'', [inv2])] \<and> Status inv2 = COMPLETED)"
  by (simp add: demo_simps time_sub_def int64_min_def int64_max_def)

subsection \<open>An invocation is the replay of its events\<close>

definition replay :: "workflow \<Rightarrow> event_record list \<Rightarrow> invocation" where
  "replay wrk rs =
     foldl (\<lambda>iv r. invocation_step (RecEvent r) (RecordedOn r) iv)
       (new_invocation wrk (VHiveMetadata (RecEvent (hd rs)))) rs"

definition replayed :: "workflow \<Rightarrow> invocation \<Rightarrow> bool" where
  "replayed wrk iv \<longleftrightarrow> records iv \<noteq> [] \<and> iv = replay wrk (records iv)"

lemma new_invocation_cong [simp]:
  "new_invocation (wrk\<lparr>invocations := x\<rparr>) md = new_invocation wrk md"
  by (simp add: new_invocation_def)

lemma replayed_cong [simp]: "replayed (wrk\<lparr>invocations := x\<rparr>) iv = replayed wrk iv"
  by (simp add: replayed_def replay_def)

lemma records_new [simp]: "records (new_invocation wrk md) = []"
  by (simp add: new_invocation_def)

lemma records_step:
  "\<exists>c. records (invocation_step event now iv) = records iv @ [\<lparr>RecEvent = event, RecordedOn = now, IsCompletion = c\<rparr>]"
  by (auto simp: invocation_step_def complete_descriptor_simps split: option.split)

lemma replayed_new: "replayed wrk (invocation_step event now (new_invocation wrk (VHiveMetadata event)))"
proof -
  obtain c where "records (invocation_step event now (new_invocation wrk (VHiveMetadata event))) =
      [\<lparr>RecEvent = event, RecordedOn = now, IsCompletion = c\<rparr>]"
    using records_step [of event now "new_invocation wrk (VHiveMetadata event)"] by auto
  then show ?thesis by (simp add: replayed_def replay_def)
qed

lemma replayed_step:
  assumes "replayed wrk iv"
  shows "replayed wrk (invocation_step event now iv)"
proof -
  obtain c where c: "records (invocation_step event now iv) =
      records iv @ [\<lparr>RecEvent = event, RecordedOn = now, IsCompletion = c\<rparr>]"
    using records_step by blast
  have ne: "records iv \<noteq> []" and iv: "replay wrk (records iv) = iv"
    using assms by (simp_all add: replayed_def)
  have "replay wrk (records iv @ [\<lparr>RecEvent = event, RecordedOn = now, IsCompletion = c\<rparr>]) =
      invocation_step event now (replay wrk (records iv))"
    using ne by (simp add: replay_def hd_append)
  then show ?thesis by (simp add: replayed_def c iv)
qed

definition db_replayed :: "tsdb \<Rightarrow> bool" where
  "db_replayed s \<longleftrightarrow> (\<forall>w wrk i iv. map_of (workflows s) w = Some wrk \<longrightarrow>
     map_of (invocations wrk) i = Some iv \<longrightarrow> replayed wrk iv)"

lemma db_replayed_put:
  "\<lbrakk>db_replayed s; map_of (workflows s) (WorkflowId md) = Some wrk; replayed wrk iv\<rbrakk>
     \<Longrightarrow> db_replayed (put_invocation md iv s)"
  by (auto simp: db_replayed_def put_invocation_def)

lemma StartExperiment_empty:
  "map_of (workflows (StartExperiment def s)) w = Some wrk \<Longrightarrow> invocations wrk = []"
proof -
  let ?f = "\<lambda>wfs (key, wd). AList.update (WdId wd)
    \<lparr>wf_id = WdId wd, completionEventDescriptorsT = CompletionEventDescriptors wd, invocations = []\<rparr> wfs"
  have "(\<forall>w wrk. map_of acc w = Some wrk \<longrightarrow> invocations wrk = []) \<Longrightarrow>
      map_of (foldl ?f acc def) w = Some wrk \<Longrightarrow> invocations wrk = []" for acc
  proof (induction "def" arbitrary: acc)
    case (Cons x xs)
    show ?case by (rule Cons.IH [of "?f acc x"]) (use Cons.prems in \<open>auto split: if_splits prod.splits\<close>)
  qed auto
  from this [of "[]"] show "map_of (workflows (StartExperiment def s)) w = Some wrk \<Longrightarrow> invocations wrk = []"
    by (simp add: StartExperiment_def)
qed

lemma reachable_replayed: "reachable decode s \<Longrightarrow> db_replayed s"
proof (induction rule: reachable.induct)
  case (started wds s)
  then show ?case by (auto simp: db_replayed_def dest: StartExperiment_empty)
next
  case (registered s now ce s')
  obtain event wrk where wrk: "map_of (workflows s) (WorkflowId (VHiveMetadata event)) = Some wrk"
    and s': "s' = put_invocation (VHiveMetadata event) (invocation_step event now
             (case lookup_invocation s (VHiveMetadata event) of
                Some iv \<Rightarrow> iv | None \<Rightarrow> new_invocation wrk (VHiveMetadata event))) s"
    using registered.hyps(2) by (rule registerEvent_Ret)
  show ?case
    unfolding s'
    by (rule db_replayed_put [OF registered.IH wrk])
      (use registered.IH wrk in \<open>auto simp: replayed_new lookup_invocation_def db_replayed_def
         intro!: replayed_step split: option.split\<close>)
qed

text \<open>A workflow with one descriptor, the only kind the invoker registers.\<close>

definition event_matches :: "matchers \<Rightarrow> event_record \<Rightarrow> bool" where
  "event_matches m r \<longleftrightarrow> matches (Attributes (RecEvent r)) m"

abbreviation replay_from :: "workflow \<Rightarrow> vhive_metadata \<Rightarrow> event_record list \<Rightarrow> invocation" where
  "replay_from wrk md rs \<equiv> foldl (\<lambda>iv r. invocation_step (RecEvent r) (RecordedOn r) iv) (new_invocation wrk md) rs"

lemma replay_single:
  assumes "completionEventDescriptorsT wrk = [m]"
  shows "Duration (descriptor (replay_from wrk md rs)) = map_option latency (find (event_matches m) rs)"
    and "completionEventDescriptors (replay_from wrk md rs) = (if find (event_matches m) rs = None then [m] else [])"
    and "Status (descriptor (replay_from wrk md rs)) = (if find (event_matches m) rs = None then CANCELLED else COMPLETED)"
proof (induction rs rule: rev_induct)
  case Nil
  show "Duration (descriptor (replay_from wrk md [])) = map_option latency (find (event_matches m) [])"
    "completionEventDescriptors (replay_from wrk md []) = (if find (event_matches m) [] = None then [m] else [])"
    "Status (descriptor (replay_from wrk md [])) = (if find (event_matches m) [] = None then CANCELLED else COMPLETED)"
    using assms by (simp_all add: new_invocation_def)
next
  case (snoc r rs)
  have f: "find (event_matches m) (rs @ [r]) =
      (case find (event_matches m) rs of Some x \<Rightarrow> Some x | None \<Rightarrow> if event_matches m r then Some r else None)"
    by (induction rs) auto
  show "Duration (descriptor (replay_from wrk md (rs @ [r]))) = map_option latency (find (event_matches m) (rs @ [r]))"
    "completionEventDescriptors (replay_from wrk md (rs @ [r])) = (if find (event_matches m) (rs @ [r]) = None then [m] else [])"
    "Status (descriptor (replay_from wrk md (rs @ [r]))) = (if find (event_matches m) (rs @ [r]) = None then CANCELLED else COMPLETED)"
    using snoc unfolding f
    by (auto simp: invocation_step_def complete_descriptor_simps latency_def event_matches_def [symmetric]
        split: option.split)
qed

lemma single_descriptor_result:
  assumes "reachable decode s" "map_of (workflows s) w = Some wrk" "map_of (invocations wrk) i = Some iv"
    and "completionEventDescriptorsT wrk = [m]"
  shows "Duration (descriptor iv) = map_option latency (find (event_matches m) (records iv))"
    and "Status (descriptor iv) = (if \<exists>r\<in>set (records iv). event_matches m r then COMPLETED else CANCELLED)"
proof -
  have "iv = replay wrk (records iv)"
    using reachable_replayed [OF assms(1)] assms(2,3) unfolding db_replayed_def replayed_def by blast
  then obtain md where iv: "iv = replay_from wrk md (records iv)"
    unfolding replay_def by blast
  show "Duration (descriptor iv) = map_option latency (find (event_matches m) (records iv))"
    by (subst iv) (rule replay_single(1) [OF assms(4)])
  show "Status (descriptor iv) = (if \<exists>r\<in>set (records iv). event_matches m r then COMPLETED else CANCELLED)"
    by (subst iv, subst replay_single(3) [OF assms(4)]) (auto simp: find_None_iff)
qed



end
