(* ===== verification/GoInstant.thy ===== *)
theory GoInstant
  imports GoTime
begin

text \<open>
  Instants: Go's \<open>time.Time\<close> in UTC as the number of nanoseconds since the first of January 1970,
  its calendar date and clock, and its text \<open>2006-01-02T15:04:05.000000000Z07:00\<close>
  (\<open>RFC3339NanoFixed\<close>), printed and parsed. Instants printed lie in the years 1 to 9999, which is
  where \<open>date_string\<close> has ten characters.
\<close>

subsection \<open>Dates and days\<close>

text \<open>Days since the first of January of year 1.\<close>

definition days_before_year :: "nat \<Rightarrow> int" where
  "days_before_year y = (let n = int y - 1 in 365 * n + n div 4 - n div 100 + n div 400)"

definition days_before_month :: "nat \<Rightarrow> nat \<Rightarrow> nat" where
  "days_before_month y m = sum_list (map (days_in y) [1..<m])"

definition day_number :: "gotime \<Rightarrow> int" where
  "day_number t = days_before_year (Year t) + int (days_before_month (Year t) (Month t) + Day t) - 1"

text \<open>The year and the day in it: whole cycles of 400 years, then centuries, then fours, then years.\<close>

definition year_and_day :: "nat \<Rightarrow> nat \<times> nat" where
  "year_and_day n =
     (let q = n div 146097; n = n mod 146097;
          c = min 3 (n div 36524); n = n - 36524 * c;
          f = n div 1461; n = n mod 1461;
          g = min 3 (n div 365); n = n - 365 * g
      in (400 * q + 100 * c + 4 * f + g + 1, n))"

function month_day :: "nat \<Rightarrow> nat \<Rightarrow> nat \<Rightarrow> nat \<times> nat" where
  "month_day y m d = (if m < 12 \<and> days_in y m \<le> d then month_day y (m + 1) (d - days_in y m) else (m, d + 1))"
  by pat_completeness auto
termination by (relation "measure (\<lambda>(y, m, d). 12 - m)") auto

declare month_day.simps [simp del]

definition date_of :: "nat \<Rightarrow> gotime" where
  "date_of n = (let (y, yd) = year_and_day n; (m, d) = month_day y 1 yd in \<lparr>Year = y, Month = m, Day = d, Noon = True\<rparr>)"

definition year_length :: "nat \<Rightarrow> nat" where
  "year_length y = (if leap_year y then 366 else 365)"

lemma capped_div:
  fixes n d :: nat
  assumes "n \<le> 4 * d + 1" "0 < d"
  shows "n = d * min 3 (n div d) + (n - d * min 3 (n div d)) \<and> n - d * min 3 (n div d) \<le> d + 1 \<and>
    (n - d * min 3 (n div d) < d \<or> min 3 (n div d) = 3)"
proof (cases "n div d \<le> 3")
  case True
  then have "min 3 (n div d) = n div d" by simp
  moreover have "n - d * (n div d) = n mod d" by (simp add: minus_mult_div_eq_mod)
  moreover have "n mod d < d" using assms(2) by simp
  moreover have "n = d * (n div d) + n mod d" by simp
  ultimately show ?thesis by (metis less_or_eq_imp_le trans_le_add1)
next
  case False
  then have "d * 4 \<le> d * (n div d)" by (intro mult_le_mono) auto
  also have "\<dots> \<le> n" by simp
  finally have "d * 4 \<le> n" .
  moreover have "min 3 (n div d) = 3" using False by simp
  ultimately show ?thesis using assms(1) by (simp add: mult.commute)
qed

lemma year_and_day_bounds:
  assumes "year_and_day n = (y, yd)"
  obtains q c f g where "y = 400 * q + 100 * c + 4 * f + g + 1" "c \<le> 3" "f \<le> 24" "g \<le> 3"
    "n = 146097 * q + 36524 * c + 1461 * f + 365 * g + yd" "yd < 366"
    "yd < 365 \<or> g = 3 \<and> (f < 24 \<or> c = 3)"
proof -
  define q r where q: "q = n div 146097" and r: "r = n mod 146097"
  define c where c: "c = min 3 (r div 36524)"
  define r1 where r1: "r1 = r - 36524 * c"
  define f r2 where f: "f = r1 div 1461" and r2: "r2 = r1 mod 1461"
  define g where g: "g = min 3 (r2 div 365)"
  have y: "y = 400 * q + 100 * c + 4 * f + g + 1" and yd: "yd = r2 - 365 * g"
    using assms by (simp_all add: year_and_day_def Let_def q r c r1 f r2 g)
  have n: "n = 146097 * q + r" "r < 146097" unfolding q r by simp_all
  have "r \<le> 4 * 36524 + 1" using n(2) by linarith
  from capped_div [OF this] have s1: "r = 36524 * c + r1" "r1 < 36524 \<or> c = 3" "c \<le> 3"
    unfolding r1 c by simp_all
  have b1: "r1 \<le> 36524" using s1 n(2) by auto
  have s2: "r1 = 1461 * f + r2" "r2 < 1461" unfolding f r2 by simp_all
  have bf: "f \<le> 24" using b1 s2(1) by linarith
  have "r2 \<le> 4 * 365 + 1" using s2(2) by linarith
  from capped_div [OF this] have s3: "r2 = 365 * g + yd" "yd < 365 \<or> g = 3" "g \<le> 3"
    unfolding yd g by simp_all
  have last: "yd < 365 \<or> g = 3 \<and> yd = 365" using s3 s2(2) by auto
  have "f < 24 \<or> c = 3" if "g = 3" "yd = 365"
    using s1(2) bf s2(1) s3(1) that by linarith
  then have "yd < 365 \<or> g = 3 \<and> (f < 24 \<or> c = 3)" using last by blast
  moreover have "n = 146097 * q + 36524 * c + 1461 * f + 365 * g + yd" using n(1) s1(1) s2(1) s3(1) by linarith
  moreover have "yd < 366" using last by linarith
  ultimately show ?thesis using that y s1(3) bf s3(3) by blast
qed

lemma year_and_day_spec:
  assumes "year_and_day n = (y, yd)"
  shows "days_before_year y + int yd = int n" "yd < year_length y"
proof -
  obtain q c f g where y: "y = 400 * q + 100 * c + 4 * f + g + 1" and b: "c \<le> 3" "f \<le> 24" "g \<le> 3"
    and n: "n = 146097 * q + 36524 * c + 1461 * f + 365 * g + yd" "yd < 366"
    and last: "yd < 365 \<or> g = 3 \<and> (f < 24 \<or> c = 3)"
    by (rule year_and_day_bounds [OF assms])
  have four: "(int y - 1) div 4 = 100 * int q + 25 * int c + int f"
    by (rule int_div_pos_eq [where r = "int g"]) (use y b in simp_all)
  have hundred: "(int y - 1) div 100 = 4 * int q + int c"
    by (rule int_div_pos_eq [where r = "4 * int f + int g"]) (use y b in simp_all)
  have cycle: "(int y - 1) div 400 = int q"
    by (rule int_div_pos_eq [where r = "100 * int c + 4 * int f + int g"]) (use y b in simp_all)
  show "days_before_year y + int yd = int n"
    unfolding days_before_year_def Let_def four hundred cycle using y n by simp
  show "yd < year_length y"
  proof (cases "yd < 365")
    case False
    then have "g = 3" "f < 24 \<or> c = 3" using last by auto
    then have y4: "y = 4 * (f + 1) + 100 * (4 * q + c)" using y by simp
    have "y mod 4 = 0" unfolding y4 by presburger
    moreover have "y mod 100 \<noteq> 0 \<or> y mod 400 = 0"
    proof (cases "f < 24")
      case True
      then have "y mod 100 = 4 * (f + 1)" unfolding y4 mod_mult_self2 by simp
      then show ?thesis by simp
    next
      case False
      then have "y = 400 * (q + 1)" using y4 b(2) \<open>f < 24 \<or> c = 3\<close> by simp
      then show ?thesis by (metis mod_mult_self1_is_0)
    qed
    ultimately show ?thesis using n(2) by (simp add: year_length_def leap_year_def)
  qed (simp add: year_length_def)
qed

lemma month_day_spec:
  assumes "month_day y m d = (m', d')" and "m \<le> 12" and "d < sum_list (map (days_in y) [m..<13])"
  shows "m \<le> m' \<and> m' \<le> 12 \<and> 1 \<le> d' \<and> d' \<le> days_in y m' \<and>
    sum_list (map (days_in y) [m..<m']) + d' = d + 1"
  using assms
proof (induction y m d arbitrary: m' d' rule: month_day.induct)
  case (1 y m d)
  have split: "sum_list (map (days_in y) [m..<k]) = days_in y m + sum_list (map (days_in y) [m + 1..<k])" if "m < k" for k
    using that by (simp add: upt_conv_Cons)
  show ?case
  proof (cases "m < 12 \<and> days_in y m \<le> d")
    case True
    then have rec: "month_day y (m + 1) (d - days_in y m) = (m', d')" using "1.prems"(1) by (simp add: month_day.simps [of y m])
    have "d - days_in y m < sum_list (map (days_in y) [m + 1..<13])"
      using True "1.prems"(3) split [of 13] by linarith
    from "1.IH" [OF True rec _ this] True have
      "m + 1 \<le> m'" "m' \<le> 12" "1 \<le> d'" "d' \<le> days_in y m'" "sum_list (map (days_in y) [m + 1..<m']) + d' = d - days_in y m + 1"
      by auto
    with True split [of m'] show ?thesis by simp
  next
    case False
    then have "m' = m" "d' = d + 1" using "1.prems"(1) by (auto simp: month_day.simps [of y m])
    moreover have "d < days_in y m"
    proof (cases "m < 12")
      case False
      then have "[m..<13] = [m]" using "1.prems"(2) by (simp add: upt_rec)
      with "1.prems"(3) show ?thesis by simp
    qed (use False in simp)
    ultimately show ?thesis using "1.prems"(2) by simp
  qed
qed

lemma sum_days_in: "sum_list (map (days_in y) [1..<13]) = year_length y"
  by (simp add: upt_rec days_in_def year_length_def)

lemma date_of_spec: "valid_date (date_of n) \<and> Noon (date_of n) \<and> day_number (date_of n) = int n"
proof -
  obtain y yd where y: "year_and_day n = (y, yd)" by (cases "year_and_day n")
  obtain m d where md: "month_day y 1 yd = (m, d)" by (cases "month_day y 1 yd")
  note spec = year_and_day_spec [OF y]
  have "1 \<le> m \<and> m \<le> 12 \<and> 1 \<le> d \<and> d \<le> days_in y m \<and> sum_list (map (days_in y) [1..<m]) + d = yd + 1"
    using month_day_spec [OF md] spec(2) unfolding sum_days_in by simp
  moreover have "date_of n = \<lparr>Year = y, Month = m, Day = d, Noon = True\<rparr>" by (simp only: date_of_def y md Let_def prod.case)
  ultimately show ?thesis
    using spec(1) by (simp add: valid_date_def day_number_def days_before_month_def)
qed

text \<open>The last day of year 9999 has number 3652058.\<close>

lemma days_before_year_10000: "10000 \<le> y \<Longrightarrow> 3652059 \<le> days_before_year y"
proof -
  assume "10000 \<le> y"
  moreover define n where "n = int y - 1"
  ultimately have n: "9999 \<le> n" by simp
  have "24 \<le> n div 400" using zdiv_mono1 [OF n, of 400] by simp
  moreover have "n \<le> 4 * (n div 4) + 3" "100 * (n div 100) \<le> n" by simp_all
  ultimately show ?thesis using n unfolding days_before_year_def Let_def n_def [symmetric] by linarith
qed

lemma Year_date_of: "n < 3652059 \<Longrightarrow> Year (date_of n) \<le> 9999"
proof (rule ccontr)
  assume n: "n < 3652059" and "\<not> Year (date_of n) \<le> 9999"
  then have "3652059 \<le> days_before_year (Year (date_of n))" by (intro days_before_year_10000) simp
  moreover have "days_before_year (Year (date_of n)) \<le> int n"
    using date_of_spec [of n] by (auto simp: day_number_def valid_date_def)
  ultimately show False using n by simp
qed

subsection \<open>Text\<close>

definition second :: int where "second = 1000000000"

definition day_ns :: int where "day_ns = 86400000000000"

definition epoch_day :: int where "epoch_day = 719162"

definition year_one :: int where "year_one = - 62135596800000000000"

definition year_10000 :: int where "year_10000 = 253402300800000000000"

primrec pad :: "nat \<Rightarrow> nat \<Rightarrow> string" where
  "pad 0 n = []"
| "pad (Suc k) n = pad k (n div 10) @ [digit_char (n mod 10)]"

definition format_nano :: "int \<Rightarrow> string" where
  "format_nano t =
     (let n = t + epoch_day * day_ns; r = nat (n mod day_ns); s = r div 1000000000
      in date_string (date_of (nat (n div day_ns))) @ ''T'' @ pad2 (s div 3600) @ '':'' @ pad2 (s div 60 mod 60) @
         '':'' @ pad2 (s mod 60) @ ''.'' @ pad 9 (r mod 1000000000) @ ''Z'')"

text \<open>The clock, the fraction of a second, of which nine digits count, and the zone.\<close>

definition parse_clock :: "string \<Rightarrow> (nat \<times> string) option" where
  "parse_clock s =
     (case s of t # h1 # h2 # c1 # m1 # m2 # c2 # s1 # s2 # rest \<Rightarrow>
        let h = digits_val 0 [h1, h2]; m = digits_val 0 [m1, m2]; sec = digits_val 0 [s1, s2]
        in if t = CHR ''T'' \<and> c1 = CHR '':'' \<and> c2 = CHR '':'' \<and> list_all is_digit [h1, h2, m1, m2, s1, s2] \<and>
              h < 24 \<and> m < 60 \<and> sec < 60
           then Some (h * 3600 + m * 60 + sec, rest) else None
      | _ \<Rightarrow> None)"

definition parse_fraction :: "string \<Rightarrow> nat \<times> string" where
  "parse_fraction s =
     (case s of p # d # rest \<Rightarrow>
        if p = CHR ''.'' \<and> is_digit d
        then (digits_val 0 (take 9 (takeWhile is_digit (d # rest) @ replicate 9 (CHR ''0''))), dropWhile is_digit (d # rest))
        else (0, s)
      | _ \<Rightarrow> (0, s))"

definition parse_zone :: "string \<Rightarrow> int option" where
  "parse_zone s =
     (if s = ''Z'' then Some 0
      else case s of [sg, h1, h2, c, m1, m2] \<Rightarrow>
        let h = digits_val 0 [h1, h2]; m = digits_val 0 [m1, m2]
        in if sg \<in> {CHR ''+'', CHR ''-''} \<and> c = CHR '':'' \<and> list_all is_digit [h1, h2, m1, m2] \<and> h < 24 \<and> m < 60
           then Some ((if sg = CHR ''-'' then - 1 else 1) * int ((h * 60 + m) * 60)) else None
      | _ \<Rightarrow> None)"

text \<open>The instant of a text in the form of RFC 3339; what Go makes of the texts it accepts beyond
  that form (\<open>Parse(RFC3339, s)\<close> with, say, an hour of one digit) is a parameter.\<close>

definition parse_rfc3339 :: "string \<Rightarrow> int option" where
  "parse_rfc3339 s =
     Option.bind (parse_date (take 10 s)) (\<lambda>t.
     Option.bind (parse_clock (drop 10 s)) (\<lambda>(sec, rest).
     let (nsec, rest) = parse_fraction rest
     in map_option (\<lambda>zone. (day_number t - epoch_day) * day_ns + (int sec - zone) * second + int nsec) (parse_zone rest)))"

definition parse_instant :: "(string \<Rightarrow> int option) \<Rightarrow> string \<Rightarrow> int option" where
  "parse_instant lenient s = (case parse_rfc3339 s of Some t \<Rightarrow> Some t | None \<Rightarrow> lenient s)"

subsection \<open>The round trip\<close>

lemma length_pad [simp]: "length (pad k n) = k"
  by (induction k arbitrary: n) simp_all

lemma pad_digits: "list_all is_digit (pad k n)"
  by (induction k arbitrary: n) (simp_all add: is_digit_digit_char)

lemma digits_val_pad: "n < 10 ^ k \<Longrightarrow> digits_val 0 (pad k n) = n"
proof (induction k arbitrary: n)
  case (Suc k)
  then have "n div 10 < 10 ^ k" by (simp add: less_mult_imp_div_less mult.commute)
  from Suc.IH [OF this] show ?case by (simp add: digits_val_def digit_val_digit_char)
qed (simp add: digits_val_def)

lemma parse_clock_pads:
  assumes "h < 24" "m < 60" "s < 60"
  shows "parse_clock (''T'' @ pad2 h @ '':'' @ pad2 m @ '':'' @ pad2 s @ rest) = Some (h * 3600 + m * 60 + s, rest)"
proof -
  have v: "digits_val 0 (pad2 h) = h" "digits_val 0 (pad2 m) = m" "digits_val 0 (pad2 s) = s"
    using assms by (simp_all add: digits_val_pad2)
  show ?thesis
    using v assms by (simp add: parse_clock_def pad2_def is_digit_digit_char Let_def)
qed

lemma parse_fraction_pad:
  assumes "n < 10 ^ 9"
  shows "parse_fraction (''.'' @ pad 9 n @ ''Z'') = (n, ''Z'')"
proof -
  obtain d rest where ds: "pad 9 n = d # rest" using length_pad [of 9 n] by (cases "pad 9 n") simp_all
  have dg: "\<forall>c\<in>set (pad 9 n). is_digit c" using pad_digits [of 9 n] by (simp add: list_all_iff)
  have z: "\<not> is_digit (CHR ''Z'')" by (simp add: is_digit_def)
  have "takeWhile is_digit (pad 9 n @ ''Z'') = pad 9 n" "dropWhile is_digit (pad 9 n @ ''Z'') = ''Z''"
    using dg z by (simp_all add: takeWhile_append dropWhile_append)
  moreover have "take 9 (pad 9 n @ replicate 9 (CHR ''0'')) = pad 9 n" by simp
  moreover have "is_digit d" using dg ds by simp
  ultimately show ?thesis
    using digits_val_pad [OF assms] by (simp add: parse_fraction_def ds)
qed

lemma parse_format_nano:
  assumes "year_one \<le> t" and "t < year_10000"
  shows "parse_rfc3339 (format_nano t) = Some t"
proof -
  define n where n: "n = t + epoch_day * day_ns"
  define d r s where d: "d = nat (n div day_ns)" and r: "r = nat (n mod day_ns)" and s: "s = r div 1000000000"
  have "0 \<le> n" "n < 3652059 * day_ns"
    using assms by (simp_all add: n year_one_def year_10000_def epoch_day_def day_ns_def)
  then have "0 \<le> n div day_ns" "n div day_ns < 3652059"
    by (simp_all add: day_ns_def)
  then have dd: "int d = n div day_ns" "d < 3652059" unfolding d by simp_all
  have rr: "int r = n mod day_ns" "r < 86400000000000" unfolding r by (simp_all add: day_ns_def nat_less_iff)
  have ss: "s < 86400" unfolding s using rr(2) by simp
  let ?T = "date_of d"
  have T: "valid_date ?T" "Noon ?T" "day_number ?T = int d" using date_of_spec [of d] by blast+
  have Y: "Year ?T \<le> 9999" using Year_date_of [OF dd(2)] .
  have shape: "format_nano t = date_string ?T @ ''T'' @ pad2 (s div 3600) @ '':'' @ pad2 (s div 60 mod 60) @
      '':'' @ pad2 (s mod 60) @ ''.'' @ pad 9 (r mod 1000000000) @ ''Z''"
    by (simp only: format_nano_def Let_def n [symmetric] d [symmetric] r [symmetric] s [symmetric])
  have "take 10 (format_nano t) = date_string ?T" "drop 10 (format_nano t) = ''T'' @ pad2 (s div 3600) @ '':'' @
      pad2 (s div 60 mod 60) @ '':'' @ pad2 (s mod 60) @ ''.'' @ pad 9 (r mod 1000000000) @ ''Z''"
    unfolding shape using length_date_string [OF Y] by simp_all
  moreover have "parse_date (date_string ?T) = Some ?T" using parse_date_string [OF T(1) Y T(2)] .
  moreover have "s div 3600 < 24" using ss by simp
  then have "parse_clock (''T'' @ pad2 (s div 3600) @ '':'' @ pad2 (s div 60 mod 60) @ '':'' @ pad2 (s mod 60) @ rest) =
      Some (s div 3600 * 3600 + s div 60 mod 60 * 60 + s mod 60, rest)" for rest
    by (rule parse_clock_pads) simp_all
  moreover have "parse_fraction (''.'' @ pad 9 (r mod 1000000000) @ ''Z'') = (r mod 1000000000, ''Z'')"
    by (rule parse_fraction_pad) simp
  moreover have "s div 3600 * 3600 + s div 60 mod 60 * 60 + s mod 60 = s"
  proof -
    have "s div 60 div 60 = s div 3600" by (simp flip: div_mult2_eq)
    then obtain h m k where "s div 3600 = h" "s div 60 mod 60 = m" "s mod 60 = k" "s div 60 = h * 60 + m" "s = s div 60 * 60 + k"
      by (metis div_mult_mod_eq)
    then show ?thesis by simp
  qed
  moreover have "(int d - epoch_day) * day_ns + int s * second + int (r mod 1000000000) = t"
  proof -
    have "int s * second + int (r mod 1000000000) = int r"
      unfolding s second_def by (metis div_mult_mod_eq of_nat_add of_nat_mult of_nat_numeral)
    moreover have "int d * day_ns + int r = n" using dd(1) rr(1) by simp
    ultimately show ?thesis unfolding n by (simp add: left_diff_distrib)
  qed
  ultimately show ?thesis
    using T(3) by (simp add: parse_rfc3339_def parse_zone_def)
qed


end
