(* ===== verification/GoJson.thy ===== *)
theory GoJson
  imports GoStrings
begin

text \<open>
  The part of Go's \<open>encoding/json\<close> the tools use: the text of a value (\<open>Marshal\<close>,
  \<open>MarshalIndent\<close>) and the reading of a text (\<open>Unmarshal\<close>) into a tree, from which the components
  decode their structs. A text is cut into tokens, and the tokens are parsed. The main lemma is
  the round trip: what either printer writes is read back, for strings of ASCII characters; other
  characters are printed byte by byte as Go does for valid UTF-8. A number is kept as its literal.
\<close>

datatype json = JNull | JBool bool | JNum string | JStr string | JArr "json list" | JObj "(string \<times> json) list"

datatype jtoken = BraceL | BraceR | BracketL | BracketR | Colon | Comma | TStr string | TNum string | TTrue | TFalse | TNull

abbreviation dquote :: char where "dquote \<equiv> CHR 0x22"
abbreviation backslash :: char where "backslash \<equiv> CHR 0x5C"

subsection \<open>Strings\<close>

definition hex_val :: "char \<Rightarrow> nat option" where
  "hex_val c =
     (let n = (of_char c :: nat)
      in if is_digit c then Some (n - 48) else if 97 \<le> n \<and> n \<le> 102 then Some (n - 87)
         else if 65 \<le> n \<and> n \<le> 70 then Some (n - 55) else None)"

fun hex4 :: "string \<Rightarrow> (nat \<times> string) option" where
  "hex4 (a # b # c # d # cs) =
     (case (hex_val a, hex_val b, hex_val c, hex_val d) of
        (Some a, Some b, Some c, Some d) \<Rightarrow> Some (((a * 16 + b) * 16 + c) * 16 + d, cs) | _ \<Rightarrow> None)"
| "hex4 cs = None"

text \<open>The bytes of a code point in UTF-8.\<close>

definition utf8 :: "nat \<Rightarrow> string" where
  "utf8 n = map char_of
     (if n < 128 then [n] else if n < 2048 then [192 + n div 64, 128 + n mod 64]
      else if n < 65536 then [224 + n div 4096, 128 + n div 64 mod 64, 128 + n mod 64]
      else [240 + n div 262144, 128 + n div 4096 mod 64, 128 + n div 64 mod 64, 128 + n mod 64])"

text \<open>A surrogate that is not the first of a pair is replaced.\<close>

definition low_surrogate :: "string \<Rightarrow> (nat \<times> string) option" where
  "low_surrogate cs =
     (case cs of c # d # ds \<Rightarrow>
        if c = backslash \<and> d = CHR ''u''
        then case hex4 ds of Some (n, es) \<Rightarrow> if 56320 \<le> n \<and> n < 57344 then Some (n, es) else None | None \<Rightarrow> None
        else None
      | _ \<Rightarrow> None)"

definition unicode_escape :: "string \<Rightarrow> (string \<times> string) option" where
  "unicode_escape cs =
     (case hex4 cs of
        None \<Rightarrow> None
      | Some (n, ds) \<Rightarrow>
          if 55296 \<le> n \<and> n < 56320
          then case low_surrogate ds of
                 Some (m, es) \<Rightarrow> Some (utf8 (65536 + (n - 55296) * 1024 + (m - 56320)), es)
               | None \<Rightarrow> Some (utf8 65533, ds)
          else Some (utf8 (if 56320 \<le> n \<and> n < 57344 then 65533 else n), ds))"

definition simple_escape :: "char \<Rightarrow> char option" where
  "simple_escape e = map_of [(dquote, dquote), (backslash, backslash), (CHR ''/'', CHR ''/''), (CHR ''b'', CHR 0x08),
     (CHR ''f'', CHR 0x0C), (CHR ''n'', CHR 0x0A), (CHR ''r'', CHR 0x0D), (CHR ''t'', CHR 0x09)] e"

definition read_escape :: "string \<Rightarrow> (string \<times> string) option" where
  "read_escape cs =
     (case cs of
        [] \<Rightarrow> None
      | e # ds \<Rightarrow> if e = CHR ''u'' then unicode_escape ds
                 else case simple_escape e of Some d \<Rightarrow> Some ([d], ds) | None \<Rightarrow> None)"

lemma hex4_shorter: "hex4 cs = Some (n, ds) \<Longrightarrow> length ds < length cs"
  by (induction cs rule: hex4.induct) (auto split: option.splits)

lemma unicode_escape_shorter: "unicode_escape cs = Some (s, ds) \<Longrightarrow> length ds < length cs"
  by (auto simp: unicode_escape_def low_surrogate_def split: option.splits if_splits list.splits dest!: hex4_shorter)

lemma read_escape_shorter: "read_escape cs = Some (s, ds) \<Longrightarrow> length ds < length cs"
  by (auto simp: read_escape_def split: list.splits if_splits option.splits dest!: unicode_escape_shorter)

text \<open>What follows the opening quotation mark: the content, and the rest of the text.\<close>

function unquote :: "string \<Rightarrow> (string \<times> string) option" where
  "unquote [] = None"
| "unquote (c # cs) =
     (if c = dquote then Some ([], cs)
      else if c = backslash then
        (case read_escape cs of
           None \<Rightarrow> None
         | Some (s, ds) \<Rightarrow> (case unquote ds of None \<Rightarrow> None | Some (t, rest) \<Rightarrow> Some (s @ t, rest)))
      else if (of_char c :: nat) < 32 then None
      else case unquote cs of None \<Rightarrow> None | Some (t, rest) \<Rightarrow> Some (c # t, rest))"
  by pat_completeness auto
termination
  by (relation "measure length") (auto dest: read_escape_shorter)

definition hex_char :: "nat \<Rightarrow> char" where
  "hex_char n = ''0123456789abcdef'' ! n"

definition escape_char :: "char \<Rightarrow> string" where
  "escape_char c =
     (let n = (of_char c :: nat)
      in if c = dquote \<or> c = backslash then [backslash, c]
         else if n = 10 then [backslash, CHR ''n''] else if n = 13 then [backslash, CHR ''r'']
         else if n = 9 then [backslash, CHR ''t'']
         else if n < 32 \<or> c \<in> {CHR ''<'', CHR ''>'', CHR ''&''}
         then backslash # ''u00'' @ [hex_char (n div 16), hex_char (n mod 16)] else [c])"

definition quoted :: "string \<Rightarrow> string" where
  "quoted s = dquote # concat (map escape_char s) @ [dquote]"

subsection \<open>Numbers\<close>

definition number_char :: "char \<Rightarrow> bool" where
  "number_char c \<longleftrightarrow> is_digit c \<or> c \<in> {CHR ''-'', CHR ''+'', CHR ''.'', CHR ''e'', CHR ''E''}"

definition digits1 :: "string \<Rightarrow> bool" where
  "digits1 s \<longleftrightarrow> s \<noteq> [] \<and> list_all is_digit s"

definition exponent :: "string \<Rightarrow> bool" where
  "exponent s \<longleftrightarrow>
     (case s of
        [] \<Rightarrow> True
      | c # cs \<Rightarrow> (c = CHR ''e'' \<or> c = CHR ''E'') \<and>
          digits1 (case cs of d # ds \<Rightarrow> if d = CHR ''-'' \<or> d = CHR ''+'' then ds else cs | [] \<Rightarrow> []))"

definition fraction :: "string \<Rightarrow> bool" where
  "fraction s \<longleftrightarrow>
     (case s of
        [] \<Rightarrow> True
      | c # cs \<Rightarrow> if c = CHR ''.'' then takeWhile is_digit cs \<noteq> [] \<and> exponent (dropWhile is_digit cs) else exponent s)"

definition valid_number :: "string \<Rightarrow> bool" where
  "valid_number s =
     (let t = (case s of c # cs \<Rightarrow> if c = CHR ''-'' then cs else s | [] \<Rightarrow> [])
      in takeWhile is_digit t \<noteq> [] \<and> (hd t = CHR ''0'' \<longrightarrow> takeWhile is_digit t = ''0'') \<and> fraction (dropWhile is_digit t))"

subsection \<open>Tokens\<close>

definition json_space :: "char \<Rightarrow> bool" where
  "json_space c \<longleftrightarrow> c = CHR '' '' \<or> c = CHR 0x09 \<or> c = CHR 0x0A \<or> c = CHR 0x0D"

definition punctuation :: "char \<Rightarrow> jtoken option" where
  "punctuation c = map_of [(CHR ''{'', BraceL), (CHR ''}'', BraceR), (CHR ''['', BracketL), (CHR '']'', BracketR),
     (CHR '':'', Colon), (CHR '','', Comma)] c"

definition word_token :: "string \<Rightarrow> (jtoken \<times> string) option" where
  "word_token cs =
     (if take 4 cs = ''true'' then Some (TTrue, drop 4 cs)
      else if take 5 cs = ''false'' then Some (TFalse, drop 5 cs)
      else if take 4 cs = ''null'' then Some (TNull, drop 4 cs) else None)"

text \<open>The first token of a text that does not start with white space.\<close>

definition next_token :: "string \<Rightarrow> (jtoken \<times> string) option" where
  "next_token cs =
     (case cs of
        [] \<Rightarrow> None
      | c # ds \<Rightarrow>
          (case punctuation c of
             Some t \<Rightarrow> Some (t, ds)
           | None \<Rightarrow>
               if c = dquote then map_option (\<lambda>(s, rest). (TStr s, rest)) (unquote ds)
               else if is_digit c \<or> c = CHR ''-''
               then if valid_number (takeWhile number_char cs) then Some (TNum (takeWhile number_char cs), dropWhile number_char cs)
                    else None
               else word_token cs))"

lemma unquote_shorter: "unquote cs = Some (s, rest) \<Longrightarrow> length rest < length cs"
  by (induction cs arbitrary: s rest rule: unquote.induct)
    (auto split: if_splits option.splits dest: read_escape_shorter, meson less_trans less_SucI read_escape_shorter)

lemma next_token_shorter: "next_token cs = Some (t, rest) \<Longrightarrow> length rest < length cs"
proof (cases cs)
  case (Cons c ds)
  assume "next_token cs = Some (t, rest)"
  moreover have "length (dropWhile number_char ds) \<le> length ds" by (rule length_dropWhile_le)
  ultimately show ?thesis
    using Cons by (auto simp: next_token_def word_token_def number_char_def split: option.splits if_splits
        dest!: unquote_shorter)
qed (simp add: next_token_def)

function tokens :: "string \<Rightarrow> jtoken list option" where
  "tokens cs =
     (case cs of
        [] \<Rightarrow> Some []
      | c # ds \<Rightarrow>
          if json_space c then tokens ds
          else case next_token cs of
                 None \<Rightarrow> None
               | Some (t, rest) \<Rightarrow> map_option ((#) t) (tokens rest))"
  by pat_completeness auto
termination
  by (relation "measure length") (auto dest: next_token_shorter)

declare tokens.simps [simp del]

subsection \<open>Parsing\<close>

text \<open>Values, the elements of an array and the members of an object, with fuel for the recursion.\<close>

fun parse_value :: "nat \<Rightarrow> jtoken list \<Rightarrow> (json \<times> jtoken list) option"
  and parse_elements :: "nat \<Rightarrow> jtoken list \<Rightarrow> (json list \<times> jtoken list) option"
  and parse_members :: "nat \<Rightarrow> jtoken list \<Rightarrow> ((string \<times> json) list \<times> jtoken list) option" where
  "parse_value 0 ts = None"
| "parse_value (Suc n) ts =
     (case ts of
        TNull # us \<Rightarrow> Some (JNull, us)
      | TTrue # us \<Rightarrow> Some (JBool True, us)
      | TFalse # us \<Rightarrow> Some (JBool False, us)
      | TNum s # us \<Rightarrow> Some (JNum s, us)
      | TStr s # us \<Rightarrow> Some (JStr s, us)
      | BracketL # BracketR # us \<Rightarrow> Some (JArr [], us)
      | BracketL # us \<Rightarrow> map_option (\<lambda>(vs, ws). (JArr vs, ws)) (parse_elements n us)
      | BraceL # BraceR # us \<Rightarrow> Some (JObj [], us)
      | BraceL # us \<Rightarrow> map_option (\<lambda>(ms, ws). (JObj ms, ws)) (parse_members n us)
      | _ \<Rightarrow> None)"
| "parse_elements 0 ts = None"
| "parse_elements (Suc n) ts =
     (case parse_value n ts of
        Some (v, BracketR # us) \<Rightarrow> Some ([v], us)
      | Some (v, Comma # us) \<Rightarrow> map_option (\<lambda>(vs, ws). (v # vs, ws)) (parse_elements n us)
      | _ \<Rightarrow> None)"
| "parse_members 0 ts = None"
| "parse_members (Suc n) ts =
     (case ts of
        TStr k # Colon # us \<Rightarrow>
          (case parse_value n us of
             Some (v, BraceR # ws) \<Rightarrow> Some ([(k, v)], ws)
           | Some (v, Comma # ws) \<Rightarrow> map_option (\<lambda>(ms, xs). ((k, v) # ms, xs)) (parse_members n ws)
           | _ \<Rightarrow> None)
      | _ \<Rightarrow> None)"

definition parse_json :: "string \<Rightarrow> json option" where
  "parse_json s =
     (case tokens s of
        None \<Rightarrow> None
      | Some ts \<Rightarrow> (case parse_value (Suc (length ts)) ts of Some (v, []) \<Rightarrow> Some v | _ \<Rightarrow> None))"

subsection \<open>Printing\<close>

text \<open>Both layouts: \<open>nl d\<close> is written before an element at depth \<open>d\<close>, \<open>sp\<close> after a colon.\<close>

fun print_value :: "(nat \<Rightarrow> string) \<Rightarrow> string \<Rightarrow> nat \<Rightarrow> json \<Rightarrow> string"
  and print_elements :: "(nat \<Rightarrow> string) \<Rightarrow> string \<Rightarrow> nat \<Rightarrow> json list \<Rightarrow> string"
  and print_members :: "(nat \<Rightarrow> string) \<Rightarrow> string \<Rightarrow> nat \<Rightarrow> (string \<times> json) list \<Rightarrow> string" where
  "print_value nl sp d JNull = ''null''"
| "print_value nl sp d (JBool b) = (if b then ''true'' else ''false'')"
| "print_value nl sp d (JNum s) = s"
| "print_value nl sp d (JStr s) = quoted s"
| "print_value nl sp d (JArr vs) = (if vs = [] then ''[]'' else ''['' @ print_elements nl sp (d + 1) vs @ nl d @ '']'')"
| "print_value nl sp d (JObj ms) = (if ms = [] then ''{}'' else ''{'' @ print_members nl sp (d + 1) ms @ nl d @ ''}'')"
| "print_elements nl sp d [] = ''''"
| "print_elements nl sp d (v # vs) =
     nl d @ print_value nl sp d v @ (if vs = [] then '''' else '','' @ print_elements nl sp d vs)"
| "print_members nl sp d [] = ''''"
| "print_members nl sp d ((k, v) # ms) =
     nl d @ quoted k @ '':'' @ sp @ print_value nl sp d v @ (if ms = [] then '''' else '','' @ print_members nl sp d ms)"

text \<open>\<open>json.Marshal\<close>, and \<open>json.MarshalIndent\<close> with an empty prefix and tabulators.\<close>

definition marshal :: "json \<Rightarrow> string" where
  "marshal v = print_value (\<lambda>d. '''') '''' 0 v"

definition marshal_indent :: "json \<Rightarrow> string" where
  "marshal_indent v = print_value (\<lambda>d. CHR 0x0A # replicate d (CHR 0x09)) '' '' 0 v"

subsection \<open>The round trip\<close>

definition ascii :: "string \<Rightarrow> bool" where
  "ascii s \<longleftrightarrow> (\<forall>c\<in>set s. (of_char c :: nat) < 128)"

fun printable :: "json \<Rightarrow> bool" where
  "printable (JNum s) \<longleftrightarrow> valid_number s \<and> list_all number_char s"
| "printable (JStr s) \<longleftrightarrow> ascii s"
| "printable (JArr vs) \<longleftrightarrow> (\<forall>v\<in>set vs. printable v)"
| "printable (JObj ms) \<longleftrightarrow> (\<forall>m\<in>set ms. ascii (fst m) \<and> printable (snd m))"
| "printable v \<longleftrightarrow> True"

fun toks :: "json \<Rightarrow> jtoken list"
  and toks_elements :: "json list \<Rightarrow> jtoken list"
  and toks_members :: "(string \<times> json) list \<Rightarrow> jtoken list" where
  "toks JNull = [TNull]" | "toks (JBool b) = [if b then TTrue else TFalse]"
| "toks (JNum s) = [TNum s]" | "toks (JStr s) = [TStr s]"
| "toks (JArr vs) = BracketL # toks_elements vs @ [BracketR]"
| "toks (JObj ms) = BraceL # toks_members ms @ [BraceR]"
| "toks_elements [] = []"
| "toks_elements (v # vs) = toks v @ (if vs = [] then [] else Comma # toks_elements vs)"
| "toks_members [] = []"
| "toks_members ((k, v) # ms) = TStr k # Colon # toks v @ (if ms = [] then [] else Comma # toks_members ms)"

lemma hex_val_char: "n < 16 \<Longrightarrow> hex_val (hex_char n) = Some n"
proof -
  have "\<forall>n\<in>set [0..<16]. hex_val (hex_char n) = Some n"
    by (simp add: upt_rec hex_val_def hex_char_def is_digit_def)
  then show "n < 16 \<Longrightarrow> hex_val (hex_char n) = Some n" by simp
qed

lemma escape_pairs:
  "escape_char dquote = [backslash, dquote] \<and> simple_escape dquote = Some dquote"
  "escape_char backslash = [backslash, backslash] \<and> simple_escape backslash = Some backslash"
  "escape_char (CHR 0x0A) = [backslash, CHR ''n''] \<and> simple_escape (CHR ''n'') = Some (CHR 0x0A)"
  "escape_char (CHR 0x0D) = [backslash, CHR ''r''] \<and> simple_escape (CHR ''r'') = Some (CHR 0x0D)"
  "escape_char (CHR 0x09) = [backslash, CHR ''t''] \<and> simple_escape (CHR ''t'') = Some (CHR 0x09)"
  by (simp_all add: escape_char_def simple_escape_def)

lemma unquote_escape_char:
  assumes "(of_char c :: nat) < 128" and "unquote rest = Some (t, rest')"
  shows "unquote (escape_char c @ rest) = Some (c # t, rest')"
proof -
  define n where "n = (of_char c :: nat)"
  have c: "c = char_of n" "n < 128" using assms(1) by (simp_all add: n_def)
  consider (simple) "c = dquote \<or> c = backslash \<or> n \<in> {10, 13, 9}"
    | (unicode) "n \<notin> {10, 13, 9}" "c \<noteq> dquote" "c \<noteq> backslash" "n < 32 \<or> c \<in> {CHR ''<'', CHR ''>'', CHR ''&''}"
    | (plain) "n \<notin> {10, 13, 9}" "c \<noteq> dquote" "c \<noteq> backslash" "\<not> n < 32" "c \<notin> {CHR ''<'', CHR ''>'', CHR ''&''}" by blast
  then show ?thesis
  proof cases
    case simple
    moreover have "c = d" if "n = of_char d" for d using that by (simp add: n_def)
    from this [of "CHR 0x0A"] this [of "CHR 0x0D"] this [of "CHR 0x09"]
    have "n = 10 \<longrightarrow> c = CHR 0x0A" "n = 13 \<longrightarrow> c = CHR 0x0D" "n = 9 \<longrightarrow> c = CHR 0x09" by simp_all
    ultimately have "c \<in> {dquote, backslash, CHR 0x0A, CHR 0x0D, CHR 0x09}" by auto
    then have "\<exists>e. escape_char c = [backslash, e] \<and> e \<noteq> CHR ''u'' \<and> simple_escape e = Some c"
      using escape_pairs by auto
    then show ?thesis using assms(2) by (auto simp: read_escape_def)
  next
    case unicode
    then have e: "escape_char c = backslash # ''u00'' @ [hex_char (n div 16), hex_char (n mod 16)]"
      by (auto simp: escape_char_def Let_def n_def)
    have "n div 16 < 16" using c(2) by simp
    then have "hex4 (CHR ''0'' # CHR ''0'' # hex_char (n div 16) # hex_char (n mod 16) # rest) = Some (n, rest)"
      by (simp add: hex_val_char) (simp add: hex_val_def is_digit_def)
    then have "unicode_escape (''00'' @ [hex_char (n div 16), hex_char (n mod 16)] @ rest) = Some ([c], rest)"
      using c by (simp add: unicode_escape_def utf8_def)
    then show ?thesis using assms(2) e by (simp add: read_escape_def)
  next
    case plain
    then have "escape_char c = [c]" by (auto simp: escape_char_def Let_def n_def)
    then show ?thesis using assms(2) plain by (simp add: n_def)
  qed
qed

lemma unquote_quoted: "ascii s \<Longrightarrow> unquote (concat (map escape_char s) @ dquote # rest) = Some (s, rest)"
proof (induction s)
  case (Cons c s)
  then show ?case using unquote_escape_char [of c "concat (map escape_char s) @ dquote # rest" s rest]
    by (simp add: ascii_def)
qed simp

text \<open>A text that may follow a value: it does not go on with a number.\<close>

definition no_number :: "string \<Rightarrow> bool" where
  "no_number cs \<longleftrightarrow> (case cs of [] \<Rightarrow> True | c # ds \<Rightarrow> \<not> number_char c)"

lemma tokens_Nil [simp]: "tokens [] = Some []"
  by (subst tokens.simps) simp

lemma tokens_space: "\<forall>c\<in>set ws. json_space c \<Longrightarrow> tokens (ws @ cs) = tokens cs"
proof (induction ws)
  case (Cons c ws)
  then show ?case by (subst tokens.simps) simp
qed simp

lemma punctuation_not_space: "punctuation c = Some t \<Longrightarrow> \<not> json_space c"
  by (auto simp: punctuation_def json_space_def split: if_splits)

lemma tokens_punctuation: "punctuation c = Some t \<Longrightarrow> tokens (c # cs) = map_option ((#) t) (tokens cs)"
  by (subst tokens.simps) (simp add: punctuation_not_space next_token_def)

lemma punctuation_simps:
  "punctuation (CHR ''{'') = Some BraceL" "punctuation (CHR ''}'') = Some BraceR"
  "punctuation (CHR ''['') = Some BracketL" "punctuation (CHR '']'') = Some BracketR"
  "punctuation (CHR '':'') = Some Colon" "punctuation (CHR '','') = Some Comma"
  by (simp_all add: punctuation_def)

lemmas tokens_punct = punctuation_simps [THEN tokens_punctuation]

lemma tokens_quoted: "ascii s \<Longrightarrow> tokens (quoted s @ rest) = map_option ((#) (TStr s)) (tokens rest)"
  by (subst tokens.simps)
    (simp add: quoted_def json_space_def next_token_def punctuation_def unquote_quoted)

lemma tokens_words:
  "tokens (''null'' @ rest) = map_option ((#) TNull) (tokens rest)"
  "tokens (''true'' @ rest) = map_option ((#) TTrue) (tokens rest)"
  "tokens (''false'' @ rest) = map_option ((#) TFalse) (tokens rest)"
  by (subst tokens.simps, simp add: json_space_def next_token_def punctuation_def word_token_def is_digit_def)+

lemma not_digit:
  "\<not> is_digit (CHR '' '')" "\<not> is_digit (CHR 0x09)" "\<not> is_digit (CHR 0x0A)" "\<not> is_digit (CHR 0x0D)"
  "\<not> is_digit (CHR ''{'')" "\<not> is_digit (CHR ''}'')" "\<not> is_digit (CHR ''['')" "\<not> is_digit (CHR '']'')"
  "\<not> is_digit (CHR '':'')" "\<not> is_digit (CHR '','')" "\<not> is_digit dquote"
  by (simp_all add: is_digit_def)

lemma digit_number_char: "is_digit c \<Longrightarrow> number_char c \<and> \<not> json_space c \<and> punctuation c = None \<and> c \<noteq> dquote"
  using not_digit by (auto simp: number_char_def json_space_def punctuation_def)

lemma tokens_number:
  assumes "valid_number s" "list_all number_char s" "no_number rest"
  shows "tokens (s @ rest) = map_option ((#) (TNum s)) (tokens rest)"
proof -
  obtain c cs where s: "s = c # cs" using assms(1) by (cases s) (auto simp: valid_number_def)
  have "is_digit c \<or> c = CHR ''-''"
    using assms(1) s by (cases "c = CHR ''-''") (auto simp: valid_number_def Let_def split: if_splits)
  then have c: "\<not> json_space c" "punctuation c = None" "c \<noteq> dquote" "is_digit c \<or> c = CHR ''-''"
    using digit_number_char [of c] by (auto simp: json_space_def punctuation_def)
  have "takeWhile number_char (s @ rest) = s" "dropWhile number_char (s @ rest) = rest"
    using assms(2,3) by (auto simp: no_number_def list_all_iff takeWhile_append dropWhile_append split: list.splits)
  then show ?thesis
    using c s assms(1) by (subst tokens.simps) (simp add: next_token_def)
qed

lemma no_number_simps:
  "no_number []" "c \<in> {CHR '','', CHR '']'', CHR ''}''} \<Longrightarrow> no_number (c # cs)" "json_space c \<Longrightarrow> no_number (c # cs)"
  by (auto simp: no_number_def number_char_def is_digit_def json_space_def)

lemma no_number_spaces: "\<lbrakk>\<forall>c\<in>set ws. json_space c; no_number cs\<rbrakk> \<Longrightarrow> no_number (ws @ cs)"
  by (cases ws) (auto intro: no_number_simps)

lemma append_fun: "(@) [t] = (#) t" "(@) [] = (\<lambda>x. x)"
  by auto

definition layout_ok :: "(nat \<Rightarrow> string) \<Rightarrow> string \<Rightarrow> bool" where
  "layout_ok nl sp \<longleftrightarrow> (\<forall>d. \<forall>c\<in>set (nl d). json_space c) \<and> (\<forall>c\<in>set sp. json_space c)"

lemma tokens_print:
  shows "\<lbrakk>layout_ok nl sp; printable v; no_number rest\<rbrakk> \<Longrightarrow>
      tokens (print_value nl sp d v @ rest) = map_option ((@) (toks v)) (tokens rest)"
    and "\<lbrakk>layout_ok nl sp; \<forall>v\<in>set vs. printable v; no_number rest\<rbrakk> \<Longrightarrow>
      tokens (print_elements nl sp d vs @ rest) = map_option ((@) (toks_elements vs)) (tokens rest)"
    and "\<lbrakk>layout_ok nl sp; \<forall>m\<in>set ms. ascii (fst m) \<and> printable (snd m); no_number rest\<rbrakk> \<Longrightarrow>
      tokens (print_members nl sp d ms @ rest) = map_option ((@) (toks_members ms)) (tokens rest)"
proof (induction nl sp d v and nl sp d vs and nl sp d ms arbitrary: rest and rest and rest
    rule: print_value_print_elements_print_members.induct)
  case (5 nl sp d vs)
  then show ?case
  proof (cases "vs = []")
    case False
    have "no_number (nl d @ '']'' @ rest)"
      by (rule no_number_spaces) (use 5 in \<open>auto simp: layout_ok_def intro: no_number_simps\<close>)
    then have "tokens (print_elements nl sp (d + 1) vs @ nl d @ '']'' @ rest) =
        map_option ((@) (toks_elements vs)) (tokens (nl d @ '']'' @ rest))"
      using 5 False by auto
    moreover have "tokens (nl d @ '']'' @ rest) = map_option ((#) BracketR) (tokens rest)"
      using 5(2) by (subst tokens_space) (auto simp: layout_ok_def tokens_punct)
    ultimately show ?thesis using False by (simp add: tokens_punct option.map_comp comp_def)
  qed (simp add: tokens_punct option.map_comp comp_def)
next
  case (6 nl sp d ms)
  then show ?case
  proof (cases "ms = []")
    case False
    have "no_number (nl d @ ''}'' @ rest)"
      by (rule no_number_spaces) (use 6 in \<open>auto simp: layout_ok_def intro: no_number_simps\<close>)
    then have "tokens (print_members nl sp (d + 1) ms @ nl d @ ''}'' @ rest) =
        map_option ((@) (toks_members ms)) (tokens (nl d @ ''}'' @ rest))"
      using 6 False by auto
    moreover have "tokens (nl d @ ''}'' @ rest) = map_option ((#) BraceR) (tokens rest)"
      using 6(2) by (subst tokens_space) (auto simp: layout_ok_def tokens_punct)
    ultimately show ?thesis using False by (simp add: tokens_punct option.map_comp comp_def)
  qed (simp add: tokens_punct option.map_comp comp_def)
next
  case (8 nl sp d v vs)
  have sp: "tokens (nl d @ cs) = tokens cs" for cs
    using 8(3) by (intro tokens_space) (simp add: layout_ok_def)
  show ?case
  proof (cases "vs = []")
    case True
    then show ?thesis using 8 sp by simp
  next
    case False
    have "no_number ('','' @ print_elements nl sp d vs @ rest)" by (simp add: no_number_simps)
    then have "tokens (print_value nl sp d v @ '','' @ print_elements nl sp d vs @ rest) =
        map_option ((@) (toks v)) (tokens ('','' @ print_elements nl sp d vs @ rest))"
      using 8(1) [of "'','' @ print_elements nl sp d vs @ rest"] 8(3,4) by simp
    moreover have "tokens (print_elements nl sp d vs @ rest) = map_option ((@) (toks_elements vs)) (tokens rest)"
      using 8(2) [of rest] 8(3-5) False by simp
    ultimately show ?thesis using False sp by (simp add: tokens_punct option.map_comp comp_def)
  qed
next
  case (10 nl sp d k v ms)
  have sp: "tokens (nl d @ cs) = tokens cs" "tokens (sp @ cs) = tokens cs" for cs
    using 10(3) by (auto intro!: tokens_space simp: layout_ok_def)
  have k: "ascii k" using 10(4) by simp
  show ?case
  proof (cases "ms = []")
    case True
    then show ?thesis using 10 sp by (simp add: tokens_quoted [OF k] tokens_punct option.map_comp comp_def)
  next
    case False
    have "no_number ('','' @ print_members nl sp d ms @ rest)" by (simp add: no_number_simps)
    then have "tokens (print_value nl sp d v @ '','' @ print_members nl sp d ms @ rest) =
        map_option ((@) (toks v)) (tokens ('','' @ print_members nl sp d ms @ rest))"
      using 10(1) [of "'','' @ print_members nl sp d ms @ rest"] 10(3,4) by simp
    moreover have "tokens (print_members nl sp d ms @ rest) = map_option ((@) (toks_members ms)) (tokens rest)"
      using 10(2) [of rest] 10(3-5) False by simp
    ultimately show ?thesis using False sp by (simp add: tokens_quoted [OF k] tokens_punct option.map_comp comp_def)
  qed
next
  case (3 nl sp d s)
  then show ?case using tokens_number [of s rest] by (simp add: append_fun)
next
  case (4 nl sp d s)
  then show ?case using tokens_quoted [of s rest] by (simp add: append_fun)
qed (use tokens_words in \<open>simp_all add: append_fun option.map_id0 [unfolded id_def]\<close>)

lemma toks_head: "\<exists>t ts. toks v = t # ts \<and> t \<noteq> BracketR \<and> t \<noteq> BraceR"
  by (cases v) auto

lemma parse_toks:
  shows "length (toks v) \<le> n \<Longrightarrow> parse_value n (toks v @ rest) = Some (v, rest)"
    and "\<lbrakk>vs \<noteq> []; length (toks_elements vs) < n\<rbrakk> \<Longrightarrow>
      parse_elements n (toks_elements vs @ BracketR # rest) = Some (vs, rest)"
    and "\<lbrakk>ms \<noteq> []; length (toks_members ms) < n\<rbrakk> \<Longrightarrow>
      parse_members n (toks_members ms @ BraceR # rest) = Some (ms, rest)"
proof (induction v and vs and ms arbitrary: n rest and n rest and n rest rule: toks_toks_elements_toks_members.induct)
  case (5 vs)
  obtain m where n: "n = Suc m" using 5(2) by (cases n) auto
  show ?case
  proof (cases vs)
    case (Cons w ws)
    obtain t ts where t: "toks w = t # ts" "t \<noteq> BracketR" using toks_head [of w] by blast
    have "parse_elements m (toks_elements vs @ BracketR # rest) = Some (vs, rest)"
      using 5 n Cons by simp
    then show ?thesis using n t Cons by (cases t) simp_all
  qed (simp add: n)
next
  case (6 ms)
  obtain m where n: "n = Suc m" using 6(2) by (cases n) auto
  show ?case
  proof (cases ms)
    case (Cons w ws)
    have "parse_members m (toks_members ms @ BraceR # rest) = Some (ms, rest)"
      using 6 n Cons by simp
    then show ?thesis using n Cons by (cases w) simp
  qed (simp add: n)
next
  case (8 v vs)
  obtain m where n: "n = Suc m" using 8(4) by (cases n) auto
  obtain t ts where t: "toks v = t # ts" using toks_head [of v] by blast
  show ?case
  proof (cases "vs = []")
    case True
    then show ?thesis using 8(1) [of m "BracketR # rest"] 8(4) n by simp
  next
    case False
    then show ?thesis
      using 8(1) [of m "Comma # toks_elements vs @ BracketR # rest"] 8(2) [of m rest] 8(4) n t by simp
  qed
next
  case (10 k v ms)
  obtain m where n: "n = Suc m" using 10(4) by (cases n) auto
  show ?case
  proof (cases "ms = []")
    case True
    then show ?thesis using 10(1) [of m "BraceR # rest"] 10(4) n by simp
  next
    case False
    then show ?thesis
      using 10(1) [of m "Comma # toks_members ms @ BraceR # rest"] 10(2) [of m rest] 10(4) n by simp
  qed
qed (simp_all, (case_tac n; simp)+)

lemma parse_sound:
  shows "parse_value n ts = Some (v, us) \<Longrightarrow> ts = toks v @ us"
    and "parse_elements n ts = Some (vs, us) \<Longrightarrow> ts = toks_elements vs @ BracketR # us \<and> vs \<noteq> []"
    and "parse_members n ts = Some (ms, us) \<Longrightarrow> ts = toks_members ms @ BraceR # us \<and> ms \<noteq> []"
proof (induction n ts and n ts and n ts arbitrary: v us and vs us and ms us
    rule: parse_value_parse_elements_parse_members.induct)
  case (2 n ts)
  show ?case
  proof (cases ts)
    case (Cons t ws)
    then show ?thesis
      using 2 by (cases t) (auto split: list.splits jtoken.splits)
  qed (use 2 in simp)
next
  case (4 n ts)
  obtain w ws where w: "parse_value n ts = Some (w, ws)" using 4(3) by (auto split: option.splits)
  then show ?case
  proof (cases ws)
    case (Cons t xs)
    then show ?thesis using 4 w by (cases t) auto
  qed (use 4(3) w in simp)
next
  case (6 n ts)
  obtain k xs where ts: "ts = TStr k # Colon # xs" using 6(3) by (auto split: list.splits jtoken.splits)
  then obtain w ws where w: "parse_value n xs = Some (w, ws)" using 6(3) by (auto split: option.splits)
  then show ?case
  proof (cases ws)
    case (Cons t ys)
    then show ?thesis using 6 w ts by (cases t) auto
  qed (use 6(3) w ts in simp)
qed simp_all

text \<open>The fuel of \<open>parse_json\<close> is enough: a text is read as \<open>v\<close> exactly if its tokens are those of \<open>v\<close>.\<close>

lemma parse_json_iff: "parse_json s = Some v \<longleftrightarrow> tokens s = Some (toks v)"
proof
  assume "parse_json s = Some v"
  then obtain ts where ts: "tokens s = Some ts" "parse_value (Suc (length ts)) ts = Some (v, [])"
    unfolding parse_json_def by (auto split: option.splits list.splits prod.splits)
  then show "tokens s = Some (toks v)" using parse_sound(1) [OF ts(2)] by simp
next
  assume "tokens s = Some (toks v)"
  then show "parse_json s = Some v" using parse_toks(1) [of v "Suc (length (toks v))" "[]"] by (simp add: parse_json_def)
qed

lemma parse_print: "\<lbrakk>layout_ok nl sp; printable v\<rbrakk> \<Longrightarrow> parse_json (print_value nl sp d v) = Some v"
  using tokens_print(1) [of nl sp v "[]" d] by (simp add: parse_json_iff no_number_simps)

lemma parse_marshal: "printable v \<Longrightarrow> parse_json (marshal v) = Some v"
  unfolding marshal_def by (rule parse_print) (simp_all add: layout_ok_def)

lemma parse_marshal_indent: "printable v \<Longrightarrow> parse_json (marshal_indent v) = Some v"
  unfolding marshal_indent_def by (rule parse_print) (auto simp: layout_ok_def json_space_def)

subsection \<open>Decoding into a struct\<close>

text \<open>\<open>Unmarshal\<close> takes the members in order; a member goes to the field whose name it has, up to
  upper and lower case, so the last one wins. A member that is null leaves a field as it is.\<close>

definition fold_equal :: "string \<Rightarrow> string \<Rightarrow> bool" where
  "fold_equal s t \<longleftrightarrow> to_lower s = to_lower t"

definition member_values :: "string \<Rightarrow> (string \<times> json) list \<Rightarrow> json list" where
  "member_values f ms = map snd (filter (\<lambda>m. fold_equal (fst m) f) ms)"

text \<open>The value of a field after all members, from a decoder of one value that starts with the present
  one; \<^term>\<open>None\<close> for a value of the wrong type.\<close>

definition decode_field :: "('a \<Rightarrow> json \<Rightarrow> 'a option) \<Rightarrow> 'a \<Rightarrow> string \<Rightarrow> (string \<times> json) list \<Rightarrow> 'a option" where
  "decode_field dec x f ms = foldl (\<lambda>acc v. Option.bind acc (\<lambda>x. dec x v)) (Some x) (member_values f ms)"

definition json_string :: "string \<Rightarrow> json \<Rightarrow> string option" where
  "json_string x v = (case v of JStr s \<Rightarrow> Some s | JNull \<Rightarrow> Some x | _ \<Rightarrow> None)"

definition json_bool :: "bool \<Rightarrow> json \<Rightarrow> bool option" where
  "json_bool x v = (case v of JBool b \<Rightarrow> Some b | JNull \<Rightarrow> Some x | _ \<Rightarrow> None)"

definition json_int :: "int \<Rightarrow> json \<Rightarrow> int option" where
  "json_int x v = (case v of JNum s \<Rightarrow> (case parse_int64 s of (i, None) \<Rightarrow> Some i | _ \<Rightarrow> None) | JNull \<Rightarrow> Some x | _ \<Rightarrow> None)"

fun decode_all :: "(json \<Rightarrow> 'a option) \<Rightarrow> json list \<Rightarrow> 'a list option" where
  "decode_all dec [] = Some []"
| "decode_all dec (v # vs) = (case (dec v, decode_all dec vs) of (Some x, Some xs) \<Rightarrow> Some (x # xs) | _ \<Rightarrow> None)"

lemma decode_all_map: "(\<And>x. x \<in> set xs \<Longrightarrow> dec (enc x) = Some x) \<Longrightarrow> decode_all dec (map enc xs) = Some xs"
  by (induction xs) simp_all

end
