(* ===== verification/Vhivemetadata.thy ===== *)
theory Vhivemetadata
  imports GoInstant GoJson ExperimentInterface
begin

text \<open>
  \<open>tools/benchmarking_eventing/vhivemetadata/vhivemetadata.go\<close>: what names an invocation, the ids of
  its workflow and of itself and the instant it was made at, as a JSON text, and Go's base64, in
  which the text travels as an extension of a CloudEvent. Instants are in UTC. A JSON string is
  compared after its escapes have been read; the time is written without any.
\<close>

subsection \<open>The codec\<close>

definition metadata_json :: "vhive_metadata \<Rightarrow> json" where
  "metadata_json vhm = JObj [(''WorkflowId'', JStr (WorkflowId vhm)), (''InvocationId'', JStr (InvocationId vhm)),
     (''InvokedOn'', JStr (format_nano (InvokedOn vhm)))]"

definition marshalVHiveMetadata :: "vhive_metadata \<Rightarrow> string" where
  "marshalVHiveMetadata vhm = marshal (metadata_json vhm)"

definition MakeVHiveMetadata :: "string \<Rightarrow> string \<Rightarrow> int \<Rightarrow> string" where
  "MakeVHiveMetadata workflowId invocationId invokedOn =
     marshalVHiveMetadata \<lparr>WorkflowId = workflowId, InvocationId = invocationId, InvokedOn = invokedOn\<rparr>"

text \<open>\<open>Time.UnmarshalJSON\<close>: null leaves the time as it is.\<close>

definition json_time :: "(string \<Rightarrow> int option) \<Rightarrow> int \<Rightarrow> json \<Rightarrow> int option" where
  "json_time lenient t v =
     (case v of JNull \<Rightarrow> Some t | JStr s \<Rightarrow> parse_instant lenient s | _ \<Rightarrow> None)"

definition zero_metadata :: vhive_metadata where
  "zero_metadata = \<lparr>WorkflowId = '''', InvocationId = '''', InvokedOn = year_one\<rparr>"

definition decode_metadata :: "(string \<Rightarrow> int option) \<Rightarrow> json \<Rightarrow> vhive_metadata option" where
  "decode_metadata lenient v =
     (case v of
        JNull \<Rightarrow> Some zero_metadata
      | JObj ms \<Rightarrow>
          Option.bind (decode_field json_string '''' ''WorkflowId'' ms) (\<lambda>w.
          Option.bind (decode_field json_string '''' ''InvocationId'' ms) (\<lambda>i.
          Option.bind (decode_field (json_time lenient) year_one ''InvokedOn'' ms) (\<lambda>t.
          Some \<lparr>WorkflowId = w, InvocationId = i, InvokedOn = t\<rparr>)))
      | _ \<Rightarrow> None)"

definition unmarshalVHiveMetadata :: "(string \<Rightarrow> int option) \<Rightarrow> string \<Rightarrow> vhive_metadata outcome" where
  "unmarshalVHiveMetadata lenient d =
     (case Option.bind (parse_json d) (decode_metadata lenient) of
        None \<Rightarrow> Fatal ''failed to unmarshal vhivemetadata''
      | Some vhm \<Rightarrow> Ret vhm)"

definition GetWorkflowId :: "(string \<Rightarrow> int option) \<Rightarrow> string \<Rightarrow> string outcome" where
  "GetWorkflowId lenient d = out_bind (unmarshalVHiveMetadata lenient d) (\<lambda>vhm. Ret (WorkflowId vhm))"

definition GetInvocationId :: "(string \<Rightarrow> int option) \<Rightarrow> string \<Rightarrow> string outcome" where
  "GetInvocationId lenient d = out_bind (unmarshalVHiveMetadata lenient d) (\<lambda>vhm. Ret (InvocationId vhm))"

definition GetInvokedOn :: "(string \<Rightarrow> int option) \<Rightarrow> string \<Rightarrow> int outcome" where
  "GetInvokedOn lenient d = out_bind (unmarshalVHiveMetadata lenient d) (\<lambda>vhm. Ret (InvokedOn vhm))"

subsection \<open>Base64\<close>

definition b64_char :: "nat \<Rightarrow> char" where
  "b64_char n = (if n < 26 then char_of (65 + n) else if n < 52 then char_of (71 + n) else if n < 62 then char_of (n - 4)
     else if n = 62 then CHR ''+'' else CHR ''/'')"

definition b64_val :: "char \<Rightarrow> nat option" where
  "b64_val c =
     (let n = (of_char c :: nat)
      in if 65 \<le> n \<and> n \<le> 90 then Some (n - 65) else if 97 \<le> n \<and> n \<le> 122 then Some (n - 71)
         else if 48 \<le> n \<and> n \<le> 57 then Some (n + 4) else if n = 43 then Some 62 else if n = 47 then Some 63 else None)"

definition byte_of :: "nat \<Rightarrow> char" where "byte_of n = char_of n"

text \<open>\<open>base64.StdEncoding.DecodeString\<close> skips ends of line, wants the padding, lets nothing follow it and
  does not look at the bits left over.\<close>

fun b64_quanta :: "string \<Rightarrow> string option" where
  "b64_quanta [] = Some []"
| "b64_quanta (a # b # c # d # rest) =
     Option.bind (b64_val a) (\<lambda>x. Option.bind (b64_val b) (\<lambda>y.
     if c = CHR ''='' \<and> d = CHR ''='' \<and> rest = [] then Some [byte_of (x * 4 + y div 16)]
     else Option.bind (b64_val c) (\<lambda>z.
       if d = CHR ''='' \<and> rest = [] then Some [byte_of (x * 4 + y div 16), byte_of (y mod 16 * 16 + z div 4)]
       else Option.bind (b64_val d) (\<lambda>u. Option.bind (b64_quanta rest) (\<lambda>bytes.
         Some (byte_of (x * 4 + y div 16) # byte_of (y mod 16 * 16 + z div 4) # byte_of (z mod 4 * 64 + u) # bytes))))))"
| "b64_quanta _ = None"

definition b64_decode :: "string \<Rightarrow> string option" where
  "b64_decode s = b64_quanta (filter (\<lambda>c. c \<noteq> CHR 0x0A \<and> c \<noteq> CHR 0x0D) s)"

fun b64_encode :: "string \<Rightarrow> string" where
  "b64_encode [] = []"
| "b64_encode [p] = (let x = (of_char p :: nat) in [b64_char (x div 4), b64_char (x mod 4 * 16), CHR ''='', CHR ''=''])"
| "b64_encode [p, q] =
     (let x = (of_char p :: nat); y = (of_char q :: nat)
      in [b64_char (x div 4), b64_char (x mod 4 * 16 + y div 16), b64_char (y mod 16 * 4), CHR ''=''])"
| "b64_encode (p # q # r # s) =
     (let x = (of_char p :: nat); y = (of_char q :: nat); z = (of_char r :: nat)
      in b64_char (x div 4) # b64_char (x mod 4 * 16 + y div 16) # b64_char (y mod 16 * 4 + z div 64) # b64_char (z mod 64) # b64_encode s)"

lemma b64_val_char: "n < 64 \<Longrightarrow> b64_val (b64_char n) = Some n"
  by (auto simp: b64_val_def b64_char_def Let_def)

lemma b64_char_plain: "n < 64 \<Longrightarrow> b64_char n \<noteq> CHR ''='' \<and> b64_char n \<noteq> CHR 0x0A \<and> b64_char n \<noteq> CHR 0x0D"
proof -
  assume "n < 64"
  then have "b64_val (b64_char n) = Some n" by (rule b64_val_char)
  moreover have "b64_val (CHR ''='') = None" "b64_val (CHR 0x0A) = None" "b64_val (CHR 0x0D) = None" by (simp_all add: b64_val_def)
  ultimately show ?thesis by auto
qed

lemma b64_bits:
  fixes x y z :: nat
  assumes "x < 256" "y < 256" "z < 256"
  shows "x div 4 < 64" "x mod 4 * 16 + y div 16 < 64" "y mod 16 * 4 + z div 64 < 64" "z mod 64 < 64"
    "x div 4 * 4 + (x mod 4 * 16 + y div 16) div 16 = x"
    "(x mod 4 * 16 + y div 16) mod 16 * 16 + (y mod 16 * 4 + z div 64) div 4 = y"
    "(y mod 16 * 4 + z div 64) mod 4 * 64 + z mod 64 = z"
proof -
  have small: "x div 4 < 64" "y div 16 < 16" "z div 64 < 4" "x mod 4 < 4" "y mod 16 < 16" using assms by simp_all
  show "x div 4 < 64" "z mod 64 < 64" using small by simp_all
  show "x mod 4 * 16 + y div 16 < 64" "y mod 16 * 4 + z div 64 < 64" using small by linarith+
  have "(x mod 4 * 16 + y div 16) div 16 = x mod 4" "(x mod 4 * 16 + y div 16) mod 16 = y div 16"
    "(y mod 16 * 4 + z div 64) div 4 = y mod 16" "(y mod 16 * 4 + z div 64) mod 4 = z div 64"
    using small by simp_all
  then show "x div 4 * 4 + (x mod 4 * 16 + y div 16) div 16 = x"
    "(x mod 4 * 16 + y div 16) mod 16 * 16 + (y mod 16 * 4 + z div 64) div 4 = y"
    "(y mod 16 * 4 + z div 64) mod 4 * 64 + z mod 64 = z"
    by simp_all
qed

lemma of_char_256: "(of_char c :: nat) < 256" by (rule nat_of_char_less_256)

lemma b64_encode_plain: "c \<in> set (b64_encode s) \<Longrightarrow> c \<noteq> CHR 0x0A \<and> c \<noteq> CHR 0x0D"
proof (induction s rule: b64_encode.induct)
  case (2 p)
  show ?case using 2 b64_bits [OF of_char_256 [of p], of 0 0] b64_char_plain by (auto simp: Let_def)
next
  case (3 p q)
  show ?case using 3 b64_bits [OF of_char_256 [of p] of_char_256 [of q], of 0] b64_char_plain by (auto simp: Let_def)
next
  case (4 p q r s)
  show ?case using 4 b64_bits [OF of_char_256 [of p] of_char_256 [of q] of_char_256 [of r]] b64_char_plain by (auto simp: Let_def)
qed simp

lemma b64_quanta_encode: "b64_quanta (b64_encode s) = Some s"
proof (induction s rule: b64_encode.induct)
  case (2 p)
  note bits = b64_bits [OF of_char_256 [of p], of 0 0, simplified]
  show ?case using bits by (simp add: Let_def b64_val_char byte_of_def)
next
  case (3 p q)
  note bits = b64_bits [OF of_char_256 [of p] of_char_256 [of q], of 0, simplified]
  show ?case using bits b64_char_plain [of "of_char q mod 16 * 4"] by (simp add: Let_def b64_val_char byte_of_def)
next
  case (4 p q r s)
  note bits = b64_bits [OF of_char_256 [of p] of_char_256 [of q] of_char_256 [of r]]
  show ?case using bits b64_char_plain [OF bits(3)] b64_char_plain [OF bits(4)] 4
    by (simp only: b64_encode.simps Let_def b64_quanta.simps b64_val_char [OF bits(1)] b64_val_char [OF bits(2)]
      b64_val_char [OF bits(3)] b64_val_char [OF bits(4)] Option.bind.simps) (simp add: byte_of_def)
qed simp

lemma b64_decode_encode: "b64_decode (b64_encode s) = Some s"
proof -
  have "filter (\<lambda>c. c \<noteq> CHR 0x0A \<and> c \<noteq> CHR 0x0D) (b64_encode s) = b64_encode s"
    using b64_encode_plain by (simp add: filter_id_conv)
  then show ?thesis by (simp add: b64_decode_def b64_quanta_encode)
qed

subsection \<open>The round trip of the metadata\<close>

lemma digits_ascii: "list_all is_digit s \<Longrightarrow> ascii s"
  unfolding ascii_def list_all_iff is_digit_def by fastforce

lemma ascii_append [simp]: "ascii (s @ t) \<longleftrightarrow> ascii s \<and> ascii t"
  by (auto simp: ascii_def)

lemma pad2_ascii: "ascii (pad2 n)" "ascii (pad4 n)"
  by (intro digits_ascii; simp add: pad2_def pad4_def is_digit_digit_char)+

lemma nat_digits_ascii: "ascii (nat_digits n)"
  by (rule digits_ascii) (simp add: list_all_iff nat_digits_all)

lemma ascii_take: "ascii s \<Longrightarrow> ascii (take k s)"
  unfolding ascii_def by (blast dest: in_set_takeD)

lemma format_nano_ascii: "ascii (format_nano t)"
proof -
  have "ascii (date_string d)" for d
    unfolding date_string_def
    using pad2_ascii nat_digits_ascii by (intro ascii_take) (auto simp: ascii_def)
  moreover have "ascii (pad k n)" for k n by (rule digits_ascii [OF pad_digits])
  moreover have "ascii ''T''" "ascii '':''" "ascii ''.''" "ascii ''Z''" by (simp_all add: ascii_def)
  ultimately show ?thesis by (simp only: format_nano_def Let_def ascii_append pad2_ascii simp_thms)
qed

lemma field_lookups:
  "member_values ''WorkflowId'' [(''WorkflowId'', a), (''InvocationId'', b), (''InvokedOn'', c)] = [a]"
  "member_values ''InvocationId'' [(''WorkflowId'', a), (''InvocationId'', b), (''InvokedOn'', c)] = [b]"
  "member_values ''InvokedOn'' [(''WorkflowId'', a), (''InvocationId'', b), (''InvokedOn'', c)] = [c]"
  by (simp_all add: member_values_def fold_equal_def to_lower_def to_lower_char_def)

lemma unmarshal_Make:
  assumes "ascii w" "ascii i" "year_one \<le> t" "t < year_10000"
  shows "unmarshalVHiveMetadata lenient (MakeVHiveMetadata w i t) = Ret \<lparr>WorkflowId = w, InvocationId = i, InvokedOn = t\<rparr>"
proof -
  let ?md = "\<lparr>WorkflowId = w, InvocationId = i, InvokedOn = t\<rparr>"
  have "printable (metadata_json ?md)"
    using assms(1,2) format_nano_ascii by (simp add: metadata_json_def) (simp add: ascii_def)
  then have "parse_json (MakeVHiveMetadata w i t) = Some (metadata_json ?md)"
    by (simp add: MakeVHiveMetadata_def marshalVHiveMetadata_def parse_marshal)
  then show ?thesis
    using parse_format_nano [OF assms(3,4)]
    by (simp add: unmarshalVHiveMetadata_def decode_metadata_def metadata_json_def decode_field_def field_lookups
        json_string_def json_time_def parse_instant_def)
qed

text \<open>
  Property C9: metadata survive the journey. What the three getters read from the text that
  \<open>MakeVHiveMetadata\<close> writes are the ids and the instant it was given, to the nanosecond, for ASCII
  ids and instants of the years 1 to 9999, and base64 changes nothing.
\<close>

theorem metadata_roundtrip:
  assumes "ascii w" "ascii i" "year_one \<le> t" "t < year_10000"
  shows "b64_decode (b64_encode (MakeVHiveMetadata w i t)) = Some (MakeVHiveMetadata w i t) \<and>
    GetWorkflowId lenient (MakeVHiveMetadata w i t) = Ret w \<and>
    GetInvocationId lenient (MakeVHiveMetadata w i t) = Ret i \<and>
    GetInvokedOn lenient (MakeVHiveMetadata w i t) = Ret t"
  using unmarshal_Make [OF assms]
  by (simp add: b64_decode_encode GetWorkflowId_def GetInvocationId_def GetInvokedOn_def)

theorem metadata_roundtrip_witness:
  "GetInvokedOn (\<lambda>s. None) (MakeVHiveMetadata ''w'' ''i'' 1700000000123456789) = Ret 1700000000123456789 \<and>
   GetWorkflowId (\<lambda>s. None) (MakeVHiveMetadata ''w'' ''i'' 1700000000123456789) = Ret ''w''"
  using metadata_roundtrip [of "''w''" "''i''" 1700000000123456789 "\<lambda>s. None"]
  by (simp add: ascii_def year_one_def year_10000_def)




end
