(* ===== verification/TimeseriesServer.thy ===== *)
theory TimeseriesServer
  imports TimeseriesDB Vhivemetadata EventLog
begin

text \<open>
  The rest of \<open>tools/benchmarking_eventing/timeseriesdb/main.go\<close>: how an event's metadata are read,
  which gives the database of \<open>TimeseriesDB\<close> its decoder, and the start of the server.
\<close>

subsection \<open>Decoding\<close>

definition getProtoEventFromCloudEvent :: "(string \<Rightarrow> int option) \<Rightarrow> string \<Rightarrow> vhive_metadata outcome" where
  "getProtoEventFromCloudEvent lenient d =
     out_bind (GetWorkflowId lenient d) (\<lambda>w.
     out_bind (GetInvocationId lenient d) (\<lambda>i.
     out_bind (GetInvokedOn lenient d) (\<lambda>t.
     Ret \<lparr>WorkflowId = w, InvocationId = i, InvokedOn = t\<rparr>)))"

text \<open>Both a bad base64 text and bad metadata end the process.\<close>

definition decode_extension :: "(string \<Rightarrow> int option) \<Rightarrow> metadata_decoder" where
  "decode_extension lenient s =
     Option.bind (b64_decode s) (\<lambda>d. case getProtoEventFromCloudEvent lenient d of Ret md \<Rightarrow> Some md | _ \<Rightarrow> None)"

subsection \<open>\<open>main\<close>\<close>

datatype server_event =
    TcpListen string "go_error option"
  | ServeGrpc
  | NewReceiver "go_error option"
  | Receive "go_error option"
  | CloseTcp

text \<open>The gRPC server runs beside the receiver; \<open>grpc_failed\<close> tells whether it has failed by the time
  the receiver has been made or has ended, and then its goroutine has ended the process.\<close>

record server_world =
  tcp_listen :: "string \<Rightarrow> go_error option"
  grpc_failed :: "server_event list \<Rightarrow> bool"
  new_receiver :: "go_error option"
  receiver_ends :: "go_error option"

definition unless_failed :: "server_world \<Rightarrow> (server_event, unit outcome) logged \<Rightarrow> (server_event, unit outcome) logged" where
  "unless_failed w m = State (\<lambda>h. if grpc_failed w h then (Fatal ''failed to serve'', h) else run_state m h)"

definition tsdb_main :: "server_world \<Rightarrow> (server_event, unit outcome) logged" where
  "tsdb_main w =
     obind (or_fatal_err ''failed to listen'' (perform (\<lambda>h. tcp_listen w ''0.0.0.0:9090'') (TcpListen ''0.0.0.0:9090''))) (\<lambda>_.
     obind (ignore_result (record_event ServeGrpc)) (\<lambda>_.
     unless_failed w
       (obind (or_fatal_err ''failed to create CloudEvents client'' (perform (\<lambda>h. new_receiver w) NewReceiver)) (\<lambda>_.
        unless_failed w
          (obind (or_fatal_err ''failed to start CloudEvents receiver'' (perform (\<lambda>h. receiver_ends w) Receive)) (\<lambda>_.
           unless_failed w (ignore_result (record_event CloseTcp))))))))"

subsection \<open>Properties\<close>

lemma decode_made:
  assumes "ascii w" "ascii i" "year_one \<le> t" "t < year_10000"
  shows "decode_extension lenient (b64_encode (MakeVHiveMetadata w i t)) = Some \<lparr>WorkflowId = w, InvocationId = i, InvokedOn = t\<rparr>"
  using unmarshal_Make [OF assms]
  by (simp add: decode_extension_def b64_decode_encode getProtoEventFromCloudEvent_def GetWorkflowId_def
      GetInvocationId_def GetInvokedOn_def)

definition event_attributes :: "cloud_event \<Rightarrow> (string \<times> string) list outcome" where
  "event_attributes ce = ext_attributes (CeExtensions ce)
     (AList.update ''type'' (CeType ce) (AList.update ''source'' (CeSource ce) (AList.update ''id'' (CeId ce) [])))"

text \<open>
  Property C10: the clock of an invocation runs from its invoker to the database. An event that carries
  in base64 the metadata \<open>MakeVHiveMetadata\<close> made at \<open>t\<close> for an invocation not seen before, and that
  has what the only descriptor of its workflow asks for, completes that invocation with the
  duration from \<open>t\<close> to the arrival.
\<close>

theorem event_measured:
  assumes "map_of (CeExtensions ce) ''vhivemetadata'' = Some (ExtString (b64_encode (MakeVHiveMetadata w i t)))"
    and "ascii w" "ascii i" "year_one \<le> t" "t < year_10000"
    and "map_of (workflows s) w = Some wrk" "completionEventDescriptorsT wrk = [ms]" "map_of (invocations wrk) i = None"
    and "event_attributes ce = Ret attrs" "matches attrs ms"
  shows "\<exists>s' iv. registerEvent (decode_extension lenient) now ce s = Ret s' \<and>
    lookup_invocation s' \<lparr>WorkflowId = w, InvocationId = i, InvokedOn = t\<rparr> = Some iv \<and>
    InvId (descriptor iv) = i \<and> Status (descriptor iv) = COMPLETED \<and> Duration (descriptor iv) = Some (time_sub now t)"
proof -
  let ?md = "\<lparr>WorkflowId = w, InvocationId = i, InvokedOn = t\<rparr>"
  let ?event = "\<lparr>VHiveMetadata = ?md, Attributes = attrs, Data = CeData ce\<rparr>"
  have "morphCloudEventToProtoEvent (decode_extension lenient) ce = Ret ?event"
    using assms(1,9) decode_made [OF assms(2-5)] by (simp add: morphCloudEventToProtoEvent_def event_attributes_def)
  moreover have "lookup_invocation s ?md = None" using assms(6,8) by (simp add: lookup_invocation_def)
  ultimately have run: "registerEvent (decode_extension lenient) now ce s =
      Ret (put_invocation ?md (invocation_step ?event now (new_invocation wrk ?md)) s)"
    using assms(6) by (simp add: registerEvent_step)
  have "descriptor (invocation_step ?event now (new_invocation wrk ?md)) =
      (descriptor (new_invocation wrk ?md))\<lparr>Duration := Some (time_sub now t), Status := COMPLETED,
        EventRecords := [\<lparr>RecEvent = ?event, RecordedOn = now, IsCompletion = True\<rparr>]\<rparr>"
    using assms(7,10) by (simp add: invocation_step_def new_invocation_def complete_descriptor_def append_record_def)
  moreover have "lookup_invocation (put_invocation ?md iv s) ?md = Some iv" for iv
    using assms(6) by (simp add: lookup_invocation_def put_invocation_def)
  ultimately show ?thesis using run by (auto simp: new_invocation_def)
qed

definition measured_event :: cloud_event where
  "measured_event = \<lparr>CeId = ''e1'', CeSource = ''consumer'', CeType = ''done'', CeExtensions =
     [(''vhivemetadata'', ExtString (b64_encode (MakeVHiveMetadata ''w'' ''i'' 1700000000000000000)))], CeData = ''''\<rparr>"

theorem event_measured_witness:
  "\<exists>s' iv. registerEvent (decode_extension (\<lambda>s. None)) 1700000000000005000 measured_event
       (StartExperiment (demo_definition [[(''type'', ''done'')]]) \<lparr>workflows = []\<rparr>) = Ret s' \<and>
     lookup_invocation s' \<lparr>WorkflowId = ''w'', InvocationId = ''i'', InvokedOn = 1700000000000000000\<rparr> = Some iv \<and>
     Duration (descriptor iv) = Some 5000"
proof -
  let ?s = "StartExperiment (demo_definition [[(''type'', ''done'')]]) \<lparr>workflows = []\<rparr>"
  have w: "map_of (workflows ?s) ''w'' = Some \<lparr>wf_id = ''w'', completionEventDescriptorsT = [[(''type'', ''done'')]], invocations = []\<rparr>"
    by (simp add: StartExperiment_def demo_definition_def)
  have "map_of (CeExtensions measured_event) ''vhivemetadata'' =
      Some (ExtString (b64_encode (MakeVHiveMetadata ''w'' ''i'' 1700000000000000000)))"
    by (simp add: measured_event_def)
  moreover have "event_attributes measured_event = Ret [(''id'', ''e1''), (''source'', ''consumer''), (''type'', ''done'')]"
    by (simp add: event_attributes_def measured_event_def)
  ultimately obtain s' iv where "registerEvent (decode_extension (\<lambda>s. None)) 1700000000000005000 measured_event ?s = Ret s'"
    "lookup_invocation s' \<lparr>WorkflowId = ''w'', InvocationId = ''i'', InvokedOn = 1700000000000000000\<rparr> = Some iv"
    "Duration (descriptor iv) = Some (time_sub 1700000000000005000 1700000000000000000)"
    using event_measured [of measured_event "''w''" "''i''" 1700000000000000000 ?s _ "[(''type'', ''done'')]"
        "[(''id'', ''e1''), (''source'', ''consumer''), (''type'', ''done'')]" "\<lambda>s. None" 1700000000000005000] w
    by (auto simp: ascii_def year_one_def year_10000_def matches_def)
  then show ?thesis by (auto simp: time_sub_def int64_min_def int64_max_def)
qed

end
