(* ===== verification/ChainEventing.thy ===== *)
theory ChainEventing
  imports TimeseriesServer
begin

text \<open>
  \<open>benchmarks/chained-function-eventing\<close>: the producer, which the invoker calls, sends a greeting event; the
  consumer answers it with an event of its own; and the time-series database gets both. The triggers
  are those of \<open>manifests/6-trigger.yaml\<close>, the descriptor of a completed invocation that of
  \<open>ts-experiment.json\<close>. The CloudEvents client and the environment decoder are answered by the world.
  An extension of bytes is in base64 in the events that others receive.
\<close>

subsection \<open>The data of events (\<open>eventschemas/init.go\<close>)\<close>

text \<open>With the option \<open>string\<close> of the field the name is a JSON text inside a JSON string. Nothing may stand
  around the inner text.\<close>

definition greeting_json :: "string \<Rightarrow> json" where
  "greeting_json name = JObj [(''name'', JStr (marshal (JStr name)))]"

definition json_quoted :: "string \<Rightarrow> json \<Rightarrow> string option" where
  "json_quoted x v =
     (case v of
        JNull \<Rightarrow> Some x
      | JStr s \<Rightarrow>
          if s = ''null'' then Some x
          else if s \<noteq> '''' \<and> hd s = dquote \<and> last s = dquote
          then (case parse_json s of Some (JStr y) \<Rightarrow> Some y | _ \<Rightarrow> None)
          else None
      | _ \<Rightarrow> None)"

definition decode_greeting :: "json \<Rightarrow> string option" where
  "decode_greeting v = (case v of JNull \<Rightarrow> Some '''' | JObj ms \<Rightarrow> decode_field json_quoted '''' ''name'' ms | _ \<Rightarrow> None)"

definition greeting_data :: "string \<Rightarrow> string option" where
  "greeting_data d = (if d = [] then Some '''' else Option.bind (parse_json d) decode_greeting)"

subsection \<open>The producer\<close>

record hello_request =
  ReqName :: string
  ReqMetadata :: string

datatype greeter_event =
    ReadSink "go_error + string"
  | SendGreeting string cloud_event bool

record greeter_world =
  read_sink :: "greeter_event list \<Rightarrow> go_error + string"
  send_acked :: "greeter_event list \<Rightarrow> string \<Rightarrow> cloud_event \<Rightarrow> bool"
  lenient_time :: "string \<Rightarrow> int option"

definition greeting_event :: "string \<Rightarrow> hello_request \<Rightarrow> cloud_event" where
  "greeting_event invocationId req =
     \<lparr>CeId = invocationId, CeSource = ''producer'', CeType = ''greeting'',
      CeExtensions = [(''vhivemetadata'', ExtString (b64_encode (ReqMetadata req)))],
      CeData = marshal (greeting_json (ReqName req))\<rparr>"

text \<open>\<open>perform\<close> returns whether the event was acknowledged; if not, the process ends.\<close>

definition send_greeting :: "greeter_world \<Rightarrow> string \<Rightarrow> cloud_event \<Rightarrow> (greeter_event, unit outcome) logged" where
  "send_greeting w sink event =
     State_Monad.bind (perform (\<lambda>h. send_acked w h sink event) (SendGreeting sink event)) (\<lambda>ack.
       State_Monad.return (if ack then Ret () else Fatal ''failed to send CloudEvent''))"

definition greeter_SayHello :: "greeter_world \<Rightarrow> hello_request \<Rightarrow> (greeter_event, string outcome) logged" where
  "greeter_SayHello w req =
     obind (State_Monad.return (GetInvocationId (lenient_time w) (ReqMetadata req))) (\<lambda>invocationId.
     obind (or_fatal ''failed to process env var'' (perform (read_sink w) ReadSink)) (\<lambda>sink.
     obind (send_greeting w sink (greeting_event invocationId req)) (\<lambda>_.
     oreturn (''Hello, '' @ ReqName req @ ''!''))))"

subsection \<open>The consumer\<close>

definition greeting_callback :: "cloud_event \<Rightarrow> cloud_event outcome" where
  "greeting_callback event =
     (case greeting_data (CeData event) of
        None \<Rightarrow> Fatal ''failed to extract CloudEvent data''
      | Some name \<Rightarrow>
          Ret \<lparr>CeId = CeId event, CeSource = ''consumer'', CeType = ''greeting'',
               CeExtensions = (case map_of (CeExtensions event) ''vhivemetadata'' of
                   Some v \<Rightarrow> [(''vhivemetadata'', v)] | None \<Rightarrow> []),
               CeData = ''''\<rparr>)"

text \<open>The triggers: the consumer gets the greetings of the producer, the database every event.\<close>

definition consumer_trigger :: "cloud_event \<Rightarrow> bool" where
  "consumer_trigger event \<longleftrightarrow> CeType event = ''greeting'' \<and> CeSource event = ''producer''"

subsection \<open>Their \<open>main\<close> functions\<close>

datatype eventing_start =
    NewCeClient "go_error option"
  | ListenAt string "go_error option"
  | ServeGreeter "go_error option"
  | ReceiveEvents "go_error option"
  | CloseListener

record eventing_world =
  new_ce_client :: "go_error option"
  listen_at :: "string \<Rightarrow> go_error option"
  serve_greeter :: "go_error option"
  receive_events :: "go_error option"

definition eventing_producer_main :: "eventing_world \<Rightarrow> (eventing_start, unit outcome) logged" where
  "eventing_producer_main w =
     obind (or_fatal_err ''failed to initialize CE client'' (perform (\<lambda>h. new_ce_client w) NewCeClient)) (\<lambda>_.
     obind (or_fatal_err ''failed to listen'' (perform (\<lambda>h. listen_at w ''0.0.0.0:8080'') (ListenAt ''0.0.0.0:8080''))) (\<lambda>_.
     obind (or_fatal_err ''failed to serve'' (perform (\<lambda>h. serve_greeter w) ServeGreeter)) (\<lambda>_.
     ignore_result (record_event CloseListener))))"

definition eventing_consumer_main :: "eventing_world \<Rightarrow> (eventing_start, unit outcome) logged" where
  "eventing_consumer_main w =
     obind (or_fatal_err ''failed to create a CloudEvents client'' (perform (\<lambda>h. new_ce_client w) NewCeClient)) (\<lambda>_.
     or_fatal_err ''failed to start the receiver'' (perform (\<lambda>h. receive_events w) ReceiveEvents))"

subsection \<open>The data survive\<close>

lemma ascii_quoted: "ascii s \<Longrightarrow> ascii (quoted s)"
proof -
  have hex: "n < 16 \<Longrightarrow> (of_char (hex_char n) :: nat) < 128" for n
  proof -
    have "\<forall>n\<in>set [0..<16]. (of_char (hex_char n) :: nat) < 128" by (simp add: upt_rec hex_char_def)
    then show "n < 16 \<Longrightarrow> ?thesis" by simp
  qed
  have "ascii (escape_char c)" if "(of_char c :: nat) < 128" for c
    using that hex [of "of_char c div 16"] hex [of "of_char c mod 16"] by (auto simp: ascii_def escape_char_def Let_def)
  then show "ascii s \<Longrightarrow> ascii (quoted s)" by (fastforce simp: quoted_def ascii_def)
qed

lemma greeting_data_marshal:
  assumes "ascii name"
  shows "greeting_data (marshal (greeting_json name)) = Some name"
proof -
  have inner: "marshal (JStr name) = quoted name" by (simp add: marshal_def)
  have "printable (greeting_json name)" using ascii_quoted [OF assms] by (simp add: greeting_json_def inner) (simp add: ascii_def)
  then have "parse_json (marshal (greeting_json name)) = Some (greeting_json name)" by (rule parse_marshal)
  moreover have "parse_json (quoted name) = Some (JStr name)" using parse_marshal [of "JStr name"] assms by (simp add: inner)
  then have "json_quoted '''' (JStr (quoted name)) = Some name" by (simp add: json_quoted_def quoted_def)
  moreover have "member_values ''name'' [(''name'', v)] = [v]" for v :: json
    by (simp add: member_values_def fold_equal_def to_lower_def to_lower_char_def)
  moreover have "marshal (greeting_json name) \<noteq> []" by (simp add: marshal_def greeting_json_def)
  ultimately show ?thesis
    by (simp add: greeting_data_def decode_greeting_def decode_field_def greeting_json_def inner)
qed

subsection \<open>Properties\<close>

text \<open>Events as they reach the database, each with its time.\<close>

fun register_all :: "metadata_decoder \<Rightarrow> (cloud_event \<times> int) list \<Rightarrow> tsdb \<Rightarrow> tsdb outcome" where
  "register_all decode [] s = Ret s"
| "register_all decode ((ce, now) # rest) s = out_bind (registerEvent decode now ce s) (register_all decode rest)"

definition greeting_descriptor :: matchers where
  "greeting_descriptor = [(''type'', ''greeting''), (''source'', ''consumer'')]"

definition proto_of :: "vhive_metadata \<Rightarrow> cloud_event \<Rightarrow> proto_event" where
  "proto_of md ce = \<lparr>VHiveMetadata = md, Attributes = [(''id'', CeId ce), (''source'', CeSource ce), (''type'', CeType ce)], Data = CeData ce\<rparr>"

lemma morph_greeting:
  assumes "CeExtensions ce = [(''vhivemetadata'', ExtString (b64_encode (MakeVHiveMetadata w i t)))]"
    and "ascii w" "ascii i" "year_one \<le> t" "t < year_10000"
  shows "morphCloudEventToProtoEvent (decode_extension lenient) ce = Ret (proto_of \<lparr>WorkflowId = w, InvocationId = i, InvokedOn = t\<rparr> ce)"
  using assms(1) decode_made [OF assms(2-5)] by (simp add: morphCloudEventToProtoEvent_def proto_of_def)

text \<open>Two events of one invocation, one after the other.\<close>

lemma register_two:
  assumes "morphCloudEventToProtoEvent decode ce1 = Ret p1" "morphCloudEventToProtoEvent decode ce2 = Ret p2"
    and "VHiveMetadata p1 = md" "VHiveMetadata p2 = md"
    and "map_of (workflows s) (WorkflowId md) = Some wrk" "lookup_invocation s md = None"
  shows "\<exists>s'. register_all decode [(ce1, t1), (ce2, t2)] s = Ret s' \<and>
    lookup_invocation s' md = Some (invocation_step p2 t2 (invocation_step p1 t1 (new_invocation wrk md)))"
proof -
  let ?iv = "invocation_step p1 t1 (new_invocation wrk md)" and ?s = "put_invocation md (invocation_step p1 t1 (new_invocation wrk md)) s"
  have first: "registerEvent decode t1 ce1 s = Ret ?s"
    using assms by (simp add: registerEvent_step)
  have known: "lookup_invocation ?s md = Some ?iv" using assms(5) by simp
  have "map_of (workflows ?s) (WorkflowId md) \<noteq> None" using assms(5) by simp
  then obtain wrk' where wrk': "map_of (workflows ?s) (WorkflowId md) = Some wrk'" by blast
  have "registerEvent decode t2 ce2 ?s = Ret (put_invocation md (invocation_step p2 t2 ?iv) ?s)"
    using assms(2,4) wrk' known by (simp add: registerEvent_step)
  moreover have "lookup_invocation (put_invocation md (invocation_step p2 t2 ?iv) ?s) md = Some (invocation_step p2 t2 ?iv)"
    using assms(5) by simp
  ultimately show ?thesis using first by simp
qed

text \<open>
  Property C16: an invocation of the chain is measured from its invoker to the consumer's answer. The producer
  sends one greeting, to the consumer; the consumer answers with an event that does not come back to it;
  and in whatever order the database gets the two, at whatever times, the invocation is completed with the
  time from its start to the arrival of the consumer's event, and both events are on record.
\<close>

theorem greeting_measured:
  assumes "ascii w" "ascii i" "ascii name" "year_one \<le> t" "t < year_10000"
    and "map_of (workflows s) w = Some wrk" "completionEventDescriptorsT wrk = [greeting_descriptor]" "map_of (invocations wrk) i = None"
    and sink: "\<And>h. read_sink gw h = Inr sink" and acked: "\<And>h e. send_acked gw h sink e"
  shows "\<exists>e e'. run_state (greeter_SayHello gw \<lparr>ReqName = name, ReqMetadata = MakeVHiveMetadata w i t\<rparr>) h =
      (Ret (''Hello, '' @ name @ ''!''), h @ [ReadSink (Inr sink), SendGreeting sink e True]) \<and>
    consumer_trigger e \<and> greeting_callback e = Ret e' \<and> \<not> consumer_trigger e' \<and>
    list_all (\<lambda>events. \<exists>s' iv. register_all (decode_extension (lenient_time gw)) events s = Ret s' \<and>
        lookup_invocation s' \<lparr>WorkflowId = w, InvocationId = i, InvokedOn = t\<rparr> = Some iv \<and>
        Status (descriptor iv) = COMPLETED \<and> Duration (descriptor iv) = Some (time_sub t2 t) \<and> length (EventRecords (descriptor iv)) = 2)
      [[(e, t1), (e', t2)], [(e', t2), (e, t1)]]"
proof -
  let ?md = "\<lparr>WorkflowId = w, InvocationId = i, InvokedOn = t\<rparr>"
  let ?req = "\<lparr>ReqName = name, ReqMetadata = MakeVHiveMetadata w i t\<rparr>"
  let ?e = "greeting_event i ?req"
  let ?e' = "\<lparr>CeId = i, CeSource = ''consumer'', CeType = ''greeting'', CeExtensions = CeExtensions ?e, CeData = ''''\<rparr>"
  have run: "run_state (greeter_SayHello gw ?req) h = (Ret (''Hello, '' @ name @ ''!''), h @ [ReadSink (Inr sink), SendGreeting sink ?e True])"
    using unmarshal_Make [OF assms(1,2,4,5)] sink acked
    by (simp add: greeter_SayHello_def GetInvocationId_def send_greeting_def run_state_bind run_state_return)
  have callback: "greeting_callback ?e = Ret ?e'"
    using greeting_data_marshal [OF assms(3)] by (simp add: greeting_callback_def greeting_event_def)
  have ext: "CeExtensions ?e = [(''vhivemetadata'', ExtString (b64_encode (MakeVHiveMetadata w i t)))]"
    "CeExtensions ?e' = [(''vhivemetadata'', ExtString (b64_encode (MakeVHiveMetadata w i t)))]"
    by (simp_all add: greeting_event_def)
  note morph = morph_greeting [OF ext(1) assms(1,2,4,5)] morph_greeting [OF ext(2) assms(1,2,4,5)]
  have known: "map_of (workflows s) (WorkflowId ?md) = Some wrk" "lookup_invocation s ?md = None"
    using assms(6,8) by (simp_all add: lookup_invocation_def)
  have md: "VHiveMetadata (proto_of ?md ?e) = ?md" "VHiveMetadata (proto_of ?md ?e') = ?md" by (simp_all add: proto_of_def)
  have matches: "\<not> matches (Attributes (proto_of ?md ?e)) greeting_descriptor" "matches (Attributes (proto_of ?md ?e')) greeting_descriptor"
    by (simp_all add: matches_def greeting_descriptor_def proto_of_def greeting_event_def)
  let ?iv1 = "invocation_step (proto_of ?md ?e') t2 (invocation_step (proto_of ?md ?e) t1 (new_invocation wrk ?md))"
  let ?iv2 = "invocation_step (proto_of ?md ?e) t1 (invocation_step (proto_of ?md ?e') t2 (new_invocation wrk ?md))"
  let ?measured = "\<lambda>iv. Status (descriptor iv) = COMPLETED \<and> Duration (descriptor iv) = Some (time_sub t2 t) \<and> length (EventRecords (descriptor iv)) = 2"
  have iv: "?measured ?iv1" "?measured ?iv2"
    using matches md assms(7)
    by (simp_all add: invocation_step_def new_invocation_def append_record_def complete_descriptor_def)
  obtain s1 where s1: "register_all (decode_extension (lenient_time gw)) [(?e, t1), (?e', t2)] s = Ret s1" "lookup_invocation s1 ?md = Some ?iv1"
    using register_two [OF morph md known, where ?t1.0 = t1 and ?t2.0 = t2] by blast
  obtain s2 where s2: "register_all (decode_extension (lenient_time gw)) [(?e', t2), (?e, t1)] s = Ret s2" "lookup_invocation s2 ?md = Some ?iv2"
    using register_two [OF morph(2,1) md(2,1) known, where ?t1.0 = t2 and ?t2.0 = t1] by blast
  have "list_all (\<lambda>events. \<exists>s' iv. register_all (decode_extension (lenient_time gw)) events s = Ret s' \<and>
        lookup_invocation s' ?md = Some iv \<and> ?measured iv) [[(?e, t1), (?e', t2)], [(?e', t2), (?e, t1)]]"
    unfolding list.pred_inject
    by (intro conjI TrueI exI) (rule list.pred_inject s1 s2 iv [THEN conjunct1] iv [THEN conjunct2, THEN conjunct1] iv [THEN conjunct2, THEN conjunct2])+
  moreover have "consumer_trigger ?e" "\<not> consumer_trigger ?e'" by (simp_all add: consumer_trigger_def greeting_event_def)
  ultimately show ?thesis using run callback by blast
qed

definition demo_greeter :: greeter_world where
  "demo_greeter = \<lparr>read_sink = \<lambda>h. Inr ''http://broker-ingress'', send_acked = \<lambda>h sink e. True, lenient_time = \<lambda>s. None\<rparr>"

theorem greeting_measured_witness:
  "\<exists>e e' s' iv. fst (run_state (greeter_SayHello demo_greeter \<lparr>ReqName = ''faas'', ReqMetadata = MakeVHiveMetadata ''w'' ''i'' 1700000000000000000\<rparr>) [])
       = Ret ''Hello, faas!'' \<and>
     greeting_callback e = Ret e' \<and>
     register_all (decode_extension (\<lambda>s. None)) [(e', 1700000000000005000), (e, 1700000000000007000)]
       (StartExperiment (demo_definition [greeting_descriptor]) \<lparr>workflows = []\<rparr>) = Ret s' \<and>
     lookup_invocation s' \<lparr>WorkflowId = ''w'', InvocationId = ''i'', InvokedOn = 1700000000000000000\<rparr> = Some iv \<and>
     Status (descriptor iv) = COMPLETED \<and> Duration (descriptor iv) = Some 5000"
proof -
  let ?s = "StartExperiment (demo_definition [greeting_descriptor]) \<lparr>workflows = []\<rparr>"
  have w: "map_of (workflows ?s) ''w'' = Some \<lparr>wf_id = ''w'', completionEventDescriptorsT = [greeting_descriptor], invocations = []\<rparr>"
    by (simp add: StartExperiment_def demo_definition_def)
  have ids: "ascii ''w''" "ascii ''i''" "ascii ''faas''" "year_one \<le> 1700000000000000000" "1700000000000000000 < year_10000"
    by (simp_all add: ascii_def year_one_def year_10000_def)
  have "time_sub 1700000000000005000 1700000000000000000 = 5000" by (simp add: time_sub_def int64_min_def int64_max_def)
  moreover have "lenient_time demo_greeter = (\<lambda>s. None)" by (simp add: demo_greeter_def)
  moreover have read_sink: "\<And>h. read_sink demo_greeter h = Inr ''http://broker-ingress''" "\<And>h e. send_acked demo_greeter h ''http://broker-ingress'' e"
    by (simp_all add: demo_greeter_def)
  moreover obtain e e' where "fst (run_state (greeter_SayHello demo_greeter \<lparr>ReqName = ''faas'', ReqMetadata = MakeVHiveMetadata ''w'' ''i'' 1700000000000000000\<rparr>) [])
       = Ret (''Hello, '' @ ''faas'' @ ''!'')" "greeting_callback e = Ret e'"
    and "list_all (\<lambda>events. \<exists>s' iv. register_all (decode_extension (lenient_time demo_greeter)) events ?s = Ret s' \<and>
        lookup_invocation s' \<lparr>WorkflowId = ''w'', InvocationId = ''i'', InvokedOn = 1700000000000000000\<rparr> = Some iv \<and>
        Status (descriptor iv) = COMPLETED \<and> Duration (descriptor iv) = Some (time_sub 1700000000000005000 1700000000000000000) \<and>
        length (EventRecords (descriptor iv)) = 2)
      [[(e, 1700000000000007000), (e', 1700000000000005000)], [(e', 1700000000000005000), (e, 1700000000000007000)]]"
    using greeting_measured [OF ids w, of demo_greeter "''http://broker-ingress''" "[]" 1700000000000005000 1700000000000007000] read_sink
    by auto
  ultimately show ?thesis
    by (simp add: list.pred_inject del: register_all.simps) blast
qed

end
