(* ===== verification/TraceModel.thy ===== *)
theory TraceModel
  imports GoStrings GoFloat "HOL-Library.AList" "HOL-Library.Multiset"
begin

text \<open>
  \<open>tools/trace-plotter\<close> (\<open>model.go\<close> and \<open>ParseTraces\<close> of \<open>plot.go\<close>): spans fetched from
  Elasticsearch are linked to trees and measured. The spans live in one slice that the code
  mutates through pointers; here a pointer to a span is its index in the slice. Go walks a map in
  an order of its own choosing, and \<open>sort.Slice\<close> may order equal elements as it likes: both are
  parameters.
\<close>

subsection \<open>Data (\<open>model.go\<close>)\<close>

record annotation =
  AnnTimestamp :: int64
  AnnValue :: string

record local_endpoint =
  ServiceName :: string
  Ipv4 :: string

record tags =
  HTTPHost :: string
  HTTPMethod :: string
  HTTPPath :: string
  HTTPStatusCode :: string
  HTTPURL :: string
  HTTPUserAgent :: string
  OpencensusStatusDescription :: string

record trace =
  TraceID :: string
  Duration :: int64
  LocalEndpoint :: local_endpoint
  TimestampMillis :: int64
  Name :: string
  ID :: string
  ParentID :: string
  Timestamp :: int64
  Kind :: "string option"
  Annotations :: "annotation list"
  Tags :: "tags option"
  SystemDuration :: int64
  Child :: "nat list"

record hit =
  Index :: string
  HitType :: string
  HitID :: string
  HitTrace :: trace

record es_total =
  TotalValue :: int64
  Relation :: string

record es_hits =
  Total :: es_total
  Hits :: "hit list"

record es_response =
  RespHits :: es_hits
  ScrollID :: string

text \<open>\<open>DeepestLeaf\<close>, with fuel for the depth of the recursion: \<^term>\<open>None\<close> when it runs out. Of
  several deepest leaves it takes the first.\<close>

definition deeper ::
  "(nat \<Rightarrow> (nat option \<times> nat) option) \<Rightarrow> (nat option \<times> nat) option \<Rightarrow> nat \<Rightarrow> (nat option \<times> nat) option"
where
  "deeper rec acc child =
     (case acc of None \<Rightarrow> None | Some (deapest, depth) \<Rightarrow>
        (case rec child of None \<Rightarrow> None | Some (leaf, d) \<Rightarrow>
           Some (if d > depth then (leaf, d) else (deapest, depth))))"

primrec DeepestLeaf :: "nat \<Rightarrow> trace list \<Rightarrow> nat \<Rightarrow> (nat option \<times> nat) option" where
  "DeepestLeaf 0 traces t = None"
| "DeepestLeaf (Suc n) traces t =
     (if length (Child (traces ! t)) = 0 then Some (Some t, 1)
      else case foldl (deeper (DeepestLeaf n traces)) (Some (None, 0)) (Child (traces ! t)) of
             None \<Rightarrow> None | Some (deapest, depth) \<Rightarrow> Some (deapest, depth + 1))"

text \<open>\<open>GetHTTPStatusCode\<close>, with the same fuel: the code of the span itself if it has tags, else the
  largest code among its children with a readable one, else the largest among the codes of the
  children's subtrees.\<close>

definition readable_codes :: "trace list \<Rightarrow> nat list \<Rightarrow> int list" where
  "readable_codes traces children =
     foldl (\<lambda>codes c. case Tags (traces ! c) of
         None \<Rightarrow> codes
       | Some t \<Rightarrow> (case atoi (HTTPStatusCode t) of (code, None) \<Rightarrow> codes @ [code] | (code, Some err) \<Rightarrow> codes))
       [] children"

definition no_code :: "int \<times> go_error option" where
  "no_code = (- 1, Some (NewError ''no http status code found in trace''))"

definition add_code ::
  "(nat \<Rightarrow> (int \<times> go_error option) option) \<Rightarrow> int list option \<Rightarrow> nat \<Rightarrow> int list option"
where
  "add_code rec acc child =
     (case acc of None \<Rightarrow> None | Some codes \<Rightarrow>
        (case rec child of None \<Rightarrow> None
         | Some (c, None) \<Rightarrow> Some (codes @ [c]) | Some (c, Some err) \<Rightarrow> Some codes))"

definition atoi_error :: "int \<times> num_error option \<Rightarrow> int \<times> go_error option" where
  "atoi_error r = (fst r, map_option (\<lambda>e. NewError ''strconv.Atoi'') (snd r))"

primrec GetHTTPStatusCode :: "nat \<Rightarrow> trace list \<Rightarrow> nat \<Rightarrow> (int \<times> go_error option) option" where
  "GetHTTPStatusCode 0 traces t = None"
| "GetHTTPStatusCode (Suc n) traces t =
     (case Tags (traces ! t) of
        Some tags \<Rightarrow> Some (atoi_error (atoi (HTTPStatusCode tags)))
      | None \<Rightarrow>
          (case (if length (readable_codes traces (Child (traces ! t))) = 0
                 then foldl (add_code (GetHTTPStatusCode n traces)) (Some []) (Child (traces ! t))
                 else Some (readable_codes traces (Child (traces ! t)))) of
             None \<Rightarrow> None
           | Some childCodes \<Rightarrow>
               if length childCodes = 0 then Some no_code
               else Some (last (sort childCodes), None)))"

subsection \<open>\<open>ParseTraces\<close>\<close>

type_synonym map_walk = "(string \<times> nat) list \<Rightarrow> (string \<times> nat) list"

type_synonym slice_sort = "(nat \<Rightarrow> int) \<Rightarrow> nat list \<Rightarrow> nat list"

definition id_map :: "trace list \<Rightarrow> (string \<times> nat) list" where
  "id_map traces = foldl (\<lambda>m i. AList.update (ID (traces ! i)) i m) [] [0..<length traces]"

definition append_child :: "nat \<Rightarrow> nat \<Rightarrow> trace list \<Rightarrow> trace list" where
  "append_child p i traces = traces[p := (traces ! p)\<lparr>Child := Child (traces ! p) @ [i]\<rparr>]"

definition link_children :: "(string \<times> nat) list \<Rightarrow> trace list \<Rightarrow> trace list" where
  "link_children m traces =
     foldl (\<lambda>ts i. case map_of m (ParentID (ts ! i)) of Some p \<Rightarrow> append_child p i ts | None \<Rightarrow> ts)
       traces [0..<length traces]"

text \<open>A span without a parent in the slice is measured: its own duration less that of its deepest
  leaf. \<^term>\<open>None\<close> stands for not returning: the fuel is used up, or a nil leaf is dereferenced.\<close>

definition parse_root ::
  "nat \<Rightarrow> (string \<times> nat) list \<Rightarrow> (trace list \<times> nat list) option \<Rightarrow> string \<times> nat \<Rightarrow> (trace list \<times> nat list) option"
where
  "parse_root fuel m acc kv =
     (case acc of None \<Rightarrow> None | Some (ts, parsed) \<Rightarrow>
        if map_of m (ParentID (ts ! snd kv)) = None
        then case DeepestLeaf fuel ts (snd kv) of
               Some (Some leaf, d) \<Rightarrow>
                 Some (ts[snd kv := (ts ! snd kv)\<lparr>SystemDuration := Duration (ts ! snd kv) - Duration (ts ! leaf)\<rparr>],
                       parsed @ [snd kv])
             | _ \<Rightarrow> None
        else Some (ts, parsed))"

definition sort_parsed :: "slice_sort \<Rightarrow> string \<Rightarrow> trace list \<Rightarrow> nat list \<Rightarrow> nat list" where
  "sort_parsed srt latencyType ts parsed =
     (if latencyType = ''e2e'' then srt (\<lambda>i. sint (Duration (ts ! i))) parsed
      else if latencyType = ''system'' then srt (\<lambda>i. sint (SystemDuration (ts ! i))) parsed
      else parsed)"

definition duration_of :: "string \<Rightarrow> trace \<Rightarrow> rat" where
  "duration_of latencyType t =
     (if latencyType = ''e2e'' then fl_round (of_int (sint (Duration t)))
      else if latencyType = ''system''
      then if fl_round (of_int (sint (SystemDuration t))) > 0
           then fl_round (of_int (sint (SystemDuration t))) else fl_round (1 / 10 ^ 12)
      else 0)"

definition ParseTraces ::
  "map_walk \<Rightarrow> slice_sort \<Rightarrow> trace list \<Rightarrow> string \<Rightarrow> (trace list \<times> nat list \<times> rat list) option"
where
  "ParseTraces walk srt traces latencyType =
     (let m = id_map traces; linked = link_children m traces
      in case foldl (parse_root (length traces) m) (Some (linked, [])) (walk m) of
           None \<Rightarrow> None
         | Some (ts, parsed) \<Rightarrow>
             (let parsedTraces = sort_parsed srt latencyType ts parsed
              in Some (ts, parsedTraces, map (\<lambda>i. duration_of latencyType (ts ! i)) parsedTraces)))"

subsection \<open>The links\<close>

text \<open>What neither linking nor measuring changes of a span.\<close>

definition skeleton :: "trace \<Rightarrow> trace" where
  "skeleton t = t\<lparr>SystemDuration := 0, Child := []\<rparr>"

lemma skeleton_simps [simp]:
  "skeleton (t\<lparr>Child := c\<rparr>) = skeleton t" "skeleton (t\<lparr>SystemDuration := d\<rparr>) = skeleton t"
  by (simp_all add: skeleton_def)

lemma skeleton_sels:
  "ID (skeleton t) = ID t" "ParentID (skeleton t) = ParentID t" "Duration (skeleton t) = Duration t"
  "Tags (skeleton t) = Tags t"
  by (simp_all add: skeleton_def)

lemma skeleton_eqD:
  assumes "skeleton t = skeleton u"
  shows "ID t = ID u" "ParentID t = ParentID u" "Duration t = Duration u" "Tags t = Tags u"
  using arg_cong [OF assms, of ID] arg_cong [OF assms, of ParentID] arg_cong [OF assms, of Duration]
    arg_cong [OF assms, of Tags]
  by (simp_all only: skeleton_sels)

lemma same_skeleton_nth:
  assumes "map skeleton ts = map skeleton us" and "i < length ts"
  shows "ID (ts ! i) = ID (us ! i)" "ParentID (ts ! i) = ParentID (us ! i)"
    "Duration (ts ! i) = Duration (us ! i)" "Tags (ts ! i) = Tags (us ! i)"
proof -
  have "length ts = length us" using assms(1) by (metis length_map)
  then have "skeleton (ts ! i) = skeleton (us ! i)"
    using arg_cong [OF assms(1), of "\<lambda>xs. xs ! i"] assms(2) by simp
  then show "ID (ts ! i) = ID (us ! i)" "ParentID (ts ! i) = ParentID (us ! i)"
    "Duration (ts ! i) = Duration (us ! i)" "Tags (ts ! i) = Tags (us ! i)"
    by (rule skeleton_eqD)+
qed

lemma same_length: "map f ts = map f us \<Longrightarrow> length ts = length us"
  by (metis length_map)

lemma skeleton_update: "skeleton t = skeleton (ts ! i) \<Longrightarrow> map skeleton (ts[i := t]) = map skeleton ts"
  by (cases "i < length ts") (simp_all add: map_update list_update_same_conv list_update_beyond)

lemma set_update_subset: "set (AList.update k v m) \<subseteq> insert (k, v) (set m)"
proof (induction m)
  case (Cons kv m)
  then show ?case by (cases kv) auto
qed simp

definition ids_ok :: "trace list \<Rightarrow> (string \<times> nat) list \<Rightarrow> bool" where
  "ids_ok ts m \<longleftrightarrow> distinct (map fst m) \<and> (\<forall>kv\<in>set m. snd kv < length ts \<and> ID (ts ! snd kv) = fst kv)"

lemma ids_ok_update:
  assumes "ids_ok ts m" and "i < length ts"
  shows "ids_ok ts (AList.update (ID (ts ! i)) i m)"
  unfolding ids_ok_def
proof
  show "distinct (map fst (AList.update (ID (ts ! i)) i m))"
    using assms(1) by (intro distinct_update) (simp add: ids_ok_def)
  show "\<forall>kv\<in>set (AList.update (ID (ts ! i)) i m). snd kv < length ts \<and> ID (ts ! snd kv) = fst kv"
  proof
    fix kv
    assume "kv \<in> set (AList.update (ID (ts ! i)) i m)"
    then consider "kv = (ID (ts ! i), i)" | "kv \<in> set m"
      by (blast dest: subsetD [OF set_update_subset])
    then show "snd kv < length ts \<and> ID (ts ! snd kv) = fst kv"
      by cases (use assms in \<open>simp_all add: ids_ok_def\<close>)
  qed
qed

lemma ids_ok_foldl: "\<lbrakk>ids_ok ts m; \<forall>i\<in>set js. i < length ts\<rbrakk> \<Longrightarrow>
  ids_ok ts (foldl (\<lambda>m i. AList.update (ID (ts ! i)) i m) m js)"
  by (induction js arbitrary: m) (simp_all add: ids_ok_update)

lemma ids_ok_id_map: "ids_ok ts (id_map ts)"
  unfolding id_map_def by (rule ids_ok_foldl) (simp_all add: ids_ok_def)

lemma id_map_range: "kv \<in> set (id_map ts) \<Longrightarrow> snd kv < length ts \<and> ID (ts ! snd kv) = fst kv"
  using ids_ok_id_map unfolding ids_ok_def by blast

lemma id_map_distinct: "distinct (map fst (id_map ts))"
  using ids_ok_id_map unfolding ids_ok_def by blast

lemma map_of_id_map: "map_of (id_map ts) k = Some i \<Longrightarrow> i < length ts \<and> ID (ts ! i) = k"
  using id_map_range [of "(k, i)" ts] by (auto dest: map_of_SomeD)

text \<open>Every span's id is in the map, at the last span that has it.\<close>

lemma id_map_total: "i < length ts \<Longrightarrow> map_of (id_map ts) (ID (ts ! i)) \<noteq> None"
proof -
  have "map_of (foldl (\<lambda>m i. AList.update (ID (ts ! i)) i m) m js) (ID (ts ! i)) \<noteq> None"
    if "i \<in> set js \<or> map_of m (ID (ts ! i)) \<noteq> None" for m js
    using that by (induction js arbitrary: m) (auto simp: update_conv')
  then show "i < length ts \<Longrightarrow> ?thesis" by (simp add: id_map_def)
qed

lemma id_map_cong: "map skeleton ts = map skeleton us \<Longrightarrow> id_map ts = id_map us"
proof -
  assume a: "map skeleton ts = map skeleton us"
  have "foldl (\<lambda>m i. AList.update (ID (ts ! i)) i m) m js = foldl (\<lambda>m i. AList.update (ID (us ! i)) i m) m js"
    if "\<forall>j\<in>set js. j < length ts" for m js
    using that by (induction js arbitrary: m) (simp_all add: same_skeleton_nth [OF a])
  then show ?thesis using same_length [OF a] by (simp add: id_map_def)
qed

text \<open>Linking appends to the children of a span, in order, the spans it is the parent of.\<close>

lemma link_fold:
  assumes "\<forall>i\<in>set js. i < length ts"
  shows "map skeleton (foldl (\<lambda>ts i. case map_of m (ParentID (ts ! i)) of Some p \<Rightarrow> append_child p i ts | None \<Rightarrow> ts) ts js) =
      map skeleton ts \<and>
    (\<forall>p<length ts. Child (foldl (\<lambda>ts i. case map_of m (ParentID (ts ! i)) of Some p \<Rightarrow> append_child p i ts | None \<Rightarrow> ts) ts js ! p) =
      Child (ts ! p) @ filter (\<lambda>i. map_of m (ParentID (ts ! i)) = Some p) js)"
  using assms
proof (induction js arbitrary: ts)
  case (Cons j js)
  let ?ts = "case map_of m (ParentID (ts ! j)) of Some p \<Rightarrow> append_child p j ts | None \<Rightarrow> ts"
  have sk: "map skeleton ?ts = map skeleton ts"
    by (auto simp: append_child_def skeleton_update split: option.split)
  have len: "length ?ts = length ts" using same_length [OF sk] .
  have ch: "Child (?ts ! p) = Child (ts ! p) @ (if map_of m (ParentID (ts ! j)) = Some p then [j] else [])" if "p < length ts" for p
    using that by (auto simp: append_child_def nth_list_update split: option.split)
  have pa: "ParentID (?ts ! i) = ParentID (ts ! i)" if "i < length ts" for i
    using same_skeleton_nth(2) [OF sk] that len by simp
  have "filter (\<lambda>i. map_of m (ParentID (?ts ! i)) = Some p) js = filter (\<lambda>i. map_of m (ParentID (ts ! i)) = Some p) js" for p
    using Cons.prems pa by (intro filter_cong) auto
  then show ?case
    using Cons.IH [of ?ts] Cons.prems sk len ch by simp
qed simp

lemma link_children_skeleton: "map skeleton (link_children m ts) = map skeleton ts"
  using link_fold [of "[0..<length ts]" ts m] by (simp add: link_children_def)

lemma link_children_Child:
  "p < length ts \<Longrightarrow> Child (link_children m ts ! p) =
     Child (ts ! p) @ filter (\<lambda>i. map_of m (ParentID (ts ! i)) = Some p) [0..<length ts]"
  using link_fold [of "[0..<length ts]" ts m] by (simp add: link_children_def)

lemma length_link_children [simp]: "length (link_children m ts) = length ts"
  by (rule same_length [OF link_children_skeleton])

text \<open>The invariant of the links: a child is a span whose parent is the one it hangs from.\<close>

definition links_ok :: "(string \<times> nat) list \<Rightarrow> trace list \<Rightarrow> bool" where
  "links_ok m ts \<longleftrightarrow> (\<forall>p<length ts. \<forall>c\<in>set (Child (ts ! p)). c < length ts \<and> map_of m (ParentID (ts ! c)) = Some p)"

lemma links_ok_link_children:
  assumes "links_ok m ts"
  shows "links_ok m (link_children m ts)"
  unfolding links_ok_def
proof (intro allI impI ballI)
  fix p c
  assume "p < length (link_children m ts)" and c: "c \<in> set (Child (link_children m ts ! p))"
  then have p: "p < length ts" by simp
  then have "c < length ts \<and> map_of m (ParentID (ts ! c)) = Some p"
    using c assms by (auto simp: link_children_Child links_ok_def)
  then show "c < length (link_children m ts) \<and> map_of m (ParentID (link_children m ts ! c)) = Some p"
    using same_skeleton_nth(2) [OF link_children_skeleton, of c m ts] by simp
qed

subsection \<open>No cycle below a root\<close>

text \<open>The level of a span: how many links it is below a span without parent. A span on a cycle
  of parents has none.\<close>

inductive level :: "(string \<times> nat) list \<Rightarrow> trace list \<Rightarrow> nat \<Rightarrow> nat \<Rightarrow> bool" for m ts where
  root: "\<lbrakk>i < length ts; map_of m (ParentID (ts ! i)) = None\<rbrakk> \<Longrightarrow> level m ts i 0"
| below: "\<lbrakk>i < length ts; map_of m (ParentID (ts ! i)) = Some p; level m ts p k\<rbrakk> \<Longrightarrow> level m ts i (Suc k)"

inductive_cases level_zeroE: "level m ts i 0"
inductive_cases level_SucE: "level m ts i (Suc k)"

lemma level_less: "level m ts i k \<Longrightarrow> i < length ts"
  by (erule level.cases) simp_all

lemma level_unique: "level m ts i k \<Longrightarrow> level m ts i l \<Longrightarrow> l = k"
proof (induction arbitrary: l rule: level.induct)
  case (root i)
  from root.prems show ?case by cases (use root.hyps in simp_all)
next
  case (below i p k)
  from below.prems show ?case
  proof cases
    case root
    then show ?thesis using below.hyps by simp
  next
    case (below p' k')
    then show ?thesis using \<open>map_of m (ParentID (ts ! i)) = Some p\<close> below.IH by simp
  qed
qed

lemma level_chain: "level m ts i k \<Longrightarrow> \<forall>j\<le>k. \<exists>x<length ts. level m ts x j"
proof (induction rule: level.induct)
  case (root i)
  then show ?case using level.root [OF root] by auto
next
  case (below i p k)
  have "level m ts i (Suc k)" by (rule level.below [OF below.hyps])
  with below.IH below.hyps(1) show ?case by (auto simp: le_Suc_eq)
qed

lemma level_bound:
  assumes "level m ts i k"
  shows "k < length ts"
proof -
  obtain f where f: "\<forall>j\<in>{..k}. f j < length ts \<and> level m ts (f j) j"
    using bchoice [of "{..k}" "\<lambda>j x. x < length ts \<and> level m ts x j"] level_chain [OF assms] by auto
  have "inj_on f {..k}"
  proof (rule inj_onI)
    fix x y
    assume "x \<in> {..k}" "y \<in> {..k}" "f x = f y"
    then have "level m ts (f y) x" "level m ts (f y) y" using f by metis+
    then show "x = y" by (rule level_unique [OF _ _, symmetric])
  qed
  then have "card {..k} \<le> card {..<length ts}"
    by (rule card_inj_on_le) (use f in auto)
  then show ?thesis by simp
qed

lemma deeper_fold_None [simp]: "foldl (deeper rec) None cs = None"
  by (induction cs) (simp_all add: deeper_def)

lemma deeper_fold_total:
  assumes "\<forall>c\<in>set cs. rec c \<noteq> None"
  shows "foldl (deeper rec) (Some bd) cs \<noteq> None"
  using assms
proof (induction cs arbitrary: bd)
  case (Cons c cs)
  then obtain leaf d where "rec c = Some (leaf, d)" by auto
  then show ?case using Cons by (cases bd) (auto simp: deeper_def)
qed simp

lemma DeepestLeaf_total:
  assumes "links_ok m ts" and "level m ts i k" and "length ts \<le> fuel + k"
  shows "DeepestLeaf fuel ts i \<noteq> None"
  using assms(2,3)
proof (induction fuel arbitrary: i k)
  case 0
  then show ?case using level_bound by fastforce
next
  case (Suc fuel)
  have "DeepestLeaf fuel ts c \<noteq> None" if c: "c \<in> set (Child (ts ! i))" for c
  proof (rule Suc.IH)
    have "c < length ts" "map_of m (ParentID (ts ! c)) = Some i"
      using assms(1) c level_less [OF Suc.prems(1)] unfolding links_ok_def by blast+
    then show "level m ts c (Suc k)" using Suc.prems(1) by (rule level.below)
    show "length ts \<le> fuel + Suc k" using Suc.prems(2) by simp
  qed
  then have "foldl (deeper (DeepestLeaf fuel ts)) (Some (None, 0)) (Child (ts ! i)) \<noteq> None"
    by (intro deeper_fold_total) blast
  then show ?case by auto
qed

text \<open>The leaves below a span, with their depths.\<close>

inductive leaf_below :: "trace list \<Rightarrow> nat \<Rightarrow> nat \<Rightarrow> nat \<Rightarrow> bool" for ts where
  leaf: "Child (ts ! i) = [] \<Longrightarrow> leaf_below ts i i (Suc 0)"
| child: "\<lbrakk>c \<in> set (Child (ts ! i)); leaf_below ts c l d\<rbrakk> \<Longrightarrow> leaf_below ts i l (Suc d)"

inductive_cases leaf_belowE: "leaf_below ts i l d"

lemma leaf_below_pos: "leaf_below ts i l d \<Longrightarrow> 0 < d"
  by (erule leaf_below.cases) simp_all

text \<open>The fold over the children keeps the first of the deepest leaves seen.\<close>

lemma deeper_fold:
  assumes "foldl (deeper rec) (Some (b, k)) cs = Some (b', k')"
  shows "k \<le> k' \<and> (\<forall>c\<in>set cs. \<exists>l d. rec c = Some (l, d) \<and> d \<le> k') \<and>
    ((b', k') = (b, k) \<or> (\<exists>c\<in>set cs. rec c = Some (b', k')))"
  using assms
proof (induction cs arbitrary: b k)
  case (Cons c cs)
  show ?case
  proof (cases "rec c")
    case None
    then have "deeper rec (Some (b, k)) c = None" by (simp add: deeper_def)
    then show ?thesis using Cons.prems by simp
  next
    case (Some ld)
    obtain l d where ld: "rec c = Some (l, d)" using Some by (cases ld) simp
    show ?thesis
    proof (cases "d > k")
      case True
      then have "deeper rec (Some (b, k)) c = Some (l, d)" by (simp add: deeper_def ld)
      then have "foldl (deeper rec) (Some (l, d)) cs = Some (b', k')" using Cons.prems by simp
      from Cons.IH [OF this] show ?thesis using ld True by auto
    next
      case False
      then have "deeper rec (Some (b, k)) c = Some (b, k)" by (simp add: deeper_def ld)
      then have "foldl (deeper rec) (Some (b, k)) cs = Some (b', k')" using Cons.prems by simp
      from Cons.IH [OF this] show ?thesis using ld False by auto
    qed
  qed
qed simp

lemma DeepestLeaf_spec:
  "DeepestLeaf fuel ts i = Some (r, d) \<Longrightarrow>
     (\<exists>l. r = Some l \<and> leaf_below ts i l d) \<and> (\<forall>l' d'. leaf_below ts i l' d' \<longrightarrow> d' \<le> d)"
proof (induction fuel arbitrary: i r d)
  case (Suc fuel)
  show ?case
  proof (cases "Child (ts ! i) = []")
    case True
    then show ?thesis using Suc.prems by (auto intro: leaf_below.leaf elim: leaf_belowE)
  next
    case False
    then obtain k where k: "foldl (deeper (DeepestLeaf fuel ts)) (Some (None, 0)) (Child (ts ! i)) = Some (r, k)" "d = Suc k"
      using Suc.prems by (auto split: option.splits)
    note f = deeper_fold [OF k(1)]
    obtain c where c: "c \<in> set (Child (ts ! i))" using False by (cases "Child (ts ! i)") auto
    then obtain l e where "DeepestLeaf fuel ts c = Some (l, e)" "e \<le> k" using f by blast
    then have "0 < k" using Suc.IH leaf_below_pos by fastforce
    then obtain c' where "c' \<in> set (Child (ts ! i))" "DeepestLeaf fuel ts c' = Some (r, k)"
      using f by auto
    then have "\<exists>l. r = Some l \<and> leaf_below ts i l d"
      using Suc.IH k(2) leaf_below.child by blast
    moreover have "d' \<le> d" if l': "leaf_below ts i l' d'" for l' d'
      using l'
    proof cases
      case leaf
      then show ?thesis using False by simp
    next
      case (child c'' d'')
      then show ?thesis using f Suc.IH k(2) by (metis Suc_le_mono le_trans)
    qed
    ultimately show ?thesis by blast
  qed
qed simp

subsection \<open>The measured roots\<close>

lemma leaf_below_less:
  assumes "links_ok m ts"
  shows "leaf_below ts i l d \<Longrightarrow> i < length ts \<Longrightarrow> l < length ts"
proof (induction rule: leaf_below.induct)
  case (child c i l d)
  then have "c < length ts" using assms unfolding links_ok_def by blast
  with child.IH show ?case .
qed

text \<open>A second slice of the same length in which every span has the same children, some of them
  again: its deepest leaves are the same.\<close>

definition same_tree :: "trace list \<Rightarrow> trace list \<Rightarrow> bool" where
  "same_tree ts us \<longleftrightarrow> length us = length ts \<and>
     (\<forall>i<length ts. \<exists>ds. Child (us ! i) = Child (ts ! i) @ ds \<and> set ds \<subseteq> set (Child (ts ! i)))"

lemma deeper_fold_again:
  assumes "foldl (deeper rec) (Some bd) cs = Some (b', k')" and "set ds \<subseteq> set cs"
  shows "foldl (deeper rec) (Some (b', k')) ds = Some (b', k')"
proof -
  obtain b k where "bd = (b, k)" by (cases bd)
  then have f: "\<forall>c\<in>set cs. \<exists>l d. rec c = Some (l, d) \<and> d \<le> k'"
    using deeper_fold [of rec b k cs b' k'] assms(1) by blast
  have "deeper rec (Some (b', k')) d = Some (b', k')" if "d \<in> set ds" for d
    using f assms(2) that by (force simp: deeper_def)
  then show ?thesis by (induction ds) auto
qed

lemma deeper_fold_cong:
  assumes "\<And>c. c \<in> set cs \<Longrightarrow> rec c = rec' c"
  shows "foldl (deeper rec) acc cs = foldl (deeper rec') acc cs"
proof (rule foldl_cong)
  fix a x
  assume "x \<in> set cs"
  then have "rec x = rec' x" by (rule assms)
  then show "deeper rec a x = deeper rec' a x" unfolding deeper_def by presburger
qed simp_all

lemma DeepestLeaf_same_tree:
  assumes "same_tree ts us" and "links_ok m ts"
  shows "i < length ts \<Longrightarrow> DeepestLeaf fuel us i = DeepestLeaf fuel ts i"
proof (induction fuel arbitrary: i)
  case (Suc fuel)
  obtain ds where ds: "Child (us ! i) = Child (ts ! i) @ ds" "set ds \<subseteq> set (Child (ts ! i))"
    using assms(1) Suc.prems unfolding same_tree_def by blast
  have c: "DeepestLeaf fuel us c = DeepestLeaf fuel ts c" if "c \<in> set (Child (ts ! i))" for c
    using Suc.IH assms(2) Suc.prems that unfolding links_ok_def by blast
  let ?f = "foldl (deeper (DeepestLeaf fuel ts)) (Some (None, 0)) (Child (ts ! i))"
  have "foldl (deeper (DeepestLeaf fuel us)) (Some (None, 0)) (Child (us ! i)) =
      foldl (deeper (DeepestLeaf fuel ts)) (Some (None, 0)) (Child (ts ! i) @ ds)"
    unfolding ds(1) by (rule deeper_fold_cong) (use c ds(2) in auto)
  also have "\<dots> = ?f"
  proof (cases ?f)
    case (Some bd)
    then show ?thesis
      using deeper_fold_again [OF _ ds(2), of "DeepestLeaf fuel ts" "(None, 0)" "fst bd" "snd bd"] by simp
  qed simp
  finally show ?case using ds by (cases "Child (ts ! i) = []") simp_all
qed simp

definition is_root :: "(string \<times> nat) list \<Rightarrow> trace list \<Rightarrow> string \<times> nat \<Rightarrow> bool" where
  "is_root m ts kv \<longleftrightarrow> map_of m (ParentID (ts ! snd kv)) = None"

definition measured :: "trace list \<Rightarrow> nat \<Rightarrow> int64" where
  "measured ts i = (case DeepestLeaf (length ts) ts i of
     Some (Some leaf, d) \<Rightarrow> Duration (ts ! i) - Duration (ts ! leaf) | _ \<Rightarrow> 0)"

lemma root_leaf:
  assumes "links_ok m ts" and "i < length ts" and "map_of m (ParentID (ts ! i)) = None"
  obtains leaf d where "DeepestLeaf (length ts) ts i = Some (Some leaf, d)" "leaf < length ts"
    "leaf_below ts i leaf d" "\<forall>l' d'. leaf_below ts i l' d' \<longrightarrow> d' \<le> d"
proof -
  have "DeepestLeaf (length ts) ts i \<noteq> None"
    using level.root [OF assms(2,3)] by (intro DeepestLeaf_total [OF assms(1)]) simp_all
  then obtain r d where rd: "DeepestLeaf (length ts) ts i = Some (r, d)" by auto
  from DeepestLeaf_spec [OF rd] obtain leaf where "r = Some leaf" "leaf_below ts i leaf d"
    "\<forall>l' d'. leaf_below ts i l' d' \<longrightarrow> d' \<le> d" by blast
  with rd show ?thesis using that leaf_below_less [OF assms(1) _ assms(2)] by blast
qed

lemma parse_fold:
  assumes "links_ok m ts" and "\<forall>kv\<in>set kvs. snd kv < length ts" and "same_tree ts us" and "map skeleton us = map skeleton ts"
  shows "\<exists>us'. foldl (parse_root (length ts) m) (Some (us, parsed)) kvs =
      Some (us', parsed @ map snd (filter (is_root m ts) kvs)) \<and>
    map skeleton us' = map skeleton ts \<and> map Child us' = map Child us \<and>
    (\<forall>i<length ts. SystemDuration (us' ! i) =
       (if i \<in> snd ` set (filter (is_root m ts) kvs) then measured ts i else SystemDuration (us ! i)))"
  using assms(2-4)
proof (induction kvs arbitrary: us parsed)
  case (Cons kv kvs)
  let ?i = "snd kv"
  have i: "?i < length ts" using Cons.prems(1) by simp
  have len: "length us = length ts" using Cons.prems(3) by (rule same_length)
  have pid: "ParentID (us ! ?i) = ParentID (ts ! ?i)" using same_skeleton_nth(2) [OF Cons.prems(3)] i len by simp
  show ?case
  proof (cases "is_root m ts kv")
    case False
    then have "parse_root (length ts) m (Some (us, parsed)) kv = Some (us, parsed)"
      by (auto simp: parse_root_def is_root_def pid)
    then show ?thesis using Cons False by simp
  next
    case True
    then obtain leaf d where leaf: "DeepestLeaf (length ts) ts ?i = Some (Some leaf, d)" "leaf < length ts"
      using root_leaf [OF assms(1) i] unfolding is_root_def by metis
    have dl: "DeepestLeaf (length ts) us ?i = Some (Some leaf, d)"
      using DeepestLeaf_same_tree [OF Cons.prems(2) assms(1) i] leaf(1) by simp
    have dur: "Duration (us ! ?i) = Duration (ts ! ?i)" "Duration (us ! leaf) = Duration (ts ! leaf)"
      using same_skeleton_nth(3) [OF Cons.prems(3)] i leaf(2) len by simp_all
    let ?us = "us[?i := (us ! ?i)\<lparr>SystemDuration := measured ts ?i\<rparr>]"
    have step: "parse_root (length ts) m (Some (us, parsed)) kv = Some (?us, parsed @ [?i])"
      using True by (simp add: parse_root_def is_root_def pid dl dur measured_def leaf(1))
    have ch: "map Child ?us = map Child us"
      using i len by (simp add: map_update list_update_same_conv)
    have "Child (?us ! j) = Child (us ! j)" if "j < length ts" for j
      using that len by (cases "j = ?i") simp_all
    then have "same_tree ts ?us"
      using Cons.prems(2) by (simp add: same_tree_def)
    moreover have "map skeleton ?us = map skeleton ts"
      using Cons.prems(3) skeleton_update [of "(us ! ?i)\<lparr>SystemDuration := measured ts ?i\<rparr>" us ?i] by simp
    ultimately obtain us' where us': "foldl (parse_root (length ts) m) (Some (?us, parsed @ [?i])) kvs =
        Some (us', (parsed @ [?i]) @ map snd (filter (is_root m ts) kvs))"
      "map skeleton us' = map skeleton ts" "map Child us' = map Child ?us"
      "\<forall>j<length ts. SystemDuration (us' ! j) =
        (if j \<in> snd ` set (filter (is_root m ts) kvs) then measured ts j else SystemDuration (?us ! j))"
      using Cons.IH [of ?us "parsed @ [?i]"] Cons.prems(1) by auto
    then show ?thesis
      using True step ch len i by (intro exI [of _ us']) (auto simp: nth_list_update)
  qed
qed auto

text \<open>A walk visits every entry of the map once; a sort permutes, orders by the key, and depends
  only on the keys of its elements.\<close>

definition walks_map :: "map_walk \<Rightarrow> bool" where
  "walks_map w \<longleftrightarrow> (\<forall>m. mset (w m) = mset m)"

definition sorts_slice :: "slice_sort \<Rightarrow> bool" where
  "sorts_slice srt \<longleftrightarrow> (\<forall>f xs. mset (srt f xs) = mset xs \<and> sorted (map f (srt f xs))) \<and>
     (\<forall>f g xs. (\<forall>x\<in>set xs. f x = g x) \<longrightarrow> srt f xs = srt g xs)"

lemma walks_map_set: "walks_map w \<Longrightarrow> set (w m) = set m"
  unfolding walks_map_def by (metis set_mset_mset)

definition roots_in :: "map_walk \<Rightarrow> (string \<times> nat) list \<Rightarrow> trace list \<Rightarrow> nat list" where
  "roots_in w m ts = map snd (filter (is_root m ts) (w m))"

lemma set_roots_in: "walks_map w \<Longrightarrow> set (roots_in w m ts) = snd ` {kv \<in> set m. is_root m ts kv}"
  by (simp add: roots_in_def walks_map_set)

lemma ParseTraces_run:
  fixes traces :: "trace list"
  defines "m \<equiv> id_map traces" and "linked \<equiv> link_children (id_map traces) traces"
  assumes "walks_map w" and "links_ok m traces"
  shows "\<exists>ts. ParseTraces w srt traces ty = Some (ts, sort_parsed srt ty ts (roots_in w m linked),
      map (\<lambda>i. duration_of ty (ts ! i)) (sort_parsed srt ty ts (roots_in w m linked))) \<and>
    map skeleton ts = map skeleton traces \<and> map Child ts = map Child linked \<and>
    (\<forall>i\<in>set (roots_in w m linked). SystemDuration (ts ! i) = measured linked i)"
proof -
  have ok: "links_ok m linked" unfolding linked_def m_def [symmetric] by (rule links_ok_link_children [OF assms(4)])
  have len: "length linked = length traces" by (simp add: linked_def)
  have sk: "map skeleton linked = map skeleton traces" by (simp add: linked_def link_children_skeleton)
  have rng: "\<forall>kv\<in>set (w m). snd kv < length linked"
    using id_map_range len by (simp add: walks_map_set [OF assms(3)] m_def)
  have "same_tree linked linked"
    unfolding same_tree_def by (auto intro: exI [of _ "[]"])
  from parse_fold [OF ok rng this refl, of "[]"] obtain ts where
    ts: "foldl (parse_root (length linked) m) (Some (linked, [])) (w m) = Some (ts, roots_in w m linked)"
    "map skeleton ts = map skeleton linked" "map Child ts = map Child linked"
    "\<forall>i<length linked. SystemDuration (ts ! i) =
       (if i \<in> snd ` set (filter (is_root m linked) (w m)) then measured linked i else SystemDuration (linked ! i))"
    by (auto simp: roots_in_def)
  have "SystemDuration (ts ! i) = measured linked i" if "i \<in> set (roots_in w m linked)" for i
  proof -
    have "i \<in> snd ` set (filter (is_root m linked) (w m))" using that by (simp add: roots_in_def)
    moreover from this have "i < length linked" using rng by auto
    ultimately show ?thesis using ts(4) by simp
  qed
  moreover have "ParseTraces w srt traces ty = Some (ts, sort_parsed srt ty ts (roots_in w m linked),
      map (\<lambda>i. duration_of ty (ts ! i)) (sort_parsed srt ty ts (roots_in w m linked)))"
    using ts(1) len unfolding ParseTraces_def Let_def m_def linked_def by simp
  ultimately show ?thesis using ts(2,3) sk by auto
qed

text \<open>The roots in terms of the slice: the last span with its id, and no span has its parent's.\<close>

definition last_with_id :: "trace list \<Rightarrow> nat \<Rightarrow> bool" where
  "last_with_id ts i \<longleftrightarrow> i < length ts \<and> (\<forall>j. i < j \<and> j < length ts \<longrightarrow> ID (ts ! j) \<noteq> ID (ts ! i))"

definition orphan :: "trace list \<Rightarrow> nat \<Rightarrow> bool" where
  "orphan ts i \<longleftrightarrow> (\<forall>j<length ts. ID (ts ! j) \<noteq> ParentID (ts ! i))"

lemma map_of_id_map_iff:
  "map_of (id_map ts) k = Some i \<longleftrightarrow> ID (ts ! i) = k \<and> last_with_id ts i"
proof -
  have "map_of (foldl (\<lambda>m i. AList.update (ID (ts ! i)) i m) [] [0..<n]) k = Some i \<longleftrightarrow>
      ID (ts ! i) = k \<and> i < n \<and> (\<forall>j. i < j \<and> j < n \<longrightarrow> ID (ts ! j) \<noteq> k)" for n
  proof (induction n)
    case (Suc n)
    then show ?case by (auto simp: update_conv' less_Suc_eq)
  qed simp
  then show ?thesis unfolding id_map_def last_with_id_def by blast
qed

lemma map_of_id_map_None: "map_of (id_map ts) (ParentID (ts ! i)) = None \<longleftrightarrow> orphan ts i"
proof
  assume "orphan ts i"
  then show "map_of (id_map ts) (ParentID (ts ! i)) = None"
    using map_of_id_map unfolding orphan_def by (metis not_Some_eq)
next
  assume n: "map_of (id_map ts) (ParentID (ts ! i)) = None"
  show "orphan ts i"
    unfolding orphan_def
  proof (intro allI impI notI)
    fix j
    assume "j < length ts" "ID (ts ! j) = ParentID (ts ! i)"
    then show False using id_map_total [of j ts] n by simp
  qed
qed

lemma set_roots:
  assumes "walks_map w"
  shows "set (roots_in w (id_map ts) (link_children (id_map ts) ts)) = {i. last_with_id ts i \<and> orphan ts i}"
proof -
  have r: "is_root (id_map ts) (link_children (id_map ts) ts) kv \<longleftrightarrow> orphan ts (snd kv)" if "kv \<in> set (id_map ts)" for kv
    using same_skeleton_nth(2) [OF link_children_skeleton] id_map_range [OF that]
    by (simp add: is_root_def map_of_id_map_None)
  have "{kv \<in> set (id_map ts). is_root (id_map ts) (link_children (id_map ts) ts) kv} =
      {kv \<in> set (id_map ts). orphan ts (snd kv)}"
    using r by blast
  moreover have "snd ` {kv \<in> set (id_map ts). orphan ts (snd kv)} = {i. last_with_id ts i \<and> orphan ts i}"
  proof (intro set_eqI iffI)
    fix i
    assume "i \<in> {i. last_with_id ts i \<and> orphan ts i}"
    then have "map_of (id_map ts) (ID (ts ! i)) = Some i" "orphan ts i" by (simp_all add: map_of_id_map_iff)
    then show "i \<in> snd ` {kv \<in> set (id_map ts). orphan ts (snd kv)}"
      by (force dest: map_of_SomeD)
  next
    fix i
    assume "i \<in> snd ` {kv \<in> set (id_map ts). orphan ts (snd kv)}"
    then obtain k where "(k, i) \<in> set (id_map ts)" "orphan ts i" by auto
    then have "map_of (id_map ts) k = Some i" "orphan ts i"
      using id_map_distinct by (simp_all add: map_of_is_SomeI)
    then show "i \<in> {i. last_with_id ts i \<and> orphan ts i}" by (simp add: map_of_id_map_iff)
  qed
  ultimately show ?thesis by (simp add: set_roots_in [OF assms])
qed

lemma distinct_roots:
  assumes "walks_map w"
  shows "distinct (roots_in w (id_map ts) us)"
proof -
  have "inj_on snd (set (id_map ts))"
    by (rule inj_onI) (metis id_map_range prod.collapse)
  moreover have "distinct (id_map ts)" using id_map_distinct [of ts] by (simp add: distinct_map)
  then have "distinct (w (id_map ts))"
    using assms unfolding walks_map_def by (metis mset_eq_imp_distinct_iff)
  ultimately show ?thesis
    by (auto simp: roots_in_def distinct_map walks_map_set [OF assms] intro: inj_on_subset)
qed

lemma sort_parsed_mset: "sorts_slice srt \<Longrightarrow> mset (sort_parsed srt ty ts parsed) = mset parsed"
  by (simp add: sort_parsed_def sorts_slice_def)

lemma sort_parsed_distinct:
  "sorts_slice srt \<Longrightarrow> set (sort_parsed srt ty ts parsed) = set parsed \<and> (distinct (sort_parsed srt ty ts parsed) \<longleftrightarrow> distinct parsed)"
  using sort_parsed_mset by (metis mset_eq_imp_distinct_iff set_mset_mset)

definition sort_key_of :: "string \<Rightarrow> trace \<Rightarrow> int" where
  "sort_key_of ty t = (if ty = ''e2e'' then sint (Duration t) else sint (SystemDuration t))"

lemma sort_parsed_sorted:
  "\<lbrakk>sorts_slice srt; ty = ''e2e'' \<or> ty = ''system''\<rbrakk> \<Longrightarrow> sorted (map (\<lambda>i. sort_key_of ty (ts ! i)) (sort_parsed srt ty ts parsed))"
  unfolding sort_parsed_def sorts_slice_def sort_key_of_def by auto

lemma sort_parsed_cong:
  assumes "sorts_slice srt" and "\<forall>i\<in>set parsed. sort_key_of ty (ts ! i) = sort_key_of ty (us ! i)" and "ty = ''e2e'' \<or> ty = ''system''"
  shows "sort_parsed srt ty ts parsed = sort_parsed srt ty us parsed"
  using assms unfolding sorts_slice_def sort_parsed_def sort_key_of_def by (auto split: if_splits)

lemma no_children_links_ok: "\<forall>t\<in>set ts. Child t = [] \<Longrightarrow> links_ok m ts"
  by (simp add: links_ok_def)

subsection \<open>Properties\<close>

text \<open>
  Property C8: \<open>ParseTraces\<close> returns on every slice of freshly loaded spans, cyclic parents and
  repeated ids included. It yields every root once, a root being the last span with its id whose
  parent is not in the slice; the roots are ordered by the latency asked for; and the system
  duration of a root is its own duration less that of a deepest leaf below it.
\<close>

theorem ParseTraces_spec:
  assumes w: "walks_map w" and srt: "sorts_slice srt" and fresh: "\<forall>t\<in>set traces. Child t = []"
    and ty: "ty = ''e2e'' \<or> ty = ''system''"
  shows "\<exists>ts parsed. ParseTraces w srt traces ty = Some (ts, parsed, map (\<lambda>i. duration_of ty (ts ! i)) parsed) \<and>
    distinct parsed \<and> set parsed = {i. last_with_id traces i \<and> orphan traces i} \<and>
    sorted (map (\<lambda>i. sort_key_of ty (ts ! i)) parsed) \<and>
    (\<forall>i\<in>set parsed. \<exists>leaf d. leaf_below (link_children (id_map traces) traces) i leaf d \<and>
       (\<forall>l' d'. leaf_below (link_children (id_map traces) traces) i l' d' \<longrightarrow> d' \<le> d) \<and>
       SystemDuration (ts ! i) = Duration (traces ! i) - Duration (traces ! leaf))"
proof -
  let ?m = "id_map traces"
  let ?linked = "link_children ?m traces"
  have ok: "links_ok ?m traces" using fresh by (rule no_children_links_ok)
  note ok' = links_ok_link_children [OF ok]
  obtain ts where ts: "ParseTraces w srt traces ty = Some (ts, sort_parsed srt ty ts (roots_in w ?m ?linked),
      map (\<lambda>i. duration_of ty (ts ! i)) (sort_parsed srt ty ts (roots_in w ?m ?linked)))"
    "\<forall>i\<in>set (roots_in w ?m ?linked). SystemDuration (ts ! i) = measured ?linked i"
    using ParseTraces_run [OF w ok] by blast
  let ?parsed = "sort_parsed srt ty ts (roots_in w ?m ?linked)"
  have set: "set ?parsed = {i. last_with_id traces i \<and> orphan traces i}" and "distinct ?parsed"
    using sort_parsed_distinct [OF srt] set_roots [OF w] distinct_roots [OF w] by simp_all
  moreover have "\<exists>leaf d. leaf_below ?linked i leaf d \<and> (\<forall>l' d'. leaf_below ?linked i l' d' \<longrightarrow> d' \<le> d) \<and>
      SystemDuration (ts ! i) = Duration (traces ! i) - Duration (traces ! leaf)" if i: "i \<in> set ?parsed" for i
  proof -
    have lt: "i < length ?linked" and o: "orphan traces i" using i set by (auto simp: last_with_id_def)
    have "map_of ?m (ParentID (?linked ! i)) = None"
      using same_skeleton_nth(2) [OF link_children_skeleton lt] o by (simp add: map_of_id_map_None)
    then obtain leaf d where "DeepestLeaf (length ?linked) ?linked i = Some (Some leaf, d)" "leaf < length ?linked"
      "leaf_below ?linked i leaf d" "\<forall>l' d'. leaf_below ?linked i l' d' \<longrightarrow> d' \<le> d"
      by (rule root_leaf [OF ok' lt])
    moreover have "SystemDuration (ts ! i) = measured ?linked i"
      using ts(2) i sort_parsed_distinct [OF srt] by simp
    ultimately show ?thesis
      using same_skeleton_nth(3) [OF link_children_skeleton] lt by (auto simp: measured_def)
  qed
  ultimately show ?thesis
    using ts(1) sort_parsed_sorted [OF srt ty] by blast
qed

definition demo_span :: "string \<Rightarrow> string \<Rightarrow> int64 \<Rightarrow> trace" where
  "demo_span i p d = \<lparr>TraceID = ''t'', Duration = d, LocalEndpoint = \<lparr>ServiceName = ''s'', Ipv4 = ''''\<rparr>,
     TimestampMillis = 0, Name = ''n'', ID = i, ParentID = p, Timestamp = 0, Kind = None, Annotations = [],
     Tags = None, SystemDuration = 0, Child = []\<rparr>"

definition key_sort :: slice_sort where "key_sort f xs = sort_key f xs"

lemma sorts_slice_key: "sorts_slice key_sort"
proof -
  have "insort_key f x xs = insort_key g x xs" if "\<forall>y\<in>insert x (set xs). f y = g y" for f g :: "nat \<Rightarrow> int" and x xs
    using that by (induction xs) auto
  then have "sort_key f xs = sort_key g xs" if "\<forall>x\<in>set xs. f x = g x" for f g :: "nat \<Rightarrow> int" and xs
    using that by (induction xs) (auto simp: set_sort)
  then show ?thesis by (simp add: sorts_slice_def key_sort_def)
qed

lemma walks_map_rev: "walks_map rev" "walks_map (\<lambda>m. m)"
  by (simp_all add: walks_map_def)

theorem ParseTraces_spec_witness:
  "\<exists>ts parsed. ParseTraces rev key_sort [demo_span ''a'' '''' 9, demo_span ''b'' ''a'' 4, demo_span ''c'' ''d'' 1, demo_span ''d'' ''c'' 1] ''e2e'' =
     Some (ts, parsed, map (\<lambda>i. duration_of ''e2e'' (ts ! i)) parsed) \<and>
     set parsed = {i. last_with_id [demo_span ''a'' '''' 9, demo_span ''b'' ''a'' 4, demo_span ''c'' ''d'' 1, demo_span ''d'' ''c'' 1] i \<and>
       orphan [demo_span ''a'' '''' 9, demo_span ''b'' ''a'' 4, demo_span ''c'' ''d'' 1, demo_span ''d'' ''c'' 1] i}"
  using ParseTraces_spec [OF walks_map_rev(1) sorts_slice_key,
    of "[demo_span ''a'' '''' 9, demo_span ''b'' ''a'' 4, demo_span ''c'' ''d'' 1, demo_span ''d'' ''c'' 1]" "''e2e''"]
  by (auto simp: demo_span_def)

text \<open>The plot parses the same slice twice. The second pass hangs every child from its parent once
  more, which changes no deepest leaf.\<close>

lemma second_linking:
  assumes ts: "map skeleton ts = map skeleton traces" "map Child ts = map Child (link_children (id_map traces) traces)"
    and fresh: "\<forall>t\<in>set traces. Child t = []"
  shows "same_tree (link_children (id_map traces) traces) (link_children (id_map ts) ts)"
    and "p < length traces \<Longrightarrow> Child (link_children (id_map ts) ts ! p) =
      Child (link_children (id_map traces) traces ! p) @ Child (link_children (id_map traces) traces ! p)"
proof -
  have len: "length ts = length traces" by (rule same_length [OF ts(1)])
  have ids: "id_map ts = id_map traces" by (rule id_map_cong [OF ts(1)])
  have ch: "Child (link_children (id_map ts) ts ! p) =
      Child (link_children (id_map traces) traces ! p) @ Child (link_children (id_map traces) traces ! p)"
    if "p < length traces" for p
  proof -
    have "Child (ts ! p) = Child (link_children (id_map traces) traces ! p)"
      using arg_cong [OF ts(2), of "\<lambda>cs. cs ! p"] that len by simp
    moreover have "filter (\<lambda>i. map_of (id_map ts) (ParentID (ts ! i)) = Some p) [0..<length ts] =
        filter (\<lambda>i. map_of (id_map traces) (ParentID (traces ! i)) = Some p) [0..<length traces]"
      unfolding len ids by (rule filter_cong) (simp_all add: same_skeleton_nth(2) [OF ts(1)] len)
    moreover have "Child (traces ! p) = []" using fresh that by simp
    ultimately show ?thesis
      using that len link_children_Child [of p ts "id_map ts"] link_children_Child [of p traces "id_map traces"] by simp
  qed
  show "same_tree (link_children (id_map traces) traces) (link_children (id_map ts) ts)"
    unfolding same_tree_def using ch len by auto
  show "p < length traces \<Longrightarrow> Child (link_children (id_map ts) ts ! p) =
      Child (link_children (id_map traces) traces ! p) @ Child (link_children (id_map traces) traces ! p)"
    by (rule ch)
qed

lemma measured_same_tree:
  assumes "same_tree ts us" and "links_ok m ts" and "map skeleton us = map skeleton ts" and "level m ts i k"
  shows "measured us i = measured ts i"
proof -
  have i: "i < length ts" by (rule level_less [OF assms(4)])
  have len: "length us = length ts" by (rule same_length [OF assms(3)])
  show ?thesis
  proof (cases "DeepestLeaf (length ts) ts i")
    case (Some rd)
    obtain r d where rd: "DeepestLeaf (length ts) ts i = Some (r, d)" using Some by (cases rd) simp
    then obtain leaf where "r = Some leaf" "leaf_below ts i leaf d"
      using DeepestLeaf_spec by blast
    then have "leaf < length ts" using leaf_below_less [OF assms(2)] i by blast
    then show ?thesis
      using rd \<open>r = Some leaf\<close> DeepestLeaf_same_tree [OF assms(1,2) i] len i
        same_skeleton_nth(3) [OF assms(3)] by (simp add: measured_def)
  qed (use DeepestLeaf_same_tree [OF assms(1,2) i] len in \<open>simp add: measured_def\<close>)
qed

text \<open>A slice with the ids and the children of a linked one is linked as well.\<close>

lemma links_ok_same_tree:
  assumes lk: "links_ok m (link_children m' traces)"
    and sk: "map skeleton ts = map skeleton traces" and ch: "map Child ts = map Child (link_children m' traces)"
  shows "links_ok m ts"
  unfolding links_ok_def
proof (intro allI impI ballI)
  fix p c
  let ?linked = "link_children m' traces"
  have len: "length ts = length traces" by (rule same_length [OF sk])
  assume "p < length ts" "c \<in> set (Child (ts ! p))"
  moreover from this have "Child (ts ! p) = Child (?linked ! p)"
    using arg_cong [OF ch, of "\<lambda>cs. cs ! p"] len by simp
  ultimately have "c < length ?linked \<and> map_of m (ParentID (?linked ! c)) = Some p"
    using lk len unfolding links_ok_def by simp
  then show "c < length ts \<and> map_of m (ParentID (ts ! c)) = Some p"
    using len same_skeleton_nth(2) [OF sk] same_skeleton_nth(2) [OF link_children_skeleton, of c m' traces] by simp
qed

text \<open>
  Property C35: parsing the slice a second time, for the system latencies after the end-to-end
  ones, gives what parsing the freshly loaded slice for them would have given, although by then
  every list of children has been doubled.
\<close>

theorem second_pass_equivalent:
  assumes w: "walks_map w" "walks_map w'" and srt: "sorts_slice srt" and fresh: "\<forall>t\<in>set traces. Child t = []"
  shows "\<exists>ts parsed ds ts' us parsed' ds'. ParseTraces w srt traces ''e2e'' = Some (ts, parsed, ds) \<and>
    ParseTraces w' srt ts ''system'' = Some (ts', parsed', ds') \<and>
    ParseTraces w' srt traces ''system'' = Some (us, parsed', ds') \<and>
    (\<forall>p<length traces. Child (ts' ! p) = Child (us ! p) @ Child (us ! p))"
proof -
  let ?m = "id_map traces"
  let ?linked = "link_children ?m traces"
  have ok: "links_ok ?m traces" using fresh by (rule no_children_links_ok)
  note lk = links_ok_link_children [OF ok]
  obtain ts where ts: "ParseTraces w srt traces ''e2e'' = Some (ts, sort_parsed srt ''e2e'' ts (roots_in w ?m ?linked),
      map (\<lambda>i. duration_of ''e2e'' (ts ! i)) (sort_parsed srt ''e2e'' ts (roots_in w ?m ?linked)))"
    "map skeleton ts = map skeleton traces" "map Child ts = map Child ?linked"
    using ParseTraces_run [OF w(1) ok] by blast
  obtain us where us: "ParseTraces w' srt traces ''system'' = Some (us, sort_parsed srt ''system'' us (roots_in w' ?m ?linked),
      map (\<lambda>i. duration_of ''system'' (us ! i)) (sort_parsed srt ''system'' us (roots_in w' ?m ?linked)))"
    "map Child us = map Child ?linked"
    "\<forall>i\<in>set (roots_in w' ?m ?linked). SystemDuration (us ! i) = measured ?linked i"
    using ParseTraces_run [OF w(2) ok] by blast
  have ids: "id_map ts = ?m" by (rule id_map_cong [OF ts(2)])
  let ?again = "link_children ?m ts"
  note second = second_linking [OF ts(2,3) fresh, unfolded ids]
  have len: "length ts = length traces" by (rule same_length [OF ts(2)])
  have sk: "map skeleton ?again = map skeleton ?linked" using ts(2) by (simp add: link_children_skeleton)
  have ok2: "links_ok ?m ts" by (rule links_ok_same_tree [OF lk ts(2,3)])
  have "is_root ?m ?again kv = is_root ?m ?linked kv" if "kv \<in> set (w' ?m)" for kv
    using same_skeleton_nth(2) [OF sk] id_map_range [of kv traces] that len
    by (simp add: is_root_def walks_map_set [OF w(2)])
  then have roots: "roots_in w' ?m ?again = roots_in w' ?m ?linked"
    by (simp add: roots_in_def cong: filter_cong)
  obtain ts' where ts': "ParseTraces w' srt ts ''system'' = Some (ts', sort_parsed srt ''system'' ts' (roots_in w' ?m ?linked),
      map (\<lambda>i. duration_of ''system'' (ts' ! i)) (sort_parsed srt ''system'' ts' (roots_in w' ?m ?linked)))"
    "map Child ts' = map Child ?again"
    "\<forall>i\<in>set (roots_in w' ?m ?linked). SystemDuration (ts' ! i) = measured ?again i"
    using ParseTraces_run [OF w(2), of ts srt "''system''"] ok2 unfolding ids roots by blast
  have sys: "SystemDuration (ts' ! i) = SystemDuration (us ! i)" if i: "i \<in> set (roots_in w' ?m ?linked)" for i
  proof -
    have "last_with_id traces i" "orphan traces i" using i set_roots [OF w(2)] by auto
    then have "level ?m ?linked i 0"
      using same_skeleton_nth(2) [OF link_children_skeleton]
      by (intro level.root) (simp_all add: last_with_id_def map_of_id_map_None)
    then have "measured ?again i = measured ?linked i" by (rule measured_same_tree [OF second(1) lk sk])
    then show ?thesis using ts'(3) us(3) i by simp
  qed
  have srt_eq: "sort_parsed srt ''system'' ts' (roots_in w' ?m ?linked) = sort_parsed srt ''system'' us (roots_in w' ?m ?linked)"
    by (rule sort_parsed_cong [OF srt]) (simp_all add: sort_key_of_def sys)
  have dur_eq: "map (\<lambda>i. duration_of ''system'' (ts' ! i)) (sort_parsed srt ''system'' us (roots_in w' ?m ?linked)) =
      map (\<lambda>i. duration_of ''system'' (us ! i)) (sort_parsed srt ''system'' us (roots_in w' ?m ?linked))"
    using sort_parsed_distinct [OF srt] sys by (simp add: duration_of_def)
  have "Child (ts' ! p) = Child (us ! p) @ Child (us ! p)" if "p < length traces" for p
    using second(2) [OF that] that len same_length [OF ts'(2)] same_length [OF us(2)]
      arg_cong [OF ts'(2), of "\<lambda>cs. cs ! p"] arg_cong [OF us(2), of "\<lambda>cs. cs ! p"] by simp
  then show ?thesis
    using ts(1) ts'(1) us(1) unfolding srt_eq dur_eq by blast
qed

theorem second_pass_equivalent_witness:
  "\<exists>ts ts' us parsed' ds'. ParseTraces rev key_sort [demo_span ''a'' '''' 9, demo_span ''b'' ''a'' 4] ''e2e'' = Some ts \<and>
     ParseTraces (\<lambda>m. m) key_sort (fst ts) ''system'' = Some (ts', parsed', ds') \<and>
     ParseTraces (\<lambda>m. m) key_sort [demo_span ''a'' '''' 9, demo_span ''b'' ''a'' 4] ''system'' = Some (us, parsed', ds')"
  using second_pass_equivalent [OF walks_map_rev sorts_slice_key, of "[demo_span ''a'' '''' 9, demo_span ''b'' ''a'' 4]"]
  by (fastforce simp: demo_span_def)

text \<open>The status code is found within the same fuel.\<close>

lemma add_code_fold_total:
  assumes "\<forall>c\<in>set cs. rec c \<noteq> None"
  shows "foldl (add_code rec) (Some codes) cs \<noteq> None"
  using assms
proof (induction cs arbitrary: codes)
  case (Cons c cs)
  then obtain x e where x: "rec c = Some (x, e)" by auto
  then have "\<exists>codes'. add_code rec (Some codes) c = Some codes'"
    by (cases e) (simp_all add: add_code_def)
  then obtain codes' where "add_code rec (Some codes) c = Some codes'" ..
  then show ?case using Cons.IH [of codes'] Cons.prems by simp
qed simp

lemma GetHTTPStatusCode_total:
  assumes "links_ok m ts" and "level m ts i k" and "length ts \<le> fuel + k"
  shows "GetHTTPStatusCode fuel ts i \<noteq> None"
  using assms(2,3)
proof (induction fuel arbitrary: i k)
  case 0
  then show ?case using level_bound by fastforce
next
  case (Suc fuel)
  have "GetHTTPStatusCode fuel ts c \<noteq> None" if c: "c \<in> set (Child (ts ! i))" for c
  proof (rule Suc.IH)
    have "c < length ts" "map_of m (ParentID (ts ! c)) = Some i"
      using assms(1) c level_less [OF Suc.prems(1)] unfolding links_ok_def by blast+
    then show "level m ts c (Suc k)" using Suc.prems(1) by (rule level.below)
    show "length ts \<le> fuel + Suc k" using Suc.prems(2) by simp
  qed
  then have "foldl (add_code (GetHTTPStatusCode fuel ts)) (Some []) (Child (ts ! i)) \<noteq> None"
    by (intro add_code_fold_total) blast
  then show ?case by (auto split: option.split)
qed

lemma last_sort_Max: "xs \<noteq> [] \<Longrightarrow> last (sort xs) = Max (set (xs :: int list))"
proof -
  assume "xs \<noteq> []"
  then obtain ys y where ys: "sort xs = ys @ [y]"
    by (metis length_0_conv length_sort rev_exhaust)
  then have "sorted (ys @ [y])" "set (ys @ [y]) = set xs" by (metis sorted_sort, metis set_sort)
  then have "\<forall>x\<in>set xs. x \<le> y" "y \<in> set xs" by (auto simp: sorted_append)
  then show ?thesis unfolding ys by (intro Max_eqI [symmetric]) auto
qed

lemma readable_codes_eq:
  "readable_codes ts cs = map (\<lambda>c. fst (atoi (HTTPStatusCode (the (Tags (ts ! c))))))
     (filter (\<lambda>c. \<exists>t. Tags (ts ! c) = Some t \<and> snd (atoi (HTTPStatusCode t)) = None) cs)"
proof -
  have "foldl (\<lambda>codes c. case Tags (ts ! c) of None \<Rightarrow> codes
       | Some t \<Rightarrow> (case atoi (HTTPStatusCode t) of (code, None) \<Rightarrow> codes @ [code] | (code, Some err) \<Rightarrow> codes)) acc cs =
     acc @ map (\<lambda>c. fst (atoi (HTTPStatusCode (the (Tags (ts ! c))))))
       (filter (\<lambda>c. \<exists>t. Tags (ts ! c) = Some t \<and> snd (atoi (HTTPStatusCode t)) = None) cs)" for acc
    by (induction cs arbitrary: acc) (auto split: option.split prod.split)
  then show ?thesis by (simp add: readable_codes_def)
qed

text \<open>The spans whose codes count for a span, and their codes: the span itself, if its own code is readable.
  A span without tags shows its children with readable codes, and, when there is none, whatever its
  children show, at any depth below each of them.\<close>

definition readable :: "trace list \<Rightarrow> nat \<Rightarrow> bool" where
  "readable ts i \<longleftrightarrow> (case Tags (ts ! i) of None \<Rightarrow> False | Some t \<Rightarrow> snd (atoi (HTTPStatusCode t)) = None)"

definition own_code :: "trace list \<Rightarrow> nat \<Rightarrow> int" where
  "own_code ts i = (case Tags (ts ! i) of None \<Rightarrow> - 1 | Some t \<Rightarrow> fst (atoi (HTTPStatusCode t)))"

inductive shown :: "trace list \<Rightarrow> nat \<Rightarrow> nat \<Rightarrow> bool" for ts where
  own: "readable ts i \<Longrightarrow> shown ts i i"
| child: "\<lbrakk>Tags (ts ! i) = None; c \<in> set (Child (ts ! i)); readable ts c\<rbrakk> \<Longrightarrow> shown ts i c"
| below: "\<lbrakk>Tags (ts ! i) = None; \<forall>c\<in>set (Child (ts ! i)). \<not> readable ts c; c \<in> set (Child (ts ! i)); shown ts c j\<rbrakk>
    \<Longrightarrow> shown ts i j"

lemma shown_tags: "Tags (ts ! i) = Some t \<Longrightarrow> shown ts i j \<longleftrightarrow> j = i \<and> readable ts i"
  by (auto elim: shown.cases intro: own)

lemma shown_children:
  assumes "Tags (ts ! i) = None" and "\<exists>c\<in>set (Child (ts ! i)). readable ts c"
  shows "shown ts i j \<longleftrightarrow> j \<in> set (Child (ts ! i)) \<and> readable ts j"
  using assms by (auto elim: shown.cases intro: child simp: readable_def)

lemma shown_below:
  assumes "Tags (ts ! i) = None" and "\<forall>c\<in>set (Child (ts ! i)). \<not> readable ts c"
  shows "shown ts i j \<longleftrightarrow> (\<exists>c\<in>set (Child (ts ! i)). shown ts c j)"
proof
  show "shown ts i j \<Longrightarrow> \<exists>c\<in>set (Child (ts ! i)). shown ts c j"
    using assms by (auto elim: shown.cases simp: readable_def)
qed (use assms in \<open>blast intro: below\<close>)

lemma set_readable_codes: "set (readable_codes ts cs) = own_code ts ` {c \<in> set cs. readable ts c}"
  by (force simp: readable_codes_eq readable_def own_code_def image_iff split: option.splits)

lemma set_add_code_fold:
  assumes "foldl (add_code rec) (Some acc) cs = Some codes"
  shows "set codes = set acc \<union> {x. \<exists>c\<in>set cs. rec c = Some (x, None)} \<and> (\<forall>c\<in>set cs. rec c \<noteq> None)"
  using assms
proof (induction cs arbitrary: acc)
  case (Cons c cs)
  have none: "foldl (add_code rec) None cs = None" by (induction cs) (simp_all add: add_code_def)
  show ?case
  proof (cases "rec c")
    case None
    then have "add_code rec (Some acc) c = None" by (simp add: add_code_def)
    then show ?thesis using Cons.prems none by simp
  next
    case (Some r)
    obtain x e where r: "r = (x, e)" by (cases r)
    have step: "add_code rec (Some acc) c = Some (if e = None then acc @ [x] else acc)"
      using Some by (cases e) (simp_all add: add_code_def r)
    then show ?thesis
      using Cons.IH [of "if e = None then acc @ [x] else acc"] Cons.prems Some by (auto simp: r)
  qed
qed simp

text \<open>The largest of the codes shown below a span, and whether there is one.\<close>

definition largest_shown :: "trace list \<Rightarrow> nat \<Rightarrow> int \<Rightarrow> bool" where
  "largest_shown ts i code \<longleftrightarrow> (\<exists>j. shown ts i j \<and> own_code ts j = code) \<and> (\<forall>j. shown ts i j \<longrightarrow> own_code ts j \<le> code)"

lemma largest_shownI:
  assumes "xs \<noteq> []" and "set xs \<subseteq> own_code ts ` Collect (shown ts i)"
    and "\<And>j. shown ts i j \<Longrightarrow> \<exists>x\<in>set xs. own_code ts j \<le> x"
  shows "largest_shown ts i (last (sort xs))"
proof -
  have max: "last (sort xs) = Max (set xs)" by (rule last_sort_Max [OF assms(1)])
  have "Max (set xs) \<in> set xs" using assms(1) by simp
  moreover have "own_code ts j \<le> Max (set xs)" if "shown ts i j" for j
  proof -
    obtain x where x: "x \<in> set xs" "own_code ts j \<le> x" using assms(3) [OF \<open>shown ts i j\<close>] by blast
    then have "x \<le> Max (set xs)" by simp
    with x(2) show ?thesis by simp
  qed
  ultimately show ?thesis using assms(2) unfolding largest_shown_def max by fastforce
qed

lemma GetHTTPStatusCode_shown:
  assumes "GetHTTPStatusCode fuel ts i = Some (code, err)"
  shows "(if \<exists>j. shown ts i j then err = None \<and> largest_shown ts i code
          else err \<noteq> None \<and> (Tags (ts ! i) = None \<longrightarrow> (code, err) = no_code))"
  using assms
proof (induction fuel arbitrary: i code err)
  case (Suc fuel)
  show ?case
  proof (cases "Tags (ts ! i)")
    case (Some t)
    then show ?thesis
      using Suc.prems by (auto simp: shown_tags readable_def atoi_error_def largest_shown_def own_code_def)
  next
    case tags: None
    show ?thesis
    proof (cases "\<exists>c\<in>set (Child (ts ! i)). readable ts c")
      case True
      have "Collect (shown ts i) = {c \<in> set (Child (ts ! i)). readable ts c}"
        using shown_children [OF tags True] by blast
      then have set: "set (readable_codes ts (Child (ts ! i))) = own_code ts ` Collect (shown ts i)"
        by (simp add: set_readable_codes)
      have some: "\<exists>j. shown ts i j" using True shown_children [OF tags True] by blast
      then have ne: "readable_codes ts (Child (ts ! i)) \<noteq> []" using set by auto
      have "largest_shown ts i (last (sort (readable_codes ts (Child (ts ! i)))))"
        by (rule largest_shownI [OF ne]) (use set in auto)
      then show ?thesis using some ne Suc.prems tags by simp
    next
      case False
      then have none: "\<forall>c\<in>set (Child (ts ! i)). \<not> readable ts c" by blast
      then have empty: "readable_codes ts (Child (ts ! i)) = []"
        using set_readable_codes [of ts "Child (ts ! i)"] by (metis (no_types, lifting) empty_Collect_eq image_is_empty set_empty)
      obtain codes where fold: "foldl (add_code (GetHTTPStatusCode fuel ts)) (Some []) (Child (ts ! i)) = Some codes"
        and result: "(code, err) = (if codes = [] then no_code else (last (sort codes), None))"
      proof (cases "foldl (add_code (GetHTTPStatusCode fuel ts)) (Some []) (Child (ts ! i))")
        case None
        then show ?thesis using Suc.prems tags empty by simp
      next
        case (Some codes)
        then have "(code, err) = (if codes = [] then no_code else (last (sort codes), None))"
          using Suc.prems tags empty by (cases codes) simp_all
        with Some show ?thesis by (rule that)
      qed
      have set: "set codes = {x. \<exists>c\<in>set (Child (ts ! i)). GetHTTPStatusCode fuel ts c = Some (x, None)}"
        and total: "\<And>c. c \<in> set (Child (ts ! i)) \<Longrightarrow> \<exists>x e. GetHTTPStatusCode fuel ts c = Some (x, e)"
        using set_add_code_fold [OF fold] by auto
      have up: "\<exists>x\<in>set codes. own_code ts j \<le> x" if "shown ts i j" for j
      proof -
        obtain c where c: "c \<in> set (Child (ts ! i))" "shown ts c j" using \<open>shown ts i j\<close> unfolding shown_below [OF tags none] by blast
        obtain x e where x: "GetHTTPStatusCode fuel ts c = Some (x, e)" using total [OF c(1)] by blast
        from Suc.IH [OF x] c(2) have "e = None" "own_code ts j \<le> x"
          by (auto simp: largest_shown_def split: if_splits)
        with c(1) x show ?thesis unfolding set by blast
      qed
      have down: "set codes \<subseteq> own_code ts ` Collect (shown ts i)"
      proof
        fix x assume "x \<in> set codes"
        then obtain c where c: "c \<in> set (Child (ts ! i))" and x: "GetHTTPStatusCode fuel ts c = Some (x, None)"
          unfolding set by blast
        from Suc.IH [OF x] obtain j where j: "shown ts c j" "own_code ts j = x"
          by (auto simp: largest_shown_def split: if_splits)
        then have "shown ts i j" unfolding shown_below [OF tags none] using c by blast
        with j(2) show "x \<in> own_code ts ` Collect (shown ts i)" by blast
      qed
      show ?thesis
      proof (cases "codes = []")
        case True
        then have "\<nexists>j. shown ts i j" using up by auto
        then show ?thesis using True result by (simp add: no_code_def)
      next
        case ne: False
        then have "\<exists>j. shown ts i j" using down by (cases codes) auto
        then show ?thesis using ne result largest_shownI [OF ne down up] by simp
      qed
    qed
  qed
qed simp


definition demo_tags :: "string \<Rightarrow> tags" where
  "demo_tags code = \<lparr>HTTPHost = '''', HTTPMethod = ''GET'', HTTPPath = '''', HTTPStatusCode = code, HTTPURL = '''',
     HTTPUserAgent = '''', OpencensusStatusDescription = ''''\<rparr>"

text \<open>The root and its child have no tags; two grandchildren, at different depths, have codes.\<close>

definition demo_status_spans :: "trace list" where
  "demo_status_spans =
     [(demo_span ''a'' '''' 9)\<lparr>Child := [1, 2]\<rparr>, (demo_span ''b'' ''a'' 5)\<lparr>Child := [3]\<rparr>,
      (demo_span ''c'' ''a'' 5)\<lparr>Child := [4]\<rparr>, (demo_span ''d'' ''b'' 2)\<lparr>Tags := Some (demo_tags ''200'')\<rparr>,
      (demo_span ''e'' ''c'' 2)\<lparr>Child := [5]\<rparr>, (demo_span ''f'' ''e'' 1)\<lparr>Tags := Some (demo_tags ''503'')\<rparr>]"

lemma demo_codes: "atoi ''200'' = (200, None)" "atoi ''503'' = (503, None)"
proof -
  have "itoa 200 = ''200''" "itoa 503 = ''503''" by code_simp+
  then show "atoi ''200'' = (200, None)" "atoi ''503'' = (503, None)"
    using atoi_itoa [of 200] atoi_itoa [of 503] by simp_all
qed

lemma shown_demo: "shown demo_status_spans 0 j \<longleftrightarrow> j = 3 \<or> j = 5"
proof -
  have tags: "Tags (demo_status_spans ! 0) = None" "Tags (demo_status_spans ! 1) = None"
    "Tags (demo_status_spans ! 2) = None" "Tags (demo_status_spans ! 4) = None"
    by (simp_all add: demo_status_spans_def demo_span_def)
  have child: "Child (demo_status_spans ! 0) = [1, 2]" "Child (demo_status_spans ! 1) = [3]"
    "Child (demo_status_spans ! 2) = [4]" "Child (demo_status_spans ! 4) = [5]"
    by (simp_all add: demo_status_spans_def demo_span_def)
  have code: "readable demo_status_spans 3" "readable demo_status_spans 5"
    by (simp_all add: demo_status_spans_def demo_span_def demo_tags_def readable_def demo_codes)
  have blank: "\<not> readable demo_status_spans 1" "\<not> readable demo_status_spans 2" "\<not> readable demo_status_spans 4"
    using tags by (simp_all add: readable_def)
  have "shown demo_status_spans 1 j \<longleftrightarrow> j = 3"
    using shown_children [OF tags(2), of j] code child by auto
  moreover have "shown demo_status_spans 4 j \<longleftrightarrow> j = 5"
    using shown_children [OF tags(4), of j] code child by auto
  moreover have "shown demo_status_spans 2 j \<longleftrightarrow> shown demo_status_spans 4 j"
    using shown_below [OF tags(3), of j] blank child by simp
  ultimately show ?thesis using shown_below [OF tags(1), of j] blank child by simp
qed


end
