(* ===== verification/TraceLoader.thy ===== *)
theory TraceLoader
  imports TraceModel EventLog GoJson
begin

text \<open>
  \<open>tools/trace-plotter/loader.go\<close>: all spans are fetched from Elasticsearch, page by page. The
  client is a parameter: a request answers with a transport error, and then without a response,
  or with a response; what the JSON decoder makes of the body is a parameter too. A body is
  named by the number of its request; the deferred calls close the bodies when \<open>GetTraces\<close> ends,
  the last first.
\<close>

subsection \<open>The query\<close>

definition query :: json where
  "query = JObj [(''query'', JObj [(''bool'', JObj [(''must_not'', JObj [(''term'', JObj [(''name'', JStr ''probe'')])])])])]"

text \<open>\<open>Encode\<close> ends the text with a newline.\<close>

definition encode_json :: "json \<Rightarrow> string" where
  "encode_json v = marshal v @ [CHR 0x0A]"

subsection \<open>The client\<close>

record search_request =
  SearchIndex :: string
  SearchBody :: string
  SearchSort :: string
  SearchSize :: int
  SearchScroll :: int

record es_reply =
  IsError :: bool
  ReplyText :: string
  Body :: string

datatype es_event =
    Search search_request "go_error + es_reply"
  | Scroll string int "go_error + es_reply"
  | CloseBody nat

record es_client =
  es_search :: "es_event list \<Rightarrow> search_request \<Rightarrow> go_error + es_reply"
  es_scroll :: "es_event list \<Rightarrow> string \<Rightarrow> int \<Rightarrow> go_error + es_reply"
  decode_body :: "string \<Rightarrow> es_response \<times> go_error option"

record loader =
  Es :: es_client

definition NewLoader :: "es_client \<Rightarrow> loader" where
  "NewLoader client = \<lparr>Es = client\<rparr>"

definition zero_es_response :: es_response where
  "zero_es_response = \<lparr>RespHits = \<lparr>Total = \<lparr>TotalValue = 0, Relation = ''''\<rparr>, Hits = []\<rparr>, ScrollID = ''''\<rparr>"

text \<open>A minute in nanoseconds.\<close>

definition minute :: int where "minute = 60000000000"

subsection \<open>\<open>GetTraces\<close>\<close>

definition getEsResponse :: "loader \<Rightarrow> es_reply \<Rightarrow> es_response \<times> go_error option" where
  "getEsResponse l res =
     (if IsError res then (zero_es_response, Some (NewError (''Error Response '' @ ReplyText res)))
      else case decode_body (Es l) (Body res) of
             (r, Some err) \<Rightarrow> (r, Some err)
           | (r, None) \<Rightarrow> (r, None))"

definition add_hits :: "trace list \<Rightarrow> es_response \<Rightarrow> trace list" where
  "add_hits traces r = foldl (\<lambda>traces hit. traces @ [HitTrace hit]) traces (Hits (RespHits r))"

text \<open>The end of \<open>GetTraces\<close> after \<open>n\<close> responses.\<close>

primrec close_bodies :: "nat \<Rightarrow> (es_event, unit) logged" where
  "close_bodies 0 = State_Monad.return ()"
| "close_bodies (Suc n) = State_Monad.bind (record_event (CloseBody n)) (\<lambda>_. close_bodies n)"

definition leave :: "nat \<Rightarrow> trace list outcome \<Rightarrow> (es_event, trace list outcome option) logged" where
  "leave n r = State_Monad.bind (close_bodies n) (\<lambda>_. State_Monad.return (Some r))"

text \<open>The loop has no bound of its own: \<^term>\<open>None\<close> when the fuel is used up. After a transport error
  the deferred call dereferences the missing response. \<open>n\<close> counts the responses so far.\<close>

primrec scroll_loop :: "nat \<Rightarrow> loader \<Rightarrow> nat \<Rightarrow> string \<Rightarrow> trace list \<Rightarrow> (es_event, trace list outcome option) logged" where
  "scroll_loop 0 l n scrollID traces = State_Monad.return None"
| "scroll_loop (Suc fuel) l n scrollID traces =
     State_Monad.bind (perform (\<lambda>h. es_scroll (Es l) h scrollID minute) (Scroll scrollID minute)) (\<lambda>res.
       case res of
         Inl err \<Rightarrow> leave n (Panic nil_deref)
       | Inr res \<Rightarrow>
           (case getEsResponse l res of
              (r, Some err) \<Rightarrow> leave (Suc n) (Ret traces)
            | (r, None) \<Rightarrow>
                if length (Hits (RespHits r)) < 1 then leave (Suc n) (Ret traces)
                else scroll_loop fuel l (Suc n) (ScrollID r) (add_hits traces r)))"

definition search_of :: "int \<Rightarrow> search_request" where
  "search_of pageSize = \<lparr>SearchIndex = ''zipkin*'', SearchBody = encode_json query, SearchSort = ''_doc:desc'',
     SearchSize = pageSize, SearchScroll = minute\<rparr>"

definition GetTraces :: "nat \<Rightarrow> loader \<Rightarrow> int \<Rightarrow> trace list \<Rightarrow> (es_event, trace list outcome option) logged" where
  "GetTraces fuel l pageSize traces =
     State_Monad.bind (perform (\<lambda>h. es_search (Es l) h (search_of pageSize)) (Search (search_of pageSize))) (\<lambda>res.
       case res of
         Inl err \<Rightarrow> leave 0 (Panic nil_deref)
       | Inr res \<Rightarrow>
           (case getEsResponse l res of
              (r, Some err) \<Rightarrow> leave 1 (Ret traces)
            | (r, None) \<Rightarrow> scroll_loop fuel l 1 (ScrollID r) (add_hits traces r)))"

subsection \<open>Lemmas\<close>

lemma query_read_back: "parse_json (encode_json query) = Some query"
proof -
  have "printable query" by (simp add: query_def ascii_def)
  then have "tokens (marshal query @ [CHR 0x0A]) = map_option ((@) (toks query)) (tokens [CHR 0x0A])"
    unfolding marshal_def by (intro tokens_print(1)) (simp_all add: layout_ok_def no_number_def number_char_def not_digit)
  moreover have "tokens [CHR 0x0A] = Some []" using tokens_space [of "[CHR 0x0A]" "[]"] by (simp add: json_space_def)
  ultimately show ?thesis by (simp add: parse_json_iff encode_json_def)
qed

definition page_of :: "es_response \<Rightarrow> trace list" where
  "page_of r = map HitTrace (Hits (RespHits r))"

lemma add_hits_eq: "add_hits traces r = traces @ page_of r"
proof -
  have "foldl (\<lambda>ts hit. ts @ [HitTrace hit]) traces hs = traces @ map HitTrace hs" for hs
    by (induction hs arbitrary: traces) simp_all
  then show ?thesis by (simp add: add_hits_def page_of_def)
qed

definition closes :: "nat \<Rightarrow> es_event list" where
  "closes n = map CloseBody (rev [0..<n])"

lemma run_close_bodies: "run_state (close_bodies n) h = ((), h @ closes n)"
  by (induction n arbitrary: h) (simp_all add: closes_def run_state_bind)

lemma run_leave: "run_state (leave n r) h = (Some r, h @ closes n)"
  by (simp add: leave_def run_close_bodies run_state_bind)

subsection \<open>What is in the log\<close>

text \<open>The reply a request of the log got.\<close>

fun reply_of :: "es_event \<Rightarrow> (go_error + es_reply) option" where
  "reply_of (Search q r) = Some r"
| "reply_of (Scroll i t r) = Some r"
| "reply_of (CloseBody n) = None"

definition good_page :: "loader \<Rightarrow> es_event \<Rightarrow> trace list list" where
  "good_page l e =
     (case reply_of e of
        Some (Inr res) \<Rightarrow> (case getEsResponse l res of (r, None) \<Rightarrow> [page_of r] | (r, Some err) \<Rightarrow> [])
      | _ \<Rightarrow> [])"

definition good_pages :: "loader \<Rightarrow> es_event list \<Rightarrow> trace list list" where
  "good_pages l h = concat (map (good_page l) h)"

text \<open>A request that got no response at all, and one after which the loading ends.\<close>

definition no_response :: "es_event \<Rightarrow> bool" where
  "no_response e \<longleftrightarrow> (case reply_of e of Some (Inl err) \<Rightarrow> True | _ \<Rightarrow> False)"

definition ends_loading :: "loader \<Rightarrow> es_event \<Rightarrow> bool" where
  "ends_loading l e \<longleftrightarrow>
     (case reply_of e of Some (Inr res) \<Rightarrow> snd (getEsResponse l res) \<noteq> None \<or> page_of (fst (getEsResponse l res)) = [] | _ \<Rightarrow> False)"

text \<open>\<open>reqs\<close> explains a result: the pages of all replies up to the last, which ended the loading.\<close>

definition explains :: "loader \<Rightarrow> trace list \<Rightarrow> es_event list \<Rightarrow> trace list outcome \<Rightarrow> bool" where
  "explains l traces reqs r \<longleftrightarrow> reqs \<noteq> [] \<and>
     (case r of
        Ret ts \<Rightarrow> ts = traces @ concat (good_pages l reqs) \<and> ends_loading l (last reqs)
      | Panic e \<Rightarrow> e = nil_deref \<and> no_response (last reqs)
      | Fatal m \<Rightarrow> False)"

lemma explains_single:
  "explains l traces [Scroll i t (Inl err)] (Panic nil_deref)" "explains l traces [Search q (Inl err)] (Panic nil_deref)"
  "getEsResponse l res = (r, Some err) \<Longrightarrow> explains l traces [Scroll i t (Inr res)] (Ret traces)"
  "getEsResponse l res = (r, Some err) \<Longrightarrow> explains l traces [Search q (Inr res)] (Ret traces)"
  "\<lbrakk>getEsResponse l res = (r, None); Hits (RespHits r) = []\<rbrakk> \<Longrightarrow> explains l traces [Scroll i t (Inr res)] (Ret traces)"
  by (simp_all add: explains_def good_pages_def good_page_def ends_loading_def no_response_def page_of_def)

lemma explains_Cons:
  assumes "explains l (add_hits traces r) reqs out" and "good_page l e = [page_of r]"
  shows "explains l traces (e # reqs) out"
  using assms by (auto simp: explains_def good_pages_def add_hits_eq split: outcome.split)

lemma good_page_simps:
  "getEsResponse l res = (r, None) \<Longrightarrow> good_page l (Scroll i t (Inr res)) = [page_of r]"
  "getEsResponse l res = (r, None) \<Longrightarrow> good_page l (Search q (Inr res)) = [page_of r]"
  by (simp_all add: good_page_def)

definition responses :: "es_event list \<Rightarrow> nat" where
  "responses reqs = length (filter (\<lambda>e. \<not> no_response e) reqs)"

lemma responses_simps [simp]:
  "responses [] = 0" "responses (Search q (Inr res) # reqs) = Suc (responses reqs)"
  "responses (Scroll i t (Inr res) # reqs) = Suc (responses reqs)"
  "responses (Search q (Inl err) # reqs) = responses reqs" "responses (Scroll i t (Inl err) # reqs) = responses reqs"
  by (simp_all add: responses_def no_response_def)

lemma scroll_loop_emits:
  "emits (scroll_loop fuel l n sid traces) (\<lambda>r new. \<exists>reqs. (\<forall>e\<in>set reqs. reply_of e \<noteq> None) \<and>
     (case r of None \<Rightarrow> new = reqs | Some out \<Rightarrow> new = reqs @ closes (n + responses reqs) \<and> explains l traces reqs out))"
proof (induction fuel arbitrary: n sid traces)
  case 0
  show ?case by (simp add: emits_return)
next
  case (Suc fuel)
  show ?case
  proof (rule emitsI)
    fix h
    let ?e = "\<lambda>res. Scroll sid minute res"
    define ans where "ans = es_scroll (Es l) h sid minute"
    let ?run = "run_state (scroll_loop (Suc fuel) l n sid traces) h"
    show "\<exists>new. snd ?run = h @ new \<and> (\<exists>reqs. (\<forall>e\<in>set reqs. reply_of e \<noteq> None) \<and>
        (case fst ?run of None \<Rightarrow> new = reqs | Some out \<Rightarrow> new = reqs @ closes (n + responses reqs) \<and> explains l traces reqs out))"
    proof (cases ans)
      case (Inl err)
      then have "?run = (Some (Panic nil_deref), (h @ [?e (Inl err)]) @ closes n)"
        by (simp add: run_state_bind run_leave ans_def)
      then show ?thesis
        by (intro exI [of _ "[?e (Inl err)] @ closes n"] conjI exI [of _ "[?e (Inl err)]"]) (simp_all add: explains_single)
    next
      case (Inr res)
      obtain r e where r: "getEsResponse l res = (r, e)" by (cases "getEsResponse l res")
      show ?thesis
      proof (cases "e \<noteq> None \<or> Hits (RespHits r) = []")
        case True
        then have "?run = (Some (Ret traces), (h @ [?e (Inr res)]) @ closes (Suc n))"
          using r Inr by (cases e) (auto simp: run_state_bind run_leave ans_def [symmetric])
        moreover have "explains l traces [?e (Inr res)] (Ret traces)"
          using True r explains_single(3,5) by (cases e) auto
        ultimately show ?thesis
          by (intro exI [of _ "[?e (Inr res)] @ closes (Suc n)"] conjI exI [of _ "[?e (Inr res)]"]) simp_all
      next
        case False
        then have r: "getEsResponse l res = (r, None)" using r by simp
        obtain out new where rec: "run_state (scroll_loop fuel l (Suc n) (ScrollID r) (add_hits traces r)) (h @ [?e (Inr res)]) =
            (out, (h @ [?e (Inr res)]) @ new)"
          "\<exists>reqs. (\<forall>e\<in>set reqs. reply_of e \<noteq> None) \<and> (case out of None \<Rightarrow> new = reqs
            | Some o' \<Rightarrow> new = reqs @ closes (Suc n + responses reqs) \<and> explains l (add_hits traces r) reqs o')"
          using Suc.IH [of "Suc n" "ScrollID r" "add_hits traces r"] by (rule emits_run)
        from rec(2) obtain reqs where reqs: "\<forall>e\<in>set reqs. reply_of e \<noteq> None"
          "case out of None \<Rightarrow> new = reqs
            | Some o' \<Rightarrow> new = reqs @ closes (Suc n + responses reqs) \<and> explains l (add_hits traces r) reqs o'" by blast
        have run: "?run = (out, h @ ?e (Inr res) # new)"
          using rec(1) r Inr False by (simp add: run_state_bind ans_def [symmetric])
        show ?thesis
          by (intro exI [of _ "?e (Inr res) # new"] conjI exI [of _ "?e (Inr res) # reqs"])
            (use run reqs explains_Cons [OF _ good_page_simps(1) [OF r]] in \<open>auto split: option.splits\<close>)
      qed
    qed
  qed
qed

lemma GetTraces_explained:
  "\<exists>r reqs. (\<forall>e\<in>set reqs. reply_of e \<noteq> None) \<and> (case r of
      None \<Rightarrow> run_state (GetTraces fuel l pageSize traces) h = (r, h @ reqs)
    | Some out \<Rightarrow> run_state (GetTraces fuel l pageSize traces) h = (r, h @ reqs @ closes (responses reqs)) \<and> explains l traces reqs out)"
proof -
  let ?q = "search_of pageSize"
  let ?run = "run_state (GetTraces fuel l pageSize traces) h"
  define ans where "ans = es_search (Es l) h ?q"
  show ?thesis
  proof (cases ans)
    case (Inl err)
    then show ?thesis
      by (intro exI [of _ "Some (Panic nil_deref)"] exI [of _ "[Search ?q (Inl err)]"])
        (simp add: GetTraces_def run_state_bind run_leave ans_def [symmetric] explains_single)
  next
    case (Inr res)
    obtain r e where r: "getEsResponse l res = (r, e)" by (cases "getEsResponse l res")
    show ?thesis
    proof (cases e)
      case (Some err)
      then show ?thesis
        using r Inr explains_single(4) by (intro exI [of _ "Some (Ret traces)"] exI [of _ "[Search ?q (Inr res)]"])
          (simp add: GetTraces_def run_state_bind run_leave ans_def [symmetric])
    next
      case None
      then have r: "getEsResponse l res = (r, None)" using r by simp
      obtain out new where rec: "run_state (scroll_loop fuel l 1 (ScrollID r) (add_hits traces r)) (h @ [Search ?q (Inr res)]) =
          (out, (h @ [Search ?q (Inr res)]) @ new)"
        "\<exists>reqs. (\<forall>e\<in>set reqs. reply_of e \<noteq> None) \<and> (case out of None \<Rightarrow> new = reqs
          | Some o' \<Rightarrow> new = reqs @ closes (1 + responses reqs) \<and> explains l (add_hits traces r) reqs o')"
        using scroll_loop_emits [of fuel l 1 "ScrollID r" "add_hits traces r"] by (rule emits_run)
      from rec(2) obtain reqs where reqs: "\<forall>e\<in>set reqs. reply_of e \<noteq> None"
        "case out of None \<Rightarrow> new = reqs
          | Some o' \<Rightarrow> new = reqs @ closes (1 + responses reqs) \<and> explains l (add_hits traces r) reqs o'" by blast
      have run: "?run = (out, h @ Search ?q (Inr res) # new)"
        using rec(1) r Inr by (simp add: GetTraces_def run_state_bind ans_def [symmetric])
      show ?thesis
        by (intro exI [of _ out] exI [of _ "Search ?q (Inr res) # reqs"])
          (use run reqs explains_Cons [OF _ good_page_simps(2) [OF r]] in \<open>auto split: option.splits\<close>)
    qed
  qed
qed

subsection \<open>Properties\<close>

text \<open>
  Property C24: whatever Elasticsearch answers, \<open>GetTraces\<close> neither loses nor invents a span of the
  pages it was given: what it returns is what it had, followed by the hits of all pages in order;
  every body is closed at the end, the last first. It ends at an empty page and, without telling
  its caller, at the first response that is an error or does not decode; a request without a
  response makes it panic.
\<close>

theorem GetTraces_sound:
  "\<exists>r reqs. fst (run_state (GetTraces fuel l pageSize traces) h) = r \<and> list_all (\<lambda>e. reply_of e \<noteq> None) reqs \<and>
     (case r of
        None \<Rightarrow> snd (run_state (GetTraces fuel l pageSize traces) h) = h @ reqs
      | Some (Ret ts) \<Rightarrow> ts = traces @ concat (good_pages l reqs) \<and> reqs \<noteq> [] \<and> ends_loading l (last reqs) \<and>
          snd (run_state (GetTraces fuel l pageSize traces) h) = h @ reqs @ closes (responses reqs)
      | Some (Panic e) \<Rightarrow> e = nil_deref \<and> reqs \<noteq> [] \<and> no_response (last reqs) \<and>
          snd (run_state (GetTraces fuel l pageSize traces) h) = h @ reqs @ closes (responses reqs)
      | Some (Fatal m) \<Rightarrow> False)"
proof -
  let ?run = "run_state (GetTraces fuel l pageSize traces) h"
  obtain r reqs where "\<forall>e\<in>set reqs. reply_of e \<noteq> None" "case r of None \<Rightarrow> ?run = (r, h @ reqs)
      | Some out \<Rightarrow> ?run = (r, h @ reqs @ closes (responses reqs)) \<and> explains l traces reqs out"
    using GetTraces_explained [of fuel l pageSize traces h] by blast
  then show ?thesis
    by (intro exI [of _ r] exI [of _ reqs]) (auto simp: explains_def list_all_iff split: option.splits outcome.splits)
qed

text \<open>The documented behaviour of a scroll: the search answers with the first page, and a request
  with the scroll id of a page with the next.\<close>

definition requests :: "es_event list \<Rightarrow> nat" where
  "requests h = length (filter (\<lambda>e. reply_of e \<noteq> None) h)"

definition serves_pages :: "loader \<Rightarrow> es_response list \<Rightarrow> bool" where
  "serves_pages l rs \<longleftrightarrow>
     (\<forall>h q. requests h = 0 \<longrightarrow> (\<exists>res. es_search (Es l) h q = Inr res \<and> getEsResponse l res = (rs ! 0, None))) \<and>
     (\<forall>h k t. requests h = Suc k \<and> Suc k < length rs \<longrightarrow>
        (\<exists>res. es_scroll (Es l) h (ScrollID (rs ! k)) t = Inr res \<and> getEsResponse l res = (rs ! Suc k, None)))"

fun scroll_ids :: "es_event list \<Rightarrow> string list" where
  "scroll_ids (Scroll i t r # h) = i # scroll_ids h"
| "scroll_ids (e # h) = scroll_ids h"
| "scroll_ids [] = []"

lemma scroll_ids_closes [simp]: "scroll_ids (closes n) = []"
proof -
  have "scroll_ids (map CloseBody xs) = []" for xs by (induction xs) simp_all
  then show ?thesis by (simp add: closes_def)
qed

lemma requests_simps [simp]:
  "requests [] = 0" "requests (h @ g) = requests h + requests g"
  "requests [Scroll i t r] = 1" "requests [Search q r] = 1"
  by (simp_all add: requests_def)

lemma drop_eq_Cons:
  assumes "drop m xs = y # ys"
  shows "m < length xs" "xs ! m = y" "drop (Suc m) xs = ys"
proof -
  show m: "m < length xs" using assms by (cases "m < length xs") simp_all
  from Cons_nth_drop_Suc [OF m] assms show "xs ! m = y" "drop (Suc m) xs = ys" by simp_all
qed

lemma scroll_loop_pages:
  assumes "serves_pages l rs" and "page_of last_page = []"
  shows "\<lbrakk>requests h = Suc k; drop (Suc k) rs = ps @ [last_page]; \<forall>p\<in>set ps. page_of p \<noteq> []; length ps < fuel\<rbrakk> \<Longrightarrow>
    \<exists>new. run_state (scroll_loop fuel l n (ScrollID (rs ! k)) traces) h =
        (Some (Ret (traces @ concat (map page_of ps))), h @ new) \<and>
      scroll_ids new = map ScrollID (rs ! k # ps)"
proof (induction ps arbitrary: h k fuel n traces)
  case Nil
  then obtain f where f: "fuel = Suc f" by (cases fuel) simp_all
  have k: "Suc k < length rs" "rs ! Suc k = last_page"
    using drop_eq_Cons [of "Suc k" rs last_page "[]"] Nil.prems(2) by simp_all
  obtain res where "es_scroll (Es l) h (ScrollID (rs ! k)) minute = Inr res" "getEsResponse l res = (last_page, None)"
    using assms(1) Nil.prems(1) k unfolding serves_pages_def by metis
  then show ?case
    using assms(2) by (simp add: f run_state_bind run_leave page_of_def)
next
  case (Cons p ps)
  then obtain f where f: "fuel = Suc f" by (cases fuel) simp_all
  have k: "Suc k < length rs" "rs ! Suc k = p" "drop (Suc (Suc k)) rs = ps @ [last_page]"
    using drop_eq_Cons [of "Suc k" rs p "ps @ [last_page]"] Cons.prems(2) by simp_all
  obtain res where res: "es_scroll (Es l) h (ScrollID (rs ! k)) minute = Inr res" "getEsResponse l res = (p, None)"
    using assms(1) Cons.prems(1) k unfolding serves_pages_def by metis
  let ?h = "h @ [Scroll (ScrollID (rs ! k)) minute (Inr res)]"
  have "\<exists>new. run_state (scroll_loop f l (Suc n) (ScrollID (rs ! Suc k)) (add_hits traces p)) ?h =
        (Some (Ret (add_hits traces p @ concat (map page_of ps))), ?h @ new) \<and>
      scroll_ids new = map ScrollID (rs ! Suc k # ps)"
    by (rule Cons.IH) (use Cons.prems k f in simp_all)
  moreover have "Hits (RespHits p) \<noteq> []" using Cons.prems(3) by (auto simp: page_of_def)
  ultimately show ?case
    using res k(2) by (auto simp: f run_state_bind add_hits_eq)
qed

lemma GetTraces_pages:
  assumes "serves_pages l (first # pages @ [last_page])" and "page_of last_page = []"
    and "\<forall>p\<in>set pages. page_of p \<noteq> []" and "length pages < fuel"
  shows "\<exists>log. run_state (GetTraces fuel l pageSize traces) [] =
      (Some (Ret (traces @ concat (map page_of (first # pages)))), log) \<and>
    scroll_ids log = map ScrollID (first # pages) \<and>
    (\<exists>res. hd log = Search (search_of pageSize) (Inr res))"
proof -
  let ?rs = "first # pages @ [last_page]"
  obtain res where res: "es_search (Es l) [] (search_of pageSize) = Inr res" "getEsResponse l res = (first, None)"
    using assms(1) unfolding serves_pages_def by (metis nth_Cons_0 requests_simps(1))
  let ?h = "[Search (search_of pageSize) (Inr res)]"
  have "\<exists>new. run_state (scroll_loop fuel l 1 (ScrollID (?rs ! 0)) (add_hits traces first)) ?h =
      (Some (Ret (add_hits traces first @ concat (map page_of pages))), ?h @ new) \<and>
    scroll_ids new = map ScrollID (?rs ! 0 # pages)"
    by (rule scroll_loop_pages [OF assms(1,2)]) (use assms(3,4) in simp_all)
  then show ?thesis
    using res by (auto simp: GetTraces_def run_state_bind add_hits_eq)
qed

text \<open>
  Property C11: on a server whose scroll behaves as documented, \<open>GetTraces\<close> returns with every
  span of every page, once and in order, after one search and one scroll per page, each with the
  scroll id of the page before.
\<close>

theorem GetTraces_complete:
  assumes "serves_pages l (first # pages @ [last_page])" and "page_of last_page = []"
    and "\<forall>p\<in>set pages. page_of p \<noteq> []" and "length pages < fuel"
  shows "\<exists>log. run_state (GetTraces fuel l pageSize traces) [] =
      (Some (Ret (traces @ concat (map page_of (first # pages)))), log) \<and>
    scroll_ids log = map ScrollID (first # pages) \<and>
    (\<exists>res. hd log = Search (search_of pageSize) (Inr res))"
  by (rule GetTraces_pages [OF assms])

definition demo_page :: "string \<Rightarrow> trace list \<Rightarrow> es_response" where
  "demo_page i ts = \<lparr>RespHits = \<lparr>Total = \<lparr>TotalValue = 0, Relation = ''eq''\<rparr>,
     Hits = map (\<lambda>t. \<lparr>Index = ''zipkin'', HitType = ''_doc'', HitID = ''0'', HitTrace = t\<rparr>) ts\<rparr>, ScrollID = i\<rparr>"

definition demo_loader :: loader where
  "demo_loader = NewLoader
     \<lparr>es_search = \<lambda>h q. Inr \<lparr>IsError = False, ReplyText = '''', Body = ''first''\<rparr>,
      es_scroll = \<lambda>h i t. Inr \<lparr>IsError = False, ReplyText = '''', Body = i\<rparr>,
      decode_body = \<lambda>b. (if b = ''first'' then demo_page ''s1'' [demo_span ''a'' '''' 9, demo_span ''b'' ''a'' 4]
        else if b = ''s1'' then demo_page ''s2'' [demo_span ''c'' ''a'' 3] else demo_page ''s3'' [], None)\<rparr>"

lemma demo_serves:
  "serves_pages demo_loader (demo_page ''s1'' [demo_span ''a'' '''' 9, demo_span ''b'' ''a'' 4] #
     [demo_page ''s2'' [demo_span ''c'' ''a'' 3]] @ [demo_page ''s3'' []])"
  unfolding serves_pages_def
  by (auto simp: demo_loader_def NewLoader_def getEsResponse_def demo_page_def less_Suc_eq nth_Cons')

lemma page_of_demo [simp]: "page_of (demo_page i ts) = ts"
  by (simp add: page_of_def demo_page_def comp_def)

theorem GetTraces_complete_witness:
  "\<exists>log. run_state (GetTraces 2 demo_loader 100 []) [] =
      (Some (Ret [demo_span ''a'' '''' 9, demo_span ''b'' ''a'' 4, demo_span ''c'' ''a'' 3]), log) \<and>
    scroll_ids log = [''s1'', ''s2'']"
proof -
  have "page_of (demo_page ''s3'' []) = []" "\<forall>p\<in>set [demo_page ''s2'' [demo_span ''c'' ''a'' 3]]. page_of p \<noteq> []" by simp_all
  from GetTraces_complete [OF demo_serves this, of 2 100 "[]"] show ?thesis
    by (auto simp: demo_page_def comp_def page_of_def)
qed

end
