(* ===== verification/GoFloatMono.thy ===== *)
theory GoFloatMono
  imports GoFloat
begin

text \<open>
  Rounding to \<open>float64\<close> is monotone, so converting a sorted list of integers keeps it sorted.
\<close>

lemma pow2_powi: "pow2 e = 2 powi e"
proof (cases "0 \<le> e")
  case False
  then have "(2 :: rat) powi e = inverse 2 ^ nat (- e)" by (simp add: power_int_def)
  also have "\<dots> = 1 / 2 ^ nat (- e)" by (simp add: power_one_over inverse_eq_divide)
  finally show ?thesis using False by (simp add: pow2_def)
qed (simp add: pow2_def power_int_def)

lemma pow2_pos [simp]: "0 < pow2 e"
  by (simp add: pow2_powi)

lemma pow2_add: "pow2 (a + b) = pow2 a * pow2 b"
  by (simp add: pow2_powi power_int_add)

lemma pow2_diff: "pow2 (a - b) = pow2 a / pow2 b"
  by (simp add: pow2_powi power_int_diff)

lemma pow2_le: "a \<le> b \<Longrightarrow> pow2 a \<le> pow2 b"
  by (simp add: pow2_powi power_int_increasing)

lemma pow2_less: "a < b \<Longrightarrow> pow2 a < pow2 b"
  by (simp add: pow2_powi power_int_strict_increasing)

lemma pow2_less_iff: "pow2 a < pow2 b \<Longrightarrow> a < b"
  using pow2_le [of b a] by (meson not_le)

lemma pow2_nat: "0 \<le> e \<Longrightarrow> pow2 e = 2 ^ nat e"
  by (simp add: pow2_def)

subsection \<open>Rounding to an integer\<close>

lemma round_half_even_of_int [simp]: "round_half_even (of_int n) = n"
  by (simp add: round_half_even_def)

lemma round_half_even_bounds: "\<lfloor>x\<rfloor> \<le> round_half_even x" "round_half_even x \<le> \<lfloor>x\<rfloor> + 1"
  by (simp_all add: round_half_even_def Let_def)

lemma round_half_even_mono:
  assumes "x \<le> y"
  shows "round_half_even x \<le> round_half_even y"
proof (cases "\<lfloor>x\<rfloor> = \<lfloor>y\<rfloor>")
  case True
  then show ?thesis using assms by (auto simp: round_half_even_def Let_def)
next
  case False
  then have "\<lfloor>x\<rfloor> + 1 \<le> \<lfloor>y\<rfloor>" using floor_mono [OF assms] by linarith
  then show ?thesis using round_half_even_bounds(2) [of x] round_half_even_bounds(1) [of y] by linarith
qed

lemma round_half_even_ge: "of_int n \<le> x \<Longrightarrow> n \<le> round_half_even x"
  using round_half_even_mono [of "of_int n" x] by simp

lemma round_half_even_le: "x \<le> of_int n \<Longrightarrow> round_half_even x \<le> n"
  using round_half_even_mono [of x "of_int n"] by simp

subsection \<open>The exponent\<close>

definition fl_binade :: "rat \<Rightarrow> int" where
  "fl_binade x = (let (p, q) = quotient_of x; k = bitlen p - bitlen q in if pow2 k \<le> x then k - 52 else k - 53)"

lemma fl_exponent_binade: "fl_exponent x = max (- 1074) (fl_binade x)"
  by (simp add: fl_exponent_def fl_binade_def Let_def split: prod.split)

lemma bitlen_pow2_bounds:
  assumes "0 < n"
  shows "pow2 (bitlen n - 1) \<le> of_int n" "of_int n < pow2 (bitlen n)"
proof -
  have b: "1 \<le> bitlen n" using assms bitlen_eq_zero_iff [of n] bitlen_nonneg [of n] by linarith
  have "(2 :: int) ^ nat (bitlen n - 1) \<le> n \<and> n < 2 ^ nat (bitlen n)" by (rule bitlen_bounds [OF assms])
  then have "(of_int (2 ^ nat (bitlen n - 1)) :: rat) \<le> of_int n" "(of_int n :: rat) < of_int (2 ^ nat (bitlen n))"
    unfolding of_int_le_iff of_int_less_iff by blast+
  then show "pow2 (bitlen n - 1) \<le> of_int n" "of_int n < pow2 (bitlen n)"
    using b by (simp_all add: pow2_nat)
qed

lemma fl_binade_bounds:
  assumes "0 < x"
  shows "pow2 (fl_binade x + 52) \<le> x" "x < pow2 (fl_binade x + 53)"
proof -
  obtain p q where pq: "quotient_of x = (p, q)" by (cases "quotient_of x")
  then have q: "0 < q" and x: "x = of_int p / of_int q"
    using quotient_of_denom_pos quotient_of_div by blast+
  then have p: "0 < p" using assms by (simp add: zero_less_divide_iff)
  let ?k = "bitlen p - bitlen q"
  note bp = bitlen_pow2_bounds [OF p] and bq = bitlen_pow2_bounds [OF q]
  have "pow2 (?k - 1) = pow2 (bitlen p - 1) / pow2 (bitlen q)"
    by (simp flip: pow2_diff add: algebra_simps)
  also have "\<dots> \<le> of_int p / of_int q"
    using bp bq p q by (intro frac_le) simp_all
  finally have lo: "pow2 (?k - 1) \<le> x" by (simp add: x)
  have "of_int p / of_int q < pow2 (bitlen p) / pow2 (bitlen q - 1)"
    using bp bq p q by (intro frac_less) simp_all
  also have "\<dots> = pow2 (?k + 1)"
    by (simp flip: pow2_diff add: algebra_simps)
  finally have hi: "x < pow2 (?k + 1)" by (simp add: x)
  show "pow2 (fl_binade x + 52) \<le> x" "x < pow2 (fl_binade x + 53)"
    using lo hi by (auto simp: fl_binade_def pq Let_def add.commute)
qed

subsection \<open>Monotonicity\<close>

definition fl_pos :: "rat \<Rightarrow> rat" where
  "fl_pos x = of_int (round_half_even (x / pow2 (fl_exponent x))) * pow2 (fl_exponent x)"

lemma fl_round_pos: "0 < x \<Longrightarrow> fl_round x = fl_pos x"
  by (simp add: fl_round_def fl_pos_def Let_def)

lemma fl_round_minus: "fl_round (- x) = - fl_round x"
  by (simp add: fl_round_def Let_def)

lemma fl_pos_nonneg: "0 < x \<Longrightarrow> 0 \<le> fl_pos x"
  using round_half_even_ge [of 0 "x / pow2 (fl_exponent x)"] by (simp add: fl_pos_def less_imp_le)

lemma fl_pos_upper:
  assumes "0 < x" and "x \<le> pow2 (fl_exponent x + 53)"
  shows "fl_pos x \<le> pow2 (fl_exponent x + 53)"
proof -
  have "x / pow2 (fl_exponent x) \<le> of_int (2 ^ 53)"
    using assms(2) by (simp add: pos_divide_le_eq pow2_add pow2_nat mult.commute)
  then have "round_half_even (x / pow2 (fl_exponent x)) \<le> 2 ^ 53" by (rule round_half_even_le)
  then have "(of_int (round_half_even (x / pow2 (fl_exponent x))) :: rat) \<le> of_int (2 ^ 53)" unfolding of_int_le_iff .
  then have "fl_pos x \<le> of_int (2 ^ 53) * pow2 (fl_exponent x)"
    unfolding fl_pos_def by (rule mult_right_mono) (simp add: less_imp_le)
  then show ?thesis by (simp add: pow2_add pow2_nat mult.commute)
qed

lemma fl_pos_lower:
  assumes "0 < x" and "pow2 (fl_exponent x + 52) \<le> x"
  shows "pow2 (fl_exponent x + 52) \<le> fl_pos x"
proof -
  have "of_int (2 ^ 52) \<le> x / pow2 (fl_exponent x)"
    using assms(2) by (simp add: pos_le_divide_eq pow2_add pow2_nat mult.commute)
  then have "2 ^ 52 \<le> round_half_even (x / pow2 (fl_exponent x))" by (rule round_half_even_ge)
  then have "(of_int (2 ^ 52) :: rat) \<le> of_int (round_half_even (x / pow2 (fl_exponent x)))" unfolding of_int_le_iff .
  then have "of_int (2 ^ 52) * pow2 (fl_exponent x) \<le> fl_pos x"
    unfolding fl_pos_def by (rule mult_right_mono) (simp add: less_imp_le)
  then show ?thesis by (simp add: pow2_add pow2_nat mult.commute)
qed

lemma fl_pos_mono:
  assumes "0 < x" and "x \<le> y"
  shows "fl_pos x \<le> fl_pos y"
proof -
  have y: "0 < y" using assms by simp
  note bx = fl_binade_bounds [OF assms(1)] and "by" = fl_binade_bounds [OF y]
  have top: "x < pow2 (fl_exponent x + 53)" "y < pow2 (fl_exponent y + 53)"
    using bx(2) "by"(2) pow2_le [of "fl_binade x + 53" "fl_exponent x + 53"] pow2_le [of "fl_binade y + 53" "fl_exponent y + 53"]
    by (simp_all add: fl_exponent_binade)
  consider "fl_exponent x = fl_exponent y" | "fl_exponent x < fl_exponent y" | "fl_exponent y < fl_exponent x"
    by linarith
  then show ?thesis
  proof cases
    case 1
    have "round_half_even (x / pow2 (fl_exponent x)) \<le> round_half_even (y / pow2 (fl_exponent y))"
      unfolding 1 by (rule round_half_even_mono) (simp add: divide_right_mono assms(2) less_imp_le)
    then have "(of_int (round_half_even (x / pow2 (fl_exponent x))) :: rat) \<le> of_int (round_half_even (y / pow2 (fl_exponent y)))"
      unfolding of_int_le_iff .
    then show ?thesis unfolding fl_pos_def 1 by (rule mult_right_mono) (simp add: less_imp_le)
  next
    case 2
    then have "fl_exponent y = fl_binade y" by (auto simp: fl_exponent_binade)
    then have "pow2 (fl_exponent y + 52) \<le> fl_pos y" using "by"(1) by (intro fl_pos_lower [OF y]) simp
    moreover have "fl_pos x \<le> pow2 (fl_exponent x + 53)" using top(1) by (intro fl_pos_upper [OF assms(1)]) simp
    moreover have "pow2 (fl_exponent x + 53) \<le> pow2 (fl_exponent y + 52)" using 2 by (intro pow2_le) simp
    ultimately show ?thesis by linarith
  next
    case 3
    then have "fl_exponent x = fl_binade x" by (auto simp: fl_exponent_binade)
    then have "pow2 (fl_exponent x + 52) < pow2 (fl_exponent y + 53)" using bx(1) assms(2) top(2) by simp
    then show ?thesis using 3 pow2_less_iff by fastforce
  qed
qed

lemma fl_round_nonneg: "0 \<le> x \<Longrightarrow> 0 \<le> fl_round x"
  using fl_pos_nonneg [of x] fl_round_pos [of x] by (cases "x = 0") (simp_all add: fl_round_def)

lemma fl_round_mono:
  assumes "x \<le> y"
  shows "fl_round x \<le> fl_round y"
proof -
  consider "0 < x" | "x \<le> 0" "0 \<le> y" | "y < 0" by linarith
  then show ?thesis
  proof cases
    case 1
    then show ?thesis using assms by (simp add: fl_round_pos fl_pos_mono)
  next
    case 2
    then have "0 \<le> fl_round (- x)" "0 \<le> fl_round y" by (simp_all add: fl_round_nonneg)
    then show ?thesis by (simp add: fl_round_minus)
  next
    case 3
    then have "fl_pos (- y) \<le> fl_pos (- x)" using assms by (intro fl_pos_mono) simp_all
    then have "fl_round (- y) \<le> fl_round (- x)" using 3 assms by (simp add: fl_round_pos)
    then show ?thesis by (simp add: fl_round_minus)
  qed
qed

end
