(* ===== verification/TracePlot.thy ===== *)
theory TracePlot
  imports TraceModel GoFloatMono EventLog
begin

text \<open>
  The plot of \<open>tools/trace-plotter\<close> (\<open>plot.go\<close>, \<open>plotChart\<close> of \<open>main.go\<close>): a scatter chart of the
  latencies and their empirical distribution, with percentiles as marks. The statistics package is
  a parameter; its \<open>Quantile\<close> and \<open>CDF\<close> panic on data that is not sorted. A chart is the data handed
  to the chart package, which draws it.
\<close>

subsection \<open>Percentiles\<close>

record statistics =
  stat_mean :: "rat list \<Rightarrow> rat"
  stat_quantile :: "rat \<Rightarrow> rat list \<Rightarrow> rat outcome"
  stat_cdf :: "rat \<Rightarrow> rat list \<Rightarrow> rat outcome"

definition getPercentiles :: "statistics \<Rightarrow> rat list \<Rightarrow> (string \<times> rat) list outcome" where
  "getPercentiles stat durations =
     (if length durations = 0 then Ret [(''Mean'', 0), (''Median'', 0), (''90th'', 0), (''99th'', 0)]
      else let mean = stat_mean stat durations
           in out_bind (stat_quantile stat (fl_round (1 / 2)) durations) (\<lambda>median.
              out_bind (stat_quantile stat (fl_round (9 / 10)) durations) (\<lambda>p90th.
              out_bind (stat_quantile stat (fl_round (99 / 100)) durations) (\<lambda>p99th.
              Ret [(''Mean'', mean), (''Median'', median), (''90th'', p90th), (''99th'', p99th)]))))"

subsection \<open>The chart\<close>

record scatter_data =
  SdName :: string
  SdValue :: "rat \<times> rat"
  SdSymbol :: string
  SymbolSize :: nat
  SymbolRotate :: int

record mark_line_style =
  MarkSymbol :: "string list"
  MarkSymbolSize :: nat
  LabelShow :: bool
  LabelColor :: string
  LabelFormatter :: string

record series =
  SeriesName :: string
  SeriesData :: "scatter_data list"
  ItemColor :: string
  MarkLines :: "(string \<times> rat) list"
  MarkStyle :: "mark_line_style option"
record axis =
  AxisName :: string
  AxisType :: string

record tooltip =
  TipShow :: bool
  TipTrigger :: string
  TriggerOn :: string
  Formatter :: string

record save_as_image =
  SaveShow :: bool
  SaveType :: string
  SaveTitle :: string

record data_zoom =
  ZoomShow :: bool
  ZoomTitle :: "(string \<times> string) list"

record data_view =
  ViewShow :: bool
  ViewTitle :: string
  ViewLang :: "string list"

record toolbox =
  ToolboxShow :: bool
  Orient :: string
  LeftPos :: string
  SaveAsImage :: save_as_image
  DataZoom :: data_zoom
  DataView :: data_view

record chart =
  PageTitle :: string
  ChartTitle :: string
  XAxis :: axis
  YAxis :: axis
  Tooltip :: tooltip
  Toolbox :: toolbox
  ShowLegend :: bool
  Series :: "series list"

text \<open>The JavaScript of the tooltip, written with a tilde for a single and a caret for a double
  quotation mark.\<close>

definition js :: "string \<Rightarrow> string" where
  "js s = map (\<lambda>c. if c = CHR ''~'' then CHR 0x27 else if c = CHR 0x5E then CHR 0x22 else c) s"

definition tabs :: "nat \<Rightarrow> string" where
  "tabs n = CHR 0x0A # replicate n (CHR 0x09)"

definition tooltip_formatter :: "string \<Rightarrow> string" where
  "tooltip_formatter zipkinURL =
     tabs 1 @ ''function (info) {'' @ tabs 2 @ ''var item = info[0];'' @ tabs 2 @ ''var traceId = item.name;'' @
     tabs 2 @ js ''var zipkinURL = ~'' @ zipkinURL @ js ''/zipkin/traces/~ + traceId;'' @
     tabs 2 @ js ''return ~Latency : ~ + item.value[0] + ~ (us)~ + ~<br>~ + ~CDF : ~ + item.value[1] + ~<br>~ + ~Go To : <a href=^~ + zipkinURL + ~^>~ + ~zipkin~ + ~</a>~;'' @
     tabs 1 @ ''}'' @ tabs 1"

text \<open>One point: a trace without a status code, or with one above 300, is an error. \<^term>\<open>None\<close> stands
  for a status code that is never found.\<close>

definition plot_item ::
  "statistics \<Rightarrow> trace list \<Rightarrow> rat list \<Rightarrow> (scatter_data list \<times> scatter_data list) outcome option \<Rightarrow> nat \<times> nat \<Rightarrow>
   (scatter_data list \<times> scatter_data list) outcome option"
where
  "plot_item stat ts durations acc it =
     (case acc of
        None \<Rightarrow> None
      | Some (Ret (successItems, errorItems)) \<Rightarrow>
          (case GetHTTPStatusCode (length ts) ts (snd it) of
             None \<Rightarrow> None
           | Some (resp, err) \<Rightarrow>
               Some (if fst it \<ge> length durations then Panic index_out_of_range
                 else out_bind (stat_cdf stat (durations ! fst it) durations) (\<lambda>cdf.
                   let item = \<lparr>SdName = TraceID (ts ! snd it), SdValue = (durations ! fst it, cdf),
                                SdSymbol = ''roundRect'', SymbolSize = 10, SymbolRotate = 0\<rparr>
                   in Ret (if err \<noteq> None \<or> resp > 300 then (successItems, errorItems @ [item])
                           else (successItems @ [item], errorItems)))))
      | Some r \<Rightarrow> Some r)"

definition plot_items ::
  "statistics \<Rightarrow> trace list \<Rightarrow> rat list \<Rightarrow> nat list \<Rightarrow> (scatter_data list \<times> scatter_data list) outcome option"
where
  "plot_items stat ts durations traces = foldl (plot_item stat ts durations) (Some (Ret ([], []))) (enumerate 0 traces)"

definition plot_toolbox :: toolbox where
  "plot_toolbox = \<lparr>ToolboxShow = True, Orient = ''horizontal'', LeftPos = ''80%'',
     SaveAsImage = \<lparr>SaveShow = True, SaveType = ''svg'', SaveTitle = ''Save''\<rparr>,
     DataZoom = \<lparr>ZoomShow = True, ZoomTitle = [(''zoom'', ''Data Zoom''), (''back'', ''Restore'')]\<rparr>,
     DataView = \<lparr>ViewShow = True, ViewTitle = ''View Data'', ViewLang = [''Data View'', ''Exit'', ''refresh'']\<rparr>\<rparr>"

definition percentile_style :: mark_line_style where
  "percentile_style = \<lparr>MarkSymbol = [''none'', ''none''], MarkSymbolSize = 0, LabelShow = True,
     LabelColor = ''grey'', LabelFormatter = ''{b}''\<rparr>"

definition lookup_percentile :: "(string \<times> rat) list \<Rightarrow> string \<Rightarrow> rat" where
  "lookup_percentile percentiles k = (case map_of percentiles k of Some x \<Rightarrow> x | None \<Rightarrow> 0)"

definition plot_chart_of ::
  "scatter_data list \<times> scatter_data list \<Rightarrow> (string \<times> rat) list \<Rightarrow> string \<Rightarrow> string \<Rightarrow> chart"
where
  "plot_chart_of items percentiles zipkinURL latencyType =
     \<lparr>PageTitle = latencyType @ '' traces'', ChartTitle = latencyType @ '' traces'',
      XAxis = \<lparr>AxisName = ''Latency'', AxisType = ''log''\<rparr>, YAxis = \<lparr>AxisName = ''CDF'', AxisType = ''value''\<rparr>,
      Tooltip = \<lparr>TipShow = True, TipTrigger = ''axis'', TriggerOn = ''click'', Formatter = tooltip_formatter zipkinURL\<rparr>,
      Toolbox = plot_toolbox, ShowLegend = True,
      Series =
        [\<lparr>SeriesName = ''Successful Traces Latency'', SeriesData = fst items, ItemColor = ''blue'', MarkLines = [], MarkStyle = None\<rparr>,
         \<lparr>SeriesName = ''Error Traces Latency'', SeriesData = snd items, ItemColor = ''red'', MarkLines = [], MarkStyle = None\<rparr>,
         \<lparr>SeriesName = ''Percentiles'', SeriesData = [], ItemColor = ''grey'',
          MarkLines = map (\<lambda>k. (k, lookup_percentile percentiles k)) [''Mean'', ''Median'', ''90th'', ''99th''],
          MarkStyle = Some percentile_style\<rparr>]\<rparr>"

definition PlotGraph ::
  "statistics \<Rightarrow> trace list \<Rightarrow> nat list \<Rightarrow> rat list \<Rightarrow> string \<Rightarrow> string \<Rightarrow> chart outcome option"
where
  "PlotGraph stat ts traces durations zipkinURL latencyType =
     (case plot_items stat ts durations traces of
        None \<Rightarrow> None
      | Some r \<Rightarrow> Some (out_bind r (\<lambda>items.
          out_bind (getPercentiles stat durations) (\<lambda>percentiles.
          Ret (plot_chart_of items percentiles zipkinURL latencyType)))))"

subsection \<open>The page (\<open>plotChart\<close>)\<close>

text \<open>\<open>filepath.Ext\<close>: what follows the last dot after the last slash, with the dot.\<close>

fun path_ext :: "string \<Rightarrow> string \<Rightarrow> string" where
  "path_ext ext [] = ext"
| "path_ext ext (c # cs) =
     path_ext (if c = CHR ''/'' then '''' else if c = CHR ''.'' then [c] else if ext = '''' then '''' else ext @ [c]) cs"

definition html_name :: "string \<Rightarrow> string" where
  "html_name fileName = (if path_ext '''' fileName \<noteq> ''.html'' then fileName @ ''.html'' else fileName)"

datatype plot_event =
    CreateFile string "go_error option"
  | RenderPage string "chart list" "go_error option"

record plot_env =
  create_file :: "plot_event list \<Rightarrow> string \<Rightarrow> go_error option"
  render_page :: "plot_event list \<Rightarrow> string \<Rightarrow> chart list \<Rightarrow> go_error option"

text \<open>An error of \<open>os.Create\<close> is dropped; one of the rendering is logged.\<close>

definition write_page :: "plot_env \<Rightarrow> string \<Rightarrow> chart list \<Rightarrow> (plot_event, unit) logged" where
  "write_page env fileName charts =
     (let name = html_name fileName
      in State_Monad.bind (perform (\<lambda>h. create_file env h name) (CreateFile name)) (\<lambda>_.
         State_Monad.bind (perform (\<lambda>h. render_page env h name charts) (RenderPage name charts)) (\<lambda>_.
         State_Monad.return ())))"

definition page_charts ::
  "statistics \<Rightarrow> map_walk \<Rightarrow> slice_sort \<Rightarrow> trace list \<Rightarrow> nat list \<Rightarrow> rat list \<Rightarrow> string \<Rightarrow> chart list outcome option"
where
  "page_charts stat walk srt traces parsedE2E e2eDurations zipkinURL =
     (case ParseTraces walk srt traces ''system'' of
        None \<Rightarrow> None
      | Some (ts, parsedSystem, systemDurations) \<Rightarrow>
          (case PlotGraph stat ts parsedE2E e2eDurations zipkinURL ''e2e'' of
             None \<Rightarrow> None
           | Some c1 \<Rightarrow>
               (case PlotGraph stat ts parsedSystem systemDurations zipkinURL ''system'' of
                  None \<Rightarrow> None
                | Some c2 \<Rightarrow> Some (out_bind c1 (\<lambda>c1. out_bind c2 (\<lambda>c2. Ret [c1, c2]))))))"

subsection \<open>Sorted durations\<close>

lemma float_of_sint_mono:
  "sint (a :: int64) \<le> sint (b :: int64) \<Longrightarrow> fl_round (of_int (sint a)) \<le> fl_round (of_int (sint b))"
  by (rule fl_round_mono) (simp only: of_int_le_iff)

lemma duration_of_mono:
  assumes "ty = ''e2e'' \<or> ty = ''system''" and "sort_key_of ty t \<le> sort_key_of ty u"
  shows "duration_of ty t \<le> duration_of ty u"
proof (cases "ty = ''e2e''")
  case True
  then show ?thesis
    using assms(2) float_of_sint_mono [of "Duration t" "Duration u"]
    by (simp only: duration_of_def sort_key_of_def if_True simp_thms)
next
  case False
  then have ty: "ty = ''system''" using assms(1) by simp
  let ?x = "sint (SystemDuration t)" and ?y = "sint (SystemDuration u)"
  have le: "fl_round (of_int ?x) \<le> fl_round (of_int ?y)"
    by (rule float_of_sint_mono) (use assms(2) ty in \<open>simp add: sort_key_of_def\<close>)
  have "fl_round (1 / 10 ^ 12) \<le> fl_round (of_int ?y)" if "fl_round (of_int ?y) > 0"
  proof (rule fl_round_mono)
    have "0 < ?y"
    proof (rule ccontr)
      assume "\<not> 0 < ?y"
      then have "of_int ?y \<le> (of_int 0 :: rat)" unfolding of_int_le_iff by simp
      then have "fl_round (of_int ?y) \<le> fl_round (of_int 0)" by (rule fl_round_mono)
      with that show False by (simp add: fl_round_def)
    qed
    then have "(of_int 1 :: rat) \<le> of_int ?y" unfolding of_int_le_iff by simp
    moreover have "1 / 10 ^ 12 \<le> (of_int 1 :: rat)" by simp
    ultimately show "1 / 10 ^ 12 \<le> (of_int ?y :: rat)" by (rule order_trans [rotated])
  qed
  then show ?thesis using le ty unfolding duration_of_def by auto
qed

lemma durations_sorted:
  assumes "ty = ''e2e'' \<or> ty = ''system''" and "sorted (map (\<lambda>i. sort_key_of ty (ts ! i)) parsed)"
  shows "sorted (map (\<lambda>i. duration_of ty (ts ! i)) parsed)"
  using assms(2) duration_of_mono [OF assms(1)] by (auto simp: sorted_map elim: sorted_wrt_mono_rel [rotated])

lemma system_duration_pos: "0 < duration_of ''system'' t"
proof -
  have "0 < fl_round (1 / 10 ^ 12)" by code_simp
  then show ?thesis by (simp add: duration_of_def)
qed

lemma links_ok_transfer:
  assumes "map skeleton us = map skeleton ts" and "map Child us = map Child ts" and "links_ok m ts"
  shows "links_ok m us"
  unfolding links_ok_def
proof (intro allI impI ballI)
  fix p c
  assume p: "p < length us" and "c \<in> set (Child (us ! p))"
  have len: "length us = length ts" by (rule same_length [OF assms(1)])
  have "Child (us ! p) = Child (ts ! p)"
    using arg_cong [OF assms(2), of "\<lambda>cs. cs ! p"] p len by simp
  then have "c < length ts \<and> map_of m (ParentID (ts ! c)) = Some p"
    using assms(3) p len \<open>c \<in> set (Child (us ! p))\<close> unfolding links_ok_def by simp
  then show "c < length us \<and> map_of m (ParentID (us ! c)) = Some p"
    using same_skeleton_nth(2) [OF assms(1), of c] len by simp
qed

text \<open>One pass over a slice whose links are in order returns, keeps them in order, and yields the
  roots in the order asked for.\<close>

lemma ParseTraces_pass:
  assumes w: "walks_map w" and srt: "sorts_slice srt" and ok: "links_ok (id_map traces) traces"
    and ty: "ty = ''e2e'' \<or> ty = ''system''"
  shows "\<exists>ts parsed. ParseTraces w srt traces ty = Some (ts, parsed, map (\<lambda>i. duration_of ty (ts ! i)) parsed) \<and>
    map skeleton ts = map skeleton traces \<and> links_ok (id_map traces) ts \<and>
    set parsed = {i. last_with_id traces i \<and> orphan traces i} \<and> distinct parsed \<and>
    sorted (map (\<lambda>i. sort_key_of ty (ts ! i)) parsed)"
proof -
  let ?m = "id_map traces"
  let ?linked = "link_children ?m traces"
  obtain ts where ts: "ParseTraces w srt traces ty = Some (ts, sort_parsed srt ty ts (roots_in w ?m ?linked),
      map (\<lambda>i. duration_of ty (ts ! i)) (sort_parsed srt ty ts (roots_in w ?m ?linked)))"
    "map skeleton ts = map skeleton traces" "map Child ts = map Child ?linked"
    using ParseTraces_run [OF w ok] by blast
  moreover have "links_ok ?m ts"
    by (rule links_ok_transfer [OF _ ts(3) links_ok_link_children [OF ok]])
      (simp add: ts(2) link_children_skeleton)
  moreover have "set (sort_parsed srt ty ts (roots_in w ?m ?linked)) = {i. last_with_id traces i \<and> orphan traces i}"
    "distinct (sort_parsed srt ty ts (roots_in w ?m ?linked))"
    using sort_parsed_distinct [OF srt] set_roots [OF w] distinct_roots [OF w] by simp_all
  ultimately show ?thesis using sort_parsed_sorted [OF srt ty] by blast
qed

lemma level_of_root:
  assumes "map skeleton ts = map skeleton traces" and "last_with_id traces i" and "orphan traces i"
  shows "level (id_map traces) ts i 0"
  using assms same_skeleton_nth(2) [OF assms(1), of i] same_length [OF assms(1)]
  by (intro level.root) (simp_all add: last_with_id_def map_of_id_map_None)

lemma roots_same_skeleton:
  assumes "map skeleton ts = map skeleton traces"
  shows "last_with_id ts i \<and> orphan ts i \<longleftrightarrow> last_with_id traces i \<and> orphan traces i"
  using same_skeleton_nth(1,2) [OF assms] same_length [OF assms]
  by (auto simp: last_with_id_def orphan_def)

subsection \<open>The points of a chart\<close>

text \<open>On sorted data the package answers: \<open>CDF\<close> for every value, \<open>Quantile\<close> for every fraction.\<close>

definition stat_ok :: "statistics \<Rightarrow> bool" where
  "stat_ok stat \<longleftrightarrow> (\<forall>xs. xs \<noteq> [] \<and> sorted xs \<longrightarrow>
     (\<forall>p. 0 \<le> p \<and> p \<le> 1 \<longrightarrow> (\<exists>q. stat_quantile stat p xs = Ret q)) \<and> (\<forall>x. \<exists>q. stat_cdf stat x xs = Ret q))"

definition successful :: "trace list \<Rightarrow> nat \<Rightarrow> bool" where
  "successful ts t \<longleftrightarrow> (\<exists>code. GetHTTPStatusCode (length ts) ts t = Some (code, None) \<and> code \<le> 300)"

definition point_of :: "statistics \<Rightarrow> trace list \<Rightarrow> rat list \<Rightarrow> nat \<times> nat \<Rightarrow> scatter_data" where
  "point_of stat ts durations it =
     \<lparr>SdName = TraceID (ts ! snd it),
      SdValue = (durations ! fst it, case stat_cdf stat (durations ! fst it) durations of Ret y \<Rightarrow> y | _ \<Rightarrow> 0),
      SdSymbol = ''roundRect'', SymbolSize = 10, SymbolRotate = 0\<rparr>"

lemma plot_item_run:
  assumes "GetHTTPStatusCode (length ts) ts (snd it) \<noteq> None" and "fst it < length durations"
    and "\<exists>y. stat_cdf stat (durations ! fst it) durations = Ret y"
  shows "plot_item stat ts durations (Some (Ret (good, bad))) it =
    Some (Ret (if successful ts (snd it) then (good @ [point_of stat ts durations it], bad)
               else (good, bad @ [point_of stat ts durations it])))"
proof -
  obtain code err where "GetHTTPStatusCode (length ts) ts (snd it) = Some (code, err)" using assms(1) by auto
  then show ?thesis using assms(2,3)
    by (cases err) (auto simp: plot_item_def successful_def point_of_def Let_def not_le)
qed

lemma plot_items_fold:
  assumes "\<forall>it\<in>set its. GetHTTPStatusCode (length ts) ts (snd it) \<noteq> None \<and> fst it < length durations \<and>
    (\<exists>y. stat_cdf stat (durations ! fst it) durations = Ret y)"
  shows "foldl (plot_item stat ts durations) (Some (Ret (good, bad))) its =
    Some (Ret (good @ map (point_of stat ts durations) (filter (\<lambda>it. successful ts (snd it)) its),
               bad @ map (point_of stat ts durations) (filter (\<lambda>it. \<not> successful ts (snd it)) its)))"
  using assms
proof (induction its arbitrary: good bad)
  case (Cons it its)
  then have "plot_item stat ts durations (Some (Ret (good, bad))) it =
    Some (Ret (if successful ts (snd it) then (good @ [point_of stat ts durations it], bad)
               else (good, bad @ [point_of stat ts durations it])))"
    by (intro plot_item_run) simp_all
  then show ?case using Cons by simp
qed simp

lemma getPercentiles_total: "\<lbrakk>stat_ok stat; sorted durations\<rbrakk> \<Longrightarrow> \<exists>ps. getPercentiles stat durations = Ret ps"
proof (cases "durations = []")
  case False
  assume a: "stat_ok stat" "sorted durations"
  have fractions: "0 \<le> fl_round (1 / 2) \<and> fl_round (1 / 2) \<le> 1" "0 \<le> fl_round (9 / 10) \<and> fl_round (9 / 10) \<le> 1"
    "0 \<le> fl_round (99 / 100) \<and> fl_round (99 / 100) \<le> 1"
    by code_simp+
  have "\<exists>q. stat_quantile stat p durations = Ret q" if "0 \<le> p \<and> p \<le> 1" for p
    using False a that unfolding stat_ok_def by blast
  from this [OF fractions(1)] this [OF fractions(2)] this [OF fractions(3)]
  obtain q1 q2 q3 where "stat_quantile stat (fl_round (1 / 2)) durations = Ret q1"
    "stat_quantile stat (fl_round (9 / 10)) durations = Ret q2" "stat_quantile stat (fl_round (99 / 100)) durations = Ret q3"
    by blast
  with False show ?thesis by (simp add: getPercentiles_def Let_def)
qed (simp add: getPercentiles_def)

lemma PlotGraph_run:
  assumes "stat_ok stat" and "sorted durations" and "length durations = length traces"
    and "\<forall>t\<in>set traces. GetHTTPStatusCode (length ts) ts t \<noteq> None"
  shows "\<exists>ps. getPercentiles stat durations = Ret ps \<and> PlotGraph stat ts traces durations url ty = Some (Ret (plot_chart_of
    (map (point_of stat ts durations) (filter (\<lambda>it. successful ts (snd it)) (enumerate 0 traces)),
     map (point_of stat ts durations) (filter (\<lambda>it. \<not> successful ts (snd it)) (enumerate 0 traces))) ps url ty))"
proof -
  have "\<forall>it\<in>set (enumerate 0 traces). GetHTTPStatusCode (length ts) ts (snd it) \<noteq> None \<and> fst it < length durations \<and>
      (\<exists>y. stat_cdf stat (durations ! fst it) durations = Ret y)"
  proof
    fix it
    assume "it \<in> set (enumerate 0 traces)"
    then have it: "snd it \<in> set traces" "fst it < length durations"
      using assms(3) by (auto simp: in_set_enumerate_eq) (metis nth_mem)
    then have "durations \<noteq> []" by auto
    then have "\<exists>y. stat_cdf stat (durations ! fst it) durations = Ret y"
      using assms(1,2) unfolding stat_ok_def by blast
    with it assms(4) show "GetHTTPStatusCode (length ts) ts (snd it) \<noteq> None \<and> fst it < length durations \<and>
      (\<exists>y. stat_cdf stat (durations ! fst it) durations = Ret y)" by blast
  qed
  from plot_items_fold [OF this, of "[]" "[]"] show ?thesis
    using getPercentiles_total [OF assms(1,2)] by (auto simp: PlotGraph_def plot_items_def)
qed

subsection \<open>Properties\<close>

lemma same_TraceID:
  assumes "map skeleton ts = map skeleton us" and "i < length us"
  shows "TraceID (ts ! i) = TraceID (us ! i)"
proof -
  have "length ts = length us" using assms(1) by (metis length_map)
  then have "skeleton (ts ! i) = skeleton (us ! i)" using assms by (metis nth_map)
  then have "TraceID (skeleton (ts ! i)) = TraceID (skeleton (us ! i))" by simp
  then show ?thesis by (simp add: skeleton_def)
qed

text \<open>What a chart shows of the traces \<open>xs\<close> of a slice with the durations \<open>D\<close>: each in the series of successes
  exactly if its status code is found and at most 300, else in that of errors, under its identifier, at
  its duration and the share of durations up to it; and the percentiles of all.\<close>

definition series_of :: "trace list \<Rightarrow> (nat \<Rightarrow> bool) \<Rightarrow> nat list \<Rightarrow> rat list \<Rightarrow> (string \<times> rat) list" where
  "series_of traces P xs D = map (\<lambda>(i, d). (TraceID (traces ! i), d)) (filter (\<lambda>(i, d). P i) (zip xs D))"

definition points :: "chart \<Rightarrow> nat \<Rightarrow> (string \<times> rat) list" where
  "points c k = map (\<lambda>p. (SdName p, fst (SdValue p))) (SeriesData (Series c ! k))"

definition chart_shows :: "statistics \<Rightarrow> trace list \<Rightarrow> (nat \<Rightarrow> bool) \<Rightarrow> string \<Rightarrow> nat list \<Rightarrow> rat list \<Rightarrow> chart \<Rightarrow> bool" where
  "chart_shows stat traces good ty xs D c \<longleftrightarrow>
     PageTitle c = ty @ '' traces'' \<and> ChartTitle c = ty @ '' traces'' \<and>
     map SeriesName (Series c) = [''Successful Traces Latency'', ''Error Traces Latency'', ''Percentiles''] \<and>
     points c 0 = series_of traces good xs D \<and> points c 1 = series_of traces (\<lambda>i. \<not> good i) xs D \<and>
     (\<forall>p\<in>set (SeriesData (Series c ! 0) @ SeriesData (Series c ! 1)). stat_cdf stat (fst (SdValue p)) D = Ret (snd (SdValue p))) \<and>
     getPercentiles stat D = Ret (MarkLines (Series c ! 2))"

lemma points_enumerate:
  assumes "length D = length xs" and "\<forall>i\<in>set xs. TraceID (us ! i) = TraceID (traces ! i)"
  shows "map (\<lambda>p. (SdName p, fst (SdValue p))) (map (point_of stat us D) (filter (\<lambda>it. P (snd it)) (enumerate 0 xs))) =
    series_of traces P xs D"
proof -
  have "map (\<lambda>p. (SdName p, fst (SdValue p))) (map (point_of stat us (E @ D)) (filter (\<lambda>it. P (snd it)) (enumerate (length E) xs))) =
      series_of traces P xs D" if "length D = length xs" "\<forall>i\<in>set xs. TraceID (us ! i) = TraceID (traces ! i)" for E D xs
    using that
  proof (induction xs arbitrary: E D)
    case (Cons i xs)
    then obtain d D' where D: "D = d # D'" by (cases D) auto
    with Cons.IH [of D' "E @ [d]"] Cons.prems show ?case
      by (simp add: series_of_def point_of_def nth_append)
  qed (simp add: series_of_def)
  from this [of D xs "[]"] assms show ?thesis by simp
qed

lemma percentile_lines:
  "getPercentiles stat D = Ret ps \<Longrightarrow> map (\<lambda>k. (k, lookup_percentile ps k)) [''Mean'', ''Median'', ''90th'', ''99th''] = ps"
  by (auto simp: getPercentiles_def Let_def lookup_percentile_def split: if_splits)

lemma plot_chart_shows:
  assumes st: "stat_ok stat" "sorted D" and len: "length D = length xs" and ps: "getPercentiles stat D = Ret ps"
    and ids: "\<forall>i\<in>set xs. TraceID (us ! i) = TraceID (traces ! i)"
  shows "chart_shows stat traces good ty xs D (plot_chart_of
    (map (point_of stat us D) (filter (\<lambda>it. good (snd it)) (enumerate 0 xs)),
     map (point_of stat us D) (filter (\<lambda>it. \<not> good (snd it)) (enumerate 0 xs))) ps url ty)"
proof -
  have "stat_cdf stat (D ! fst it) D = Ret (snd (SdValue (point_of stat us D it)))" if "it \<in> set (enumerate 0 xs)" for it
  proof -
    have "D \<noteq> []" using that len by auto
    then obtain y where "stat_cdf stat (D ! fst it) D = Ret y" using st unfolding stat_ok_def by blast
    then show ?thesis by (simp add: point_of_def)
  qed
  moreover have "fst (SdValue (point_of stat us D it)) = D ! fst it" for it by (simp add: point_of_def)
  ultimately show ?thesis
    using points_enumerate [OF len ids, of stat] percentile_lines [OF ps] ps
    by (auto simp: chart_shows_def plot_chart_of_def points_def)
qed

lemma page_total:
  assumes w: "walks_map w" "walks_map w'" and srt: "sorts_slice srt" and st: "stat_ok stat"
    and fresh: "\<forall>t\<in>set traces. Child t = []"
  shows "\<exists>ts parsed ds us sys sds c1 c2.
    ParseTraces w srt traces ''e2e'' = Some (ts, parsed, ds) \<and> ds = map (\<lambda>i. duration_of ''e2e'' (ts ! i)) parsed \<and> sorted ds \<and>
    ParseTraces w' srt ts ''system'' = Some (us, sys, sds) \<and> sds = map (\<lambda>i. duration_of ''system'' (us ! i)) sys \<and> sorted sds \<and>
    (\<forall>d\<in>set sds. 0 < d) \<and>
    distinct parsed \<and> set parsed = {i. last_with_id traces i \<and> orphan traces i} \<and>
    distinct sys \<and> set sys = {i. last_with_id traces i \<and> orphan traces i} \<and>
    page_charts stat w' srt ts parsed ds url = Some (Ret [c1, c2]) \<and>
    chart_shows stat traces (successful us) ''e2e'' parsed ds c1 \<and>
    chart_shows stat traces (successful us) ''system'' sys sds c2"
proof -
  obtain ts parsed where ts: "ParseTraces w srt traces ''e2e'' = Some (ts, parsed, map (\<lambda>i. duration_of ''e2e'' (ts ! i)) parsed)"
    "map skeleton ts = map skeleton traces" "links_ok (id_map traces) ts"
    "set parsed = {i. last_with_id traces i \<and> orphan traces i}" "distinct parsed"
    "sorted (map (\<lambda>i. sort_key_of ''e2e'' (ts ! i)) parsed)"
    using ParseTraces_pass [OF w(1) srt no_children_links_ok [OF fresh], of "''e2e''"] by blast
  have ids: "id_map ts = id_map traces" by (rule id_map_cong [OF ts(2)])
  obtain us sys where us: "ParseTraces w' srt ts ''system'' = Some (us, sys, map (\<lambda>i. duration_of ''system'' (us ! i)) sys)"
    "map skeleton us = map skeleton ts" "links_ok (id_map traces) us"
    "set sys = {i. last_with_id ts i \<and> orphan ts i}" "distinct sys"
    "sorted (map (\<lambda>i. sort_key_of ''system'' (us ! i)) sys)"
    using ParseTraces_pass [OF w(2) srt, of ts "''system''"] ts(3) unfolding ids by blast
  have skel: "map skeleton us = map skeleton traces" using us(2) ts(2) by simp
  let ?ds = "map (\<lambda>i. duration_of ''e2e'' (ts ! i)) parsed"
  let ?sds = "map (\<lambda>i. duration_of ''system'' (us ! i)) sys"
  have sorted: "sorted ?ds" "sorted ?sds" using durations_sorted ts(6) us(6) by blast+
  have sys: "set sys = {i. last_with_id traces i \<and> orphan traces i}" using us(4) roots_same_skeleton [OF ts(2)] by simp
  have code: "\<forall>t\<in>set xs. GetHTTPStatusCode (length us) us t \<noteq> None"
    and names: "\<forall>t\<in>set xs. TraceID (us ! t) = TraceID (traces ! t)"
    if "set xs = {i. last_with_id traces i \<and> orphan traces i}" for xs
    using GetHTTPStatusCode_total [OF us(3) level_of_root [OF skel]] same_TraceID [OF skel] that
    by (simp, auto simp: last_with_id_def)
  let ?chart = "\<lambda>xs D ps ty. plot_chart_of
      (map (point_of stat us D) (filter (\<lambda>it. successful us (snd it)) (enumerate 0 xs)),
       map (point_of stat us D) (filter (\<lambda>it. \<not> successful us (snd it)) (enumerate 0 xs))) ps url ty"
  obtain ps where e2e: "getPercentiles stat ?ds = Ret ps"
    "PlotGraph stat us parsed ?ds url ''e2e'' = Some (Ret (?chart parsed ?ds ps ''e2e''))"
    using PlotGraph_run [OF st sorted(1) _ code [OF ts(4)], of url "''e2e''"] by auto
  obtain ps' where system: "getPercentiles stat ?sds = Ret ps'"
    "PlotGraph stat us sys ?sds url ''system'' = Some (Ret (?chart sys ?sds ps' ''system''))"
    using PlotGraph_run [OF st sorted(2) _ code [OF sys], of url "''system''"] by auto
  have page: "page_charts stat w' srt ts parsed ?ds url =
      Some (Ret [?chart parsed ?ds ps ''e2e'', ?chart sys ?sds ps' ''system''])"
    using us(1) e2e(2) system(2) by (simp add: page_charts_def)
  have charts: "chart_shows stat traces (successful us) ''e2e'' parsed ?ds (?chart parsed ?ds ps ''e2e'')"
    "chart_shows stat traces (successful us) ''system'' sys ?sds (?chart sys ?sds ps' ''system'')"
    by (rule plot_chart_shows [OF st sorted(1) _ e2e(1) names [OF ts(4)]], simp,
        rule plot_chart_shows [OF st sorted(2) _ system(1) names [OF sys]], simp)
  have positive: "\<forall>d\<in>set ?sds. 0 < d" using system_duration_pos by auto
  show ?thesis
    by (intro exI conjI) (rule ts(1) refl sorted(1) us(1) sorted(2) positive ts(5) ts(4) us(5) sys page charts)+
qed

text \<open>
  Property C23: the page is built from any freshly loaded traces, with a statistics package that
  answers on sorted data only. Its two charts are of the same roots, each of them once: the first
  with the end-to-end durations of the first parse, the second with the system durations of the
  second. In each chart a root is in the series of successes exactly if its status code is found
  and at most 300, at its duration and the share of the durations up to it, and the marks are the
  percentiles of its durations. The durations handed to the package are sorted, and those of the
  system chart are positive, as its logarithmic axis needs.
\<close>

theorem page_complete:
  assumes w: "walks_map w" "walks_map w'" and srt: "sorts_slice srt" and st: "stat_ok stat"
    and fresh: "\<forall>t\<in>set traces. Child t = []"
  shows "\<exists>ts parsed ds us sys sds c1 c2.
    ParseTraces w srt traces ''e2e'' = Some (ts, parsed, ds) \<and> ds = map (\<lambda>i. duration_of ''e2e'' (ts ! i)) parsed \<and> sorted ds \<and>
    ParseTraces w' srt ts ''system'' = Some (us, sys, sds) \<and> sds = map (\<lambda>i. duration_of ''system'' (us ! i)) sys \<and> sorted sds \<and>
    (\<forall>d\<in>set sds. 0 < d) \<and>
    distinct parsed \<and> set parsed = {i. last_with_id traces i \<and> orphan traces i} \<and>
    distinct sys \<and> set sys = {i. last_with_id traces i \<and> orphan traces i} \<and>
    page_charts stat w' srt ts parsed ds url = Some (Ret [c1, c2]) \<and>
    chart_shows stat traces (successful us) ''e2e'' parsed ds c1 \<and>
    chart_shows stat traces (successful us) ''system'' sys sds c2"
  by (rule page_total [OF assms])

definition demo_statistics :: statistics where
  "demo_statistics = \<lparr>stat_mean = \<lambda>xs. sum_list xs / of_nat (length xs),
     stat_quantile = \<lambda>p xs. if p < 0 \<or> 1 < p then Panic (NewError ''stat: percentile out of bounds'')
       else if sorted xs \<and> xs \<noteq> [] then Ret (hd xs) else Panic (NewError ''stat: x data are not sorted''),
     stat_cdf = \<lambda>x xs. if sorted xs \<and> xs \<noteq> [] then Ret (of_nat (length (filter (\<lambda>y. y \<le> x) xs)) / of_nat (length xs))
       else Panic (NewError ''stat: x data are not sorted'')\<rparr>"

lemma stat_ok_demo: "stat_ok demo_statistics"
  by (simp add: stat_ok_def demo_statistics_def not_less)

lemma filter_single: "distinct xs \<Longrightarrow> set xs = {a} \<Longrightarrow> xs = [a]"
proof -
  assume xs: "distinct xs" "set xs = {a}"
  then obtain x ys where "xs = x # ys" by (cases xs) auto
  with xs show ?thesis by (cases ys) auto
qed

theorem page_complete_witness:
  "\<exists>ts parsed ds c1 c2. ParseTraces rev key_sort [demo_span ''a'' '''' 9, demo_span ''b'' ''a'' 4] ''e2e'' = Some (ts, parsed, ds) \<and>
     page_charts demo_statistics (\<lambda>m. m) key_sort ts parsed ds ''http://localhost'' = Some (Ret [c1, c2]) \<and>
     map fst (points c1 0 @ points c1 1) = [''t''] \<and> map fst (points c2 0 @ points c2 1) = [''t'']"
proof -
  let ?traces = "[demo_span ''a'' '''' 9, demo_span ''b'' ''a'' 4]"
  have "\<forall>t\<in>set ?traces. Child t = []" by (simp add: demo_span_def)
  from page_complete [OF walks_map_rev sorts_slice_key stat_ok_demo this, of "''http://localhost''"]
  obtain ts parsed ds us sys sds c1 c2 where page:
    "ParseTraces rev key_sort ?traces ''e2e'' = Some (ts, parsed, ds)"
    "ds = map (\<lambda>i. duration_of ''e2e'' (ts ! i)) parsed" "sds = map (\<lambda>i. duration_of ''system'' (us ! i)) sys"
    "distinct parsed" "set parsed = {i. last_with_id ?traces i \<and> orphan ?traces i}"
    "distinct sys" "set sys = {i. last_with_id ?traces i \<and> orphan ?traces i}"
    "page_charts demo_statistics (\<lambda>m. m) key_sort ts parsed ds ''http://localhost'' = Some (Ret [c1, c2])"
    "chart_shows demo_statistics ?traces (successful us) ''e2e'' parsed ds c1"
    "chart_shows demo_statistics ?traces (successful us) ''system'' sys sds c2"
    by (elim exE conjE) (rule that)
  have "{i. last_with_id ?traces i \<and> orphan ?traces i} = {0}"
    by (auto simp: last_with_id_def orphan_def demo_span_def less_Suc_eq nth_Cons' split: if_splits)
  then have roots: "parsed = [0]" "sys = [0]" using page(4-7) filter_single by simp_all
  have "TraceID (?traces ! 0) = ''t''" by (simp add: demo_span_def)
  then have shown: "map fst (points c1 0 @ points c1 1) = [''t'']" "map fst (points c2 0 @ points c2 1) = [''t'']"
    using page(9,10) page(2,3) roots unfolding chart_shows_def by (simp_all add: series_of_def)
  show ?thesis by (intro exI conjI) (rule page(1) page(8) shown)+
qed

lemma path_ext_suffix: "\<exists>p. ext @ cs = p @ path_ext ext cs"
proof (induction cs arbitrary: ext)
  case (Cons c cs)
  let ?ext = "if c = CHR ''/'' then '''' else if c = CHR ''.'' then [c] else if ext = '''' then '''' else ext @ [c]"
  obtain p where p: "?ext @ cs = p @ path_ext ?ext cs" using Cons.IH by blast
  have "\<exists>q. ext @ [c] = q @ ?ext" by (cases "c = CHR ''/''"; cases "c = CHR ''.''"; cases "ext = ''''") auto
  then obtain q where "ext @ [c] = q @ ?ext" ..
  then have "ext @ c # cs = q @ ?ext @ cs" by (metis append.assoc append_Cons append_Nil)
  then show ?case using p by (intro exI [of _ "q @ p"]) simp
qed simp

lemma path_ext_append_html: "path_ext ext (s @ ''.html'') = ''.html''"
  by (induction s arbitrary: ext) simp_all

text \<open>
  Whatever file name is asked for, the page is created and rendered under a name with
  the extension \<open>.html\<close>, the name asked for if it has it; rendering goes on when the file could not
  be created.
\<close>

theorem page_file:
  "\<exists>c r. snd (run_state (write_page env fileName charts) []) = [CreateFile (html_name fileName) c, RenderPage (html_name fileName) charts r] \<and>
    path_ext '''' (html_name fileName) = ''.html'' \<and>
    html_name fileName = (if path_ext '''' fileName = ''.html'' then fileName else fileName @ ''.html'') \<and>
    html_name (html_name fileName) = html_name fileName"
proof -
  have "path_ext '''' (html_name fileName) = ''.html''"
    by (simp add: html_name_def path_ext_append_html del: append_Cons)
  then show ?thesis
    using path_ext_append_html [of "''''" fileName]
    by (simp add: write_page_def Let_def run_state_bind) (simp add: html_name_def del: append_Cons)
qed

end
