(* ===== verification/TraceDownload.thy ===== *)
theory TraceDownload
  imports TraceLoader TracePlot Goroutines
begin

text \<open>
  The downloads of \<open>tools/trace-plotter/main.go\<close>: ten goroutines share an index under a mutex and
  fetch one trace after the other. Each goroutine is a state machine whose steps are the
  operations on shared state, \<open>*index++\<close> being a load and a store; a schedule may interleave them
  in any way. The outside world answers by the log of all operations.
\<close>

subsection \<open>Goroutines\<close>

text \<open>Where a goroutine stands in \<open>downloaderRoutine\<close> and \<open>DownloadFile\<close>, with its \<open>threadIndex\<close>.\<close>

datatype pc =
    Locking
  | ReadIndex
  | LoadIndex nat
  | StoreIndex nat nat
  | Unlocking nat
  | Checking nat
  | Getting nat
  | Creating nat
  | Copying nat
  | ClosingFile nat
  | ClosingBody nat
  | Finished

datatype download_event =
    HttpGet nat string "go_error option"
  | CreateJson nat string "go_error option"
  | CopyJson nat "go_error option"
  | CloseJson nat
  | CloseResponse nat

record download_env =
  http_get :: "download_event list \<Rightarrow> string \<Rightarrow> go_error option"
  create_json :: "download_event list \<Rightarrow> string \<Rightarrow> go_error option"
  copy_json :: "download_event list \<Rightarrow> nat \<Rightarrow> go_error option"

record job =
  TraceIDs :: "string list"
  ZipkinURL :: string
  DownloadDir :: string

record pool =
  NextIndex :: nat
  Owner :: "nat option"
  Waiting :: int
  Threads :: "pc list"
  Done :: "download_event list"

definition trace_url :: "job \<Rightarrow> nat \<Rightarrow> string" where
  "trace_url j t = ZipkinURL j @ ''/zipkin/api/v2/trace/'' @ TraceIDs j ! t"

definition trace_file :: "job \<Rightarrow> nat \<Rightarrow> string" where
  "trace_file j t = DownloadDir j @ ''/'' @ TraceIDs j ! t @ ''.json''"

text \<open>One step of \<open>DownloadFile\<close> for trace \<open>t\<close>: the next position, and the event. After an error of the
  request nothing is open; after one of the creation only the response is.\<close>

fun download_step :: "download_env \<Rightarrow> job \<Rightarrow> download_event list \<Rightarrow> pc \<Rightarrow> (pc \<times> download_event) option" where
  "download_step env j h (Getting t) =
     (let err = http_get env h (trace_url j t)
      in Some (if err = None then Creating t else Locking, HttpGet t (trace_url j t) err))"
| "download_step env j h (Creating t) =
     (let err = create_json env h (trace_file j t)
      in Some (if err = None then Copying t else ClosingBody t, CreateJson t (trace_file j t) err))"
| "download_step env j h (Copying t) = Some (ClosingFile t, CopyJson t (copy_json env h t))"
| "download_step env j h (ClosingFile t) = Some (ClosingBody t, CloseJson t)"
| "download_step env j h (ClosingBody t) = Some (Locking, CloseResponse t)"
| "download_step env j h p = None"

text \<open>One step of goroutine \<open>i\<close>; \<^term>\<open>None\<close> if it cannot run: it waits for the mutex or has ended.\<close>

definition thread_step :: "download_env \<Rightarrow> job \<Rightarrow> nat \<Rightarrow> pool \<Rightarrow> pool option" where
  "thread_step env j i s =
     (let goto = (\<lambda>p s. s\<lparr>Threads := (Threads s)[i := p]\<rparr>)
      in case Threads s ! i of
           Locking \<Rightarrow> if Owner s = None then Some (goto ReadIndex (s\<lparr>Owner := Some i\<rparr>)) else None
         | ReadIndex \<Rightarrow> Some (goto (LoadIndex (NextIndex s)) s)
         | LoadIndex t \<Rightarrow> Some (goto (StoreIndex t (NextIndex s)) s)
         | StoreIndex t v \<Rightarrow> Some (goto (Unlocking t) (s\<lparr>NextIndex := v + 1\<rparr>))
         | Unlocking t \<Rightarrow> Some (goto (Checking t) (s\<lparr>Owner := None\<rparr>))
         | Checking t \<Rightarrow>
             if t \<ge> length (TraceIDs j) then Some (goto Finished (s\<lparr>Waiting := Waiting s - 1\<rparr>))
             else Some (goto (Getting t) s)
         | Finished \<Rightarrow> None
         | p \<Rightarrow> (case download_step env j (Done s) p of
                  None \<Rightarrow> None
                | Some (p', e) \<Rightarrow> Some (goto p' (s\<lparr>Done := Done s @ [e]\<rparr>))))"

text \<open>\<open>downloadTraces\<close> starts ten goroutines, and its \<open>wg.Wait()\<close> returns when none is waited for.\<close>

definition threads :: nat where "threads = 10"

definition start_pool :: "download_event list \<Rightarrow> pool" where
  "start_pool h = \<lparr>NextIndex = 0, Owner = None, Waiting = int threads, Threads = replicate threads Locking, Done = h\<rparr>"

inductive pool_step :: "download_env \<Rightarrow> job \<Rightarrow> pool \<Rightarrow> pool \<Rightarrow> bool" for env j where
  run: "\<lbrakk>i < length (Threads s); thread_step env j i s = Some s'\<rbrakk> \<Longrightarrow> pool_step env j s s'"

abbreviation runs :: "download_env \<Rightarrow> job \<Rightarrow> pool \<Rightarrow> nat \<Rightarrow> pool \<Rightarrow> bool" where
  "runs env j \<equiv> runs_by (pool_step env j)"

definition wait_returns :: "pool \<Rightarrow> bool" where
  "wait_returns s \<longleftrightarrow> Waiting s = 0"

text \<open>\<open>DownloadFile\<close> on its own, with the deferred calls at its end.\<close>

definition DownloadFile :: "download_env \<Rightarrow> nat \<Rightarrow> string \<Rightarrow> string \<Rightarrow> (download_event, go_error option) logged" where
  "DownloadFile env t filepath url =
     State_Monad.bind (perform (\<lambda>h. http_get env h url) (HttpGet t url)) (\<lambda>err.
       if err \<noteq> None then State_Monad.return err
       else State_Monad.bind (perform (\<lambda>h. create_json env h filepath) (CreateJson t filepath)) (\<lambda>err.
         if err \<noteq> None then State_Monad.bind (record_event (CloseResponse t)) (\<lambda>_. State_Monad.return err)
         else State_Monad.bind (perform (\<lambda>h. copy_json env h t) (CopyJson t)) (\<lambda>err.
           State_Monad.bind (record_event (CloseJson t)) (\<lambda>_.
           State_Monad.bind (record_event (CloseResponse t)) (\<lambda>_. State_Monad.return err)))))"

subsection \<open>The invariant\<close>

text \<open>The indices claimed and not requested yet, the requests made, and who is in the critical
  section.\<close>

fun pending :: "pc \<Rightarrow> nat list" where
  "pending (Unlocking t) = [t]" | "pending (Checking t) = [t]" | "pending (Getting t) = [t]" | "pending p = []"

fun requested :: "download_event \<Rightarrow> nat list" where
  "requested (HttpGet t u e) = [t]" | "requested e = []"

definition gets :: "download_event list \<Rightarrow> nat list" where
  "gets h = concat (map requested h)"

fun critical :: "pc \<Rightarrow> bool" where
  "critical ReadIndex = True" | "critical (LoadIndex t) = True" | "critical (StoreIndex t v) = True"
| "critical (Unlocking t) = True" | "critical p = False"

fun at_index :: "nat \<Rightarrow> pc \<Rightarrow> bool" where
  "at_index n (LoadIndex t) = (t = n)" | "at_index n (StoreIndex t v) = (t = n \<and> v = n)"
| "at_index n p = True"

definition in_range :: "nat \<Rightarrow> pc \<Rightarrow> bool" where
  "in_range len p \<longleftrightarrow> (case p of Getting t \<Rightarrow> t < len | Creating t \<Rightarrow> t < len | Copying t \<Rightarrow> t < len
     | ClosingFile t \<Rightarrow> t < len | ClosingBody t \<Rightarrow> t < len | _ \<Rightarrow> True)"

definition mutex_ok :: "pool \<Rightarrow> bool" where
  "mutex_ok s \<longleftrightarrow> (\<forall>i<length (Threads s). critical (Threads s ! i) \<longleftrightarrow> Owner s = Some i) \<and>
     (\<forall>i. Owner s = Some i \<longrightarrow> i < length (Threads s))"

definition index_ok :: "job \<Rightarrow> pool \<Rightarrow> bool" where
  "index_ok j s \<longleftrightarrow> (\<forall>i<length (Threads s).
     at_index (NextIndex s) (Threads s ! i) \<and> in_range (length (TraceIDs j)) (Threads s ! i))"

text \<open>Every index handed out has been requested, is pending, or was beyond the traces and made a
  goroutine end: the \<open>past\<close> ones.\<close>

definition claims_ok :: "job \<Rightarrow> download_event list \<Rightarrow> pool \<Rightarrow> bool" where
  "claims_ok j h s \<longleftrightarrow>
     (\<exists>new past. Done s = h @ new \<and>
        mset (gets new) + mset (concat (map pending (Threads s))) + mset past = mset [0..<NextIndex s] \<and>
        int (length past) + Waiting s = int (length (Threads s)) \<and>
        length past = length (filter (\<lambda>p. p = Finished) (Threads s)) \<and>
        (\<forall>t\<in>set past. length (TraceIDs j) \<le> t) \<and> (\<forall>t\<in>set (gets new). t < length (TraceIDs j)))"

definition pool_ok :: "job \<Rightarrow> download_event list \<Rightarrow> pool \<Rightarrow> bool" where
  "pool_ok j h s \<longleftrightarrow> length (Threads s) = threads \<and> mutex_ok s \<and> index_ok j s \<and> claims_ok j h s"

text \<open>The steps, one by one.\<close>

lemma thread_step_cases:
  assumes "thread_step env j i s = Some s'"
  obtains
    (lock) "Threads s ! i = Locking" "Owner s = None" "s' = s\<lparr>Owner := Some i, Threads := (Threads s)[i := ReadIndex]\<rparr>"
  | (read) "Threads s ! i = ReadIndex" "s' = s\<lparr>Threads := (Threads s)[i := LoadIndex (NextIndex s)]\<rparr>"
  | (load) t where "Threads s ! i = LoadIndex t" "s' = s\<lparr>Threads := (Threads s)[i := StoreIndex t (NextIndex s)]\<rparr>"
  | (store) t v where "Threads s ! i = StoreIndex t v" "s' = s\<lparr>NextIndex := v + 1, Threads := (Threads s)[i := Unlocking t]\<rparr>"
  | (unlock) t where "Threads s ! i = Unlocking t" "s' = s\<lparr>Owner := None, Threads := (Threads s)[i := Checking t]\<rparr>"
  | (finish) t where "Threads s ! i = Checking t" "length (TraceIDs j) \<le> t"
      "s' = s\<lparr>Waiting := Waiting s - 1, Threads := (Threads s)[i := Finished]\<rparr>"
  | (check) t where "Threads s ! i = Checking t" "t < length (TraceIDs j)" "s' = s\<lparr>Threads := (Threads s)[i := Getting t]\<rparr>"
  | (download) p e where "download_step env j (Done s) (Threads s ! i) = Some (p, e)"
      "s' = s\<lparr>Done := Done s @ [e], Threads := (Threads s)[i := p]\<rparr>"
  using assms by (cases "Threads s ! i") (auto simp: thread_step_def Let_def split: if_splits)

lemma download_step_cases:
  assumes "download_step env j h p = Some (p', e)"
  obtains
    (get) t where "p = Getting t" "p' = Creating t \<or> p' = Locking" "requested e = [t]"
  | (other) t where "p \<in> {Creating t, Copying t, ClosingFile t, ClosingBody t}"
      "p' \<in> {Copying t, ClosingFile t, ClosingBody t, Locking}" "requested e = []"
  using assms by (cases p) (auto simp: Let_def)

lemma download_step_plain:
  assumes "download_step env j h p = Some (p', e)"
  shows "pending p = requested e" "pending p' = []" "\<not> critical p" "\<not> critical p'" "p \<noteq> Finished" "p' \<noteq> Finished"
    "at_index n p'"
  using assms by (cases rule: download_step_cases; auto)+

lemma download_step_range: "\<lbrakk>download_step env j h p = Some (p', e); in_range len p\<rbrakk> \<Longrightarrow> in_range len p'"
  by (cases p) (auto simp: in_range_def Let_def)

lemma mutex_ok_step:
  assumes "mutex_ok s" and i: "i < length (Threads s)" and "thread_step env j i s = Some s'"
  shows "mutex_ok s'"
  using assms(3)
proof (cases rule: thread_step_cases)
  case (download p e)
  then show ?thesis
    using assms(1) i download_step_plain(3,4) [OF download(1)] by (auto simp: mutex_ok_def nth_list_update)
qed (use assms(1) i in \<open>auto simp: mutex_ok_def nth_list_update\<close>)

lemma at_index_plain: "\<lbrakk>at_index n p; \<not> critical p\<rbrakk> \<Longrightarrow> at_index m p"
  by (cases p) simp_all

lemma index_ok_step:
  assumes "index_ok j s" and "mutex_ok s" and i: "i < length (Threads s)" and "thread_step env j i s = Some s'"
  shows "index_ok j s'"
  using assms(4)
proof (cases rule: thread_step_cases)
  case (store t v)
  have "\<not> critical (Threads s ! k)" if "k < length (Threads s)" "k \<noteq> i" for k
    using assms(2) that i store(1) by (auto simp: mutex_ok_def)
  then show ?thesis
    using assms(1) i store by (auto simp: index_ok_def nth_list_update in_range_def intro: at_index_plain)
next
  case (download p e)
  then show ?thesis
    using assms(1) i download_step_plain(7) [OF download(1)] download_step_range [OF download(1)]
    by (auto simp: index_ok_def nth_list_update)
qed (use assms(1) i in \<open>auto simp: index_ok_def nth_list_update in_range_def split: pc.splits\<close>)

lemma claims_update:
  assumes "i < length (Threads s)"
  shows "mset (concat (map pending ((Threads s)[i := p]))) + mset (pending (Threads s ! i)) =
      mset (concat (map pending (Threads s))) + mset (pending p)"
    and "length (filter (\<lambda>p. p = Finished) ((Threads s)[i := p])) + (if Threads s ! i = Finished then 1 else 0) =
      length (filter (\<lambda>p. p = Finished) (Threads s)) + (if p = Finished then 1 else 0)"
  using mset_concat_update [OF assms] length_filter_update [OF assms, of "\<lambda>p. p = Finished"] by simp_all

lemma gets_simps [simp]: "gets [] = []" "gets (h @ [e]) = gets h @ requested e"
  by (simp_all add: gets_def)


text \<open>A step that takes and gives up no index leaves the claims as they are.\<close>

lemma claims_ok_kept:
  assumes "claims_ok j h s" and i: "i < length (Threads s)"
    and "Threads s' = (Threads s)[i := p]" "Done s' = Done s" "NextIndex s' = NextIndex s" "Waiting s' = Waiting s"
    and "pending p = pending (Threads s ! i)" "p \<noteq> Finished" "Threads s ! i \<noteq> Finished"
  shows "claims_ok j h s'"
proof -
  obtain new past where "Done s = h @ new"
    "mset (gets new) + mset (concat (map pending (Threads s))) + mset past = mset [0..<NextIndex s]"
    "int (length past) + Waiting s = int (length (Threads s))"
    "length past = length (filter (\<lambda>p. p = Finished) (Threads s))"
    "\<forall>t\<in>set past. length (TraceIDs j) \<le> t" "\<forall>t\<in>set (gets new). t < length (TraceIDs j)"
    using assms(1) unfolding claims_ok_def by blast
  then show ?thesis
    unfolding claims_ok_def using claims_update [OF i, of p] assms(3-9)
    by (intro exI [of _ new] exI [of _ past]) auto
qed

lemma claims_ok_step:
  assumes "claims_ok j h s" and "index_ok j s" and i: "i < length (Threads s)" and "thread_step env j i s = Some s'"
  shows "claims_ok j h s'"
proof -
  obtain new past where ok: "Done s = h @ new"
    "mset (gets new) + mset (concat (map pending (Threads s))) + mset past = mset [0..<NextIndex s]"
    "int (length past) + Waiting s = int (length (Threads s))"
    "length past = length (filter (\<lambda>p. p = Finished) (Threads s))"
    "\<forall>t\<in>set past. length (TraceIDs j) \<le> t" "\<forall>t\<in>set (gets new). t < length (TraceIDs j)"
    using assms(1) unfolding claims_ok_def by blast
  have at: "at_index (NextIndex s) (Threads s ! i)" "in_range (length (TraceIDs j)) (Threads s ! i)"
    using assms(2) i by (auto simp: index_ok_def)
  note upd = claims_update [OF i]
  note kept = claims_ok_kept [OF assms(1) i]
  from assms(4) show ?thesis
  proof (cases rule: thread_step_cases)
    case (finish t)
    have "mset (gets new) + mset (concat (map pending ((Threads s)[i := Finished]))) + mset (past @ [t]) = mset [0..<NextIndex s]"
    proof -
      have "mset (concat (map pending (Threads s))) = add_mset t (mset (concat (map pending ((Threads s)[i := Finished]))))"
        using upd(1) [of Finished] finish(1) by simp
      then show ?thesis using ok(2) by simp
    qed
    then show ?thesis
      unfolding claims_ok_def using ok upd(2) [of Finished] finish
      by (intro exI [of _ new] exI [of _ "past @ [t]"]) auto
  next
    case (store t v)
    then have "mset (gets new) + mset (concat (map pending ((Threads s)[i := Unlocking t]))) + mset past = mset [0..<v + 1]"
      using upd(1) [of "Unlocking t"] ok(2) at(1) by simp
    then show ?thesis
      unfolding claims_ok_def using ok upd(2) [of "Unlocking t"] store
      by (intro exI [of _ new] exI [of _ past]) auto
  next
    case (download p e)
    note plain = download_step_plain [OF download(1)]
    have "mset (gets (new @ [e])) + mset (concat (map pending ((Threads s)[i := p]))) + mset past = mset [0..<NextIndex s]"
      using upd(1) [of p] ok(2) plain(1,2) by (simp add: ac_simps)
    moreover have "\<forall>t\<in>set (requested e). t < length (TraceIDs j)"
      using download(1) at(2) by (cases rule: download_step_cases) (auto simp: in_range_def)
    ultimately show ?thesis
      unfolding claims_ok_def using ok upd(2) [of p] plain(5,6) download
      by (intro exI [of _ "new @ [e]"] exI [of _ past]) auto
  next
    case lock
    then show ?thesis by (intro kept [of _ ReadIndex]) auto
  next
    case read
    then show ?thesis by (intro kept [of _ "LoadIndex (NextIndex s)"]) auto
  next
    case (load t)
    then show ?thesis by (intro kept [of _ "StoreIndex t (NextIndex s)"]) auto
  next
    case (unlock t)
    then show ?thesis by (intro kept [of _ "Checking t"]) auto
  next
    case (check t)
    then show ?thesis by (intro kept [of _ "Getting t"]) auto
  qed
qed

lemma pool_ok_step:
  assumes "pool_ok j h s" and "pool_step env j s s'"
  shows "pool_ok j h s'"
  using assms(2)
proof cases
  case (run i)
  have "length (Threads s') = length (Threads s)"
    using run(2) by (cases rule: thread_step_cases) simp_all
  then show ?thesis
    using assms(1) mutex_ok_step [OF _ run] index_ok_step [OF _ _ run] claims_ok_step [OF _ _ run]
    by (simp add: pool_ok_def)
qed

lemma pool_ok_start: "pool_ok j h (start_pool h)"
proof -
  have "concat (map pending (replicate n Locking)) = []" "filter (\<lambda>p. p = Finished) (replicate n Locking) = []" for n
    by (induction n) simp_all
  then show ?thesis
    by (simp add: pool_ok_def start_pool_def mutex_ok_def index_ok_def claims_ok_def in_range_def gets_def)
qed

subsection \<open>Termination\<close>

text \<open>The steps a goroutine still takes until it asks for the next index.\<close>

fun steps_left :: "pc \<Rightarrow> nat" where
  "steps_left (Unlocking t) = 12" | "steps_left (Checking t) = 11" | "steps_left (Getting t) = 10"
| "steps_left (Creating t) = 9" | "steps_left (Copying t) = 8" | "steps_left (ClosingFile t) = 7"
| "steps_left (ClosingBody t) = 6" | "steps_left Locking = 5" | "steps_left ReadIndex = 4"
| "steps_left (LoadIndex t) = 3" | "steps_left (StoreIndex t v) = 2" | "steps_left Finished = 0"

definition work :: "job \<Rightarrow> pool \<Rightarrow> nat" where
  "work j s = 11 * (length (TraceIDs j) + threads - NextIndex s) + sum_list (map steps_left (Threads s))"

lemma steps_left_download:
  "download_step env j h p = Some (p', e) \<Longrightarrow> steps_left p' < steps_left p"
  by (cases p) (auto simp: Let_def)

text \<open>An index is handed out only while fewer than \<open>len + 10\<close> have been.\<close>

lemma index_bound:
  assumes "pool_ok j h s" and i: "i < length (Threads s)" and "Threads s ! i = StoreIndex t v"
  shows "NextIndex s < length (TraceIDs j) + threads"
proof -
  obtain new past where ok: "Done s = h @ new"
    "mset (gets new) + mset (concat (map pending (Threads s))) + mset past = mset [0..<NextIndex s]"
    "length past = length (filter (\<lambda>p. p = Finished) (Threads s))"
    "\<forall>t\<in>set (gets new). t < length (TraceIDs j)"
    using assms(1) unfolding pool_ok_def claims_ok_def by blast
  have "distinct (gets new)"
    using ok(2) by (metis distinct_upt mset_eq_imp_distinct_iff mset_append distinct_append)
  moreover have "set (gets new) \<subseteq> {..<length (TraceIDs j)}" using ok(4) by auto
  ultimately have g: "length (gets new) \<le> length (TraceIDs j)"
    by (metis card_lessThan card_mono distinct_card finite_lessThan)
  have "length (concat (map pending ps)) + length (filter (\<lambda>p. p = Finished) ps) \<le> length ps" for ps
  proof (induction ps)
    case (Cons p ps)
    then show ?case by (cases p) auto
  qed simp
  moreover have "length (concat (map pending ps)) + length (filter (\<lambda>p. p = Finished) ps) < length ps"
    if "k < length ps" "ps ! k = StoreIndex t v" for ps k
    using that
  proof (induction ps arbitrary: k)
    case (Cons p ps)
    show ?case
    proof (cases k)
      case 0
      then show ?thesis using Cons.prems calculation [of ps] by simp
    next
      case (Suc m)
      then have "length (concat (map pending ps)) + length (filter (\<lambda>p. p = Finished) ps) < length ps"
        using Cons.IH [of m] Cons.prems by simp
      then show ?thesis by (cases p) auto
    qed
  qed simp
  from this [OF i assms(3)] have "length (concat (map pending (Threads s))) + length past < threads"
    using ok(3) assms(1) by (simp add: pool_ok_def)
  moreover have "length (gets new) + length (concat (map pending (Threads s))) + length past = NextIndex s"
    using arg_cong [OF ok(2), of size] by (simp add: size_mset)
  ultimately show ?thesis using g by linarith
qed

lemma work_decreases:
  assumes "pool_ok j h s" and "pool_step env j s s'"
  shows "work j s' < work j s"
  using assms(2)
proof cases
  case (run i)
  note upd = sum_list_update_nat [OF run(1), of steps_left]
  from run(2) show ?thesis
  proof (cases rule: thread_step_cases)
    case (store t v)
    have "v = NextIndex s" using assms(1) run(1) store(1) by (fastforce simp: pool_ok_def index_ok_def)
    then show ?thesis
      using upd [of "Unlocking t"] store index_bound [OF assms(1) run(1) store(1)] by (simp add: work_def)
  next
    case (download p e)
    then show ?thesis using upd [of p] steps_left_download [OF download(1)] by (simp add: work_def)
  next
    case lock
    then show ?thesis using upd [of ReadIndex] by (simp add: work_def)
  next
    case read
    then show ?thesis using upd [of "LoadIndex (NextIndex s)"] by (simp add: work_def)
  next
    case (load t)
    then show ?thesis using upd [of "StoreIndex t (NextIndex s)"] by (simp add: work_def)
  next
    case (unlock t)
    then show ?thesis using upd [of "Checking t"] by (simp add: work_def)
  next
    case (finish t)
    then show ?thesis using upd [of Finished] by (simp add: work_def)
  next
    case (check t)
    then show ?thesis using upd [of "Getting t"] by (simp add: work_def)
  qed
qed

subsection \<open>Progress\<close>

lemma all_finished:
  assumes "pool_ok j h s" and "wait_returns s"
  shows "\<forall>i<length (Threads s). Threads s ! i = Finished"
proof -
  have "length (filter (\<lambda>p. p = Finished) (Threads s)) = length (Threads s)"
    using assms by (auto simp: pool_ok_def claims_ok_def wait_returns_def)
  then show ?thesis by (metis (mono_tags, lifting) filter_id_conv length_filter_less less_irrefl nth_mem)
qed

lemma some_unfinished:
  assumes "pool_ok j h s" and "\<not> wait_returns s"
  shows "\<exists>i<length (Threads s). Threads s ! i \<noteq> Finished"
proof (rule ccontr)
  assume "\<not> ?thesis"
  then have "filter (\<lambda>p. p = Finished) (Threads s) = Threads s" by (auto simp: filter_id_conv in_set_conv_nth)
  then show False using assms by (auto simp: pool_ok_def claims_ok_def wait_returns_def)
qed

lemma thread_can_run:
  assumes "Threads s ! i \<noteq> Finished" and "Threads s ! i = Locking \<Longrightarrow> Owner s = None"
  shows "\<exists>s'. thread_step env j i s = Some s'"
  using assms by (cases "Threads s ! i") (auto simp: thread_step_def Let_def)

lemma pool_progress:
  assumes ok: "pool_ok j h s" and "\<not> wait_returns s"
  shows "\<exists>s'. pool_step env j s s'"
proof (cases "Owner s")
  case None
  obtain i where "i < length (Threads s)" "Threads s ! i \<noteq> Finished" using some_unfinished [OF assms] by blast
  with thread_can_run [of s i env j] None show ?thesis by (auto intro: pool_step.run)
next
  case (Some i)
  then have "i < length (Threads s)" "critical (Threads s ! i)" using ok by (auto simp: pool_ok_def mutex_ok_def)
  moreover from this have "Threads s ! i \<noteq> Finished" "Threads s ! i \<noteq> Locking" by auto
  ultimately show ?thesis using thread_can_run [of s i env j] by (auto intro: pool_step.run)
qed

text \<open>The downloads meet the contract of a program that ends under every schedule.\<close>

text \<open>When the wait returns all goroutines have drawn an index past the last trace, and so every trace
  has been requested.\<close>

lemma index_past:
  assumes ok: "pool_ok j h s" and "wait_returns s"
  shows "length (TraceIDs j) < NextIndex s"
proof -
  from ok obtain new past where claims: "mset (gets new) + mset (concat (map pending (Threads s))) + mset past = mset [0..<NextIndex s]"
    "length past = length (filter (\<lambda>p. p = Finished) (Threads s))" "\<forall>t\<in>set past. length (TraceIDs j) \<le> t"
    unfolding pool_ok_def claims_ok_def by blast
  have "filter (\<lambda>p. p = Finished) (Threads s) = Threads s"
    using all_finished [OF assms] by (auto simp: filter_id_conv in_set_conv_nth)
  then have "past \<noteq> []" using claims(2) ok by (auto simp: pool_ok_def threads_def)
  then obtain u where u: "u \<in> set past" by (cases past) auto
  then have "u \<in># mset [0..<NextIndex s]" unfolding claims(1) [symmetric] by simp
  then show ?thesis using u claims(3) by (auto simp: le_less_trans)
qed

definition requested_once :: "job \<Rightarrow> download_event list \<Rightarrow> pool \<Rightarrow> bool" where
  "requested_once j h s \<longleftrightarrow> (\<exists>new. Done s = h @ new \<and> distinct (gets new) \<and> set (gets new) \<subseteq> {0..<length (TraceIDs j)} \<and>
     (wait_returns s \<longrightarrow> mset (gets new) = mset [0..<length (TraceIDs j)]))"

lemma pool_ok_requested:
  assumes ok: "pool_ok j h s"
  shows "requested_once j h s"
proof -
  from ok obtain new past where s: "Done s = h @ new"
    "mset (gets new) + mset (concat (map pending (Threads s))) + mset past = mset [0..<NextIndex s]"
    "\<forall>t\<in>set past. length (TraceIDs j) \<le> t" "\<forall>t\<in>set (gets new). t < length (TraceIDs j)"
    unfolding pool_ok_def claims_ok_def by blast
  have d: "distinct (gets new)"
    using s(2) by (metis distinct_upt mset_eq_imp_distinct_iff mset_append distinct_append)
  have "mset (gets new) = mset [0..<length (TraceIDs j)]" if wait: "wait_returns s"
  proof -
    have "\<forall>p\<in>set (Threads s). p = Finished" using all_finished [OF ok wait] by (auto simp: in_set_conv_nth)
    then have "concat (map pending (Threads s)) = []" by (auto simp: concat_eq_Nil_conv)
    then have union: "set (gets new) \<union> set past = {0..<NextIndex s}"
      using arg_cong [OF s(2), of set_mset] by (simp add: Un_commute)
    have "t \<in> set (gets new)" if "t < length (TraceIDs j)" for t
      using that union s(3) index_past [OF ok wait] by (auto simp: set_eq_iff) (meson leD less_trans)
    then have "set (gets new) = {0..<length (TraceIDs j)}" using s(4) by auto
    then show ?thesis using mset_set_set [OF d] by simp
  qed
  then show ?thesis using s(1,4) d unfolding requested_once_def by (intro exI [of _ new]) auto
qed

interpretation downloads: computing_system "pool_step env j" "start_pool h" "pool_ok j h" "work j" wait_returns "requested_once j h"
  for env j h
  by unfold_locales (fact pool_ok_start pool_ok_step work_decreases pool_progress | erule pool_ok_requested)+

lemmas pool_ok_runs = downloads.runs_ok and run_to_the_end = downloads.runs_end

lemma work_start: "work j (start_pool h) = 11 * length (TraceIDs j) + 160"
  by (simp add: work_def start_pool_def threads_def eval_nat_numeral)

subsection \<open>What is done for one trace\<close>

fun about :: "download_event \<Rightarrow> nat" where
  "about (HttpGet t u e) = t" | "about (CreateJson t p e) = t" | "about (CopyJson t e) = t"
| "about (CloseJson t) = t" | "about (CloseResponse t) = t"

text \<open>An outside world whose answers do not depend on the schedule.\<close>

definition stateless :: "download_env \<Rightarrow> bool" where
  "stateless env \<longleftrightarrow> (\<forall>h. http_get env h = http_get env [] \<and> create_json env h = create_json env [] \<and>
     copy_json env h = copy_json env [])"

definition download_log :: "download_env \<Rightarrow> job \<Rightarrow> nat \<Rightarrow> download_event list" where
  "download_log env j t = snd (run_state (DownloadFile env t (trace_file j t) (trace_url j t)) [])"

definition opened :: "download_env \<Rightarrow> job \<Rightarrow> nat \<Rightarrow> download_event list" where
  "opened env j t = [HttpGet t (trace_url j t) None, CreateJson t (trace_file j t) (create_json env [] (trace_file j t))]"

fun log_so_far :: "download_env \<Rightarrow> job \<Rightarrow> pc \<Rightarrow> download_event list" where
  "log_so_far env j (Creating t) = [HttpGet t (trace_url j t) None]"
| "log_so_far env j (Copying t) = opened env j t"
| "log_so_far env j (ClosingFile t) = opened env j t @ [CopyJson t (copy_json env [] t)]"
| "log_so_far env j (ClosingBody t) = opened env j t @
     (if create_json env [] (trace_file j t) = None then [CopyJson t (copy_json env [] t), CloseJson t] else [])"
| "log_so_far env j p = []"

text \<open>The world has let the goroutine get where it is.\<close>

fun got_here :: "download_env \<Rightarrow> job \<Rightarrow> pc \<Rightarrow> bool" where
  "got_here env j (Creating t) = (http_get env [] (trace_url j t) = None)"
| "got_here env j (Copying t) = (http_get env [] (trace_url j t) = None \<and> create_json env [] (trace_file j t) = None)"
| "got_here env j (ClosingFile t) = (http_get env [] (trace_url j t) = None \<and> create_json env [] (trace_file j t) = None)"
| "got_here env j (ClosingBody t) = (http_get env [] (trace_url j t) = None)"
| "got_here env j p = True"

fun held :: "pc \<Rightarrow> nat option" where
  "held (Unlocking t) = Some t" | "held (Checking t) = Some t" | "held (Getting t) = Some t"
| "held (Creating t) = Some t" | "held (Copying t) = Some t" | "held (ClosingFile t) = Some t"
| "held (ClosingBody t) = Some t" | "held p = None"

definition log_of :: "nat \<Rightarrow> download_event list \<Rightarrow> download_event list" where
  "log_of t h = filter (\<lambda>e. about e = t) h"

lemma log_of_simps [simp]:
  "log_of t [] = []" "log_of t (h @ [e]) = (if about e = t then log_of t h @ [e] else log_of t h)"
  by (simp_all add: log_of_def)

text \<open>Only one goroutine holds a trace, its log is what that goroutine has done for it, and the log of
  a trace nobody holds is empty or complete.\<close>

definition holding_ok :: "download_env \<Rightarrow> job \<Rightarrow> pool \<Rightarrow> bool" where
  "holding_ok env j s \<longleftrightarrow>
     (\<forall>i<length (Threads s). \<forall>k<length (Threads s). \<forall>t.
        held (Threads s ! i) = Some t \<and> held (Threads s ! k) = Some t \<longrightarrow> i = k) \<and>
     (\<forall>i<length (Threads s). \<forall>t. held (Threads s ! i) = Some t \<longrightarrow>
        t < NextIndex s \<and> log_of t (Done s) = log_so_far env j (Threads s ! i) \<and> got_here env j (Threads s ! i)) \<and>
     (\<forall>t. (\<forall>i<length (Threads s). held (Threads s ! i) \<noteq> Some t) \<longrightarrow>
        log_of t (Done s) = (if t < NextIndex s \<and> t < length (TraceIDs j) then download_log env j t else []))"

lemma download_log_eq:
  "download_log env j t =
     (let u = trace_url j t; f = trace_file j t; err = http_get env [] u
      in if err \<noteq> None then [HttpGet t u err]
         else let err = create_json env [HttpGet t u None] f
              in if err \<noteq> None then [HttpGet t u None, CreateJson t f err, CloseResponse t]
                 else [HttpGet t u None, CreateJson t f None,
                   CopyJson t (copy_json env [HttpGet t u None, CreateJson t f None] t), CloseJson t, CloseResponse t])"
  by (simp add: download_log_def DownloadFile_def run_state_bind Let_def)

lemma log_of_append [simp]: "log_of t (h @ g) = log_of t h @ log_of t g"
  by (simp add: log_of_def)

lemma log_of_all: "\<forall>e\<in>set es. about e = t \<Longrightarrow> log_of u es = (if u = t then es else [])"
  by (auto simp: log_of_def filter_empty_conv)

lemma holding_keep:
  assumes ok: "holding_ok env j s" and i: "i < length (Threads s)"
    and s': "Threads s' = (Threads s)[i := p]" "Done s' = Done s @ es" "NextIndex s' = NextIndex s"
    and held: "held p = held (Threads s ! i)" "\<forall>e\<in>set es. held p = Some (about e)"
    and "log_so_far env j p = log_so_far env j (Threads s ! i) @ es" "got_here env j p"
  shows "holding_ok env j s'"
proof -
  have h: "held (Threads s' ! k) = held (Threads s ! k)" if "k < length (Threads s)" for k
    using that s'(1) held(1) i by (simp add: nth_list_update)
  have es: "log_of u es = (if held p = Some u then es else [])" for u
    using held(2) by (cases "held p = Some u") (auto simp: log_of_def filter_id_conv filter_empty_conv)
  have len: "length (Threads s') = length (Threads s)" using s'(1) by simp
  have here: "u < NextIndex s' \<and> log_of u (Done s') = log_so_far env j (Threads s' ! k) \<and> got_here env j (Threads s' ! k)"
    if k: "k < length (Threads s)" and u: "held (Threads s' ! k) = Some u" for k u
  proof -
    have u': "held (Threads s ! k) = Some u" using h [OF k] u by simp
    then have *: "u < NextIndex s" "log_of u (Done s) = log_so_far env j (Threads s ! k)" "got_here env j (Threads s ! k)"
      using ok k unfolding holding_ok_def by blast+
    show ?thesis
    proof (cases "k = i")
      case True
      then show ?thesis using * u u' s' es assms(8,9) i held(1) by simp
    next
      case False
      then have "held p \<noteq> Some u" using ok k u' i held(1) unfolding holding_ok_def by metis
      then show ?thesis using * s' es False by simp
    qed
  qed
  have none: "log_of u (Done s') = (if u < NextIndex s' \<and> u < length (TraceIDs j) then download_log env j u else [])"
    if "\<forall>k<length (Threads s). held (Threads s' ! k) \<noteq> Some u" for u
  proof -
    have no: "\<forall>k<length (Threads s). held (Threads s ! k) \<noteq> Some u" using that h by simp
    then have "held p \<noteq> Some u" using i held(1) by simp
    then show ?thesis using ok no s' es unfolding holding_ok_def by simp
  qed
  have "\<forall>a<length (Threads s). \<forall>b<length (Threads s). \<forall>t. held (Threads s' ! a) = Some t \<and> held (Threads s' ! b) = Some t \<longrightarrow> a = b"
    using ok h unfolding holding_ok_def by metis
  then show ?thesis unfolding holding_ok_def len using here none by blast
qed

lemma holding_drop:
  assumes ok: "holding_ok env j s" and i: "i < length (Threads s)"
    and s': "Threads s' = (Threads s)[i := p]" "Done s' = Done s @ es" "NextIndex s' = NextIndex s"
    and held: "held p = None" "held (Threads s ! i) = Some t" "\<forall>e\<in>set es. about e = t"
    and log: "log_so_far env j (Threads s ! i) @ es = (if t < length (TraceIDs j) then download_log env j t else [])"
  shows "holding_ok env j s'"
proof -
  have h: "held (Threads s' ! k) = (if k = i then None else held (Threads s ! k))" if "k < length (Threads s)" for k
    using that s'(1) held(1) i by (simp add: nth_list_update)
  have es: "log_of u es = (if u = t then es else [])" for u by (rule log_of_all [OF held(3)])
  have len: "length (Threads s') = length (Threads s)" using s'(1) by simp
  have t: "t < NextIndex s" "log_of t (Done s) = log_so_far env j (Threads s ! i)"
    using ok i held(2) unfolding holding_ok_def by blast+
  have other: "u \<noteq> t" if "k < length (Threads s)" "k \<noteq> i" "held (Threads s ! k) = Some u" for k u
    using ok that i held(2) unfolding holding_ok_def by metis
  have here: "u < NextIndex s' \<and> log_of u (Done s') = log_so_far env j (Threads s' ! k) \<and> got_here env j (Threads s' ! k)"
    if k: "k < length (Threads s)" and u: "held (Threads s' ! k) = Some u" for k u
  proof -
    have k': "k \<noteq> i" "held (Threads s ! k) = Some u" using h [OF k] u by (auto split: if_splits)
    then have "u < NextIndex s" "log_of u (Done s) = log_so_far env j (Threads s ! k)" "got_here env j (Threads s ! k)"
      using ok k unfolding holding_ok_def by blast+
    then show ?thesis using s' es other [OF k k'] k'(1) by simp
  qed
  have none: "log_of u (Done s') = (if u < NextIndex s' \<and> u < length (TraceIDs j) then download_log env j u else [])"
    if "\<forall>k<length (Threads s). held (Threads s' ! k) \<noteq> Some u" for u
  proof (cases "u = t")
    case True
    then show ?thesis using t log es s' by simp
  next
    case False
    then have "\<forall>k<length (Threads s). held (Threads s ! k) \<noteq> Some u" using that h held(2) by (metis option.inject)
    then show ?thesis using ok s' es False unfolding holding_ok_def by simp
  qed
  have "\<forall>a<length (Threads s). \<forall>b<length (Threads s). \<forall>t. held (Threads s' ! a) = Some t \<and> held (Threads s' ! b) = Some t \<longrightarrow> a = b"
    using ok h unfolding holding_ok_def by (metis option.distinct(1))
  then show ?thesis unfolding holding_ok_def len using here none by blast
qed

lemma holding_claim:
  assumes ok: "holding_ok env j s" and i: "i < length (Threads s)"
    and s': "Threads s' = (Threads s)[i := Unlocking (NextIndex s)]" "Done s' = Done s" "NextIndex s' = NextIndex s + 1"
    and held: "held (Threads s ! i) = None"
  shows "holding_ok env j s'"
proof -
  have h: "held (Threads s' ! k) = (if k = i then Some (NextIndex s) else held (Threads s ! k))" if "k < length (Threads s)" for k
    using that s'(1) i by (simp add: nth_list_update)
  have len: "length (Threads s') = length (Threads s)" using s'(1) by simp
  have below: "u < NextIndex s" if "k < length (Threads s)" "held (Threads s ! k) = Some u" for k u
    using ok that unfolding holding_ok_def by blast
  then have new: "log_of (NextIndex s) (Done s) = []" using ok unfolding holding_ok_def by (metis less_irrefl)
  have here: "u < NextIndex s' \<and> log_of u (Done s') = log_so_far env j (Threads s' ! k) \<and> got_here env j (Threads s' ! k)"
    if k: "k < length (Threads s)" and u: "held (Threads s' ! k) = Some u" for k u
  proof (cases "k = i")
    case True
    then show ?thesis using h [OF k] u s' i new by simp
  next
    case False
    then have u: "held (Threads s ! k) = Some u" using h [OF k] u by simp
    then have "u < NextIndex s" "log_of u (Done s) = log_so_far env j (Threads s ! k)" "got_here env j (Threads s ! k)"
      using ok k unfolding holding_ok_def by blast+
    then show ?thesis using s' False by simp
  qed
  have none: "log_of u (Done s') = (if u < NextIndex s' \<and> u < length (TraceIDs j) then download_log env j u else [])"
    if "\<forall>k<length (Threads s). held (Threads s' ! k) \<noteq> Some u" for u
  proof -
    have "u \<noteq> NextIndex s" "\<forall>k<length (Threads s). held (Threads s ! k) \<noteq> Some u"
      using that h i held by (auto split: if_splits)
    then show ?thesis using ok s' unfolding holding_ok_def by simp
  qed
  have "\<forall>a<length (Threads s). \<forall>b<length (Threads s). \<forall>t. held (Threads s' ! a) = Some t \<and> held (Threads s' ! b) = Some t \<longrightarrow> a = b"
  proof (intro allI impI)
    fix a b t
    assume a: "a < length (Threads s)" and b: "b < length (Threads s)" and
      t: "held (Threads s' ! a) = Some t \<and> held (Threads s' ! b) = Some t"
    show "a = b"
      using t h [OF a] h [OF b] below [OF a] below [OF b] ok a b unfolding holding_ok_def
      by (cases "a = i"; cases "b = i") (auto split: if_splits)
  qed
  then show ?thesis unfolding holding_ok_def len using here none by blast
qed

lemma download_log_stateless:
  assumes "stateless env"
  shows "download_log env j t =
     (if http_get env [] (trace_url j t) \<noteq> None then [HttpGet t (trace_url j t) (http_get env [] (trace_url j t))]
      else opened env j t @
        (if create_json env [] (trace_file j t) = None then [CopyJson t (copy_json env [] t), CloseJson t] else []) @ [CloseResponse t])"
proof -
  from assms obtain G C K where "\<And>h. http_get env h = G" "\<And>h. create_json env h = C" "\<And>h. copy_json env h = K"
    unfolding stateless_def by blast
  then show ?thesis by (auto simp: download_log_eq opened_def Let_def)
qed

lemma download_step_log:
  assumes "stateless env" and "download_step env j h p = Some (p', e)" and "in_range (length (TraceIDs j)) p" and "got_here env j p"
  shows "\<exists>t. held p = Some t \<and> about e = t \<and> t < length (TraceIDs j) \<and>
    (if held p' = None then log_so_far env j p @ [e] = download_log env j t
     else held p' = Some t \<and> log_so_far env j p' = log_so_far env j p @ [e] \<and> got_here env j p')"
proof -
  from assms(1) obtain G C K where "\<And>h. http_get env h = G" "\<And>h. create_json env h = C" "\<And>h. copy_json env h = K"
    unfolding stateless_def by blast
  then show ?thesis
    using assms(2-4)
    by (cases p) (auto simp: in_range_def Let_def opened_def download_log_stateless [OF assms(1)] split: if_splits)
qed

lemma holding_ok_step:
  assumes env: "stateless env" and ok: "holding_ok env j s" and index: "index_ok j s"
    and i: "i < length (Threads s)" and step: "thread_step env j i s = Some s'"
  shows "holding_ok env j s'"
  using step
proof (cases rule: thread_step_cases)
  case (store t v)
  then have "t = NextIndex s" "v = NextIndex s" using index i by (fastforce simp: index_ok_def)+
  with store show ?thesis by (intro holding_claim [OF ok i]) simp_all
next
  case (finish t)
  then show ?thesis by (intro holding_drop [OF ok i, where p = Finished and es = "[]" and t = t]) simp_all
next
  case (download p e)
  have range: "in_range (length (TraceIDs j)) (Threads s ! i)" using index i by (simp add: index_ok_def)
  have "held (Threads s ! i) \<noteq> None" using download(1) by (cases "Threads s ! i") simp_all
  then have "got_here env j (Threads s ! i)" using ok i unfolding holding_ok_def by blast
  from download_step_log [OF env download(1) range this] obtain t where t: "held (Threads s ! i) = Some t" "about e = t"
    "t < length (TraceIDs j)"
    "if held p = None then log_so_far env j (Threads s ! i) @ [e] = download_log env j t
     else held p = Some t \<and> log_so_far env j p = log_so_far env j (Threads s ! i) @ [e] \<and> got_here env j p" by blast
  show ?thesis
  proof (cases "held p = None")
    case True
    with t download(2) show ?thesis by (intro holding_drop [OF ok i, where p = p and es = "[e]" and t = t]) simp_all
  next
    case False
    with t download(2) show ?thesis by (intro holding_keep [OF ok i, where p = p and es = "[e]"]) simp_all
  qed
next
  case lock
  then show ?thesis by (intro holding_keep [OF ok i, where p = ReadIndex and es = "[]"]) simp_all
next
  case read
  then show ?thesis by (intro holding_keep [OF ok i, where p = "LoadIndex (NextIndex s)" and es = "[]"]) simp_all
next
  case (load t)
  then show ?thesis by (intro holding_keep [OF ok i, where p = "StoreIndex t (NextIndex s)" and es = "[]"]) simp_all
next
  case (unlock t)
  then show ?thesis by (intro holding_keep [OF ok i, where p = "Checking t" and es = "[]"]) simp_all
next
  case (check t)
  then show ?thesis by (intro holding_keep [OF ok i, where p = "Getting t" and es = "[]"]) simp_all
qed

lemma holding_ok_runs: "runs env j (start_pool []) n s \<Longrightarrow> stateless env \<Longrightarrow> holding_ok env j s"
proof (induction rule: runs_by.induct)
  case start
  then show ?case by (simp add: holding_ok_def start_pool_def)
next
  case (more n s' s'')
  from more.hyps(2) show ?case
  proof cases
    case (run i)
    then show ?thesis
      using holding_ok_step [OF more.prems _ _ run] more.IH [OF more.prems] pool_ok_runs [OF more.hyps(1)]
      by (simp add: pool_ok_def)
  qed
qed

subsection \<open>Properties\<close>

text \<open>
  Property C1: whatever the schedule and whatever the world answers, no trace is requested twice,
  and when \<open>wg.Wait()\<close> returns each has been requested: the requests are the indices of all traces
  in some order.
\<close>

theorem downloads_once:
  assumes "runs env j (start_pool h) n s"
  shows "\<exists>new. Done s = h @ new \<and> distinct (gets new) \<and> set (gets new) \<subseteq> {0..<length (TraceIDs j)} \<and>
    (wait_returns s \<longrightarrow> mset (gets new) = mset [0..<length (TraceIDs j)])"
  using pool_ok_requested [OF pool_ok_runs [OF assms]] unfolding requested_once_def .

text \<open>
  Property C19: the downloads end. No schedule takes more than \<open>11 n + 160\<close> steps for \<open>n\<close> traces, no
  reachable state is a deadlock, and so \<open>wg.Wait()\<close> returns.
\<close>

theorem downloads_finish:
  "(\<exists>n s. runs env j (start_pool h) n s \<and> wait_returns s) \<and>
   (\<forall>n s. runs env j (start_pool h) n s \<longrightarrow>
      n \<le> 11 * length (TraceIDs j) + 160 \<and> (wait_returns s \<or> (\<exists>s'. pool_step env j s s')))"
  using downloads.computes [of env j h] unfolding work_start by meson

text \<open>
  Property C20: the goroutines implement the downloads done one after the other. In a world whose
  answers do not depend on the schedule, when \<open>wg.Wait()\<close> returns the operations on each trace,
  in their order, are those of \<open>DownloadFile\<close> run alone for it: every file and response opened
  is closed, an error ends that trace only.
\<close>

theorem downloads_refine:
  assumes "stateless env" and "runs env j (start_pool []) n s" and "wait_returns s" and "t < length (TraceIDs j)"
  shows "log_of t (Done s) = snd (run_state (DownloadFile env t (trace_file j t) (trace_url j t)) [])"
proof -
  have ok: "pool_ok j [] s" by (rule pool_ok_runs [OF assms(2)])
  have fin: "\<forall>i<length (Threads s). Threads s ! i = Finished" by (rule all_finished [OF ok assms(3)])
  have "length (TraceIDs j) < NextIndex s" by (rule index_past [OF ok assms(3)])
  then show ?thesis
    using holding_ok_runs [OF assms(2,1)] fin assms(4) unfolding holding_ok_def download_log_def by simp
qed

definition demo_job :: job where
  "demo_job = \<lparr>TraceIDs = [''a'', ''b''], ZipkinURL = ''http://zipkin'', DownloadDir = ''out''\<rparr>"

definition demo_download_env :: download_env where
  "demo_download_env = \<lparr>http_get = \<lambda>h u. None, create_json = \<lambda>h f. None, copy_json = \<lambda>h t. None\<rparr>"

lemma demo_stateless: "stateless demo_download_env"
  by (simp add: stateless_def demo_download_env_def)

theorem downloads_once_witness:
  "\<exists>n s. runs demo_download_env demo_job (start_pool []) n s \<and> mset (gets (Done s)) = mset [0, 1]"
proof -
  obtain n s where run: "runs demo_download_env demo_job (start_pool []) n s" "wait_returns s"
    using run_to_the_end [OF runs_by.start] by blast
  from downloads_once [OF run(1)] run(2) have "mset (gets (Done s)) = mset [0..<length (TraceIDs demo_job)]" by auto
  with run(1) show ?thesis by (auto simp: demo_job_def upt_rec)
qed

theorem downloads_finish_witness:
  "\<exists>n s. runs demo_download_env demo_job (start_pool []) n s \<and> wait_returns s \<and> n \<le> 182"
proof -
  obtain n s where run: "runs demo_download_env demo_job (start_pool []) n s" "wait_returns s"
    using downloads_finish [of demo_download_env demo_job "[]"] by blast
  moreover have "n \<le> 11 * length (TraceIDs demo_job) + 160"
    using downloads_finish [of demo_download_env demo_job "[]"] run(1) by blast
  ultimately show ?thesis by (auto simp: demo_job_def)
qed

theorem downloads_refine_witness:
  "\<exists>n s. runs demo_download_env demo_job (start_pool []) n s \<and>
     log_of 1 (Done s) = [HttpGet 1 ''http://zipkin/zipkin/api/v2/trace/b'' None, CreateJson 1 ''out/b.json'' None,
       CopyJson 1 None, CloseJson 1, CloseResponse 1]"
proof -
  obtain n s where run: "runs demo_download_env demo_job (start_pool []) n s" "wait_returns s"
    using run_to_the_end [OF runs_by.start] by blast
  have "1 < length (TraceIDs demo_job)" by (simp add: demo_job_def)
  from downloads_refine [OF demo_stateless run this] run(1) show ?thesis
    by (auto simp: DownloadFile_def run_state_bind trace_url_def trace_file_def demo_job_def demo_download_env_def)
qed

end
