(* ===== verification/TraceMain.thy ===== *)
theory TraceMain
  imports TraceDownload
begin

text \<open>
  \<open>main\<close> and the start of \<open>downloadTraces\<close> of \<open>tools/trace-plotter\<close>: loading, parsing, downloading
  and plotting put together. The concurrent downloads do not touch the traces; they run under a
  schedule that is part of the world.
\<close>

subsection \<open>A schedule of the downloads\<close>

text \<open>The goroutines of the downloads under a given schedule: each of its numbers lets that goroutine take
  a step, and passes over one that cannot run.\<close>

fun run_pool :: "download_env \<Rightarrow> job \<Rightarrow> nat list \<Rightarrow> pool \<Rightarrow> pool" where
  "run_pool env j [] s = s"
| "run_pool env j (i # is) s =
     run_pool env j is
       (if i < length (Threads s) then case thread_step env j i s of None \<Rightarrow> s | Some s' \<Rightarrow> s' else s)"

lemma run_pool_append: "run_pool env j (is @ ks) s = run_pool env j ks (run_pool env j is s)"
  by (induction "is" arbitrary: s) simp_all

lemma run_pool_runs: "\<exists>n. runs env j (start_pool h) n (run_pool env j is (start_pool h))"
proof (induction "is" rule: rev_induct)
  case Nil
  show ?case by (auto intro: runs_by.start)
next
  case (snoc i "is")
  let ?s = "run_pool env j is (start_pool h)"
  obtain n where n: "runs env j (start_pool h) n ?s" using snoc by blast
  show ?case
  proof (cases "i < length (Threads ?s) \<and> thread_step env j i ?s \<noteq> None")
    case True
    then obtain s' where "i < length (Threads ?s)" "thread_step env j i ?s = Some s'" by blast
    then have "pool_step env j ?s s'" "run_pool env j (is @ [i]) (start_pool h) = s'"
      by (auto simp: run_pool_append intro: pool_step.run)
    with n show ?thesis by (metis runs_by.more)
  next
    case False
    then have "run_pool env j (is @ [i]) (start_pool h) = ?s" by (auto simp: run_pool_append)
    with n show ?thesis by metis
  qed
qed

lemma runs_run_pool: "runs env j s n s' \<Longrightarrow> \<exists>is. run_pool env j is s = s'"
proof (induction rule: runs_by.induct)
  case start
  show ?case by (rule exI [of _ "[]"]) simp
next
  case (more n s' s'')
  then obtain "is" where "is": "run_pool env j is s = s'" by blast
  from more.hyps(2) obtain i where "i < length (Threads s')" "thread_step env j i s' = Some s''" by cases
  with "is" show ?case by (intro exI [of _ "is @ [i]"]) (simp add: run_pool_append)
qed

text \<open>Every schedule can be continued until \<open>wg.Wait()\<close> returns.\<close>

lemma schedule_completed: "\<exists>more. wait_returns (run_pool env j (is @ more) (start_pool h))"
proof -
  let ?s = "run_pool env j is (start_pool h)"
  obtain n where "runs env j (start_pool h) n ?s" using run_pool_runs by blast
  then have ok: "pool_ok j h ?s" by (rule pool_ok_runs)
  have "terminating_system (pool_step env j) ?s (pool_ok j h) (work j) wait_returns"
    by unfold_locales (fact ok pool_ok_step work_decreases pool_progress)+
  from terminating_system.some_run_ends [OF this] obtain m s' where "runs env j ?s m s'" "wait_returns s'" by blast
  moreover obtain ks where "run_pool env j ks ?s = s'" using runs_run_pool [OF calculation(1)] by blast
  ultimately have "wait_returns (run_pool env j (is @ ks) (start_pool h))" by (simp add: run_pool_append)
  then show ?thesis ..
qed

text \<open>The addresses requested. A request for trace \<open>t\<close> goes to its address, so when all are done every
  trace has been requested once.\<close>

fun address :: "download_event \<Rightarrow> string list" where
  "address (HttpGet t url err) = [url]"
| "address e = []"

definition addresses :: "download_event list \<Rightarrow> string list" where
  "addresses h = concat (map address h)"

lemma addresses_simps [simp]: "addresses [] = []" "addresses (h @ g) = addresses h @ addresses g" "addresses [e] = address e"
  by (simp_all add: addresses_def)

lemma download_step_address: "download_step env j h p = Some (p', e) \<Longrightarrow> address e = map (trace_url j) (requested e)"
  by (cases p) (auto simp: Let_def)

lemma runs_addresses: "runs env j (start_pool []) n s \<Longrightarrow> addresses (Done s) = map (trace_url j) (gets (Done s))"
proof (induction rule: runs_by.induct)
  case start
  show ?case by (simp add: start_pool_def)
next
  case (more n s s')
  from more.hyps(2) obtain i where "thread_step env j i s = Some s'" by cases
  then show ?case
    using more.IH by (cases rule: thread_step_cases) (simp_all add: download_step_address)
qed

lemma downloads_addresses:
  assumes "wait_returns (run_pool env j is (start_pool []))"
  shows "mset (addresses (Done (run_pool env j is (start_pool [])))) =
    mset (map (\<lambda>i. ZipkinURL j @ ''/zipkin/api/v2/trace/'' @ i) (TraceIDs j))"
proof -
  let ?s = "run_pool env j is (start_pool [])"
  obtain n where run: "runs env j (start_pool []) n ?s" using run_pool_runs by blast
  have "mset (gets (Done ?s)) = mset [0..<length (TraceIDs j)]"
    using pool_ok_requested [OF pool_ok_runs [OF run]] assms by (auto simp: requested_once_def)
  then have "mset (addresses (Done ?s)) = mset (map (trace_url j) [0..<length (TraceIDs j)])"
    unfolding runs_addresses [OF run] by (metis mset_map)
  also have "map (trace_url j) [0..<length (TraceIDs j)] = map (\<lambda>i. ZipkinURL j @ ''/zipkin/api/v2/trace/'' @ i) (TraceIDs j)"
    by (rule nth_equalityI) (simp_all add: trace_url_def)
  finally show ?thesis .
qed

subsection \<open>\<open>main\<close>\<close>

record plotter_flags =
  ElasticsearchURL :: string
  PageSize :: int
  ZipkinFlag :: string
  FileName :: string
  SkipPlotting :: bool
  Download :: string

record plotter_world =
  new_client :: "string \<Rightarrow> go_error + es_client"
  dir_missing :: "string \<Rightarrow> bool"
  mkdir_all :: "string \<Rightarrow> go_error option"
  zipkin :: download_env
  download_schedule :: "nat list"
  e2e_walk :: map_walk
  system_walk :: map_walk
  slice_sorter :: slice_sort
  stat_package :: statistics
  page_files :: plot_env

text \<open>What \<open>main\<close> leaves behind: the log of its downloads, and that of the file with the page.\<close>

record plotter_run =
  Downloads :: "download_event list"
  Page :: "plot_event list"

text \<open>Only a directory that does not exist is made; other errors of \<open>os.Stat\<close> are ignored. Then the
  goroutines run, and \<open>downloadTraces\<close> returns when \<open>wg.Wait()\<close> does, which is not before the end of a
  schedule that is too short: \<^term>\<open>None\<close>.\<close>

definition download_job :: "plotter_flags \<Rightarrow> trace list \<Rightarrow> nat list \<Rightarrow> job" where
  "download_job flags ts parsed =
     \<lparr>TraceIDs = map (\<lambda>t. TraceID (ts ! t)) parsed, ZipkinURL = ZipkinFlag flags, DownloadDir = Download flags\<rparr>"

definition downloadTraces :: "plotter_world \<Rightarrow> plotter_flags \<Rightarrow> trace list \<Rightarrow> nat list \<Rightarrow> download_event list outcome option" where
  "downloadTraces world flags ts parsed =
     (case (if dir_missing world (Download flags) then mkdir_all world (Download flags) else None) of
        Some err \<Rightarrow> Some (Panic err)
      | None \<Rightarrow>
          (let s = run_pool (zipkin world) (download_job flags ts parsed) (download_schedule world) (start_pool [])
           in if wait_returns s then Some (Ret (Done s)) else None))"

definition plotChart :: "plotter_world \<Rightarrow> plotter_flags \<Rightarrow> trace list \<Rightarrow> nat list \<Rightarrow> rat list \<Rightarrow> plot_event list outcome option" where
  "plotChart world flags ts parsed durations =
     map_option (\<lambda>r. out_bind r (\<lambda>charts. Ret (snd (run_state (write_page (page_files world) (FileName flags) charts) []))))
       (page_charts (stat_package world) (system_walk world) (slice_sorter world) ts parsed durations (ZipkinFlag flags))"

definition plotter_main :: "nat \<Rightarrow> plotter_world \<Rightarrow> plotter_flags \<Rightarrow> plotter_run outcome option" where
  "plotter_main fuel world flags =
     (case new_client world (ElasticsearchURL flags) of
        Inl err \<Rightarrow> Some (Fatal ''elasticsearch.NewClient'')
      | Inr es \<Rightarrow>
          (case fst (run_state (GetTraces fuel (NewLoader es) (PageSize flags) []) []) of
             None \<Rightarrow> None
           | Some (Panic e) \<Rightarrow> Some (Panic e)
           | Some (Fatal m) \<Rightarrow> Some (Fatal m)
           | Some (Ret traces) \<Rightarrow>
               (case ParseTraces (e2e_walk world) (slice_sorter world) traces ''e2e'' of
                  None \<Rightarrow> None
                | Some (ts, parsed, durations) \<Rightarrow>
                    (case (if Download flags \<noteq> '''' then downloadTraces world flags ts parsed else Some (Ret [])) of
                       None \<Rightarrow> None
                     | Some (Panic e) \<Rightarrow> Some (Panic e)
                     | Some (Fatal m) \<Rightarrow> Some (Fatal m)
                     | Some (Ret downloads) \<Rightarrow>
                         if SkipPlotting flags then Some (Ret \<lparr>Downloads = downloads, Page = []\<rparr>)
                         else map_option (\<lambda>r. out_bind r (\<lambda>page. Ret \<lparr>Downloads = downloads, Page = page\<rparr>))
                                (plotChart world flags ts parsed durations)))))"

subsection \<open>Properties\<close>

definition world_ok :: "plotter_world \<Rightarrow> bool" where
  "world_ok world \<longleftrightarrow> walks_map (e2e_walk world) \<and> walks_map (system_walk world) \<and>
     sorts_slice (slice_sorter world) \<and> stat_ok (stat_package world)"

definition roots :: "trace list \<Rightarrow> nat set" where
  "roots traces = {i. last_with_id traces i \<and> orphan traces i}"

text \<open>What \<open>main\<close> makes of freshly loaded traces: its roots and the page.\<close>

definition page_shows :: "plotter_world \<Rightarrow> plotter_flags \<Rightarrow> trace list \<Rightarrow> plot_event list \<Rightarrow> bool" where
  "page_shows world flags traces page \<longleftrightarrow>
     (\<exists>ts parsed ds us sys sds c1 c2 created rendered.
        ParseTraces (e2e_walk world) (slice_sorter world) traces ''e2e'' = Some (ts, parsed, ds) \<and>
        ParseTraces (system_walk world) (slice_sorter world) ts ''system'' = Some (us, sys, sds) \<and>
        distinct parsed \<and> set parsed = roots traces \<and> distinct sys \<and> set sys = roots traces \<and>
        page = [CreateFile (html_name (FileName flags)) created, RenderPage (html_name (FileName flags)) [c1, c2] rendered] \<and>
        chart_shows (stat_package world) traces (successful us) ''e2e'' parsed ds c1 \<and>
        chart_shows (stat_package world) traces (successful us) ''system'' sys sds c2)"

lemma parsed_and_plotted:
  assumes world: "world_ok world" and fresh: "\<forall>t\<in>set traces. Child t = []"
  shows "\<exists>ts parsed ds page. ParseTraces (e2e_walk world) (slice_sorter world) traces ''e2e'' = Some (ts, parsed, ds) \<and>
    distinct parsed \<and> set parsed = roots traces \<and>
    map (\<lambda>i. TraceID (ts ! i)) parsed = map (\<lambda>i. TraceID (traces ! i)) parsed \<and>
    plotChart world flags ts parsed ds = Some (Ret page) \<and> page_shows world flags traces page"
proof -
  obtain ts parsed ds us sys sds c1 c2 where page:
    "ParseTraces (e2e_walk world) (slice_sorter world) traces ''e2e'' = Some (ts, parsed, ds)"
    "ParseTraces (system_walk world) (slice_sorter world) ts ''system'' = Some (us, sys, sds)"
    "distinct parsed" "set parsed = roots traces" "distinct sys" "set sys = roots traces"
    "page_charts (stat_package world) (system_walk world) (slice_sorter world) ts parsed ds (ZipkinFlag flags) = Some (Ret [c1, c2])"
    "chart_shows (stat_package world) traces (successful us) ''e2e'' parsed ds c1"
    "chart_shows (stat_package world) traces (successful us) ''system'' sys sds c2"
    using page_total [OF _ _ _ _ fresh, of "e2e_walk world" "system_walk world" "slice_sorter world" "stat_package world" "ZipkinFlag flags"]
      world unfolding world_ok_def roots_def by blast
  have "map skeleton ts = map skeleton traces"
    using ParseTraces_pass [OF _ _ no_children_links_ok [OF fresh], of "e2e_walk world" "slice_sorter world" "''e2e''"] page(1) world
    unfolding world_ok_def by auto
  then have same: "TraceID (ts ! i) = TraceID (traces ! i)" if "i < length traces" for i
    using that by (rule same_TraceID)
  have ids: "map (\<lambda>i. TraceID (ts ! i)) parsed = map (\<lambda>i. TraceID (traces ! i)) parsed"
    using page(4) same by (auto simp: last_with_id_def roots_def)
  obtain created rendered where written: "snd (run_state (write_page (page_files world) (FileName flags) [c1, c2]) []) =
      [CreateFile (html_name (FileName flags)) created, RenderPage (html_name (FileName flags)) [c1, c2] rendered]"
    by (simp add: write_page_def Let_def run_state_bind)
  have "plotChart world flags ts parsed ds =
      Some (Ret [CreateFile (html_name (FileName flags)) created, RenderPage (html_name (FileName flags)) [c1, c2] rendered])"
    by (simp add: plotChart_def page(7) written)
  moreover have "page_shows world flags traces
      [CreateFile (html_name (FileName flags)) created, RenderPage (html_name (FileName flags)) [c1, c2] rendered]"
    unfolding page_shows_def by (intro exI conjI) (rule page refl)+
  ultimately show ?thesis using page(1,3,4) ids by blast
qed

text \<open>
  Property C5: from the pages of Elasticsearch to the result. Let the server's scroll behave as
  documented, and let the download directory be made. Whatever the schedule of the downloads,
  and whatever Zipkin answers, if \<open>main\<close> is done it has not failed; it has requested the address of
  each root among all spans of all pages exactly once, and unless it is skipped the page is
  written, with its two charts of these roots. And any schedule can be continued so that \<open>main\<close> is
  done.
\<close>

theorem main_complete:
  assumes world: "world_ok world" and client: "new_client world (ElasticsearchURL flags) = Inr es"
    and pages: "serves_pages (NewLoader es) (first # pages @ [last_page])" "page_of last_page = []"
      "\<forall>p\<in>set pages. page_of p \<noteq> []" "length pages < fuel"
    and traces: "traces = concat (map page_of (first # pages))" and fresh: "\<forall>t\<in>set traces. Child t = []"
    and dir: "dir_missing world (Download flags) \<Longrightarrow> mkdir_all world (Download flags) = None"
  shows "(\<exists>more. plotter_main fuel (world\<lparr>download_schedule := download_schedule world @ more\<rparr>) flags \<noteq> None) \<and>
    (\<forall>out. plotter_main fuel world flags = Some out \<longrightarrow>
      (\<exists>r parsed. out = Ret r \<and> distinct parsed \<and> set parsed = roots traces \<and>
        (if Download flags = '''' then Downloads r = []
         else mset (addresses (Downloads r)) =
           mset (map (\<lambda>i. ZipkinFlag flags @ ''/zipkin/api/v2/trace/'' @ TraceID (traces ! i)) parsed)) \<and>
        (if SkipPlotting flags then Page r = [] else page_shows world flags traces (Page r))))"
proof
  obtain log where load: "run_state (GetTraces fuel (NewLoader es) (PageSize flags) []) [] = (Some (Ret traces), log)"
    using GetTraces_pages [OF pages, of "PageSize flags" "[]"] traces by auto
  obtain ts parsed ds page where parse:
    "ParseTraces (e2e_walk world) (slice_sorter world) traces ''e2e'' = Some (ts, parsed, ds)"
    and set: "distinct parsed" "set parsed = roots traces"
    and ids: "map (\<lambda>i. TraceID (ts ! i)) parsed = map (\<lambda>i. TraceID (traces ! i)) parsed"
    and plot: "plotChart world flags ts parsed ds = Some (Ret page)" "page_shows world flags traces page"
    using parsed_and_plotted [OF world fresh, of flags] by blast
  let ?pool = "\<lambda>is. run_pool (zipkin world) (download_job flags ts parsed) is (start_pool [])"
  have run: "plotter_main fuel (world\<lparr>download_schedule := is\<rparr>) flags =
      (if Download flags = '''' then Some (Ret \<lparr>Downloads = [], Page = if SkipPlotting flags then [] else page\<rparr>)
       else if wait_returns (?pool is)
       then Some (Ret \<lparr>Downloads = Done (?pool is), Page = if SkipPlotting flags then [] else page\<rparr>)
       else None)" for "is"
    using client load parse dir plot(1)
    by (auto simp: plotter_main_def downloadTraces_def plotChart_def Let_def)
  obtain more where "wait_returns (?pool (download_schedule world @ more))"
    using schedule_completed by blast
  then show "\<exists>more. plotter_main fuel (world\<lparr>download_schedule := download_schedule world @ more\<rparr>) flags \<noteq> None"
    unfolding run by (intro exI [of _ more]) simp
  have "mset (addresses (Done (?pool (download_schedule world)))) =
      mset (map (\<lambda>i. ZipkinFlag flags @ ''/zipkin/api/v2/trace/'' @ TraceID (traces ! i)) parsed)"
    if "wait_returns (?pool (download_schedule world))"
  proof -
    have "\<forall>i\<in>set parsed. TraceID (ts ! i) = TraceID (traces ! i)" using ids by (simp only: map_eq_conv)
    then have "map (\<lambda>i. ZipkinURL (download_job flags ts parsed) @ ''/zipkin/api/v2/trace/'' @ i) (TraceIDs (download_job flags ts parsed)) =
        map (\<lambda>i. ZipkinFlag flags @ ''/zipkin/api/v2/trace/'' @ TraceID (traces ! i)) parsed"
      by (simp add: download_job_def)
    with downloads_addresses [OF that] show ?thesis by (simp only:)
  qed
  note urls = this
  show "\<forall>out. plotter_main fuel world flags = Some out \<longrightarrow>
      (\<exists>r parsed. out = Ret r \<and> distinct parsed \<and> set parsed = roots traces \<and>
        (if Download flags = '''' then Downloads r = []
         else mset (addresses (Downloads r)) =
           mset (map (\<lambda>i. ZipkinFlag flags @ ''/zipkin/api/v2/trace/'' @ TraceID (traces ! i)) parsed)) \<and>
        (if SkipPlotting flags then Page r = [] else page_shows world flags traces (Page r)))"
  proof (intro allI impI)
    fix out
    assume out: "plotter_main fuel world flags = Some out"
    let ?r = "\<lparr>Downloads = if Download flags = '''' then [] else Done (?pool (download_schedule world)),
      Page = if SkipPlotting flags then [] else page\<rparr>"
    have "out = Ret ?r" "Download flags \<noteq> '''' \<longrightarrow> wait_returns (?pool (download_schedule world))"
      using out run [of "download_schedule world"] by (auto split: if_splits)
    then show "\<exists>r parsed. out = Ret r \<and> distinct parsed \<and> set parsed = roots traces \<and>
        (if Download flags = '''' then Downloads r = []
         else mset (addresses (Downloads r)) =
           mset (map (\<lambda>i. ZipkinFlag flags @ ''/zipkin/api/v2/trace/'' @ TraceID (traces ! i)) parsed)) \<and>
        (if SkipPlotting flags then Page r = [] else page_shows world flags traces (Page r))"
      using set plot(2) urls by (intro exI [of _ ?r] exI [of _ parsed]) simp
  qed
qed

definition demo_world :: plotter_world where
  "demo_world = \<lparr>new_client = \<lambda>u. Inr (Es demo_loader), dir_missing = \<lambda>d. True, mkdir_all = \<lambda>d. None,
     zipkin = demo_download_env, download_schedule = [],
     e2e_walk = rev, system_walk = \<lambda>m. m, slice_sorter = key_sort, stat_package = demo_statistics,
     page_files = \<lparr>create_file = \<lambda>h n. None, render_page = \<lambda>h n cs. None\<rparr>\<rparr>"

definition demo_flags :: plotter_flags where
  "demo_flags = \<lparr>ElasticsearchURL = ''http://127.0.0.1:9200'', PageSize = 100, ZipkinFlag = ''http://127.0.0.1:8080'',
     FileName = ''plot'', SkipPlotting = False, Download = ''traces''\<rparr>"

text \<open>One root in two pages: some schedule completes the run, its trace is requested, and the page is
  written.\<close>

theorem main_complete_witness:
  "\<exists>schedule r cs. plotter_main 2 (demo_world\<lparr>download_schedule := schedule\<rparr>) demo_flags = Some (Ret r) \<and>
     addresses (Downloads r) = [''http://127.0.0.1:8080/zipkin/api/v2/trace/t''] \<and>
     (\<exists>e e'. Page r = [CreateFile ''plot.html'' e, RenderPage ''plot.html'' cs e'])"
proof -
  let ?traces = "[demo_span ''a'' '''' 9, demo_span ''b'' ''a'' 4, demo_span ''c'' ''a'' 3]"
  let ?pages = "demo_page ''s1'' [demo_span ''a'' '''' 9, demo_span ''b'' ''a'' 4] # [demo_page ''s2'' [demo_span ''c'' ''a'' 3]]"
  have pages: "?traces = concat (map page_of ?pages)" by (simp add: demo_page_def page_of_def)
  have fresh: "\<forall>t\<in>set ?traces. Child t = []" by (simp add: demo_span_def)
  have world: "world_ok (demo_world\<lparr>download_schedule := is\<rparr>)" for "is"
    by (simp add: world_ok_def demo_world_def walks_map_rev sorts_slice_key stat_ok_demo)
  have client: "new_client (demo_world\<lparr>download_schedule := is\<rparr>) (ElasticsearchURL demo_flags) = Inr (Es demo_loader)" for "is"
    by (simp add: demo_world_def)
  have loader: "NewLoader (Es demo_loader) = demo_loader" by (simp add: demo_loader_def NewLoader_def)
  have serves: "serves_pages (NewLoader (Es demo_loader)) (demo_page ''s1'' [demo_span ''a'' '''' 9, demo_span ''b'' ''a'' 4] #
     [demo_page ''s2'' [demo_span ''c'' ''a'' 3]] @ [demo_page ''s3'' []])"
    unfolding loader by (rule demo_serves)
  have last: "page_of (demo_page ''s3'' []) = []" "\<forall>p\<in>set [demo_page ''s2'' [demo_span ''c'' ''a'' 3]]. page_of p \<noteq> []"
    "length [demo_page ''s2'' [demo_span ''c'' ''a'' 3]] < (2 :: nat)"
    by (simp_all add: demo_page_def page_of_def)
  have dir: "dir_missing (demo_world\<lparr>download_schedule := is\<rparr>) (Download demo_flags) \<Longrightarrow>
      mkdir_all (demo_world\<lparr>download_schedule := is\<rparr>) (Download demo_flags) = None" for "is"
    by (simp add: demo_world_def)
  note complete = main_complete [OF world client serves last pages fresh dir]
  obtain more out where out: "plotter_main 2 (demo_world\<lparr>download_schedule := more\<rparr>) demo_flags = Some out"
    using complete [of "[]"] by auto
  obtain r parsed where r: "out = Ret r" "distinct parsed" "set parsed = roots ?traces"
    "mset (addresses (Downloads r)) = mset (map (\<lambda>i. ''http://127.0.0.1:8080/zipkin/api/v2/trace/'' @ TraceID (?traces ! i)) parsed)"
    "page_shows (demo_world\<lparr>download_schedule := more\<rparr>) demo_flags ?traces (Page r)"
    using complete [of more] out by (auto simp: demo_flags_def)
  have "roots ?traces = {0}"
    by (auto simp: roots_def last_with_id_def orphan_def demo_span_def less_Suc_eq nth_Cons' split: if_splits)
  then have "parsed = [0]" using r(2,3) filter_single by simp
  then have "addresses (Downloads r) = [''http://127.0.0.1:8080/zipkin/api/v2/trace/t'']"
    using r(4) by (simp add: demo_span_def)
  moreover have "html_name (FileName demo_flags) = ''plot.html''" by (simp add: demo_flags_def html_name_def)
  then have "\<exists>cs e e'. Page r = [CreateFile ''plot.html'' e, RenderPage ''plot.html'' cs e']"
    using r(5) by (auto simp: page_shows_def)
  ultimately show ?thesis using out r(1) by blast
qed

end
