(* ===== verification/Invoker.thy ===== *)
theory Invoker
  imports EventLog TimeseriesDB GoFloat
begin

text \<open>
  \<open>tools/invoker\<close> (\<open>client.go\<close>, \<open>measure.go\<close>) and \<open>tools/endpoint\<close>: the load generator. It
  issues requests to the endpoints in turn, keeps the measured latencies and the durations the
  functions report, registers the experiment with the time-series database when some endpoint
  uses eventing, and writes what it measured, one number per line. Requests run concurrently:
  each is a list of steps that change the shared counter and slices, one atomic or under a lock
  each, and a schedule may interleave the steps of all requests in any way. The clock, the replies
  of the functions, the reply of the database and the schedule are arguments.
\<close>

subsection \<open>State\<close>

record endpoint =
  Hostname :: string
  Eventing :: bool
  Matchers :: matchers

record invoker =
  completed :: int64
  latSlice :: "int list"
  profSlice :: "int list"
  tsdbConn :: bool

subsection \<open>Measurements (\<open>measure.go\<close>)\<close>

text \<open>The database connection is asked for only if some endpoint uses eventing; then every
  endpoint, eventing or not, becomes a workflow with its matchers as the only descriptor.
  Endpoints are paired with their workflow ids.\<close>

definition workflow_definitions :: "(endpoint \<times> string) list \<Rightarrow> experiment_definition" where
  "workflow_definitions eps =
     foldl (\<lambda>wds (ep, workflowID). AList.update workflowID
       \<lparr>WdId = workflowID, CompletionEventDescriptors = [Matchers ep]\<rparr> wds) [] eps"

definition Start ::
  "(endpoint \<times> string) list \<Rightarrow> go_error option \<Rightarrow> (experiment_definition \<Rightarrow> go_error option) \<Rightarrow>
   invoker \<Rightarrow> (invoker \<times> experiment_definition option) outcome"
where
  "Start eps dial_error start_experiment s =
     (if \<not> list_ex (\<lambda>(ep, workflowID). Eventing ep) eps then Ret (s, None)
      else case dial_error of
             Some err \<Rightarrow> Fatal ''did not connect''
           | None \<Rightarrow>
               (let s = s\<lparr>tsdbConn := True\<rparr>; wds = workflow_definitions eps
                in case start_experiment wds of
                     Some err \<Rightarrow> Fatal ''failed to start experiment''
                   | None \<Rightarrow> Ret (s, Some wds)))"

definition End :: "(go_error + experiment_result) \<Rightarrow> invoker \<Rightarrow> int list outcome" where
  "End end_experiment s =
     (if \<not> tsdbConn s then Ret []
      else case end_experiment of
             Inl err \<Rightarrow> Fatal ''failed to end experiment''
           | Inr res \<Rightarrow> Ret (completed_durations res))"

subsection \<open>Requests (\<open>client.go\<close>)\<close>

definition addDurations :: "int list \<Rightarrow> invoker \<Rightarrow> invoker" where
  "addDurations ds s = foldl (\<lambda>s d. s\<lparr>latSlice := latSlice s @ [microseconds d]\<rparr>) s ds"

definition getDuration :: "int \<Rightarrow> int \<Rightarrow> invoker \<Rightarrow> invoker" where
  "getDuration start now s = addDurations [time_sub now start] s"

text \<open>\<open>strings.Fields\<close>: the maximal runs of characters that are no white space.\<close>

definition is_space :: "char \<Rightarrow> bool" where
  "is_space c \<longleftrightarrow> (of_char c :: nat) \<in> {9, 10, 11, 12, 13, 32}"

fun fields_acc :: "string \<Rightarrow> string \<Rightarrow> string list" where
  "fields_acc word [] = (if word = [] then [] else [word])"
| "fields_acc word (c # cs) =
     (if is_space c then (if word = [] then fields_acc [] cs else word # fields_acc [] cs)
      else fields_acc (word @ [c]) cs)"

definition fields :: "string \<Rightarrow> string list" where
  "fields s = fields_acc [] s"

text \<open>What a request does to the shared state, step by step; between two steps others may run. A panic or
  a call of \<open>log.Fatal\<close> ends the process.\<close>

type_synonym request_step = "invoker \<Rightarrow> invoker outcome"

definition record_profile :: "int \<Rightarrow> request_step" where
  "record_profile duration s = Ret (s\<lparr>profSlice := profSlice s @ [duration]\<rparr>)"

definition count_completed :: request_step where
  "count_completed s = Ret (s\<lparr>completed := completed s + 1\<rparr>)"

text \<open>\<open>SayHello\<close>: its steps and how it ends. An error of the call is only logged; with profiling on the last
  word of the reply is read as a number, and a reply without words is indexed at -1.\<close>

definition SayHello :: "bool \<Rightarrow> go_error option \<Rightarrow> (go_error + string) \<Rightarrow> request_step list \<times> unit outcome" where
  "SayHello funcDurEnable dial_error reply =
     (case dial_error of
        Some err \<Rightarrow> ([], Fatal ''did not connect'')
      | None \<Rightarrow>
          (case reply of
             Inl err \<Rightarrow> ([], Ret ())
           | Inr message \<Rightarrow>
               if funcDurEnable
               then let words = fields message
                    in if words = [] then ([], Panic index_out_of_range)
                       else case parse_int64 (last words) of
                              (duration, None) \<Rightarrow> ([record_profile duration, count_completed], Ret ())
                            | (duration, Some err) \<Rightarrow> ([count_completed], Ret ())
               else ([count_completed], Ret ())))"

definition ending :: "unit outcome \<Rightarrow> request_step list" where
  "ending r = (case r of Ret u \<Rightarrow> [] | Panic e \<Rightarrow> [\<lambda>s. Panic e] | Fatal m \<Rightarrow> [\<lambda>s. Fatal m])"

definition invokeEventingFunction :: "bool \<Rightarrow> go_error option \<Rightarrow> (go_error + string) \<Rightarrow> request_step list" where
  "invokeEventingFunction funcDurEnable dial_error reply =
     (let (steps, r) = SayHello funcDurEnable dial_error reply in steps @ ending r)"

text \<open>The deferred measurement runs whether the call succeeded or not, and before a panic ends the process;
  \<open>log.Fatal\<close> runs no deferred call.\<close>

definition invokeServingFunction ::
  "bool \<Rightarrow> go_error option \<Rightarrow> (go_error + string) \<Rightarrow> int \<Rightarrow> int \<Rightarrow> request_step list"
where
  "invokeServingFunction funcDurEnable dial_error reply start now =
     (let (steps, r) = SayHello funcDurEnable dial_error reply
      in steps @ (case r of Fatal m \<Rightarrow> [] | _ \<Rightarrow> [Ret \<circ> getDuration start now]) @ ending r)"

text \<open>A schedule is the list of the requests that take a step, in their order. It leaves the steps that
  are still to come. A request that has ended takes none.\<close>

fun run_schedule ::
  "nat list \<Rightarrow> (nat \<Rightarrow> request_step list) \<Rightarrow> invoker \<Rightarrow> ((nat \<Rightarrow> request_step list) \<times> invoker) outcome"
where
  "run_schedule [] todo s = Ret (todo, s)"
| "run_schedule (i # is) todo s =
     (case todo i of
        [] \<Rightarrow> run_schedule is todo s
      | step # steps \<Rightarrow> out_bind (step s) (run_schedule is (todo(i := steps))))"

text \<open>The loop of \<open>runExperiment\<close>: one request, then until the timeout one per tick. \<open>ticks\<close> is
  the sequence of channels the \<open>select\<close> takes, \<^term>\<open>True\<close> for a tick and \<^term>\<open>False\<close> for the timeout.
  An empty list of endpoints divides by zero.\<close>

definition divide_by_zero :: go_error where
  "divide_by_zero = NewError ''runtime error: integer divide by zero''"

fun issue_loop :: "'a list \<Rightarrow> nat \<Rightarrow> bool list \<Rightarrow> ('a list \<times> nat) outcome" where
  "issue_loop endpoints issued ticks =
     (if endpoints = [] then Panic divide_by_zero
      else let ep = endpoints ! (issued mod length endpoints); issued = Suc issued
           in case ticks of
                True # ticks \<Rightarrow> out_bind (issue_loop endpoints issued ticks) (\<lambda>(eps, n). Ret (ep # eps, n))
              | _ \<Rightarrow> Ret ([ep], issued))"

declare issue_loop.simps [simp del]

text \<open>The tick of the loop: \<open>time.Duration(1000000/targetRPS)\<close> is truncated to whole microseconds.\<close>

definition tick_interval :: "rat \<Rightarrow> int outcome" where
  "tick_interval targetRPS =
     (let d = fl_trunc (fl_div 1000000 targetRPS) * 1000
      in if d \<le> 0 then Fatal ''Target RPS is too high'' else Ret d)"

subsection \<open>Output\<close>

definition lines_of :: "int list \<Rightarrow> string" where
  "lines_of xs = foldl (\<lambda>out x. out @ itoa x @ ''\<newline>'') '''' xs"

definition writeLatencies :: "invoker \<Rightarrow> string" where
  "writeLatencies s = lines_of (latSlice s)"

definition writeFunctionDurations :: "invoker \<Rightarrow> string" where
  "writeFunctionDurations s = lines_of (profSlice s)"

subsection \<open>A whole experiment\<close>

text \<open>\<open>requests i ep\<close> are the steps of request \<open>i\<close> when it goes to \<open>ep\<close>; \<open>before_rate\<close> and \<open>before_end\<close> are the
  schedules until \<open>completed\<close> is read for the rate, and from then until the durations of the database are
  added. The result: what requests have still to do, the state, the count for the rate, and how many
  requests were issued.\<close>

definition runExperiment ::
  "(endpoint \<times> string) list \<Rightarrow> go_error option \<Rightarrow> (experiment_definition \<Rightarrow> go_error option) \<Rightarrow>
   rat \<Rightarrow> bool list \<Rightarrow> (nat \<Rightarrow> endpoint \<times> string \<Rightarrow> request_step list) \<Rightarrow> nat list \<Rightarrow> nat list \<Rightarrow>
   (go_error + experiment_result) \<Rightarrow> invoker \<Rightarrow>
   ((nat \<Rightarrow> request_step list) \<times> invoker \<times> int64 \<times> nat) outcome"
where
  "runExperiment eps dial_error start_experiment targetRPS ticks requests before_rate before_end end_experiment s =
     out_bind (Start eps dial_error start_experiment s) (\<lambda>(s, wds).
     out_bind (tick_interval targetRPS) (\<lambda>d.
     out_bind (issue_loop eps 0 ticks) (\<lambda>(targets, issued).
     out_bind (run_schedule before_rate (\<lambda>i. if i < issued then requests i (targets ! i) else []) s) (\<lambda>(todo, s).
     let counted = completed s
     in out_bind (run_schedule before_end todo s) (\<lambda>(todo, s).
        out_bind (End end_experiment s) (\<lambda>ds. Ret (todo, addDurations ds s, counted, issued)))))))"

subsection \<open>Lemmas\<close>

lemma addDurations_eq: "addDurations ds s = s\<lparr>latSlice := latSlice s @ map microseconds ds\<rparr>"
proof -
  have "foldl (\<lambda>s d. s\<lparr>latSlice := latSlice s @ [microseconds d]\<rparr>) s ds = s\<lparr>latSlice := latSlice s @ map microseconds ds\<rparr>" for s
    by (induction ds arbitrary: s) simp_all
  then show ?thesis by (simp add: addDurations_def)
qed

lemma issue_loop_ticks:
  assumes "endpoints \<noteq> []" and "rest = [] \<or> hd rest = False"
  shows "issue_loop endpoints i (replicate k True @ rest) =
    Ret (map (\<lambda>j. endpoints ! (j mod length endpoints)) [i..<i + Suc k], i + Suc k)"
proof (induction k arbitrary: i)
  case 0
  show ?case using assms by (cases rest) (simp_all add: issue_loop.simps)
next
  case (Suc k)
  have "issue_loop endpoints i (replicate (Suc k) True @ rest) =
      out_bind (issue_loop endpoints (Suc i) (replicate k True @ rest))
        (\<lambda>(eps, n). Ret (endpoints ! (i mod length endpoints) # eps, n))"
    using assms(1) by (subst issue_loop.simps) (simp add: Let_def)
  then show ?case by (simp only: Suc) (simp add: upt_conv_Cons del: upt_Suc)
qed

lemma lines_of_Cons: "lines_of xs = concat (map (\<lambda>x. itoa x @ ''\<newline>'') xs)"
proof -
  have "foldl (\<lambda>out x. out @ itoa x @ ''\<newline>'') acc xs = acc @ concat (map (\<lambda>x. itoa x @ ''\<newline>'') xs)" for acc
    by (induction xs arbitrary: acc) simp_all
  then show ?thesis by (simp add: lines_of_def)
qed

text \<open>Reading a file line by line.\<close>

fun split_lines :: "string \<Rightarrow> string \<Rightarrow> string list" where
  "split_lines word [] = (if word = [] then [] else [word])"
| "split_lines word (c # cs) = (if c = CHR 0x0A then word # split_lines [] cs else split_lines (word @ [c]) cs)"

lemma split_lines_word: "CHR 0x0A \<notin> set w \<Longrightarrow> split_lines acc (w @ CHR 0x0A # rest) = (acc @ w) # split_lines [] rest"
  by (induction w arbitrary: acc) auto

lemma itoa_no_newline: "CHR 0x0A \<notin> set (itoa i)"
proof -
  have "c \<noteq> CHR 0x0A" if "is_digit c" for c
    using that by (auto simp: is_digit_def)
  then show ?thesis
    using nat_digits_all by (auto simp: itoa_def)
qed

lemma split_lines_of: "split_lines [] (lines_of xs) = map itoa xs"
  unfolding lines_of_Cons
  by (induction xs) (simp_all add: split_lines_word itoa_no_newline)

lemma fields_acc_word: "\<lbrakk>\<forall>c\<in>set w. \<not> is_space c; acc @ w \<noteq> []\<rbrakk> \<Longrightarrow> fields_acc acc w = [acc @ w]"
  by (induction w arbitrary: acc) auto

lemma fields_acc_last:
  assumes "\<forall>c\<in>set w. \<not> is_space c" and "w \<noteq> []" and "is_space sp"
  shows "fields_acc acc (pre @ sp # w) \<noteq> [] \<and> last (fields_acc acc (pre @ sp # w)) = w"
  using assms(3)
proof (induction pre arbitrary: acc)
  case Nil
  then show ?case using fields_acc_word [of w "[]"] assms by simp
next
  case (Cons c cs)
  then show ?case by auto
qed

subsection \<open>Properties\<close>

text \<open>
  Requests go to the endpoints in turn: with \<open>k\<close> ticks before the timeout, request
  number \<open>j\<close> goes to endpoint \<open>j mod n\<close>, and \<open>k + 1\<close> requests are issued (one at least).
\<close>

theorem issue_round_robin:
  assumes "endpoints \<noteq> []"
  shows "\<exists>targets. issue_loop endpoints 0 (replicate k True @ False # rest) = Ret (targets, Suc k) \<and>
    length targets = Suc k \<and> (\<forall>j. j \<le> k \<longrightarrow> targets ! j = endpoints ! (j mod length endpoints))"
  using issue_loop_ticks [OF assms, of "False # rest" 0 k]
  by (auto simp del: upt_Suc simp: less_Suc_eq_le)

theorem issue_round_robin_witness:
  "\<exists>targets. issue_loop [''a'', ''b''] 0 (replicate 2 True @ False # []) = Ret (targets, 3) \<and>
     targets ! 0 = ''a'' \<and> targets ! 1 = ''b'' \<and> targets ! 2 = ''a''"
  using issue_round_robin [of "[''a'', ''b'']" 2 "[]"] by (auto simp: numeral_2_eq_2)

text \<open>
  With profiling on, a reply that ends in a space and a decimal \<open>int64\<close> has its number recorded
  and is counted; a reply without any word makes the invoker panic; a failed call
  changes nothing. The measurement of a synchronous invocation is recorded in all cases in
  which it returns, so a failed request has a latency as well.
\<close>

theorem invocation_measured:
  assumes "- 9223372036854775808 \<le> i" "i < 9223372036854775808"
  shows "SayHello True None (Inr (msg @ '' '' @ itoa i)) = ([record_profile i, count_completed], Ret ()) \<and>
    SayHello True None (Inr '''') = ([], Panic index_out_of_range) \<and>
    SayHello fd None (Inl err) = ([], Ret ()) \<and>
    invokeServingFunction fd None (Inl err) start now = [Ret \<circ> getDuration start now]"
proof -
  have "\<not> is_space c" if "is_digit c \<or> c = CHR ''-''" for c
    using that by (auto simp: is_digit_def is_space_def)
  then have "\<forall>c\<in>set (itoa i). \<not> is_space c"
    using nat_digits_all by (auto simp: itoa_def)
  then have "fields (msg @ '' '' @ itoa i) \<noteq> [] \<and> last (fields (msg @ '' '' @ itoa i)) = itoa i"
    using fields_acc_last [of "itoa i" "CHR '' ''" "[]" msg] by (simp add: fields_def is_space_def)
  then show ?thesis
    using atoi_itoa [OF assms]
    by (simp add: SayHello_def invokeServingFunction_def ending_def fields_def)
qed

theorem invocation_measured_witness:
  "SayHello True None (Inr (''Hello took'' @ '' '' @ itoa 42)) = ([record_profile 42, count_completed], Ret ())"
  using invocation_measured [of 42 "''Hello took''"] by simp

text \<open>
  What the output file holds can be read back: split into lines and parsed as
  decimal integers, it is the list of measured latencies, in order.
\<close>

theorem latencies_roundtrip:
  assumes "\<forall>x\<in>set (latSlice s). - 9223372036854775808 \<le> x \<and> x < 9223372036854775808"
  shows "map parse_int64 (split_lines [] (writeLatencies s)) = map (\<lambda>x. (x, None)) (latSlice s)"
  using assms by (auto simp: writeLatencies_def split_lines_of atoi_itoa)

theorem latencies_roundtrip_witness:
  "map parse_int64 (split_lines [] (writeLatencies \<lparr>completed = 0, latSlice = [12, -3], profSlice = [], tsdbConn = False\<rparr>)) =
     [(12, None), (-3, None)]"
  using latencies_roundtrip [of "\<lparr>completed = 0, latSlice = [12, -3], profSlice = [], tsdbConn = False\<rparr>"] by simp

text \<open>The workflows an experiment is started with keep their descriptors.\<close>

definition templates :: "tsdb \<Rightarrow> string \<Rightarrow> matchers list option" where
  "templates s w = map_option completionEventDescriptorsT (map_of (workflows s) w)"

lemma templates_put [simp]: "templates (put_invocation md iv s) = templates s"
  by (rule ext) (auto simp: templates_def put_invocation_def split: option.split)

lemma templates_registerEvent: "registerEvent decode now ce s = Ret s' \<Longrightarrow> templates s' = templates s"
  by (elim registerEvent_Ret) simp

inductive running :: "metadata_decoder \<Rightarrow> experiment_definition \<Rightarrow> tsdb \<Rightarrow> bool" for decode wds where
  begun: "running decode wds (StartExperiment wds s)"
| event: "\<lbrakk>running decode wds s; registerEvent decode now ce s = Ret s'\<rbrakk> \<Longrightarrow> running decode wds s'"

lemma running_reachable: "running decode wds s \<Longrightarrow> reachable decode s"
  by (induction rule: running.induct) (auto intro: reachable.intros)

lemma running_templates:
  "running decode wds s \<Longrightarrow> templates s = templates (StartExperiment wds s0)"
proof (induction rule: running.induct)
  case (begun s)
  show ?case by (simp add: templates_def StartExperiment_def)
qed (auto dest: templates_registerEvent)

lemma StartExperiment_templates:
  assumes "\<forall>(k, wd)\<in>set wds. P (CompletionEventDescriptors wd)"
    and "templates (StartExperiment wds s) w = Some T"
  shows "P T"
proof -
  let ?f = "\<lambda>wfs (key, wd). AList.update (WdId wd)
    \<lparr>wf_id = WdId wd, completionEventDescriptorsT = CompletionEventDescriptors wd, invocations = []\<rparr> wfs"
  have "(\<forall>w wrk. map_of acc w = Some wrk \<longrightarrow> P (completionEventDescriptorsT wrk)) \<Longrightarrow>
      map_of (foldl ?f acc wds) w = Some wrk \<Longrightarrow> P (completionEventDescriptorsT wrk)" for acc wrk
    using assms(1)
  proof (induction wds arbitrary: acc)
    case (Cons x xs)
    show ?case
      by (rule Cons.IH [of "?f acc x"]) (use Cons.prems in \<open>auto split: if_splits prod.splits\<close>)
  qed auto
  from this [of "[]"] assms(2) show ?thesis
    by (auto simp: templates_def StartExperiment_def)
qed

definition endpoint_matchers :: "(endpoint \<times> string) list \<Rightarrow> matchers list \<Rightarrow> bool" where
  "endpoint_matchers eps ds \<longleftrightarrow> (\<exists>ep\<in>fst ` set eps. ds = [Matchers ep])"

lemma AList_update_all:
  "\<lbrakk>P x; \<forall>(k, y)\<in>set xs. P y\<rbrakk> \<Longrightarrow> \<forall>(k, y)\<in>set (AList.update w x xs). P y"
  by (induction xs) auto

lemma workflow_definitions_matchers:
  "\<forall>(k, wd)\<in>set (workflow_definitions eps). endpoint_matchers eps (CompletionEventDescriptors wd)"
proof -
  let ?f = "\<lambda>wds (ep, workflowID). AList.update workflowID
       \<lparr>WdId = workflowID, CompletionEventDescriptors = [Matchers ep]\<rparr> wds"
  let ?P = "\<lambda>wd. endpoint_matchers eps (CompletionEventDescriptors wd)"
  have "\<lbrakk>set xs \<subseteq> set eps; \<forall>(k, wd)\<in>set acc. ?P wd\<rbrakk> \<Longrightarrow> \<forall>(k, wd)\<in>set (foldl ?f acc xs). ?P wd" for acc xs
  proof (induction xs arbitrary: acc)
    case (Cons x xs)
    have "\<forall>(k, wd)\<in>set (?f acc x). ?P wd"
      unfolding case_prod_beta [of _ x]
      by (rule AList_update_all [where P = ?P]) (use Cons.prems in \<open>auto simp: endpoint_matchers_def\<close>)
    from Cons.IH [OF _ this] Cons.prems show ?case by simp
  qed simp
  from this [of eps "[]"] show ?thesis by (simp add: workflow_definitions_def)
qed

lemma running_single:
  assumes "running decode (workflow_definitions eps) db" and "map_of (workflows db) w = Some wrk"
  shows "endpoint_matchers eps (completionEventDescriptorsT wrk)"
proof -
  have "templates (StartExperiment (workflow_definitions eps) db) w = Some (completionEventDescriptorsT wrk)"
    using fun_cong [OF running_templates [OF assms(1), of db], of w] assms(2) by (simp add: templates_def)
  then show ?thesis
    by (rule StartExperiment_templates [OF workflow_definitions_matchers])
qed


definition demo_endpoints :: "(endpoint \<times> string) list" where
  "demo_endpoints = [(\<lparr>Hostname = ''a.example'', Eventing = True, Matchers = [(''type'', ''done'')]\<rparr>, ''w'')]"


end
