(* ===== verification/GoPath.thy ===== *)
theory GoPath
  imports GoStrings
begin

text \<open>
  Go's \<open>path.Clean\<close> and \<open>path.Join\<close> (on Unix the same as \<open>filepath.Join\<close>): a path is cut at its
  slashes, empty and \<open>.\<close> elements go, and \<open>..\<close> takes back the element before it.
\<close>

fun split_slash :: "string \<Rightarrow> string list" where
  "split_slash [] = [[]]"
| "split_slash (c # cs) =
     (if c = CHR ''/'' then [] # split_slash cs
      else case split_slash cs of [] \<Rightarrow> [[c]] | s # ss \<Rightarrow> (c # s) # ss)"

fun join_slash :: "string list \<Rightarrow> string" where
  "join_slash [] = []"
| "join_slash [s] = s"
| "join_slash (s # t # ss) = s @ ''/'' @ join_slash (t # ss)"

text \<open>One element more, the latest in front.\<close>

definition clean_step :: "bool \<Rightarrow> string list \<Rightarrow> string \<Rightarrow> string list" where
  "clean_step rooted out e =
     (if e = '''' \<or> e = ''.'' then out
      else if e = ''..'' then
        (case out of [] \<Rightarrow> if rooted then [] else [''..''] | p # ps \<Rightarrow> if p = ''..'' then ''..'' # out else ps)
      else e # out)"

definition path_clean :: "string \<Rightarrow> string" where
  "path_clean p =
     (let rooted = (p \<noteq> [] \<and> hd p = CHR ''/'');
          out = rev (foldl (clean_step rooted) [] (split_slash p))
      in if rooted then CHR ''/'' # join_slash out else if out = [] then ''.'' else join_slash out)"

text \<open>\<open>Join\<close> skips what is empty, and is empty if all is.\<close>

definition path_join :: "string list \<Rightarrow> string" where
  "path_join es =
     (let ne = filter (\<lambda>e. e \<noteq> '''') es in if ne = [] then '''' else path_clean (join_slash ne))"

subsection \<open>Lemmas\<close>

lemma split_slash_not_Nil [simp]: "split_slash s \<noteq> []"
  by (induction s) (auto split: list.split)

lemma split_slash_plain: "CHR ''/'' \<notin> set s \<Longrightarrow> split_slash s = [s]"
  by (induction s) auto

lemma split_slash_append:
  "CHR ''/'' \<notin> set s \<Longrightarrow> split_slash (s @ CHR ''/'' # t) = s # split_slash t"
  by (induction s) auto

lemma join_split [simp]: "join_slash (split_slash s) = s"
proof (induction s)
  case (Cons c s)
  obtain t ts where t: "split_slash s = t # ts" by (cases "split_slash s") auto
  then show ?case using Cons by (cases ts) auto
qed simp

lemma split_join:
  "\<lbrakk>ss \<noteq> []; \<forall>s\<in>set ss. CHR ''/'' \<notin> set s\<rbrakk> \<Longrightarrow> split_slash (join_slash ss) = ss"
proof (induction ss rule: join_slash.induct)
  case (2 s)
  then show ?case by (simp add: split_slash_plain)
next
  case (3 s t ss)
  then have "split_slash (join_slash (t # ss)) = t # ss" "CHR ''/'' \<notin> set s" by (simp_all del: join_slash.simps)
  then show ?case using split_slash_append [of s "join_slash (t # ss)"] by (simp del: split_slash.simps)
qed simp

text \<open>Path elements that stay as they are.\<close>

definition plain_element :: "string \<Rightarrow> bool" where
  "plain_element e \<longleftrightarrow> e \<noteq> '''' \<and> e \<noteq> ''.'' \<and> e \<noteq> ''..'' \<and> CHR ''/'' \<notin> set e"

lemma clean_plain:
  "\<forall>e\<in>set es. plain_element e \<Longrightarrow> foldl (clean_step rooted) out es = rev es @ out"
  by (induction es arbitrary: out) (auto simp: clean_step_def plain_element_def)

lemma hd_join_slash: "ss \<noteq> [] \<Longrightarrow> hd ss \<noteq> [] \<Longrightarrow> join_slash ss \<noteq> [] \<and> hd (join_slash ss) = hd (hd ss)"
  by (cases ss rule: join_slash.cases) auto

lemma path_clean_relative:
  assumes "es \<noteq> []" and "\<forall>e\<in>set es. plain_element e"
  shows "path_clean (join_slash es) = join_slash es"
proof -
  have "plain_element (hd es)" using assms by simp
  then have "hd es \<noteq> []" "hd (hd es) \<noteq> CHR ''/''"
    unfolding plain_element_def by (simp, metis hd_in_set)
  moreover have "split_slash (join_slash es) = es"
    by (rule split_join) (use assms in \<open>auto simp: plain_element_def\<close>)
  ultimately show ?thesis
    using hd_join_slash [OF assms(1)] clean_plain [OF assms(2), of False "[]"] assms(1)
    by (simp add: path_clean_def)
qed

lemma path_clean_rooted:
  assumes "\<forall>e\<in>set es. plain_element e"
  shows "path_clean (CHR ''/'' # join_slash es) = CHR ''/'' # join_slash es"
proof (cases "es = []")
  case False
  have "split_slash (join_slash es) = es"
    by (rule split_join) (use assms False in \<open>auto simp: plain_element_def\<close>)
  then show ?thesis
    using clean_plain [OF assms, of True "[]"] by (simp add: path_clean_def clean_step_def)
qed (simp add: path_clean_def clean_step_def)

end
