(* ===== verification/Deployer.thy ===== *)
theory Deployer
  imports Invoker GoJson GoPath Goroutines
begin

text \<open>
  \<open>tools/deployer/client.go\<close>: the functions listed in a JSON file are deployed to the cluster, at
  most \<open>conc\<close> of them at a time, and their URLs written to the endpoints file. \<open>deploy\<close> is a program
  of several goroutines: the main one, which fills the semaphore channel and starts the others,
  and one per function. Reading and writing files and running \<open>kn\<close> are arguments.
\<close>

subsection \<open>The list of functions\<close>

record function_type =
  FuncName :: string
  File :: string
  Count :: int
  FuncEventing :: bool
  ApplyScript :: string

definition zero_function :: function_type where
  "zero_function = \<lparr>FuncName = '''', File = '''', Count = 0, FuncEventing = False, ApplyScript = ''''\<rparr>"

text \<open>Decoding one element of the list. An error of any field makes the decoder fail.\<close>

definition decode_function :: "json \<Rightarrow> function_type option" where
  "decode_function v =
     (case v of
        JNull \<Rightarrow> Some zero_function
      | JObj ms \<Rightarrow>
          Option.bind (decode_field json_string '''' ''name'' ms) (\<lambda>n.
          Option.bind (decode_field json_string '''' ''file'' ms) (\<lambda>f.
          Option.bind (decode_field json_int 0 ''count'' ms) (\<lambda>c.
          Option.bind (decode_field json_bool False ''eventing'' ms) (\<lambda>e.
          Option.bind (decode_field json_string '''' ''applyScript'' ms) (\<lambda>a.
          Some \<lparr>FuncName = n, File = f, Count = c, FuncEventing = e, ApplyScript = a\<rparr>)))))
      | _ \<Rightarrow> None)"

definition decode_slice :: "(json \<Rightarrow> 'a option) \<Rightarrow> 'a list \<Rightarrow> json \<Rightarrow> 'a list option" where
  "decode_slice dec xs v = (case v of JNull \<Rightarrow> Some [] | JArr vs \<Rightarrow> decode_all dec vs | _ \<Rightarrow> None)"

definition decode_functions :: "json \<Rightarrow> function_type list option" where
  "decode_functions v =
     (case v of JNull \<Rightarrow> Some [] | JObj ms \<Rightarrow> decode_field (decode_slice decode_function) [] ''functions'' ms | _ \<Rightarrow> None)"

definition getFuncSlice :: "(string \<Rightarrow> go_error + string) \<Rightarrow> string \<Rightarrow> function_type list outcome" where
  "getFuncSlice read_file file =
     (case read_file file of
        Inl err \<Rightarrow> Fatal ''os.ReadFile''
      | Inr byteValue \<Rightarrow>
          (case Option.bind (parse_json byteValue) decode_functions of
             None \<Rightarrow> Fatal ''json.Unmarshal''
           | Some fs \<Rightarrow> Ret fs))"

subsection \<open>\<open>deploy\<close>\<close>

text \<open>What the two nested loops go through, in order: a name and a file per deployment.\<close>

definition deployments :: "string \<Rightarrow> function_type list \<Rightarrow> (string \<times> string) list" where
  "deployments funcPath funcSlice =
     concat (map (\<lambda>fType. map (\<lambda>i. (FuncName fType @ ''-'' @ itoa i, path_join [funcPath, File fType])) [0..Count fType - 1]) funcSlice)"

definition function_url :: "string \<Rightarrow> string \<Rightarrow> string \<Rightarrow> string" where
  "function_url namespaceName gatewayURL funcName = funcName @ ''.'' @ namespaceName @ ''.'' @ gatewayURL"

text \<open>A goroutine deploys, gives its place in the channel back, and ends. The main one is before a send
  for the \<open>k\<close>th deployment, before the \<open>k\<close>th send of the last loop, or has returned.\<close>

datatype deployer_pc = Deploying "string \<times> string" | Releasing | Gone

datatype main_pc = Acquiring nat | Draining nat | Returned

datatype deploy_event = KnApply "string list" "go_error option"

record deploy_state =
  Main :: main_pc
  Sem :: nat
  Workers :: "deployer_pc list"
  Urls :: "string list"
  Applied :: "deploy_event list"

definition deployFunction :: "string \<Rightarrow> string \<Rightarrow> string list" where
  "deployFunction funcName filePath =
     [''kn'', ''service'', ''apply'', funcName, ''-f'', filePath, ''--concurrency-target'', ''1'']"

text \<open>A send to a full channel waits; so does one to a channel without places, from which nobody
  receives. An error of \<open>kn\<close> is only logged.\<close>

definition main_step :: "(string \<Rightarrow> string) \<Rightarrow> (string \<times> string) list \<Rightarrow> nat \<Rightarrow> deploy_state \<Rightarrow> deploy_state option" where
  "main_step url jobs conc s =
     (case Main s of
        Acquiring k \<Rightarrow>
          if k < length jobs
          then if Sem s < conc
               then Some (s\<lparr>Main := Acquiring (k + 1), Sem := Sem s + 1, Urls := Urls s @ [url (fst (jobs ! k))],
                            Workers := Workers s @ [Deploying (jobs ! k)]\<rparr>)
               else None
          else Some (s\<lparr>Main := Draining 0\<rparr>)
      | Draining k \<Rightarrow>
          if k < conc
          then if Sem s < conc then Some (s\<lparr>Main := Draining (k + 1), Sem := Sem s + 1\<rparr>) else None
          else Some (s\<lparr>Main := Returned\<rparr>)
      | Returned \<Rightarrow> None)"

definition worker_step ::
  "(deploy_event list \<Rightarrow> string list \<Rightarrow> go_error option) \<Rightarrow> nat \<Rightarrow> deploy_state \<Rightarrow> deploy_state option"
where
  "worker_step kn i s =
     (case Workers s ! i of
        Deploying (funcName, filePath) \<Rightarrow>
          (let cmd = deployFunction funcName filePath
           in Some (s\<lparr>Applied := Applied s @ [KnApply cmd (kn (Applied s) cmd)], Workers := (Workers s)[i := Releasing]\<rparr>))
      | Releasing \<Rightarrow> if Sem s = 0 then None else Some (s\<lparr>Sem := Sem s - 1, Workers := (Workers s)[i := Gone]\<rparr>)
      | Gone \<Rightarrow> None)"

inductive deploy_step ::
  "(deploy_event list \<Rightarrow> string list \<Rightarrow> go_error option) \<Rightarrow> (string \<Rightarrow> string) \<Rightarrow> (string \<times> string) list \<Rightarrow> nat \<Rightarrow>
   deploy_state \<Rightarrow> deploy_state \<Rightarrow> bool" for kn url jobs conc where
  main: "main_step url jobs conc s = Some s' \<Longrightarrow> deploy_step kn url jobs conc s s'"
| worker: "\<lbrakk>i < length (Workers s); worker_step kn i s = Some s'\<rbrakk> \<Longrightarrow> deploy_step kn url jobs conc s s'"

definition deploy_start :: deploy_state where
  "deploy_start = \<lparr>Main = Acquiring 0, Sem = 0, Workers = [], Urls = [], Applied = []\<rparr>"

text \<open>\<open>make(chan bool, conc)\<close> panics if \<open>conc\<close> is negative.\<close>

definition make_sem :: "int \<Rightarrow> nat outcome" where
  "make_sem conc = (if conc < 0 then Panic (NewError ''makechan: size out of range'') else Ret (nat conc))"

subsection \<open>\<open>writeEndpoints\<close>\<close>

definition endpoint_json :: "endpoint \<Rightarrow> json" where
  "endpoint_json e = JObj [(''hostname'', JStr (Hostname e)), (''eventing'', JBool (Eventing e)),
     (''matchers'', if Matchers e = [] then JNull else JObj (map (\<lambda>(k, v). (k, JStr v)) (Matchers e)))]"

text \<open>A nil slice is printed as null.\<close>

definition writeEndpoints :: "(string \<Rightarrow> string \<Rightarrow> go_error option) \<Rightarrow> string \<Rightarrow> string list \<Rightarrow> string outcome" where
  "writeEndpoints write_file filePath urls =
     (let endpoints = foldl (\<lambda>es url. es @ [\<lparr>Hostname = url, Eventing = False, Matchers = []\<rparr>]) [] urls;
          data = marshal_indent (if endpoints = [] then JNull else JArr (map endpoint_json endpoints))
      in case write_file filePath data of Some err \<Rightarrow> Fatal ''failed to write'' | None \<Rightarrow> Ret data)"

subsection \<open>The invariant\<close>

definition active :: "deployer_pc \<Rightarrow> bool" where "active p \<longleftrightarrow> p \<noteq> Gone"

fun to_apply :: "deployer_pc \<Rightarrow> (string \<times> string) list" where
  "to_apply (Deploying j) = [j]" | "to_apply p = []"

definition acquired :: "(string \<times> string) list \<Rightarrow> main_pc \<Rightarrow> nat" where
  "acquired jobs m = (case m of Acquiring k \<Rightarrow> k | _ \<Rightarrow> length jobs)"

definition drained :: "nat \<Rightarrow> main_pc \<Rightarrow> nat" where
  "drained conc m = (case m of Acquiring k \<Rightarrow> 0 | Draining k \<Rightarrow> k | Returned \<Rightarrow> conc)"

definition commands :: "deploy_event list \<Rightarrow> string list list" where
  "commands h = map (\<lambda>e. case e of KnApply cmd err \<Rightarrow> cmd) h"

definition command_of :: "string \<times> string \<Rightarrow> string list" where
  "command_of j = deployFunction (fst j) (snd j)"

definition deploy_ok :: "(string \<Rightarrow> string) \<Rightarrow> (string \<times> string) list \<Rightarrow> nat \<Rightarrow> deploy_state \<Rightarrow> bool" where
  "deploy_ok url jobs conc s \<longleftrightarrow>
     acquired jobs (Main s) \<le> length jobs \<and> drained conc (Main s) \<le> conc \<and>
     Sem s = length (filter active (Workers s)) + drained conc (Main s) \<and> Sem s \<le> conc \<and>
     length (Workers s) = acquired jobs (Main s) \<and>
     Urls s = map (\<lambda>j. url (fst j)) (take (acquired jobs (Main s)) jobs) \<and>
     mset (commands (Applied s)) + mset (map command_of (concat (map to_apply (Workers s)))) =
       mset (map command_of (take (acquired jobs (Main s)) jobs))"

lemma deploy_ok_start: "deploy_ok url jobs conc deploy_start"
  by (simp add: deploy_ok_def deploy_start_def acquired_def drained_def commands_def)

lemma deploy_ok_main:
  assumes ok: "deploy_ok url jobs conc s" and step: "main_step url jobs conc s = Some s'"
  shows "deploy_ok url jobs conc s'"
proof (cases "Main s")
  case (Acquiring k)
  show ?thesis
  proof (cases "k < length jobs")
    case True
    then have "take (Suc k) jobs = take k jobs @ [jobs ! k]" by (rule take_Suc_conv_app_nth)
    then show ?thesis
      using ok step Acquiring True
      by (auto simp: main_step_def deploy_ok_def acquired_def drained_def active_def split: if_splits)
  next
    case False
    then show ?thesis
      using ok step Acquiring by (auto simp: main_step_def deploy_ok_def acquired_def drained_def)
  qed
next
  case (Draining k)
  then show ?thesis
    using ok step by (auto simp: main_step_def deploy_ok_def acquired_def drained_def split: if_splits)
qed (use step in \<open>simp add: main_step_def\<close>)

lemma deploy_ok_worker:
  assumes ok: "deploy_ok url jobs conc s" and i: "i < length (Workers s)" and step: "worker_step kn i s = Some s'"
  shows "deploy_ok url jobs conc s'"
proof -
  note upd = mset_concat_update [OF i, of to_apply] length_filter_update [OF i, of active]
  show ?thesis
  proof (cases "Workers s ! i")
    case (Deploying j)
    then have s': "s' = s\<lparr>Applied := Applied s @ [KnApply (command_of j) (kn (Applied s) (command_of j))],
        Workers := (Workers s)[i := Releasing]\<rparr>"
      using step by (cases j) (simp add: worker_step_def command_of_def Let_def)
    have "mset (concat (map to_apply (Workers s))) = add_mset j (mset (concat (map to_apply ((Workers s)[i := Releasing]))))"
      using upd(1) [of Releasing] Deploying by simp
    then have "mset (map command_of (concat (map to_apply (Workers s)))) =
        add_mset (command_of j) (mset (map command_of (concat (map to_apply ((Workers s)[i := Releasing])))))"
      by (metis image_mset_add_mset mset_map)
    then show ?thesis
      using ok s' upd(2) [of Releasing] Deploying by (simp add: deploy_ok_def active_def commands_def)
  next
    case Releasing
    then have s': "Sem s \<noteq> 0" "s' = s\<lparr>Sem := Sem s - 1, Workers := (Workers s)[i := Gone]\<rparr>"
      using step by (auto simp: worker_step_def split: if_splits)
    have "mset (concat (map to_apply (Workers s))) = mset (concat (map to_apply ((Workers s)[i := Gone])))"
      using upd(1) [of Gone] Releasing by simp
    then have "mset (map command_of (concat (map to_apply (Workers s)))) =
        mset (map command_of (concat (map to_apply ((Workers s)[i := Gone]))))"
      by (metis mset_map)
    then show ?thesis
      using ok s' upd(2) [of Gone] Releasing by (auto simp: deploy_ok_def active_def)
  qed (use step in \<open>simp add: worker_step_def\<close>)
qed

lemma deploy_ok_step: "\<lbrakk>deploy_ok url jobs conc s; deploy_step kn url jobs conc s s'\<rbrakk> \<Longrightarrow> deploy_ok url jobs conc s'"
  by (erule deploy_step.cases) (auto intro: deploy_ok_main deploy_ok_worker)

subsection \<open>Termination\<close>

fun worker_left :: "deployer_pc \<Rightarrow> nat" where
  "worker_left (Deploying j) = 2" | "worker_left Releasing = 1" | "worker_left Gone = 0"

definition main_left :: "(string \<times> string) list \<Rightarrow> nat \<Rightarrow> main_pc \<Rightarrow> nat" where
  "main_left jobs conc m =
     (case m of Acquiring k \<Rightarrow> 3 * (length jobs - k) + conc + 2 | Draining k \<Rightarrow> conc - k + 1 | Returned \<Rightarrow> 0)"

definition deploy_work :: "(string \<times> string) list \<Rightarrow> nat \<Rightarrow> deploy_state \<Rightarrow> nat" where
  "deploy_work jobs conc s = main_left jobs conc (Main s) + sum_list (map worker_left (Workers s))"

lemma deploy_work_step:
  assumes "deploy_step kn url jobs conc s s'"
  shows "deploy_work jobs conc s' < deploy_work jobs conc s"
  using assms
proof cases
  case main
  then show ?thesis
    by (cases "Main s") (auto simp: main_step_def deploy_work_def main_left_def split: if_splits)
next
  case (worker i)
  note upd = sum_list_update_nat [OF worker(1), of worker_left]
  show ?thesis
  proof (cases "Workers s ! i")
    case (Deploying j)
    then show ?thesis
      using worker(2) upd [of Releasing] by (cases j) (auto simp: worker_step_def deploy_work_def Let_def)
  next
    case Releasing
    then show ?thesis
      using worker(2) upd [of Gone] by (auto simp: worker_step_def deploy_work_def split: if_splits)
  qed (use worker(2) in \<open>simp add: worker_step_def\<close>)
qed

lemma worker_can_run:
  assumes "deploy_ok url jobs conc s" and "filter active (Workers s) \<noteq> []"
  shows "\<exists>s'. deploy_step kn url jobs conc s s'"
proof -
  obtain p where "p \<in> set (Workers s)" "active p" using assms(2) by (auto simp: filter_empty_conv)
  then obtain i where i: "i < length (Workers s)" "active (Workers s ! i)" by (auto simp: in_set_conv_nth)
  have "Sem s \<noteq> 0" using assms by (auto simp: deploy_ok_def)
  then have "\<exists>s'. worker_step kn i s = Some s'"
    using i(2) by (cases "Workers s ! i") (auto simp: worker_step_def active_def Let_def split: prod.split)
  with i(1) show ?thesis by (auto intro: deploy_step.worker)
qed

lemma deploy_progress:
  assumes ok: "deploy_ok url jobs conc s" and "0 < conc" and "Main s \<noteq> Returned"
  shows "\<exists>s'. deploy_step kn url jobs conc s s'"
proof (cases "Sem s < conc \<or> main_step url jobs conc s \<noteq> None")
  case True
  then have "\<exists>s'. main_step url jobs conc s = Some s'"
    using assms(3) by (cases "Main s") (auto simp: main_step_def)
  then show ?thesis by (auto intro: deploy_step.main)
next
  case False
  then have "drained conc (Main s) < conc"
    using assms(2,3) by (cases "Main s") (auto simp: main_step_def drained_def split: if_splits)
  moreover have "Sem s = length (filter active (Workers s)) + drained conc (Main s)" "conc \<le> Sem s"
    using ok False by (auto simp: deploy_ok_def)
  ultimately have "filter active (Workers s) \<noteq> []" by auto
  with ok show ?thesis by (rule worker_can_run)
qed

interpretation limited: invariant_system "deploy_step kn url jobs conc" deploy_start "deploy_ok url jobs conc"
  for kn url jobs conc
  by unfold_locales (auto intro: deploy_ok_start deploy_ok_step)

definition all_deployed :: "(string \<Rightarrow> string) \<Rightarrow> (string \<times> string) list \<Rightarrow> deploy_state \<Rightarrow> bool" where
  "all_deployed url jobs s \<longleftrightarrow> mset (commands (Applied s)) = mset (map command_of jobs) \<and> (\<forall>p\<in>set (Workers s). p = Gone) \<and>
     Urls s = map (\<lambda>j. url (fst j)) jobs"

lemma returned_all_deployed:
  assumes ok: "deploy_ok url jobs conc s" and "Main s = Returned"
  shows "all_deployed url jobs s"
proof -
  have "filter active (Workers s) = []" using assms by (auto simp: deploy_ok_def drained_def)
  then have gone: "\<forall>p\<in>set (Workers s). p = Gone" by (auto simp: filter_empty_conv active_def)
  then have "mset (map command_of (concat (map to_apply (Workers s)))) = {#}" by auto
  moreover have "mset (commands (Applied s)) + mset (map command_of (concat (map to_apply (Workers s)))) =
      mset (map command_of jobs)" "Urls s = map (\<lambda>j. url (fst j)) jobs"
    using assms by (simp_all add: deploy_ok_def acquired_def)
  ultimately show ?thesis using gone unfolding all_deployed_def by (metis add.right_neutral)
qed

lemma deploy_work_start: "deploy_work jobs (Suc c) deploy_start = 3 * length jobs + c + 3"
  by (simp add: deploy_work_def deploy_start_def main_left_def)

interpretation deploying: computing_system "deploy_step kn url jobs (Suc c)" deploy_start "deploy_ok url jobs (Suc c)"
    "deploy_work jobs (Suc c)" "\<lambda>s. Main s = Returned" "all_deployed url jobs"
  for kn url jobs c
  by unfold_locales (auto intro: deploy_work_step deploy_progress returned_all_deployed)

subsection \<open>Properties\<close>

text \<open>
  Property C22: under every schedule at most \<open>conc\<close> functions are being deployed at any time, the
  goroutines that have not given their place back included, and no function is deployed that was
  not asked for, or more often.
\<close>

theorem deploy_limit:
  assumes "runs_by (deploy_step kn url jobs conc) deploy_start n s"
  shows "length (filter active (Workers s)) \<le> conc \<and> mset (commands (Applied s)) \<subseteq># mset (map command_of jobs)"
proof
  have ok: "deploy_ok url jobs conc s" by (rule limited.runs_ok [OF assms])
  then show "length (filter active (Workers s)) \<le> conc" by (auto simp: deploy_ok_def)
  let ?k = "acquired jobs (Main s)"
  have "mset (commands (Applied s)) \<subseteq># mset (map command_of (take ?k jobs))"
    using ok by (metis deploy_ok_def mset_subset_eq_add_left)
  also have "\<dots> \<subseteq># mset (map command_of jobs)"
    by (metis append_take_drop_id map_append mset_append mset_subset_eq_add_left)
  finally show "mset (commands (Applied s)) \<subseteq># mset (map command_of jobs)" .
qed

text \<open>
  Property C2: \<open>deploy\<close> returns. With room for at least one function no schedule takes more than
  \<open>3 n + conc + 2\<close> steps for \<open>n\<close> deployments and none gets stuck; when it returns every function has
  been handed to \<open>kn\<close>, as often as its count says, all goroutines have ended, and the URLs are
  those of the deployments in the order of the list.
\<close>

theorem deploy_returns:
  "(\<exists>n s. runs_by (deploy_step kn url jobs (Suc c)) deploy_start n s \<and> Main s = Returned) \<and>
   (\<forall>n s. runs_by (deploy_step kn url jobs (Suc c)) deploy_start n s \<longrightarrow>
      n \<le> 3 * length jobs + c + 3 \<and>
      (if Main s = Returned
       then mset (commands (Applied s)) = mset (map command_of jobs) \<and> (\<forall>p\<in>set (Workers s). p = Gone) \<and>
         Urls s = map (\<lambda>j. url (fst j)) jobs
       else \<exists>s'. deploy_step kn url jobs (Suc c) s s'))"
  using deploying.computes [of kn url jobs c] unfolding deploy_work_start all_deployed_def by blast

text \<open>
  With room for no function the first send waits for ever: no goroutine that could
  receive has been started, and \<open>deploy\<close> hangs as soon as there is something to deploy.
\<close>

theorem deploy_no_room:
  assumes "jobs \<noteq> []"
  shows "\<not> deploy_step kn url jobs 0 deploy_start s \<and> Main deploy_start \<noteq> Returned"
  using assms by (auto elim!: deploy_step.cases simp: main_step_def deploy_start_def)

theorem deploy_no_room_witness:
  "\<not> deploy_step (\<lambda>h cmd. None) (function_url ''default'' ''gw'') [(''f-0'', ''f.yaml'')] 0 deploy_start deploy_start"
  using deploy_no_room [of "[(''f-0'', ''f.yaml'')]" "\<lambda>h cmd. None" "function_url ''default'' ''gw''" deploy_start] by simp

definition demo_functions :: "function_type list" where
  "demo_functions = [\<lparr>FuncName = ''pyaes'', File = ''pyaes.yaml'', Count = 2, FuncEventing = True, ApplyScript = ''''\<rparr>]"

lemma demo_deployments: "deployments ''./configs'' demo_functions =
    [(''pyaes-0'', ''configs/pyaes.yaml''), (''pyaes-1'', ''configs/pyaes.yaml'')]"
proof -
  have "itoa 0 = ''0''" "itoa 1 = ''1''" by code_simp+
  moreover have "path_join [''./configs'', ''pyaes.yaml''] = ''configs/pyaes.yaml''" by code_simp
  moreover have "[0..(1::int)] = [0, 1]" by code_simp
  ultimately show ?thesis by (simp add: deployments_def demo_functions_def)
qed

theorem deploy_returns_witness:
  "\<exists>n s. runs_by (deploy_step (\<lambda>h cmd. None) (function_url ''default'' ''gw'') (deployments ''./configs'' demo_functions) (Suc 0)) deploy_start n s \<and>
     Urls s = [''pyaes-0.default.gw'', ''pyaes-1.default.gw'']"
proof -
  let ?jobs = "deployments ''./configs'' demo_functions"
  note returns = deploy_returns [of "\<lambda>h cmd. None" "function_url ''default'' ''gw''" ?jobs 0]
  obtain n s where s: "runs_by (deploy_step (\<lambda>h cmd. None) (function_url ''default'' ''gw'') ?jobs (Suc 0)) deploy_start n s"
    "Main s = Returned" using returns by blast
  then have "Urls s = map (\<lambda>j. function_url ''default'' ''gw'' (fst j)) ?jobs" using returns by auto
  with s(1) show ?thesis by (auto simp: demo_deployments function_url_def)
qed

theorem deploy_limit_witness:
  "\<exists>s :: deploy_state. length (filter active (Workers s)) \<le> 1 \<and> Main s = Acquiring 1"
proof -
  let ?step = "deploy_step (\<lambda>h cmd. None) (function_url ''default'' ''gw'') (deployments ''./configs'' demo_functions) 1"
  have "\<exists>s. main_step (function_url ''default'' ''gw'') (deployments ''./configs'' demo_functions) 1 deploy_start = Some s \<and>
      Main s = Acquiring 1"
    by (simp add: main_step_def deploy_start_def demo_deployments)
  then obtain s where s: "?step deploy_start s" "Main s = Acquiring 1" using deploy_step.main by blast
  have "runs_by ?step deploy_start 1 s" using runs_by.more [of ?step deploy_start 0, OF runs_by.start s(1)] by simp
  from deploy_limit [OF this] s(2) show ?thesis by blast
qed

end
