(* ===== verification/EndpointsFile.thy ===== *)
theory EndpointsFile
  imports Deployer
begin

text \<open>
  The endpoints file, which the deployer writes and the invoker reads: \<open>readEndpoints\<close> of
  \<open>tools/invoker/client.go\<close>, and \<open>main\<close> of \<open>tools/deployer/client.go\<close>. An element that is null is a
  nil pointer.
\<close>

subsection \<open>Reading\<close>

text \<open>A JSON object is added to the map a field has; null makes it nil. The value null of a member is the
  empty string.\<close>

fun add_matchers :: "matchers \<Rightarrow> (string \<times> json) list \<Rightarrow> matchers option" where
  "add_matchers ms [] = Some ms"
| "add_matchers ms ((k, v) # kvs) =
     (case json_string '''' v of None \<Rightarrow> None | Some s \<Rightarrow> add_matchers (AList.update k s ms) kvs)"

definition json_matchers :: "matchers \<Rightarrow> json \<Rightarrow> matchers option" where
  "json_matchers ms v = (case v of JNull \<Rightarrow> Some [] | JObj kvs \<Rightarrow> add_matchers ms kvs | _ \<Rightarrow> None)"

definition decode_endpoint :: "json \<Rightarrow> endpoint option option" where
  "decode_endpoint v =
     (case v of
        JNull \<Rightarrow> Some None
      | JObj ms \<Rightarrow>
          Option.bind (decode_field json_string '''' ''hostname'' ms) (\<lambda>h.
          Option.bind (decode_field json_bool False ''eventing'' ms) (\<lambda>e.
          Option.bind (decode_field json_matchers [] ''matchers'' ms) (\<lambda>m.
          Some (Some \<lparr>Hostname = h, Eventing = e, Matchers = m\<rparr>))))
      | _ \<Rightarrow> None)"

definition readEndpoints :: "(string \<Rightarrow> go_error + string) \<Rightarrow> string \<Rightarrow> go_error + endpoint option list" where
  "readEndpoints read_file path =
     (case read_file path of
        Inl err \<Rightarrow> Inl err
      | Inr data \<Rightarrow>
          (case Option.bind (parse_json data) (decode_slice decode_endpoint []) of
             None \<Rightarrow> Inl (NewError ''json.Unmarshal'')
           | Some eps \<Rightarrow> Inr eps))"

subsection \<open>The deployer\<close>

record deployer_flags =
  FuncPath :: string
  FuncJSONFile :: string
  EndpointsPath :: string
  DeploymentConcurrency :: int
  NamespaceName :: string
  GatewayURL :: string

text \<open>What \<open>main\<close> may end with, under some schedule of its goroutines: the text it has written.\<close>

inductive deployer_main ::
  "(string \<Rightarrow> go_error + string) \<Rightarrow> (string \<Rightarrow> string \<Rightarrow> go_error option) \<Rightarrow>
   (deploy_event list \<Rightarrow> string list \<Rightarrow> go_error option) \<Rightarrow> deployer_flags \<Rightarrow> string outcome \<Rightarrow> bool"
  for read_file write_file kn f
where
  no_functions: "\<lbrakk>getFuncSlice read_file (FuncJSONFile f) = r; \<not> (\<exists>fs. r = Ret fs)\<rbrakk>
     \<Longrightarrow> deployer_main read_file write_file kn f (out_bind r (\<lambda>fs. Ret ''''))"
| no_semaphore: "\<lbrakk>getFuncSlice read_file (FuncJSONFile f) = Ret fs; make_sem (DeploymentConcurrency f) = Panic e\<rbrakk>
     \<Longrightarrow> deployer_main read_file write_file kn f (Panic e)"
| deployed: "\<lbrakk>getFuncSlice read_file (FuncJSONFile f) = Ret fs; make_sem (DeploymentConcurrency f) = Ret conc;
       runs_by (deploy_step kn (function_url (NamespaceName f) (GatewayURL f)) (deployments (FuncPath f) fs) conc) deploy_start n s;
       Main s = Returned\<rbrakk>
     \<Longrightarrow> deployer_main read_file write_file kn f (writeEndpoints write_file (EndpointsPath f) (Urls s))"

inductive_cases deployer_main_Ret: "deployer_main read_file write_file kn f (Ret data)"

subsection \<open>The round trip\<close>

definition plain_endpoint :: "string \<Rightarrow> endpoint" where
  "plain_endpoint url = \<lparr>Hostname = url, Eventing = False, Matchers = []\<rparr>"

definition endpoints_text :: "string list \<Rightarrow> string" where
  "endpoints_text urls = marshal_indent (if urls = [] then JNull else JArr (map (endpoint_json \<circ> plain_endpoint) urls))"

lemma writeEndpoints_text:
  "writeEndpoints write_file path urls =
     (case write_file path (endpoints_text urls) of Some err \<Rightarrow> Fatal ''failed to write'' | None \<Rightarrow> Ret (endpoints_text urls))"
proof -
  have "foldl (\<lambda>es url. es @ [\<lparr>Hostname = url, Eventing = False, Matchers = []\<rparr>]) acc urls = acc @ map plain_endpoint urls" for acc
    by (induction urls arbitrary: acc) (simp_all add: plain_endpoint_def)
  from this [of "[]"] show ?thesis
    by (cases urls) (auto simp: writeEndpoints_def endpoints_text_def Let_def comp_def split: option.split)
qed

lemma decode_plain_endpoint: "decode_endpoint (endpoint_json (plain_endpoint url)) = Some (Some (plain_endpoint url))"
  by (simp add: decode_endpoint_def endpoint_json_def plain_endpoint_def decode_field_def member_values_def fold_equal_def
      to_lower_def to_lower_char_def json_string_def json_bool_def json_matchers_def)

lemma readEndpoints_text:
  assumes "read_file path = Inr (endpoints_text urls)" and "\<forall>u\<in>set urls. ascii u"
  shows "readEndpoints read_file path = Inr (map (Some \<circ> plain_endpoint) urls)"
proof -
  let ?v = "if urls = [] then JNull else JArr (map (endpoint_json \<circ> plain_endpoint) urls)"
  have "printable ?v" using assms(2) by (auto simp: endpoint_json_def plain_endpoint_def) (auto simp: ascii_def)
  then have "parse_json (endpoints_text urls) = Some ?v" unfolding endpoints_text_def by (rule parse_marshal_indent)
  moreover have "decode_all decode_endpoint (map (endpoint_json \<circ> plain_endpoint) urls) = Some (map (Some \<circ> plain_endpoint) urls)"
    by (induction urls) (simp_all add: decode_plain_endpoint)
  ultimately show ?thesis using assms(1) by (simp add: readEndpoints_def decode_slice_def)
qed

definition deployed_urls :: "deployer_flags \<Rightarrow> function_type list \<Rightarrow> string list" where
  "deployed_urls f fs = map (\<lambda>j. function_url (NamespaceName f) (GatewayURL f) (fst j)) (deployments (FuncPath f) fs)"

lemma returned_urls:
  assumes "runs_by (deploy_step kn url jobs conc) deploy_start n s" and "Main s = Returned"
  shows "Urls s = map (\<lambda>j. url (fst j)) jobs"
  using limited.runs_ok [OF assms(1)] assms(2) by (simp add: deploy_ok_def acquired_def)

text \<open>
  Property C7: what the deployer has written the invoker reads: under every schedule, if the deployer
  ends with a file, then the file lists the URL of every deployment, in the order of the function
  list, and reading it gives exactly these endpoints. None of them uses eventing, whatever the
  function list says, and so the invoker never starts the time-series database for them.
\<close>

theorem endpoints_roundtrip:
  assumes "deployer_main read_file write_file kn f (Ret data)" and "getFuncSlice read_file (FuncJSONFile f) = Ret fs"
    and "\<forall>u\<in>set (deployed_urls f fs). ascii u" and "invoker_read path = Inr data"
  shows "readEndpoints invoker_read path = Inr (map (Some \<circ> plain_endpoint) (deployed_urls f fs)) \<and>
    write_file (EndpointsPath f) data = None \<and>
    Start (zip (map plain_endpoint (deployed_urls f fs)) ids) dial_error start_experiment s = Ret (s, None)"
proof -
  obtain conc n st where run: "runs_by (deploy_step kn (function_url (NamespaceName f) (GatewayURL f)) (deployments (FuncPath f) fs) conc)
      deploy_start n st" "Main st = Returned"
    and w: "writeEndpoints write_file (EndpointsPath f) (Urls st) = Ret data"
    using assms(1,2) by (elim deployer_main_Ret) (auto split: outcome.splits)
  have "Urls st = deployed_urls f fs" unfolding deployed_urls_def by (rule returned_urls [OF run])
  then have data: "data = endpoints_text (deployed_urls f fs)" "write_file (EndpointsPath f) data = None"
    using w by (auto simp: writeEndpoints_text split: option.splits)
  have "\<not> Eventing ep" if "(ep, i) \<in> set (zip (map plain_endpoint (deployed_urls f fs)) ids)" for ep i
    using set_zip_leftD [OF that] by (auto simp: plain_endpoint_def)
  then have "\<not> list_ex (\<lambda>(ep, workflowID). Eventing ep) (zip (map plain_endpoint (deployed_urls f fs)) ids)"
    by (auto simp: list_ex_iff)
  then show ?thesis
    using readEndpoints_text assms(3,4) data by (simp add: Start_def)
qed

definition demo_list :: json where
  "demo_list = JObj [(''functions'', JArr [JObj [(''name'', JStr ''pyaes''), (''file'', JStr ''pyaes.yaml''),
     (''count'', JNum (itoa 2)), (''eventing'', JBool True)]])]"

definition demo_flags :: deployer_flags where
  "demo_flags = \<lparr>FuncPath = ''./configs'', FuncJSONFile = ''functions.json'', EndpointsPath = ''endpoints.json'',
     DeploymentConcurrency = 1, NamespaceName = ''default'', GatewayURL = ''gw''\<rparr>"

lemma demo_slice: "getFuncSlice (\<lambda>p. Inr (marshal demo_list)) (FuncJSONFile demo_flags) = Ret demo_functions"
proof -
  have two: "itoa 2 = ''2''" by code_simp
  have "printable demo_list"
    by (simp add: demo_list_def two ascii_def valid_number_def fraction_def number_char_def is_digit_def)
  then have parse: "parse_json (marshal demo_list) = Some demo_list" by (rule parse_marshal)
  have "json_int 0 (JNum (itoa 2)) = Some 2" using atoi_itoa [of 2] by (simp add: json_int_def)
  then have "decode_functions demo_list = Some demo_functions"
    by (simp add: decode_functions_def demo_list_def decode_field_def member_values_def fold_equal_def to_lower_def to_lower_char_def
        decode_slice_def decode_function_def json_string_def json_bool_def demo_functions_def)
  with parse show ?thesis by (simp add: getFuncSlice_def)
qed

theorem endpoints_roundtrip_witness:
  "\<exists>data. deployer_main (\<lambda>p. Inr (marshal demo_list)) (\<lambda>p d. None) (\<lambda>h cmd. None) demo_flags (Ret data) \<and>
     readEndpoints (\<lambda>p. Inr data) ''endpoints.json'' =
       Inr [Some (plain_endpoint ''pyaes-0.default.gw''), Some (plain_endpoint ''pyaes-1.default.gw'')]"
proof -
  let ?main = "deployer_main (\<lambda>p. Inr (marshal demo_list)) (\<lambda>p d. None) (\<lambda>h cmd. None) demo_flags"
  have urls: "deployed_urls demo_flags demo_functions = [''pyaes-0.default.gw'', ''pyaes-1.default.gw'']"
    by (simp add: deployed_urls_def demo_flags_def demo_deployments function_url_def)
  have sem: "make_sem (DeploymentConcurrency demo_flags) = Ret (Suc 0)" by (simp add: make_sem_def demo_flags_def)
  obtain n s where run: "runs_by (deploy_step (\<lambda>h cmd. None) (function_url (NamespaceName demo_flags) (GatewayURL demo_flags))
      (deployments (FuncPath demo_flags) demo_functions) (Suc 0)) deploy_start n s" "Main s = Returned"
    using deploying.some_run_ends by blast
  have main: "?main (Ret (endpoints_text (Urls s)))"
    using deployer_main.deployed [OF demo_slice sem run, of "\<lambda>p d. None"] by (simp add: writeEndpoints_text)
  have "\<forall>u\<in>set (deployed_urls demo_flags demo_functions). ascii u" by (simp add: urls ascii_def)
  from endpoints_roundtrip [OF main demo_slice this, of "\<lambda>p. Inr (endpoints_text (Urls s))" "''endpoints.json''"] main urls
  show ?thesis by auto
qed

end
