(* ===== verification/Relay.thy ===== *)
theory Relay
  imports Tracing Invoker
begin

text \<open>
  \<open>tools/relay/server.go\<close>: a Greeter that passes every request on to a benchmark function, with
  input made by a generator; and two Greeter clients, \<open>tools/test-client\<close> and the \<open>goclient\<close> of
  the tracing tests. The third-party client, generator and gRPC are answered by the log. A
  deferred call runs when \<open>main\<close> returns, and does not when the process ends through \<open>log.Fatal\<close>.
\<close>

subsection \<open>The relay's start\<close>

record relay_flags =
  RelayAddress :: string
  RelayZipkin :: string
  FunctionName :: string
  FunctionEndpointURL :: string
  FunctionEndpointPort :: string
  LowerBound :: int
  UpperBound :: int
  GeneratorString :: string
  RelayValue :: string
  FunctionMethod :: string
  Verbose :: bool
  ProfileFunction :: bool

datatype generator = Unique | Linear | Random

datatype relay_event =
    SetDebugLevel
  | StartTracer string string "shutdown_func \<times> go_error option"
  | InitClient string string string "go_error option"
  | SetGenerator generator
  | SetValue string
  | SetLowerBound int
  | SetUpperBound int
  | SetMethod string
  | NewServer "grpc_option list"
  | Listen string "go_error option"
  | Serve "go_error option"
  | CloseListener
  | CloseClient
  | NextInput string
  | Now int
  | Request string "string \<times> go_error option"

record relay_world =
  environ :: environment
  otel_packages :: tracing_packages
  find_service :: "string \<Rightarrow> string"
  client_init :: "relay_event list \<Rightarrow> string \<Rightarrow> string \<Rightarrow> string \<Rightarrow> go_error option"
  net_listen :: "relay_event list \<Rightarrow> string \<Rightarrow> go_error option"
  grpc_serve :: "relay_event list \<Rightarrow> go_error option"
  next_input :: "relay_event list \<Rightarrow> string"
  clock :: "relay_event list \<Rightarrow> int"
  request :: "relay_event list \<Rightarrow> string \<Rightarrow> string \<times> go_error option"

definition isDebuggingEnabled :: "environment \<Rightarrow> bool \<Rightarrow> bool outcome" where
  "isDebuggingEnabled env verbose =
     (case env ''ENABLE_DEBUGGING'' of
        None \<Rightarrow> Ret (False \<or> verbose)
      | Some v \<Rightarrow> if v = ''false'' then Ret (False \<or> verbose) else if v = ''true'' then Ret (True \<or> verbose)
                  else Fatal ''ENABLE_DEBUGGING has unexpected value'')"

definition no_otel :: otel where "no_otel = \<lparr>Provider = None, Propagators = []\<rparr>"

definition start_tracer :: "relay_world \<Rightarrow> string \<Rightarrow> string \<Rightarrow> (relay_event, shutdown_func outcome) logged" where
  "start_tracer w url name =
     State_Monad.bind (perform (\<lambda>h. fst (InitBasicTracer (otel_packages w) (environ w) url name no_otel)) (StartTracer url name))
       (\<lambda>(shutdown, err). oreturn shutdown)"

definition emit_all :: "relay_event list \<Rightarrow> (relay_event, unit outcome) logged" where
  "emit_all es = foldr (\<lambda>e m. obind (ignore_result (record_event e)) (\<lambda>_. m)) es (oreturn ())"

text \<open>An unknown generator leaves the client's own.\<close>

definition configure_generator :: "relay_flags \<Rightarrow> (relay_event, unit outcome) logged" where
  "configure_generator f =
     emit_all
       ((if GeneratorString f = ''unique'' then [SetGenerator Unique]
         else if GeneratorString f = ''linear'' then [SetGenerator Linear]
         else if GeneratorString f = ''random'' then [SetGenerator Random] else []) @
        [SetValue (RelayValue f), SetLowerBound (LowerBound f), SetUpperBound (UpperBound f), SetMethod (FunctionMethod f)])"

text \<open>\<open>shutdown\<close> is deferred if tracing is on.\<close>

definition run_deferred :: "tracing_packages \<Rightarrow> shutdown_func option \<Rightarrow> unit outcome" where
  "run_deferred pk deferred = (case deferred of None \<Rightarrow> Ret () | Some f \<Rightarrow> call_shutdown pk f)"

definition relay_main :: "relay_world \<Rightarrow> relay_flags \<Rightarrow> (relay_event, unit outcome) logged" where
  "relay_main w f =
     obind (State_Monad.return (isDebuggingEnabled (environ w) (Verbose f))) (\<lambda>debugging.
     obind (emit_all (if debugging then [SetDebugLevel] else [])) (\<lambda>_.
     obind (State_Monad.return (IsTracingEnabled (environ w))) (\<lambda>tracing.
     obind (if tracing
            then obind (start_tracer w (RelayZipkin f) (''Relay server for '' @ FunctionName f)) (\<lambda>sh. oreturn (Some sh))
            else oreturn None) (\<lambda>deferred.
     let serviceName = find_service w (FunctionName f); url = FunctionEndpointURL f; port = FunctionEndpointPort f
     in obind (or_fatal_err ''Fail to init client'' (perform (\<lambda>h. client_init w h serviceName url port) (InitClient serviceName url port))) (\<lambda>_.
     obind (configure_generator f) (\<lambda>_.
     obind (State_Monad.return (IsTracingEnabled (environ w))) (\<lambda>tracing.
     obind (emit_all [NewServer (if tracing then GetGRPCServerWithUnaryInterceptor else [])]) (\<lambda>_.
     obind (or_fatal_err ''Failed to listen'' (perform (\<lambda>h. net_listen w h (RelayAddress f)) (Listen (RelayAddress f)))) (\<lambda>_.
     obind (or_fatal_err ''failed to serve'' (perform (grpc_serve w) Serve)) (\<lambda>_.
     obind (emit_all [CloseListener, CloseClient]) (\<lambda>_.
     State_Monad.return (run_deferred (otel_packages w) deferred))))))))))))"

subsection \<open>The relay's handler\<close>

text \<open>The message and the error are both returned. With profiling the duration is put behind the
  reply of the function.\<close>

definition final_reply :: "bool \<Rightarrow> string \<Rightarrow> int \<Rightarrow> string" where
  "final_reply profile reply elapsedTime = (if profile then reply @ ''|'' @ itoa elapsedTime else reply)"

definition relay_SayHello :: "relay_world \<Rightarrow> relay_flags \<Rightarrow> (relay_event, string \<times> go_error option) logged" where
  "relay_SayHello w f =
     State_Monad.bind (perform (next_input w) NextInput) (\<lambda>pkt.
     State_Monad.bind (perform (clock w) Now) (\<lambda>startTime.
     State_Monad.bind (perform (\<lambda>h. request w h pkt) (Request pkt)) (\<lambda>(reply, err).
     State_Monad.bind (perform (clock w) Now) (\<lambda>endTime.
     State_Monad.return (final_reply (ProfileFunction f) reply (microseconds (time_sub endTime startTime)), err)))))"

subsection \<open>Two clients\<close>

datatype client_event =
    Dial string "grpc_option list" "go_error option"
  | Call string "go_error + string"
  | CloseConn

record client_world =
  dial :: "string \<Rightarrow> go_error option"
  say_hello :: "string \<Rightarrow> go_error + string"

text \<open>The tracer of \<open>goclient\<close> is shut down last. The error of the tracer is only logged.\<close>

definition goclient_main ::
  "client_world \<Rightarrow> tracing_packages \<Rightarrow> environment \<Rightarrow> string \<Rightarrow> int \<Rightarrow> string \<Rightarrow> (client_event, string outcome) logged"
where
  "goclient_main w pk env address clientPort url =
     (let shutdown = fst (fst (InitBasicTracer pk env url ''go client'' no_otel));
          server = address @ '':'' @ itoa clientPort
      in obind (or_fatal_err ''fail to dial''
           (perform (\<lambda>h. dial w server) (Dial server [InsecureCredentials, ClientStats]))) (\<lambda>_.
         obind (or_fatal ''Error'' (perform (\<lambda>h. say_hello w ''client'') (Call ''client''))) (\<lambda>empty.
         obind (ignore_result (record_event CloseConn)) (\<lambda>_.
         State_Monad.return (out_bind (call_shutdown pk shutdown) (\<lambda>_. Ret empty))))))"

definition test_client_main :: "client_world \<Rightarrow> string \<Rightarrow> string \<Rightarrow> (client_event, string outcome) logged" where
  "test_client_main w address name =
     obind (or_fatal_err ''did not connect'' (perform (\<lambda>h. dial w address) (Dial address [InsecureCredentials]))) (\<lambda>_.
     obind (or_fatal ''could not greet'' (perform (\<lambda>h. say_hello w name) (Call name))) (\<lambda>r.
     obind (ignore_result (record_event CloseConn)) (\<lambda>_. oreturn r)))"

subsection \<open>Lemmas\<close>

lemma run_emit_all [simp]: "run_state (emit_all es) h = (Ret (), h @ es)"
  by (induction es arbitrary: h) (simp_all add: emit_all_def)

lemma run_start_tracer [simp]:
  "run_state (start_tracer w url name) h =
     (let r = fst (InitBasicTracer (otel_packages w) (environ w) url name no_otel) in (Ret (fst r), h @ [StartTracer url name r]))"
  by (simp add: start_tracer_def run_state_bind Let_def split: prod.split)

lemma InitBasicTracer_nil:
  "fst (fst (InitBasicTracer pk env url name s)) = None \<longleftrightarrow> zipkin_new pk url \<noteq> None"
  by (auto simp: InitBasicTracer_def newZipkinExporter_def initTracer_def Let_def split: option.split)

text \<open>The last word of a message whose end \<open>t\<close> has no white space ends in \<open>t\<close>.\<close>

lemma last_field:
  assumes "\<forall>c\<in>set t. \<not> is_space c" and "t \<noteq> []"
  shows "\<exists>x. fields_acc w (u @ t) \<noteq> [] \<and> last (fields_acc w (u @ t)) = x @ t"
proof (induction u arbitrary: w)
  case Nil
  then show ?case using fields_acc_word [OF assms(1), of w] assms(2) by auto
next
  case (Cons c u)
  show ?case using Cons.IH [of "[]"] Cons.IH [of "w @ [c]"] by auto
qed

lemma scan_uint_junk: "\<lbrakk>c \<in> set s; \<not> is_digit c\<rbrakk> \<Longrightarrow> \<exists>m e. scan_uint n s = (m, Some e) \<and> (e = ErrRange \<longrightarrow> m = max_uint64)"
proof (induction s arbitrary: n)
  case (Cons d s)
  show ?case
  proof (cases "d = c")
    case True
    then show ?thesis using Cons.prems(2) by simp
  next
    case False
    then have "\<exists>m e. scan_uint (n * 10 + digit_val d) s = (m, Some e) \<and> (e = ErrRange \<longrightarrow> m = max_uint64)"
      using Cons by simp
    then show ?thesis by (auto simp: Let_def)
  qed
qed simp

lemma parse_int64_junk:
  assumes "c \<in> set s" and "\<not> is_digit c" and "c \<noteq> CHR ''-''" and "c \<noteq> CHR ''+''"
  shows "\<exists>i e. parse_int64 s = (i, Some e)"
proof -
  obtain neg ds where ds: "parse_sign s = (neg, ds)" by (cases "parse_sign s")
  then have "c \<in> set ds" using assms(1,3,4) by (cases s) (auto simp: parse_sign_def split: if_splits)
  then obtain m e where m: "parse_uint ds = (m, Some e)" "e = ErrRange \<longrightarrow> m = max_uint64"
    using scan_uint_junk [OF _ assms(2), of ds 0] unfolding parse_uint_def by (cases ds) auto
  have "s \<noteq> []" using assms(1) by auto
  then show ?thesis using m ds by (cases e) (auto simp: parse_int64_def max_uint64_def)
qed

lemma itoa_no_space: "c \<in> set (itoa i) \<Longrightarrow> \<not> is_space c"
proof -
  assume "c \<in> set (itoa i)"
  then have "c = CHR ''-'' \<or> is_digit c" by (auto simp: itoa_def split: if_splits dest: nat_digits_all)
  moreover have "\<not> is_space (CHR ''-'')" by (simp add: is_space_def)
  moreover have "is_digit d \<Longrightarrow> \<not> is_space d" for d by (auto simp: is_digit_def is_space_def)
  ultimately show "\<not> is_space c" by auto
qed

lemma SayHello_profiled:
  "SayHello True None (Inr (final_reply True reply e)) = ([count_completed], Ret ())"
proof -
  let ?t = "''|'' @ itoa e"
  have "\<forall>c\<in>set ?t. \<not> is_space c" using itoa_no_space by (auto simp: is_space_def)
  then obtain x where x: "Invoker.fields (reply @ ?t) \<noteq> []" "last (Invoker.fields (reply @ ?t)) = x @ ?t"
    using last_field [of ?t "[]" reply] unfolding Invoker.fields_def by auto
  have "\<not> is_digit (CHR ''|'')" by (simp add: is_digit_def)
  then obtain i err where "parse_int64 (x @ ?t) = (i, Some err)"
    using parse_int64_junk [of "CHR ''|''" "x @ ?t"] by auto
  with x show ?thesis by (simp add: SayHello_def final_reply_def)
qed

subsection \<open>Properties\<close>

text \<open>The log of a relay that serves.\<close>

definition serving_log :: "relay_world \<Rightarrow> relay_flags \<Rightarrow> bool \<Rightarrow> bool \<Rightarrow> relay_event list" where
  "serving_log w f debugging tracing =
     (if debugging then [SetDebugLevel] else []) @
     (if tracing then [StartTracer (RelayZipkin f) (''Relay server for '' @ FunctionName f)
        (fst (InitBasicTracer (otel_packages w) (environ w) (RelayZipkin f) (''Relay server for '' @ FunctionName f) no_otel))] else []) @
     [InitClient (find_service w (FunctionName f)) (FunctionEndpointURL f) (FunctionEndpointPort f) None] @
     (case map_of [(''unique'', Unique), (''linear'', Linear), (''random'', Random)] (GeneratorString f) of
        Some g \<Rightarrow> [SetGenerator g] | None \<Rightarrow> []) @
     [SetValue (RelayValue f), SetLowerBound (LowerBound f), SetUpperBound (UpperBound f), SetMethod (FunctionMethod f),
      NewServer (if tracing then [ServerStats] else []), Listen (RelayAddress f) None, Serve None, CloseListener, CloseClient]"

text \<open>The run of \<open>relay_main\<close> in its parts: the tracer, the events before the client is initialised and those
  that configure it, and the three answers on which it may end early.\<close>

definition relay_tracer :: "relay_world \<Rightarrow> relay_flags \<Rightarrow> shutdown_func \<times> go_error option" where
  "relay_tracer w f = fst (InitBasicTracer (otel_packages w) (environ w) (RelayZipkin f) (''Relay server for '' @ FunctionName f) no_otel)"

definition started :: "relay_world \<Rightarrow> relay_flags \<Rightarrow> bool \<Rightarrow> bool \<Rightarrow> relay_event list" where
  "started w f debugging tracing =
     (if debugging then [SetDebugLevel] else []) @
     (if tracing then [StartTracer (RelayZipkin f) (''Relay server for '' @ FunctionName f) (relay_tracer w f)] else [])"

definition init_event :: "relay_world \<Rightarrow> relay_flags \<Rightarrow> go_error option \<Rightarrow> relay_event" where
  "init_event w f c = InitClient (find_service w (FunctionName f)) (FunctionEndpointURL f) (FunctionEndpointPort f) c"

definition configured :: "relay_flags \<Rightarrow> bool \<Rightarrow> relay_event list" where
  "configured f tracing =
     (if GeneratorString f = ''unique'' then [SetGenerator Unique]
      else if GeneratorString f = ''linear'' then [SetGenerator Linear]
      else if GeneratorString f = ''random'' then [SetGenerator Random] else []) @
     [SetValue (RelayValue f), SetLowerBound (LowerBound f), SetUpperBound (UpperBound f), SetMethod (FunctionMethod f),
      NewServer (if tracing then [ServerStats] else [])]"

lemma serving_log_eq:
  "serving_log w f debugging tracing = started w f debugging tracing @ init_event w f None # configured f tracing @
     [Listen (RelayAddress f) None, Serve None, CloseListener, CloseClient]"
  by (simp add: serving_log_def started_def init_event_def configured_def relay_tracer_def)

lemma relay_main_run:
  assumes dbg: "isDebuggingEnabled (environ w) (Verbose f) = Ret dbg" and tr: "IsTracingEnabled (environ w) = Ret tr"
  shows "\<exists>c l s. run_state (relay_main w f) h =
    (if c \<noteq> None then (Fatal ''Fail to init client'', h @ started w f dbg tr @ [init_event w f c])
     else if l \<noteq> None then
       (Fatal ''Failed to listen'', h @ started w f dbg tr @ init_event w f c # configured f tr @ [Listen (RelayAddress f) l])
     else if s \<noteq> None then
       (Fatal ''failed to serve'', h @ started w f dbg tr @ init_event w f c # configured f tr @ [Listen (RelayAddress f) l, Serve s])
     else (run_deferred (otel_packages w) (if tr then Some (fst (relay_tracer w f)) else None), h @ serving_log w f dbg tr))"
proof -
  let ?c = "client_init w (h @ started w f dbg tr) (find_service w (FunctionName f)) (FunctionEndpointURL f) (FunctionEndpointPort f)"
  let ?h = "h @ started w f dbg tr @ init_event w f ?c # configured f tr"
  let ?l = "net_listen w ?h (RelayAddress f)"
  let ?s = "grpc_serve w (?h @ [Listen (RelayAddress f) ?l])"
  show ?thesis
    unfolding serving_log_eq using dbg tr
    by (intro exI [of _ ?c] exI [of _ ?l] exI [of _ ?s])
      (cases ?c; cases ?l; cases ?s; cases dbg; cases tr;
        simp add: relay_main_def run_state_return configure_generator_def Let_def GetGRPCServerWithUnaryInterceptor_def
          started_def init_event_def configured_def relay_tracer_def)
qed

lemma run_deferred_tracer:
  "run_deferred (otel_packages w) (if tr then Some (fst (relay_tracer w f)) else None) =
     (if \<not> tr then Ret () else if zipkin_new (otel_packages w) (RelayZipkin f) \<noteq> None then Panic nil_deref
      else call_shutdown (otel_packages w) (fst (relay_tracer w f)))"
  using InitBasicTracer_nil [of "otel_packages w" "environ w" "RelayZipkin f" "''Relay server for '' @ FunctionName f" no_otel]
  by (auto simp: run_deferred_def call_shutdown_def relay_tracer_def)

lemma not_served: "filter (\<lambda>e. e = Serve None) (started w f dbg tr @ [init_event w f c]) = []"
    "filter (\<lambda>e. e = Serve None) (started w f dbg tr @ init_event w f c # configured f tr @ [Listen a l]) = []"
    "s \<noteq> None \<Longrightarrow> filter (\<lambda>e. e = Serve None) (started w f dbg tr @ init_event w f c # configured f tr @ [Listen a l, Serve s]) = []"
  by (simp_all add: started_def init_event_def configured_def)

lemma relay_main_ends:
  assumes "isDebuggingEnabled (environ w) (Verbose f) = Ret dbg" and "IsTracingEnabled (environ w) = Ret tr"
  shows "(\<exists>m new. run_state (relay_main w f) h = (Fatal m, h @ new) \<and> filter (\<lambda>e. e = Serve None) new = []) \<or>
    run_state (relay_main w f) h =
      (run_deferred (otel_packages w) (if tr then Some (fst (relay_tracer w f)) else None), h @ serving_log w f dbg tr)"
proof -
  have early: ?thesis if "run_state (relay_main w f) h = (Fatal m, h @ new)" "filter (\<lambda>e. e = Serve None) new = []" for m new
    using that by blast
  from relay_main_run [OF assms, of h] obtain c l s where run: "run_state (relay_main w f) h =
    (if c \<noteq> None then (Fatal ''Fail to init client'', h @ started w f dbg tr @ [init_event w f c])
     else if l \<noteq> None then
       (Fatal ''Failed to listen'', h @ started w f dbg tr @ init_event w f c # configured f tr @ [Listen (RelayAddress f) l])
     else if s \<noteq> None then
       (Fatal ''failed to serve'', h @ started w f dbg tr @ init_event w f c # configured f tr @ [Listen (RelayAddress f) l, Serve s])
     else (run_deferred (otel_packages w) (if tr then Some (fst (relay_tracer w f)) else None), h @ serving_log w f dbg tr))"
    by blast
  consider (init) "c \<noteq> None" | (listen) "c = None" "l \<noteq> None" | (serve) "c = None" "l = None" "s \<noteq> None"
    | (ok) "c = None" "l = None" "s = None" by blast
  then show ?thesis
  proof cases
    case init
    with run have "run_state (relay_main w f) h = (Fatal ''Fail to init client'', h @ started w f dbg tr @ [init_event w f c])"
      by (simp only: simp_thms if_True)
    then show ?thesis by (rule early [OF _ not_served(1)])
  next
    case listen
    with run have "run_state (relay_main w f) h = (Fatal ''Failed to listen'',
        h @ started w f dbg tr @ init_event w f c # configured f tr @ [Listen (RelayAddress f) l])"
      by (simp only: simp_thms if_True if_False)
    then show ?thesis by (rule early [OF _ not_served(2)])
  next
    case serve
    with run have "run_state (relay_main w f) h = (Fatal ''failed to serve'',
        h @ started w f dbg tr @ init_event w f c # configured f tr @ [Listen (RelayAddress f) l, Serve s])"
      by (simp only: simp_thms if_True if_False)
    then show ?thesis by (rule early [OF _ not_served(3) [OF serve(3)]])
  next
    case ok
    with run have "run_state (relay_main w f) h =
        (run_deferred (otel_packages w) (if tr then Some (fst (relay_tracer w f)) else None), h @ serving_log w f dbg tr)"
      by (simp only: simp_thms if_True if_False)
    then show ?thesis by blast
  qed
qed

text \<open>
  Property C27: a relay either ends with a fatal error before it has served, or goes through its
  start in this order: the client of the function is initialised and its input configured before
  the port is opened, the server is traced exactly if tracing is on, and when serving ends the
  listener, the client and the tracer are closed in turn. If the exporter of the tracer could not
  be made, the relay serves all the same and panics at its end.
\<close>

theorem relay_main_order:
  "\<exists>r new. run_state (relay_main w f) h = (r, h @ new) \<and>
    ((\<exists>debugging tracing. isDebuggingEnabled (environ w) (Verbose f) = Ret debugging \<and> IsTracingEnabled (environ w) = Ret tracing \<and>
        new = serving_log w f debugging tracing \<and>
        r = (if \<not> tracing then Ret ()
             else if zipkin_new (otel_packages w) (RelayZipkin f) \<noteq> None then Panic nil_deref
             else call_shutdown (otel_packages w) (fst (fst (InitBasicTracer (otel_packages w) (environ w) (RelayZipkin f)
               (''Relay server for '' @ FunctionName f) no_otel))))) \<or>
     (filter (\<lambda>e. e = Serve None) new = [] \<and> (\<exists>m. r = Fatal m)))"
proof -
  let ?d = "isDebuggingEnabled (environ w) (Verbose f)" and ?t = "IsTracingEnabled (environ w)"
  have early: ?thesis if "run_state (relay_main w f) h = (Fatal m, h @ new)" "filter (\<lambda>e. e = Serve None) new = []" for m new
    using that by blast
  have "(\<exists>b. ?d = Ret b) \<or> (\<exists>m. ?d = Fatal m)" "(\<exists>b. ?t = Ret b) \<or> (\<exists>m. ?t = Fatal m)"
    by (auto simp: isDebuggingEnabled_def IsTracingEnabled_def split: option.split)
  then consider (unset) m where "?d = Fatal m" | (untraced) b m where "?d = Ret b" "?t = Fatal m"
    | (both) dbg tr where "?d = Ret dbg" "?t = Ret tr" by blast
  then show ?thesis
  proof cases
    case both
    then show ?thesis using relay_main_ends [OF both, of h] early
      unfolding run_deferred_tracer unfolding relay_tracer_def by blast
  next
    case (unset m)
    then have "run_state (relay_main w f) h = (Fatal m, h @ [])" by (simp add: relay_main_def run_state_return)
    then show ?thesis by (rule early) simp
  next
    case (untraced b m)
    then have "run_state (relay_main w f) h = (Fatal m, h @ (if b then [SetDebugLevel] else []))"
      by (simp add: relay_main_def run_state_return)
    then show ?thesis by (rule early) simp
  qed
qed

text \<open>
  The relay and the invoker do not agree on how a measured duration is reported. The
  relay puts it behind a bar, right after the reply of the function; the invoker, with profiling
  on, reads the last word of the message as a number. So it reads the duration of no reply of a
  profiling relay, whatever the function answered: the call only counts as completed.
\<close>

theorem profile_not_read:
  assumes "ProfileFunction f" and "fst (run_state (relay_SayHello w f) h) = (message, None)"
  shows "SayHello True None (Inr message) = ([count_completed], Ret ())"
proof -
  from assms obtain reply e where "message = final_reply True reply e"
    by (auto simp: relay_SayHello_def run_state_bind split: prod.splits)
  then show ?thesis by (simp add: SayHello_profiled)
qed

definition demo_relay :: relay_world where
  "demo_relay = \<lparr>environ = \<lambda>v. None, otel_packages = \<lparr>zipkin_new = \<lambda>u. None, provider_shutdown = \<lambda>tp. None\<rparr>,
     find_service = \<lambda>n. n, client_init = \<lambda>h n u p. None, net_listen = \<lambda>h a. None, grpc_serve = \<lambda>h. None,
     next_input = \<lambda>h. ''input'', clock = \<lambda>h. int (length h) * 1000000, request = \<lambda>h p. (''Hello'', None)\<rparr>"

definition demo_relay_flags :: relay_flags where
  "demo_relay_flags = \<lparr>RelayAddress = ''0.0.0.0:50000'', RelayZipkin = ''http://localhost:9411/api/v2/spans'', FunctionName = ''helloworld'',
     FunctionEndpointURL = ''0.0.0.0'', FunctionEndpointPort = ''50051'', LowerBound = 1, UpperBound = 10,
     GeneratorString = ''unique'', RelayValue = ''helloWorld'', FunctionMethod = ''default'', Verbose = False, ProfileFunction = True\<rparr>"

theorem profile_not_read_witness:
  "SayHello True None (Inr (''Hello|'' @ itoa 2000)) = ([count_completed], Ret ())"
proof -
  have "microseconds (time_sub 3000000 1000000) = 2000"
    by (simp add: microseconds_def time_sub_def signed_divide_int_def int64_min_def int64_max_def)
  then have "fst (run_state (relay_SayHello demo_relay demo_relay_flags) []) = (''Hello|'' @ itoa 2000, None)"
    by (simp add: relay_SayHello_def demo_relay_def demo_relay_flags_def run_state_bind final_reply_def)
  moreover have "ProfileFunction demo_relay_flags" by (simp add: demo_relay_flags_def)
  ultimately show ?thesis by (intro profile_not_read [of demo_relay_flags demo_relay "[]"])
qed

text \<open>
  What \<open>goclient\<close> ends with, for every answer of the world. After a successful call it
  still panics if the exporter of its tracer could not be made, whose error it had only logged.
\<close>

theorem goclient_outcome:
  "fst (run_state (goclient_main w pk env address clientPort url) h) =
     (case dial w (address @ '':'' @ itoa clientPort) of
        Some err \<Rightarrow> Fatal ''fail to dial''
      | None \<Rightarrow> (case say_hello w ''client'' of
          Inl err \<Rightarrow> Fatal ''Error''
        | Inr reply \<Rightarrow>
            if zipkin_new pk url \<noteq> None then Panic nil_deref
            else out_bind (call_shutdown pk (fst (fst (InitBasicTracer pk env url ''go client'' no_otel)))) (\<lambda>_. Ret reply)))"
proof (cases "zipkin_new pk url")
  case None
  then show ?thesis
    by (cases "dial w (address @ '':'' @ itoa clientPort)"; cases "say_hello w ''client''")
      (simp_all add: goclient_main_def Let_def run_state_return)
next
  case (Some e)
  then have "fst (fst (InitBasicTracer pk env url ''go client'' no_otel)) = None" by (simp add: InitBasicTracer_nil)
  with Some show ?thesis
    by (cases "dial w (address @ '':'' @ itoa clientPort)"; cases "say_hello w ''client''")
      (simp_all add: goclient_main_def Let_def run_state_return call_shutdown_def)
qed

end
