(* ===== verification/InvokerMain.thy ===== *)
theory InvokerMain
  imports EndpointsFile Relay Vhivemetadata
begin

text \<open>
  The rest of \<open>tools/invoker/client.go\<close>: the request a call sends, the effects of the issued requests
  on the measurements, and \<open>main\<close>. A run is given by the answers of the world: the ticks before the
  timeout, the reply and the clock readings of every request, and four schedules: which requests
  take a step before the rate is computed, from then until the experiment is ended, until the
  latencies are locked for writing, and until the durations are. What a request has not done by then
  has no effect. A panic ends the process.
\<close>

subsection \<open>Flags and requests\<close>

record invoker_flags =
  EndpointsFlag :: string
  TargetRPS :: rat
  RunDuration :: int
  LatencyOutputFile :: string
  FuncDurationOutputFile :: string
  FuncDurEnableFlag :: bool
  PortFlag :: int
  WithTracing :: bool
  InvokerZipkin :: string
  GrpcTimeoutFlag :: int

text \<open>The flag is read before \<open>flag.Parse\<close>: what the user gives does not matter.\<close>

definition grpcTimeout :: "invoker_flags \<Rightarrow> int" where
  "grpcTimeout f = 30 * second"

record hello_call =
  CallAddress :: string
  CallOptions :: "grpc_option list"
  CallTimeout :: int
  CallName :: string
  CallMetadata :: string

definition call_address :: "invoker_flags \<Rightarrow> endpoint \<Rightarrow> string" where
  "call_address f ep = Hostname ep @ '':'' @ itoa (PortFlag f)"

definition hello_call_of :: "invoker_flags \<Rightarrow> endpoint \<Rightarrow> string \<Rightarrow> string \<Rightarrow> int \<Rightarrow> hello_call" where
  "hello_call_of f ep workflowID new_uuid now =
     \<lparr>CallAddress = call_address f ep,
      CallOptions = InsecureCredentials # (if WithTracing f then [ClientStats] else []),
      CallTimeout = grpcTimeout f, CallName = ''Invoke relay'',
      CallMetadata = MakeVHiveMetadata workflowID new_uuid now\<rparr>"

subsection \<open>A run\<close>

record invoker_world =
  inv_read_file :: "string \<Rightarrow> go_error + string"
  inv_open_file :: "string \<Rightarrow> go_error option"
  inv_write_file :: "string \<Rightarrow> string \<Rightarrow> go_error option"
  inv_packages :: tracing_packages
  inv_environ :: environment
  workflow_uuid :: "nat \<Rightarrow> string"
  invocation_uuid :: "nat \<Rightarrow> string"
  tsdb_dial :: "go_error option"
  tsdb_start :: "experiment_definition \<Rightarrow> go_error option"
  tsdb_end :: "go_error + experiment_result"
  select_ticks :: "bool list"
  call_dial :: "nat \<Rightarrow> go_error option"
  call_reply :: "nat \<Rightarrow> hello_call \<Rightarrow> go_error + string"
  call_start :: "nat \<Rightarrow> int"
  call_sent :: "nat \<Rightarrow> int"
  call_end :: "nat \<Rightarrow> int"
  before_rate :: "nat list"
  before_end :: "nat list"
  before_latencies :: "nat list"
  before_durations :: "nat list"
  elapsed_seconds :: rat

text \<open>The steps of request number \<open>i\<close>, to an endpoint with its workflow id. A synchronous request reads the
  clock when it starts, when it makes its metadata, and when it has returned.\<close>

definition request_effect :: "invoker_world \<Rightarrow> invoker_flags \<Rightarrow> nat \<Rightarrow> endpoint \<times> string \<Rightarrow> request_step list" where
  "request_effect w f i ep =
     (let reply = call_reply w i (hello_call_of f (fst ep) (snd ep) (invocation_uuid w i) (call_sent w i))
      in if Eventing (fst ep) then invokeEventingFunction (FuncDurEnableFlag f) (call_dial w i) reply
         else invokeServingFunction (FuncDurEnableFlag f) (call_dial w i) reply (call_start w i) (call_end w i))"

definition experiment_run ::
  "invoker_world \<Rightarrow> invoker_flags \<Rightarrow> (endpoint \<times> string) list \<Rightarrow>
   ((nat \<Rightarrow> request_step list) \<times> invoker \<times> int64 \<times> nat) outcome"
where
  "experiment_run w f eps =
     runExperiment eps (tsdb_dial w) (tsdb_start w) (TargetRPS f) (select_ticks w) (request_effect w f)
       (before_rate w) (before_end w) (tsdb_end w)
       \<lparr>completed = 0, latSlice = [], profSlice = [], tsdbConn = False\<rparr>"

text \<open>\<open>float64(completed) / duration\<close>, and a number with two decimals (\<open>%.2f\<close>).\<close>

definition real_rps :: "invoker_world \<Rightarrow> int64 \<Rightarrow> rat" where
  "real_rps w counted = fl_div (fl_round (rat_of_int (sint counted))) (elapsed_seconds w)"

definition two_decimals :: "rat \<Rightarrow> string" where
  "two_decimals x =
     (let n = round_half_even (abs x * 100); k = nat n
      in (if x < 0 then ''-'' else '''') @ nat_digits (k div 100) @ ''.'' @ pad2 (k mod 100))"

subsection \<open>\<open>main\<close>\<close>

datatype invoker_event =
    OpenFile string "go_error option"
  | WriteLines string string "go_error option"

definition write_numbers :: "invoker_world \<Rightarrow> string \<Rightarrow> string \<Rightarrow> string \<Rightarrow> (invoker_event, unit outcome) logged" where
  "write_numbers w what name text =
     obind (or_fatal_err ''Failed creating file'' (perform (\<lambda>h. inv_open_file w name) (OpenFile name))) (\<lambda>_.
     or_fatal_err what (perform (\<lambda>h. inv_write_file w name text) (WriteLines name text)))"

definition latency_file :: "invoker_world \<Rightarrow> invoker_flags \<Rightarrow> int64 \<Rightarrow> string" where
  "latency_file w f counted = ''rps'' @ two_decimals (real_rps w counted) @ ''_'' @ LatencyOutputFile f"

text \<open>\<open>Start\<close> goes through all endpoints, so a nil pointer among them is dereferenced there. The
  error of the tracer is only logged.\<close>

definition nil_free :: "'a option list \<Rightarrow> 'a list outcome" where
  "nil_free ps = (if None \<in> set ps then Panic nil_deref else Ret (map the ps))"

definition invoker_main :: "invoker_world \<Rightarrow> invoker_flags \<Rightarrow> (invoker_event, unit outcome) logged" where
  "invoker_main w f =
     (case readEndpoints (inv_read_file w) (EndpointsFlag f) of
        Inl err \<Rightarrow> State_Monad.return (Fatal ''Failed to read the endpoints file'')
      | Inr endpoints \<Rightarrow>
          (let workflowIDs = map (workflow_uuid w) [0..<length endpoints];
               deferred = (if WithTracing f
                 then Some (fst (fst (InitBasicTracer (inv_packages w) (inv_environ w) (InvokerZipkin f) ''invoker'' no_otel)))
                 else None)
           in obind (State_Monad.return (out_bind (nil_free endpoints) (\<lambda>eps. experiment_run w f (zip eps workflowIDs))))
                (\<lambda>(todo, s, counted, issued).
              obind (State_Monad.return (run_schedule (before_latencies w) todo s)) (\<lambda>(todo, s).
              obind (write_numbers w ''Failed to write the latencies to a file'' (latency_file w f counted) (writeLatencies s)) (\<lambda>_.
              obind (if FuncDurEnableFlag f
                     then obind (State_Monad.return (run_schedule (before_durations w) todo s)) (\<lambda>(todo, s).
                       write_numbers w ''Failed to write the function durations to a file'' (FuncDurationOutputFile f)
                         (writeFunctionDurations s))
                     else oreturn ()) (\<lambda>_.
              State_Monad.return (run_deferred (inv_packages w) deferred)))))))"

subsection \<open>Schedules\<close>

text \<open>The requests of a schedule, each at its turn number \<open>n i\<close>, when \<open>pre\<close> has gone before; a request with
  \<open>n i = 0\<close> is in no place.\<close>

fun turn_reached :: "(nat \<Rightarrow> nat) \<Rightarrow> nat list \<Rightarrow> nat list \<Rightarrow> nat list" where
  "turn_reached n pre [] = []"
| "turn_reached n pre (i # is) =
     (if Suc (count_list pre i) = n i then i # turn_reached n (pre @ [i]) is else turn_reached n (pre @ [i]) is)"

lemma turn_reached_append: "turn_reached n pre (is @ js) = turn_reached n pre is @ turn_reached n (pre @ is) js"
  by (induction "is" arbitrary: pre) simp_all

lemma turn_reached_later: "i \<in> set (turn_reached n pre is) \<Longrightarrow> i \<in> set is \<and> count_list pre i < n i"
  by (induction "is" arbitrary: pre) (fastforce split: if_splits)+

text \<open>No request is there twice.\<close>

lemma distinct_turn_reached: "distinct (turn_reached n pre is)"
proof (induction "is" arbitrary: pre)
  case (Cons i "is")
  have "i \<notin> set (turn_reached n (pre @ [i]) is)" if "Suc (count_list pre i) = n i"
    using turn_reached_later [of i n "pre @ [i]" "is"] that by auto
  with Cons show ?case by simp
qed simp

text \<open>The steps of a synchronous request without profiling: count, if it succeeded, and measure.\<close>

definition plain_steps :: "(nat \<Rightarrow> bool) \<Rightarrow> (nat \<Rightarrow> int) \<Rightarrow> nat \<Rightarrow> request_step list" where
  "plain_steps ok lat i = (if ok i then [count_completed] else []) @ [\<lambda>s. Ret (s\<lparr>latSlice := latSlice s @ [lat i]\<rparr>)]"

definition count_turn :: "(nat \<Rightarrow> bool) \<Rightarrow> nat \<Rightarrow> nat" where
  "count_turn ok i = (if ok i then 1 else 0)"

definition measure_turn :: "(nat \<Rightarrow> bool) \<Rightarrow> nat \<Rightarrow> nat" where
  "measure_turn ok i = (if ok i then 2 else 1)"

abbreviation still :: "(nat \<Rightarrow> 'a list) \<Rightarrow> nat list \<Rightarrow> nat \<Rightarrow> 'a list" where
  "still steps pre \<equiv> (\<lambda>i. drop (count_list pre i) (steps i))"

lemma run_schedule_plain:
  assumes "\<And>i. i \<in> set is \<Longrightarrow> steps i = plain_steps ok lat i"
  shows "run_schedule is (still steps pre) s = Ret (still steps (pre @ is),
    s\<lparr>completed := completed s + word_of_nat (length (turn_reached (count_turn ok) pre is)),
      latSlice := latSlice s @ map lat (turn_reached (measure_turn ok) pre is)\<rparr>)"
  using assms
proof (induction "is" arbitrary: pre s)
  case (Cons i "is")
  note IH = Cons.IH [where pre = "pre @ [i]", OF Cons.prems]
  have i: "steps i = plain_steps ok lat i" using Cons.prems by simp
  have next_todo: "(still steps pre)(i := drop (Suc (count_list pre i)) (steps i)) = still steps (pre @ [i])"
    by (rule ext) simp
  show ?case
  proof (cases "drop (count_list pre i) (steps i)")
    case Nil
    then have long: "length (steps i) \<le> count_list pre i" by simp
    then have "still steps pre = still steps (pre @ [i])" by (intro ext) auto
    moreover have "Suc (count_list pre i) \<noteq> count_turn ok i" "Suc (count_list pre i) \<noteq> measure_turn ok i"
      using long by (auto simp: i plain_steps_def count_turn_def measure_turn_def split: if_splits)
    ultimately show ?thesis using IH Nil by simp
  next
    case (Cons step rest)
    then have len: "count_list pre i < length (steps i)" by (metis drop_eq_Nil2 leI list.distinct(1))
    then have "drop (count_list pre i) (steps i) = steps i ! count_list pre i # drop (Suc (count_list pre i)) (steps i)"
      by (simp add: Cons_nth_drop_Suc)
    then have rest: "rest = drop (Suc (count_list pre i)) (steps i)" and step: "step = steps i ! count_list pre i"
      using Cons by simp_all
    consider (count) "ok i" "count_list pre i = 0" "step = count_completed"
      | (measure) "count_list pre i = (if ok i then 1 else 0)" "step = (\<lambda>s. Ret (s\<lparr>latSlice := latSlice s @ [lat i]\<rparr>))"
      using len step by (auto simp: i plain_steps_def nth_Cons' less_Suc_eq split: if_splits)
    moreover have "run_schedule (i # is) (still steps pre) s = out_bind (step s) (run_schedule is (still steps (pre @ [i])))"
      using Cons next_todo unfolding rest by simp
    ultimately show ?thesis
    proof cases
      case count
      then show ?thesis
        using IH \<open>run_schedule (i # is) _ s = _\<close> by (simp add: count_turn_def measure_turn_def count_completed_def add.assoc)
    next
      case measure
      then show ?thesis
        using IH \<open>run_schedule (i # is) _ s = _\<close> by (simp add: count_turn_def measure_turn_def)
    qed
  qed
qed simp

subsection \<open>Properties\<close>

text \<open>The endpoint and the workflow of request \<open>i\<close> when there are no events, and its reply.\<close>

definition request_target :: "invoker_world \<Rightarrow> string list \<Rightarrow> nat \<Rightarrow> endpoint \<times> string" where
  "request_target w urls i = (plain_endpoint (urls ! (i mod length urls)), workflow_uuid w (i mod length urls))"

definition request_reply :: "invoker_world \<Rightarrow> invoker_flags \<Rightarrow> string list \<Rightarrow> nat \<Rightarrow> go_error + string" where
  "request_reply w f urls i =
     call_reply w i (hello_call_of f (fst (request_target w urls i)) (snd (request_target w urls i)) (invocation_uuid w i) (call_sent w i))"

definition succeeds :: "invoker_world \<Rightarrow> invoker_flags \<Rightarrow> string list \<Rightarrow> nat \<Rightarrow> bool" where
  "succeeds w f urls i \<longleftrightarrow> (case request_reply w f urls i of Inl err \<Rightarrow> False | Inr message \<Rightarrow> True)"

definition call_latency :: "invoker_world \<Rightarrow> nat \<Rightarrow> int" where
  "call_latency w i = microseconds (time_sub (call_end w i) (call_start w i))"

definition workflows_of :: "invoker_world \<Rightarrow> string list \<Rightarrow> (endpoint \<times> string) list" where
  "workflows_of w urls = zip (map plain_endpoint urls) (map (workflow_uuid w) [0..<length urls])"

lemma workflows_of_simps:
  "length (workflows_of w urls) = length urls"
  "\<not> list_ex (\<lambda>(ep, workflowID). Eventing ep) (workflows_of w urls)"
  "i < length urls \<Longrightarrow> workflows_of w urls ! i = (plain_endpoint (urls ! i), workflow_uuid w i)"
  by (auto simp: workflows_of_def list_ex_iff plain_endpoint_def dest!: set_zip_leftD)

lemma request_effect_plain:
  assumes "call_dial w i = None" and "\<not> FuncDurEnableFlag f"
  shows "request_effect w f i (request_target w urls i) = plain_steps (succeeds w f urls) (call_latency w) i"
proof -
  have "Ret \<circ> getDuration (call_start w i) (call_end w i) = (\<lambda>s. Ret (s\<lparr>latSlice := latSlice s @ [call_latency w i]\<rparr>))"
    by (rule ext) (simp add: getDuration_def addDurations_eq call_latency_def)
  then show ?thesis
    using assms
    by (simp add: request_effect_def plain_steps_def succeeds_def request_reply_def request_target_def plain_endpoint_def
        invokeServingFunction_def SayHello_def ending_def Let_def split: sum.split)
qed

lemma experiment_run_serving:
  assumes "urls \<noteq> []" and "select_ticks w = replicate k True @ False # rest"
    and "\<And>i. i \<in> set (before_rate w @ before_end w) \<Longrightarrow> i \<le> k"
    and "tick_interval (TargetRPS f) = Ret d" and "\<And>i. call_dial w i = None" and "\<not> FuncDurEnableFlag f"
  shows "\<exists>steps. (\<forall>i\<le>k. steps i = plain_steps (succeeds w f urls) (call_latency w) i) \<and>
    experiment_run w f (workflows_of w urls) =
    Ret (still steps (before_rate w @ before_end w),
      \<lparr>completed = word_of_nat (length (turn_reached (count_turn (succeeds w f urls)) [] (before_rate w @ before_end w))),
       latSlice = map (call_latency w) (turn_reached (measure_turn (succeeds w f urls)) [] (before_rate w @ before_end w)),
       profSlice = [], tsdbConn = False\<rparr>,
      word_of_nat (length (turn_reached (count_turn (succeeds w f urls)) [] (before_rate w))), Suc k)"
proof -
  let ?targets = "map (\<lambda>j. workflows_of w urls ! (j mod length urls)) [0..<Suc k]"
  let ?steps = "\<lambda>i. if i < Suc k then request_effect w f i (?targets ! i) else []"
  have ne: "workflows_of w urls \<noteq> []" using assms(1) workflows_of_simps(1) [of w urls] by auto
  have loop: "issue_loop (workflows_of w urls) 0 (select_ticks w) = Ret (?targets, Suc k)"
    using issue_loop_ticks [OF ne, of "False # rest" 0 k] assms(2) by (simp add: workflows_of_simps(1) del: upt_Suc)
  have target: "?targets ! i = request_target w urls i" if "i \<le> k" for i
  proof -
    have "i mod length urls < length urls" using assms(1) by simp
    moreover have "[0..<Suc k] ! i = i" using that by (subst nth_upt) simp_all
    ultimately show ?thesis using that by (simp add: request_target_def workflows_of_simps(3) del: upt_Suc)
  qed
  have steps: "?steps i = plain_steps (succeeds w f urls) (call_latency w) i" if "i \<le> k" for i
    using request_effect_plain [OF assms(5,6)] that unfolding target [OF that] by simp
  then have given: "?steps i = plain_steps (succeeds w f urls) (call_latency w) i"
    if "i \<in> set (before_rate w) \<or> i \<in> set (before_end w)" for i
    using assms(3) [of i] that by auto
  have rate: "run_schedule (before_rate w) ?steps s = Ret (still ?steps (before_rate w),
      s\<lparr>completed := completed s + word_of_nat (length (turn_reached (count_turn (succeeds w f urls)) [] (before_rate w))),
        latSlice := latSlice s @ map (call_latency w) (turn_reached (measure_turn (succeeds w f urls)) [] (before_rate w))\<rparr>)" for s
    using run_schedule_plain [of "before_rate w" ?steps "succeeds w f urls" "call_latency w" "[]" s] given by simp
  have finish: "run_schedule (before_end w) (still ?steps (before_rate w)) s = Ret (still ?steps (before_rate w @ before_end w),
      s\<lparr>completed := completed s + word_of_nat (length (turn_reached (count_turn (succeeds w f urls)) (before_rate w) (before_end w))),
        latSlice := latSlice s @ map (call_latency w) (turn_reached (measure_turn (succeeds w f urls)) (before_rate w) (before_end w))\<rparr>)" for s
    by (rule run_schedule_plain) (use given in blast)
  have run: "experiment_run w f (workflows_of w urls) =
      Ret (still ?steps (before_rate w @ before_end w),
        \<lparr>completed = word_of_nat (length (turn_reached (count_turn (succeeds w f urls)) [] (before_rate w @ before_end w))),
         latSlice = map (call_latency w) (turn_reached (measure_turn (succeeds w f urls)) [] (before_rate w @ before_end w)),
         profSlice = [], tsdbConn = False\<rparr>,
        word_of_nat (length (turn_reached (count_turn (succeeds w f urls)) [] (before_rate w))), Suc k)"
    unfolding experiment_run_def runExperiment_def Start_def End_def
    by (simp add: workflows_of_simps(2) assms(4) loop rate finish addDurations_def turn_reached_append Let_def del: upt_Suc)
  show ?thesis by (rule exI [of _ ?steps], rule conjI, intro allI impI, erule steps, rule run)
qed


text \<open>Of two requests the second fails. The first is counted in time, but measured only after the rate has
  been computed.\<close>

definition demo_world :: invoker_world where
  "demo_world = \<lparr>inv_read_file = \<lambda>p. Inr (endpoints_text [''a.gw'', ''b.gw'']), inv_open_file = \<lambda>n. None,
     inv_write_file = \<lambda>n t. None, inv_packages = \<lparr>zipkin_new = \<lambda>u. None, provider_shutdown = \<lambda>tp. None\<rparr>,
     inv_environ = \<lambda>v. None, workflow_uuid = \<lambda>i. ''w'' @ itoa (int i), invocation_uuid = \<lambda>i. ''i'' @ itoa (int i),
     tsdb_dial = None, tsdb_start = \<lambda>d. None, tsdb_end = Inl (NewError ''unused''),
     select_ticks = replicate 2 True @ False # [], call_dial = \<lambda>i. None,
     call_reply = \<lambda>i c. if i = 1 then Inl (NewError ''deadline exceeded'') else Inr ''Hello'',
     call_start = \<lambda>i. int i * 1000000000, call_sent = \<lambda>i. int i * 1000000000 + 1000,
     call_end = \<lambda>i. int i * 1000000000 + 5000 + int i * 2000,
     before_rate = [1, 0], before_end = [], before_latencies = [0, 2], before_durations = [], elapsed_seconds = 1\<rparr>"

definition demo_invoker_flags :: invoker_flags where
  "demo_invoker_flags = \<lparr>EndpointsFlag = ''endpoints.json'', TargetRPS = 1, RunDuration = 5, LatencyOutputFile = ''lat.csv'',
     FuncDurationOutputFile = ''dur.csv'', FuncDurEnableFlag = False, PortFlag = 80, WithTracing = False,
     InvokerZipkin = '''', GrpcTimeoutFlag = 99\<rparr>"


end
