(* ===== verification/Registry.thy ===== *)
theory Registry
  imports EventLog GoPath
begin

text \<open>
  \<open>tools/registry/populate_registry.go\<close>: the images listed in a file are copied from one registry
  to another with \<open>skopeo\<close>, one after the other, up to the first that fails. Files and commands are
  answered by the world. Of \<open>net/url\<close> the model has the URLs of registries, \<open>scheme://host/path\<close>
  in plain characters; what \<open>url.Parse\<close> makes of other texts is a parameter.
\<close>

subsection \<open>\<open>readLines\<close>\<close>

text \<open>\<open>bufio.ScanLines\<close>: lines end at a newline, one carriage return before it is dropped, and the
  last line may lack the newline. A line of 65536 bytes or more does not fit the buffer: the
  lines before it are returned with an error.\<close>

definition drop_cr :: "string \<Rightarrow> string" where
  "drop_cr s = (if s \<noteq> [] \<and> last s = CHR 0x0D then butlast s else s)"

fun raw_lines :: "string \<Rightarrow> string \<Rightarrow> string list" where
  "raw_lines acc [] = (if acc = [] then [] else [acc])"
| "raw_lines acc (c # cs) = (if c = CHR 0x0A then acc # raw_lines [] cs else raw_lines (acc @ [c]) cs)"

definition max_line :: nat where "max_line = 65536"

definition scan_lines :: "string \<Rightarrow> string list \<times> go_error option" where
  "scan_lines text =
     (let raw = raw_lines [] text; good = takeWhile (\<lambda>l. length l < max_line) raw
      in (map drop_cr good, if good = raw then None else Some (NewError ''bufio.Scanner: token too long'')))"

definition readLines :: "(string \<Rightarrow> go_error + string) \<Rightarrow> string \<Rightarrow> string list \<times> go_error option" where
  "readLines open_file path = (case open_file path of Inl err \<Rightarrow> ([], Some err) | Inr text \<Rightarrow> scan_lines text)"

subsection \<open>\<open>buildURL\<close>\<close>

definition is_letter :: "char \<Rightarrow> bool" where
  "is_letter c \<longleftrightarrow> (let n = (of_char c :: nat) in 97 \<le> n \<and> n \<le> 122 \<or> 65 \<le> n \<and> n \<le> 90)"

text \<open>The characters of a path that stand for themselves, in a URL and in its text.\<close>

definition path_char :: "char \<Rightarrow> bool" where
  "path_char c \<longleftrightarrow> is_letter c \<or> is_digit c \<or> c \<in> set ''-_.~$&+,/:;=@''"

definition host_char :: "char \<Rightarrow> bool" where
  "host_char c \<longleftrightarrow> is_letter c \<or> is_digit c \<or> c = CHR ''-'' \<or> c = CHR ''.'' \<or> c = CHR ''_''"

text \<open>A host with an optional numeric port.\<close>

definition plain_host :: "string \<Rightarrow> bool" where
  "plain_host h \<longleftrightarrow>
     (let name = takeWhile host_char h; port = dropWhile host_char h
      in name \<noteq> [] \<and> (port = [] \<or> hd port = CHR '':'' \<and> list_all is_digit (tl port)))"

definition scheme_char :: "char \<Rightarrow> bool" where
  "scheme_char c \<longleftrightarrow> is_letter c \<or> is_digit c \<or> c \<in> {CHR ''+'', CHR ''-'', CHR ''.''}"

record url =
  Scheme :: string
  Host :: string
  Path :: string

definition parse_plain :: "string \<Rightarrow> url option" where
  "parse_plain s =
     (let scheme = takeWhile scheme_char s; rest = dropWhile scheme_char s;
          host = takeWhile (\<lambda>c. c \<noteq> CHR ''/'') (drop 3 rest); path = dropWhile (\<lambda>c. c \<noteq> CHR ''/'') (drop 3 rest)
      in if scheme \<noteq> [] \<and> is_letter (hd scheme) \<and> take 3 rest = ''://'' \<and> plain_host host \<and> list_all path_char path
         then Some \<lparr>Scheme = to_lower scheme, Host = host, Path = path\<rparr> else None)"

definition upper_hex :: "nat \<Rightarrow> char" where
  "upper_hex n = ''0123456789ABCDEF'' ! n"

text \<open>\<open>u.String()\<close> of such a URL: other characters of the path are escaped (a path that is one
  asterisk is not), and a path without a leading slash gets one.\<close>

definition escape_path :: "string \<Rightarrow> string" where
  "escape_path p = (if p = ''*'' then p else concat (map (\<lambda>c. if path_char c then [c]
     else let n = (of_char c :: nat) in [CHR ''%'', upper_hex (n div 16), upper_hex (n mod 16)]) p))"

definition url_string :: "url \<Rightarrow> string" where
  "url_string u = Scheme u @ ''://'' @ Host u @
     (if Path u \<noteq> [] \<and> hd (Path u) \<noteq> CHR ''/'' then ''/'' else '''') @ escape_path (Path u)"

definition buildURL :: "(string \<Rightarrow> string \<Rightarrow> go_error + string) \<Rightarrow> string \<Rightarrow> string \<Rightarrow> go_error + string" where
  "buildURL other img repo =
     (case parse_plain repo of
        None \<Rightarrow> other img repo
      | Some u \<Rightarrow> Inr (url_string (u\<lparr>Path := path_join [Path u, img]\<rparr>)))"

subsection \<open>Copying\<close>

datatype registry_event = Skopeo "string list" "go_error option"

type_synonym skopeo = "registry_event list \<Rightarrow> string list \<Rightarrow> go_error option"

definition skopeo_copy :: "string \<Rightarrow> string \<Rightarrow> string list" where
  "skopeo_copy sourceURL destURL = [''skopeo'', ''copy'', sourceURL, destURL, ''--dest-tls-verify=false'']"

definition pullImage ::
  "(string \<Rightarrow> string \<Rightarrow> go_error + string) \<Rightarrow> skopeo \<Rightarrow> string \<Rightarrow> string \<Rightarrow> string \<Rightarrow> (registry_event, unit outcome) logged"
where
  "pullImage other skopeo img sourceRepo destRepo =
     (case buildURL other img sourceRepo of
        Inl err \<Rightarrow> State_Monad.return (Fatal ''failed to build url'')
      | Inr sourceURL \<Rightarrow>
          (case buildURL other img destRepo of
             Inl err \<Rightarrow> State_Monad.return (Fatal ''failed to build url'')
           | Inr destURL \<Rightarrow>
               (let cmd = skopeo_copy sourceURL destURL
                in or_fatal_err ''Failed to pull image'' (perform (\<lambda>h. skopeo h cmd) (Skopeo cmd)))))"

primrec pullImages ::
  "(string \<Rightarrow> string \<Rightarrow> go_error + string) \<Rightarrow> skopeo \<Rightarrow> string list \<Rightarrow> string \<Rightarrow> string \<Rightarrow> (registry_event, unit outcome) logged"
where
  "pullImages other skopeo [] sourceRepo destRepo = oreturn ()"
| "pullImages other skopeo (img # imgs) sourceRepo destRepo =
     obind (pullImage other skopeo img sourceRepo destRepo) (\<lambda>_. pullImages other skopeo imgs sourceRepo destRepo)"

definition registry_main ::
  "(string \<Rightarrow> go_error + string) \<Rightarrow> (string \<Rightarrow> string \<Rightarrow> go_error + string) \<Rightarrow> skopeo \<Rightarrow> string \<Rightarrow> string \<Rightarrow> string \<Rightarrow>
   (registry_event, unit outcome) logged"
where
  "registry_main open_file other skopeo sourceRepo destRepo imageFile =
     (case readLines open_file imageFile of
        (imgs, Some err) \<Rightarrow> State_Monad.return (Fatal ''Failed to read the image file'')
      | (imgs, None) \<Rightarrow> pullImages other skopeo imgs sourceRepo destRepo)"

subsection \<open>Lemmas\<close>

text \<open>The command for an image whose URLs can be built.\<close>

definition copy_command :: "(string \<Rightarrow> string \<Rightarrow> go_error + string) \<Rightarrow> string \<Rightarrow> string \<Rightarrow> string \<Rightarrow> string list option" where
  "copy_command other sourceRepo destRepo img =
     (case (buildURL other img sourceRepo, buildURL other img destRepo) of
        (Inr s, Inr d) \<Rightarrow> Some (skopeo_copy s d) | _ \<Rightarrow> None)"

lemma run_pullImage:
  "run_state (pullImage other skopeo img src dst) h =
     (case copy_command other src dst img of
        None \<Rightarrow> (Fatal ''failed to build url'', h)
      | Some cmd \<Rightarrow> (case skopeo h cmd of
          Some err \<Rightarrow> (Fatal ''Failed to pull image'', h @ [Skopeo cmd (Some err)])
        | None \<Rightarrow> (Ret (), h @ [Skopeo cmd None])))"
  by (cases "buildURL other img src"; cases "buildURL other img dst")
    (auto simp: pullImage_def copy_command_def run_state_return Let_def split: option.split)

lemma escape_path_plain: "list_all path_char p \<Longrightarrow> escape_path p = p"
proof -
  assume "list_all path_char p"
  then have "concat (map (\<lambda>c. if path_char c then [c] else f c) p) = p" for f
    by (induction p) simp_all
  then show ?thesis by (simp only: escape_path_def if_cancel)
qed

text \<open>A registry without a path, and an image name of plain elements.\<close>

definition image_name :: "string \<Rightarrow> bool" where
  "image_name s \<longleftrightarrow> list_all path_char s \<and> (\<forall>e\<in>set (split_slash s). plain_element e)"

lemma buildURL_plain:
  assumes "parse_plain repo = Some u" and "Path u = ''''" and "image_name img"
  shows "buildURL other img repo = Inr (Scheme u @ ''://'' @ Host u @ ''/'' @ img)"
proof -
  have clean: "path_clean img = img"
    using path_clean_relative [OF split_slash_not_Nil, of img] assms(3) by (simp add: image_name_def)
  obtain e es where es: "split_slash img = e # es" by (cases "split_slash img") auto
  have "plain_element e" using assms(3) es by (simp add: image_name_def)
  then have e: "e \<noteq> []" "hd e \<noteq> CHR ''/''" unfolding plain_element_def by (simp, metis hd_in_set)
  then have "img \<noteq> [] \<and> hd img \<noteq> CHR ''/''"
    using hd_join_slash [of "split_slash img"] e es by (metis join_split list.sel(1) split_slash_not_Nil)
  then show ?thesis
    using assms clean escape_path_plain [of img]
    by (simp add: buildURL_def path_join_def url_string_def image_name_def)
qed

subsection \<open>Properties\<close>

text \<open>The commands of the first images, and the outcome after them.\<close>

definition copy_from :: "url \<Rightarrow> url \<Rightarrow> string \<Rightarrow> string list" where
  "copy_from s d img = skopeo_copy (Scheme s @ ''://'' @ Host s @ ''/'' @ img) (Scheme d @ ''://'' @ Host d @ ''/'' @ img)"

lemma run_pullImages_all:
  assumes "\<And>img. img \<in> set imgs \<Longrightarrow> copy_command other src dst img = Some (cmd img)"
    and "\<And>h c. c \<in> cmd ` set imgs \<Longrightarrow> skopeo h c = None"
  shows "run_state (pullImages other skopeo (imgs @ rest) src dst) h =
    run_state (pullImages other skopeo rest src dst) (h @ map (\<lambda>img. Skopeo (cmd img) None) imgs)"
  using assms by (induction imgs arbitrary: h) (simp_all add: run_pullImage)

lemma copy_command_plain:
  assumes "parse_plain src = Some s" "Path s = ''''" "parse_plain dst = Some d" "Path d = ''''" "image_name img"
  shows "copy_command other src dst img = Some (copy_from s d img)"
  using buildURL_plain [OF assms(1,2,5)] buildURL_plain [OF assms(3,4,5)] by (simp add: copy_command_def copy_from_def)

text \<open>
  Property C34: images are copied in the order of the file, from \<open>scheme://source/image\<close> to
  \<open>scheme://destination/image\<close>, and the first copy that fails ends the program: no image after it is
  touched, although nothing undoes the copies before it. The lines of the file are plain image names
  and the registries have no path.
\<close>

theorem copies_up_to_failure:
  assumes "readLines open_file f = (imgs @ bad # rest, None)"
    and "parse_plain src = Some s" "Path s = ''''" "parse_plain dst = Some d" "Path d = ''''"
    and "\<forall>img\<in>set (bad # imgs). image_name img"
    and "\<forall>h. \<forall>img\<in>set imgs. skopeo h (copy_from s d img) = None"
    and "\<forall>h. skopeo h (copy_from s d bad) = Some err"
  shows "run_state (registry_main open_file other skopeo src dst f) [] =
    (Fatal ''Failed to pull image'',
     map (\<lambda>img. Skopeo (copy_from s d img) None) imgs @ [Skopeo (copy_from s d bad) (Some err)])"
proof -
  have cmd: "copy_command other src dst img = Some (copy_from s d img)" if "img \<in> set (bad # imgs)" for img
    using copy_command_plain [OF assms(2-5)] assms(6) that by auto
  have "run_state (pullImages other skopeo (imgs @ bad # rest) src dst) [] =
      run_state (pullImages other skopeo (bad # rest) src dst) (map (\<lambda>img. Skopeo (copy_from s d img) None) imgs)"
    by (subst run_pullImages_all [where cmd = "copy_from s d"]) (use assms(7) cmd in auto)
  then show ?thesis
    using assms(1,8) cmd by (simp add: registry_main_def run_pullImage)
qed

definition demo_source :: url where "demo_source = \<lparr>Scheme = ''docker'', Host = ''docker.io'', Path = ''''\<rparr>"

definition demo_target :: url where "demo_target = \<lparr>Scheme = ''docker'', Host = ''registry:5000'', Path = ''''\<rparr>"

theorem copies_up_to_failure_witness:
  "run_state (registry_main (\<lambda>f. Inr ''vhive/aes:v1\<newline>vhive/auth\<newline>vhive/rnn'') (\<lambda>img repo. Inl (NewError ''denied''))
      (\<lambda>h c. if c ! 2 = ''docker://docker.io/vhive/auth'' then Some (NewError ''denied'') else None)
      ''docker://docker.io'' ''docker://registry:5000'' ''images.txt'') [] =
    (Fatal ''Failed to pull image'',
     [Skopeo (copy_from demo_source demo_target ''vhive/aes:v1'') None,
      Skopeo (copy_from demo_source demo_target ''vhive/auth'') (Some (NewError ''denied''))])"
proof -
  have lines: "readLines (\<lambda>f. Inr ''vhive/aes:v1\<newline>vhive/auth\<newline>vhive/rnn'') ''images.txt'' =
      ([''vhive/aes:v1''] @ ''vhive/auth'' # [''vhive/rnn''], None)"
    by (simp add: readLines_def scan_lines_def max_line_def drop_cr_def)
  have repos: "parse_plain ''docker://docker.io'' = Some demo_source" "parse_plain ''docker://registry:5000'' = Some demo_target"
    by code_simp+
  have names: "image_name ''vhive/aes:v1'' \<and> image_name ''vhive/auth''" by code_simp
  show ?thesis
    using copies_up_to_failure [OF lines repos(1) _ repos(2), of
        "\<lambda>h c. if c ! 2 = ''docker://docker.io/vhive/auth'' then Some (NewError ''denied'') else None" "NewError ''denied''" "\<lambda>img repo. Inl (NewError ''denied'')"] names
    by (simp add: demo_source_def demo_target_def copy_from_def skopeo_copy_def)
qed

end
