(* ===== verification/FunctionBenchmarks.thy ===== *)
theory FunctionBenchmarks
  imports Invoker EventLog "HOL-Library.Multiset"
begin

text \<open>
  Single functions under \<open>benchmarks/\<close>: the Fibonacci server, the authorizer, and the word count for
  the MapReduce framework corral. The functions are computed as the code does, with the texts of their
  replies. corral is not under \<open>src/\<close>: its emitter answers what it likes, and what its shuffle does is
  the hypothesis \<open>grouped\<close> of the theorem on a whole job.
\<close>

subsection \<open>Fibonacci (\<open>fibonacci/go/server.go\<close>)\<close>

text \<open>The loop with \<open>num1\<close>, \<open>num2\<close> (\<open>big.Int\<close>, of any size) and its counter. The slot of \<open>sum\<close> is
  written before it is read in every round.\<close>

function fib_loop :: "int \<Rightarrow> int \<Rightarrow> int \<Rightarrow> int \<Rightarrow> int" where
  "fib_loop num i num1 num2 = (if i < num then fib_loop num (i + 1) num2 (num1 + num2) else num1)"
  by pat_completeness auto
termination by (relation "measure (\<lambda>(num, i, num1, num2). nat (num - i))") auto

declare fib_loop.simps [simp del]

definition fibonacci :: "int \<Rightarrow> int" where
  "fibonacci num = (if num \<le> 0 then 0 else fib_loop num 0 0 1)"

text \<open>The error of \<open>ParseInt\<close> is dropped, its value is not.\<close>

definition fibonacci_SayHello :: "string \<Rightarrow> string" where
  "fibonacci_SayHello name =
     (let x = fst (parse_int64 name); y = fibonacci x
      in ''fn: Fib: y = fib(x) | x: '' @ itoa x @ '' y: '' @ itoa y @ '' | runtime: GoLang'')"

fun fib :: "nat \<Rightarrow> int" where
  "fib 0 = 0"
| "fib (Suc 0) = 1"
| "fib (Suc (Suc n)) = fib n + fib (Suc n)"

lemma fib_loop_fib: "i + int k = num \<Longrightarrow> fib_loop num i (fib n) (fib (Suc n)) = fib (n + k)"
proof (induction k arbitrary: i n)
  case 0
  then show ?case by (simp add: fib_loop.simps)
next
  case (Suc k)
  have "fib_loop num (i + 1) (fib (Suc n)) (fib (Suc (Suc n))) = fib (Suc n + k)"
    using Suc.prems by (intro Suc.IH) simp
  with Suc.prems show ?case by (simp add: fib_loop.simps [of num i])
qed

lemma fibonacci_fib: "fibonacci num = fib (nat num)"
  using fib_loop_fib [of 0 "nat num" num 0] by (simp add: fibonacci_def)

text \<open>Every \<open>int64\<close> is answered with its Fibonacci number, a negative one and a name that is no number
  with 0.\<close>

lemma fibonacci_replies:
  assumes "- 9223372036854775808 \<le> x" "x < 9223372036854775808"
  shows "fibonacci_SayHello (itoa x) =
    ''fn: Fib: y = fib(x) | x: '' @ itoa x @ '' y: '' @ itoa (fib (nat x)) @ '' | runtime: GoLang''"
  using assms by (simp add: fibonacci_SayHello_def Let_def atoi_itoa fibonacci_fib)

lemma fibonacci_no_number:
  assumes "snd (parse_int64 name) = Some ErrSyntax"
  shows "fibonacci_SayHello name = fibonacci_SayHello ''0''"
proof -
  have "fst (parse_int64 name) = 0"
    using assms by (auto simp: parse_int64_def Let_def split: prod.splits if_splits)
  moreover have "itoa 0 = ''0''"
    by code_simp
  then have "parse_int64 ''0'' = (0, None)"
    using atoi_itoa [of 0] by simp
  ultimately show ?thesis by (simp add: fibonacci_SayHello_def)
qed

subsection \<open>The authorizer (\<open>auth/go/server.go\<close>)\<close>

record policy_statement =
  Action :: string
  Effect :: string
  Resource :: string

record policy_document =
  Version :: string
  Statements :: "policy_statement list"

record policy_context =
  stringKey :: string
  numberKey :: int
  booleanKey :: bool

record auth_response =
  principalId :: string
  policyDocument :: policy_document
  policyContext :: policy_context

definition generatePolicy :: "string \<Rightarrow> string \<Rightarrow> string \<Rightarrow> auth_response" where
  "generatePolicy user effect resource =
     \<lparr>principalId = user,
      policyDocument =
        (if effect \<noteq> '''' \<and> resource \<noteq> ''''
         then \<lparr>Version = ''2012-10-17'',
               Statements = [\<lparr>Action = ''execute-api:Invoke'', Effect = effect, Resource = resource\<rparr>]\<rparr>
         else \<lparr>Version = '''', Statements = []\<rparr>),
      policyContext = \<lparr>stringKey = ''stringval'', numberKey = 123, booleanKey = True\<rparr>\<rparr>"

text \<open>The verb \<open>%+v\<close>: the fields of a struct with their names, between braces.\<close>

fun joined :: "string list \<Rightarrow> string" where
  "joined [] = ''''"
| "joined [x] = x"
| "joined (x # xs) = x @ '' '' @ joined xs"

definition struct_text :: "(string \<times> string) list \<Rightarrow> string" where
  "struct_text fs = ''{'' @ joined (map (\<lambda>(n, v). n @ '':'' @ v) fs) @ ''}''"

definition statement_text :: "policy_statement \<Rightarrow> string" where
  "statement_text s = struct_text [(''Action'', Action s), (''Effect'', Effect s), (''Resource'', Resource s)]"

definition response_text :: "auth_response \<Rightarrow> string" where
  "response_text r =
     struct_text
      [(''principalId'', principalId r),
       (''policyDocument'', struct_text [(''Version'', Version (policyDocument r)),
          (''Statement'', ''['' @ joined (map statement_text (Statements (policyDocument r))) @ '']'')]),
       (''context'', struct_text [(''stringKey'', stringKey (policyContext r)),
          (''numberKey'', itoa (numberKey (policyContext r))),
          (''booleanKey'', if booleanKey (policyContext r) then ''true'' else ''false'')])]"

definition fakeMethodArn :: string where
  "fakeMethodArn = ''arn:aws:execute-api:{regionId}:{accountId}:{apiId}/{stage}/{httpVerb}/[{resource}/[{child-resources}]]''"

text \<open>The \<open>switch\<close> that both handlers have.\<close>

definition auth_message :: "string \<Rightarrow> string" where
  "auth_message token =
     (if token = ''allow'' then response_text (generatePolicy ''user'' ''Allow'' fakeMethodArn)
      else if token = ''deny'' then response_text (generatePolicy ''user'' ''Deny'' fakeMethodArn)
      else if token = ''unauthorized'' then ''Unauthorized''
      else ''Error: Invalid token'')"

definition auth_SayHello :: "string \<Rightarrow> string" where
  "auth_SayHello token = ''fn: Auth | token: '' @ token @ '' | resp: '' @ auth_message token @ '' | runtime: golang''"

text \<open>A missing parameter of the query reads as the empty token.\<close>

definition auth_HandleRequest :: "(string \<Rightarrow> string option) \<Rightarrow> string" where
  "auth_HandleRequest query =
     (let token = (case query ''name'' of Some t \<Rightarrow> t | None \<Rightarrow> '''')
      in ''fn: Auth | token: '' @ token @ '' | resp: '' @ auth_message token @ '' | runtime: golang | platform: AWS Lambda'')"

text \<open>Only the token \<open>allow\<close> gets a policy that allows the method, and only \<open>deny\<close> one that denies it.\<close>

lemma response_texts:
  "distinct [response_text (generatePolicy ''user'' ''Allow'' fakeMethodArn),
    response_text (generatePolicy ''user'' ''Deny'' fakeMethodArn), ''Unauthorized'', ''Error: Invalid token'']"
  by (simp add: response_text_def struct_text_def generatePolicy_def statement_text_def fakeMethodArn_def)

lemma auth_policies:
  "auth_message token = response_text (generatePolicy ''user'' ''Allow'' fakeMethodArn) \<longleftrightarrow> token = ''allow''"
  "auth_message token = response_text (generatePolicy ''user'' ''Deny'' fakeMethodArn) \<longleftrightarrow> token = ''deny''"
  using response_texts by (auto simp: auth_message_def)

lemma auth_platforms: "auth_HandleRequest [''name'' \<mapsto> token] = auth_SayHello token @ '' | platform: AWS Lambda''"
  by (simp add: auth_HandleRequest_def auth_SayHello_def)

subsection \<open>Word count (\<open>corral/word_count.go\<close>)\<close>

text \<open>The class \<open>[^a-zA-Z0-9\s]\<close> of the regular expression. A byte above 127 belongs to a code point that
  is in the class, or to invalid text, which is read as one.\<close>

definition alphanumeric :: "char \<Rightarrow> bool" where
  "alphanumeric c \<longleftrightarrow>
     (let n = (of_char c :: nat) in 48 \<le> n \<and> n \<le> 57 \<or> 65 \<le> n \<and> n \<le> 90 \<or> 97 \<le> n \<and> n \<le> 122)"

definition other_char :: "char \<Rightarrow> bool" where
  "other_char c \<longleftrightarrow> \<not> alphanumeric c \<and> (of_char c :: nat) \<notin> {9, 10, 12, 13, 32}"

text \<open>\<open>ReplaceAllString\<close> with the class repeated at least once: every longest run becomes one space.\<close>

function replace_others :: "string \<Rightarrow> string" where
  "replace_others [] = []"
| "replace_others (c # cs) =
     (if other_char c then CHR '' '' # replace_others (dropWhile other_char cs) else c # replace_others cs)"
  by pat_completeness auto
termination by (relation "measure length") (auto simp: le_imp_less_Suc length_dropWhile_le)

text \<open>An event is a call of the emitter with its answer, or a printed error.\<close>

datatype mr_event = Emit string string "go_error option" | Println go_error

type_synonym emitter = "mr_event list \<Rightarrow> string \<Rightarrow> string \<Rightarrow> go_error option"

definition emit_pair :: "emitter \<Rightarrow> string \<Rightarrow> string \<Rightarrow> (mr_event, unit) logged" where
  "emit_pair w key value =
     State_Monad.bind (perform (\<lambda>h. w h key value) (Emit key value)) (\<lambda>err.
       case err of None \<Rightarrow> State_Monad.return () | Some e \<Rightarrow> record_event (Println e))"

primrec emit_words :: "emitter \<Rightarrow> string list \<Rightarrow> (mr_event, unit) logged" where
  "emit_words w [] = State_Monad.return ()"
| "emit_words w (word # words) =
     State_Monad.bind (if word = [] then State_Monad.return () else emit_pair w word (itoa 1)) (\<lambda>_. emit_words w words)"

definition word_count_Map :: "emitter \<Rightarrow> string \<Rightarrow> string \<Rightarrow> (mr_event, unit) logged" where
  "word_count_Map w key value = emit_words w (Invoker.fields (to_lower (replace_others value)))"

text \<open>\<open>Reduce\<close> counts the values it is given and does not read them.\<close>

primrec count_values :: "int \<Rightarrow> string list \<Rightarrow> int" where
  "count_values n [] = n"
| "count_values n (v # vs) = count_values (n + 1) vs"

definition word_count_Reduce :: "emitter \<Rightarrow> string \<Rightarrow> string list \<Rightarrow> (mr_event, unit) logged" where
  "word_count_Reduce w key values = emit_pair w key (itoa (count_values 0 values))"

subsubsection \<open>What Map emits\<close>

text \<open>The reference: the words of a text are its longest runs of letters and digits, in lower case.\<close>

fun runs :: "(char \<Rightarrow> bool) \<Rightarrow> string \<Rightarrow> string \<Rightarrow> string list" where
  "runs P word [] = (if word = [] then [] else [word])"
| "runs P word (c # cs) =
     (if P c then runs P (word @ [c]) cs else if word = [] then runs P [] cs else word # runs P [] cs)"

definition words_of :: "string \<Rightarrow> string list" where
  "words_of s = map to_lower (runs alphanumeric [] s)"

lemma fields_acc_runs: "fields_acc word s = runs (\<lambda>c. \<not> is_space c) word s"
  by (induction word s rule: fields_acc.induct) simp_all

lemma alphanumeric_lower:
  "alphanumeric c \<Longrightarrow> \<not> is_space (to_lower_char c)"
  by (auto simp: alphanumeric_def to_lower_char_def is_space_def Let_def)

lemma space_lower:
  assumes "\<not> alphanumeric c" and "\<not> other_char c"
  shows "is_space (to_lower_char c)"
proof -
  have "(of_char c :: nat) \<in> {9, 10, 12, 13, 32}"
    using assms by (simp add: other_char_def)
  then show ?thesis by (auto simp: to_lower_char_def is_space_def Let_def)
qed

lemma runs_dropWhile: "(\<And>c. Q c \<Longrightarrow> \<not> P c) \<Longrightarrow> runs P [] (dropWhile Q s) = runs P [] s"
  by (induction s) simp_all

lemma replaced_runs:
  "runs (\<lambda>c. \<not> is_space c) (to_lower word) (to_lower (replace_others s)) = map to_lower (runs alphanumeric word s)"
proof (induction s arbitrary: word rule: replace_others.induct)
  case 1
  then show ?case by (simp add: to_lower_def)
next
  case (2 c cs)
  have space: "is_space (to_lower_char (CHR '' ''))"
    by (simp add: to_lower_char_def is_space_def)
  show ?case
  proof (cases "other_char c")
    case True
    then have other: "\<not> alphanumeric c" by (simp add: other_char_def)
    have "runs alphanumeric [] (dropWhile other_char cs) = runs alphanumeric [] cs"
      by (rule runs_dropWhile) (simp add: other_char_def)
    then show ?thesis
      using True other space "2"(1) [OF True, of "[]"] by (simp add: to_lower_def)
  next
    case False
    then show ?thesis
      using "2"(2) [OF False, of "word @ [c]"] "2"(2) [OF False, of "[]"] alphanumeric_lower [of c] space_lower [of c]
      by (cases "alphanumeric c") (simp_all add: to_lower_def)
  qed
qed

lemma sanitized_words: "Invoker.fields (to_lower (replace_others s)) = words_of s"
  using replaced_runs [of "[]" s] by (simp add: Invoker.fields_def fields_acc_runs words_of_def to_lower_def)

lemma runs_not_Nil: "[] \<notin> set (runs P word s)"
  by (induction P word s rule: runs.induct) auto

lemma words_of_not_Nil: "word \<in> set (words_of s) \<Longrightarrow> word \<noteq> []"
  using runs_not_Nil [of alphanumeric "[]" s] by (auto simp: words_of_def to_lower_def)

text \<open>The pairs a log shows as accepted, and those that were offered.\<close>

definition offered :: "mr_event list \<Rightarrow> (string \<times> string) list" where
  "offered es = List.map_filter (\<lambda>e. case e of Emit k v r \<Rightarrow> Some (k, v) | _ \<Rightarrow> None) es"

definition accepted :: "mr_event list \<Rightarrow> (string \<times> string) list" where
  "accepted es = List.map_filter (\<lambda>e. case e of Emit k v None \<Rightarrow> Some (k, v) | _ \<Rightarrow> None) es"

lemma collected_Nil [simp]: "offered [] = []" "accepted [] = []"
  by (simp_all add: offered_def accepted_def List.map_filter_def)

lemma collected_append [simp]: "offered (es @ fs) = offered es @ offered fs" "accepted (es @ fs) = accepted es @ accepted fs"
  by (simp_all add: offered_def accepted_def List.map_filter_def)

lemma emit_pair_offers: "emits (emit_pair w key value) (\<lambda>_ es. offered es = [(key, value)])"
  unfolding emit_pair_def
  by (intro emits_intro) (simp_all add: offered_def List.map_filter_def)

text \<open>Whatever the emitter answers, every word of the text is offered to it once, in order.\<close>

lemma word_count_Map_offers:
  "emits (word_count_Map w key value) (\<lambda>_ es. offered es = map (\<lambda>word. (word, ''1'')) (words_of value))"
proof -
  have one: "itoa 1 = ''1''" by code_simp
  have "emits (emit_words w words) (\<lambda>_ es. offered es = map (\<lambda>word. (word, ''1'')) words)"
    if "\<forall>word\<in>set words. word \<noteq> []" for words
    using that
  proof (induction words)
    case Nil
    show ?case by (simp add: emits_return)
  next
    case (Cons word words)
    then have "emits (emit_words w words) (\<lambda>_ es. offered es = map (\<lambda>word. (word, ''1'')) words)" by simp
    then show ?case
      using Cons.prems
      by (auto intro!: emits_bind [OF emit_pair_offers] simp: one elim: emits_weaken)
  qed
  then show ?thesis
    using words_of_not_Nil by (simp add: word_count_Map_def sanitized_words)
qed

text \<open>An emitter that accepts every pair.\<close>

definition accepting :: "emitter \<Rightarrow> bool" where
  "accepting w \<longleftrightarrow> (\<forall>h key value. w h key value = None)"

definition accepted_pairs :: "(mr_event, unit) logged \<Rightarrow> (string \<times> string) list" where
  "accepted_pairs m = accepted (snd (run_state m []))"

lemma emit_pair_accepted: "accepting w \<Longrightarrow> run_state (emit_pair w key value) h = ((), h @ [Emit key value None])"
  by (simp add: accepting_def emit_pair_def run_state_bind)

lemma Map_output:
  assumes "accepting w"
  shows "accepted_pairs (word_count_Map w key value) = map (\<lambda>word. (word, ''1'')) (words_of value)"
proof -
  have one: "itoa 1 = ''1''" by code_simp
  have "run_state (emit_words w words) h = ((), h @ map (\<lambda>word. Emit word ''1'' None) words)"
    if "\<forall>word\<in>set words. word \<noteq> []" for words h
    using that by (induction words arbitrary: h) (simp_all add: run_state_bind emit_pair_accepted [OF assms] one)
  then show ?thesis
    using words_of_not_Nil
    by (simp add: accepted_pairs_def word_count_Map_def sanitized_words accepted_def List.map_filter_def comp_def)
qed

lemma count_values_length: "count_values n vs = n + int (length vs)"
  by (induction vs arbitrary: n) simp_all

lemma Reduce_output:
  "accepting w \<Longrightarrow> accepted_pairs (word_count_Reduce w key values) = [(key, itoa (int (length values)))]"
  by (simp add: accepted_pairs_def word_count_Reduce_def emit_pair_accepted count_values_length accepted_def List.map_filter_def)

subsubsection \<open>A whole job\<close>

text \<open>The shuffle of a MapReduce framework hands every key that was emitted to one call of Reduce, with
  the values emitted under it in any order.\<close>

definition values_of :: "(string \<times> 'v) list \<Rightarrow> string \<Rightarrow> 'v list" where
  "values_of pairs key = map snd (filter (\<lambda>p. fst p = key) pairs)"

definition grouped :: "(string \<times> string) list \<Rightarrow> (string \<times> string list) list \<Rightarrow> bool" where
  "grouped pairs groups \<longleftrightarrow>
     distinct (map fst groups) \<and> (\<forall>g\<in>set groups. snd g \<noteq> []) \<and>
     (\<forall>key. mset (concat (values_of groups key)) = mset (values_of pairs key))"

lemma values_of_words: "values_of (map (\<lambda>word. (word, v)) words) key = replicate (count_list words key) v"
  by (induction words) (simp_all add: values_of_def)

lemma values_of_distinct:
  "distinct (map fst groups) \<Longrightarrow> values_of groups key = (case map_of groups key of None \<Rightarrow> [] | Some vs \<Rightarrow> [vs])"
proof (induction groups)
  case (Cons g groups)
  then show ?case
    by (cases "fst g = key") (auto simp: values_of_def filter_empty_conv image_iff map_of_eq_None_iff split: option.splits)
qed (simp add: values_of_def)

lemma grouped_words:
  assumes "grouped (map (\<lambda>word. (word, v)) words) groups"
  shows "map_option length (map_of groups key) = (if key \<in> set words then Some (count_list words key) else None)"
proof -
  have d: "distinct (map fst groups)" and full: "\<forall>g\<in>set groups. snd g \<noteq> []"
    and "mset (concat (values_of groups key)) = mset (replicate (count_list words key) v)"
    using assms by (simp_all add: grouped_def values_of_words)
  then have len: "length (concat (values_of groups key)) = count_list words key"
    by (metis length_replicate size_mset)
  show ?thesis
  proof (cases "map_of groups key")
    case None
    with len d show ?thesis by (simp add: values_of_distinct count_list_0_iff)
  next
    case (Some vs)
    then have "vs \<noteq> []" using full map_of_SomeD [OF Some] by fastforce
    moreover have "length vs = count_list words key"
      using len d Some by (simp add: values_of_distinct)
    ultimately show ?thesis
      using Some count_list_0_iff [of words key] by auto
  qed
qed

definition word_count_job :: "emitter \<Rightarrow> (string \<times> string list) list \<Rightarrow> (string \<times> string) list" where
  "word_count_job w groups = concat (map (\<lambda>(key, vs). accepted_pairs (word_count_Reduce w key vs)) groups)"

text \<open>Property C31: the job counts the words of all records: the output has one pair for every word that occurs, with
  the number of its occurrences in all texts together.\<close>

theorem word_count_counts:
  assumes "accepting w"
    and "grouped (concat (map (\<lambda>(key, value). accepted_pairs (word_count_Map w key value)) inputs)) groups"
  shows "distinct (map fst (word_count_job w groups)) \<and>
    map_of (word_count_job w groups) word =
      (let words = concat (map (\<lambda>(key, value). words_of value) inputs)
       in if word \<in> set words then Some (itoa (int (count_list words word))) else None)"
proof -
  let ?words = "concat (map (\<lambda>(key, value). words_of value) inputs)"
  have job: "word_count_job w groups = map (\<lambda>(key, vs). (key, itoa (int (length vs)))) groups"
    by (induction groups) (auto simp: word_count_job_def Reduce_output [OF assms(1)])
  have "concat (map (\<lambda>(key, value). accepted_pairs (word_count_Map w key value)) inputs)
      = map (\<lambda>word. (word, ''1'')) ?words"
    by (induction inputs) (auto simp: Map_output [OF assms(1)])
  with assms(2) have groups: "grouped (map (\<lambda>word. (word, ''1'')) ?words) groups" by simp
  have "map_of (word_count_job w groups) word = map_option (\<lambda>vs. itoa (int (length vs))) (map_of groups word)"
    by (simp add: job map_of_map)
  also have "\<dots> = map_option (\<lambda>n. itoa (int n)) (map_option length (map_of groups word))"
    by (simp add: option.map_comp comp_def)
  finally have "map_of (word_count_job w groups) word = \<dots>" .
  moreover have "distinct (map fst (word_count_job w groups))"
    using groups by (simp add: job grouped_def comp_def case_prod_unfold)
  ultimately show ?thesis
    by (simp add: grouped_words [OF groups] Let_def)
qed

text \<open>Two records whose words differ in case and punctuation.\<close>

theorem word_count_counts_witness:
  "map_of (word_count_job (\<lambda>_ _ _. None) [(''b'', [''1'']), (''a'', [''1'', ''1''])]) ''a'' = Some ''2''"
proof -
  let ?inputs = "[(''1'', ''a-b''), (''2'', ''(A)'')]"
  have w: "accepting (\<lambda>_ _ _. None)" by (simp add: accepting_def)
  have words: "words_of ''a-b'' = [''a'', ''b'']" "words_of ''(A)'' = [''a'']" by code_simp+
  have two: "itoa 2 = ''2''" by code_simp
  show ?thesis
    using word_count_counts [OF w, of ?inputs "[(''b'', [''1'']), (''a'', [''1'', ''1''])]" "''a''"]
    by (simp add: Map_output [OF w] words grouped_def values_of_def two Let_def)
qed

end
