(* ===== verification/AesFunction.thy ===== *)
theory AesFunction
  imports GoJson Sha256
begin

text \<open>
  The AES function (\<open>benchmarks/aes/go/server.go\<close>): AES in counter mode with a key from a flag and a
  counter that starts at 0, and the two handlers around it. AES (FIPS 197) and the counter mode are
  those of Go's \<open>crypto/aes\<close> and \<open>crypto/cipher\<close>.
\<close>

unbundle bit_operations_syntax

subsection \<open>AES\<close>

definition sbox :: "byte list" where
  "sbox =
    [99, 124, 119, 123, 242, 107, 111, 197, 48, 1, 103, 43, 254, 215, 171, 118, 202, 130, 201, 125, 250, 89, 71, 240,
     173, 212, 162, 175, 156, 164, 114, 192, 183, 253, 147, 38, 54, 63, 247, 204, 52, 165, 229, 241, 113, 216, 49, 21,
     4, 199, 35, 195, 24, 150, 5, 154, 7, 18, 128, 226, 235, 39, 178, 117, 9, 131, 44, 26, 27, 110, 90, 160,
     82, 59, 214, 179, 41, 227, 47, 132, 83, 209, 0, 237, 32, 252, 177, 91, 106, 203, 190, 57, 74, 76, 88, 207,
     208, 239, 170, 251, 67, 77, 51, 133, 69, 249, 2, 127, 80, 60, 159, 168, 81, 163, 64, 143, 146, 157, 56, 245,
     188, 182, 218, 33, 16, 255, 243, 210, 205, 12, 19, 236, 95, 151, 68, 23, 196, 167, 126, 61, 100, 93, 25, 115,
     96, 129, 79, 220, 34, 42, 144, 136, 70, 238, 184, 20, 222, 94, 11, 219, 224, 50, 58, 10, 73, 6, 36, 92,
     194, 211, 172, 98, 145, 149, 228, 121, 231, 200, 55, 109, 141, 213, 78, 169, 108, 86, 244, 234, 101, 122, 174, 8,
     186, 120, 37, 46, 28, 166, 180, 198, 232, 221, 116, 31, 75, 189, 139, 138, 112, 62, 181, 102, 72, 3, 246, 14,
     97, 53, 87, 185, 134, 193, 29, 158, 225, 248, 152, 17, 105, 217, 142, 148, 155, 30, 135, 233, 206, 85, 40, 223,
     140, 161, 137, 13, 191, 230, 66, 104, 65, 153, 45, 15, 176, 84, 187, 22]"

definition sub_byte :: "byte \<Rightarrow> byte" where
  "sub_byte b = sbox ! unat b"

text \<open>Multiplication by \<open>x\<close> in the field of 256 elements.\<close>

definition xtime :: "byte \<Rightarrow> byte" where
  "xtime b = (if bit b 7 then push_bit 1 b XOR 27 else push_bit 1 b)"

abbreviation xors :: "byte list \<Rightarrow> byte list \<Rightarrow> byte list" where
  "xors \<equiv> map2 (XOR)"

text \<open>A state is its 16 bytes, column by column.\<close>

definition shift_rows :: "byte list \<Rightarrow> byte list" where
  "shift_rows s = map (\<lambda>i. s ! ((i + 4 * (i mod 4)) mod 16)) [0..<16]"

definition mix_columns :: "byte list \<Rightarrow> byte list" where
  "mix_columns s = map (\<lambda>i.
     let at_row = (\<lambda>k. s ! (4 * (i div 4) + (i + k) mod 4))
     in xtime (at_row 0) XOR (xtime (at_row 1) XOR at_row 1) XOR at_row 2 XOR at_row 3) [0..<16]"

definition add_round_key :: "byte list \<Rightarrow> byte list \<Rightarrow> byte list" where
  "add_round_key s k = map (\<lambda>i. s ! i XOR k ! i) [0..<16]"

text \<open>The key schedule, by words of four bytes; \<open>rcon\<close> is the round constant of the next full word.\<close>

definition next_word :: "nat \<Rightarrow> byte list list \<Rightarrow> byte \<Rightarrow> byte list" where
  "next_word nk ws rcon =
     (let i = length ws; temp = last ws
      in xors (ws ! (i - nk))
           (if i mod nk = 0 then xors (map sub_byte (rotate1 temp)) [rcon, 0, 0, 0]
            else if 6 < nk \<and> i mod nk = 4 then map sub_byte temp
            else temp))"

primrec expand_words :: "nat \<Rightarrow> nat \<Rightarrow> byte list list \<Rightarrow> byte \<Rightarrow> byte list list" where
  "expand_words nk 0 ws rcon = ws"
| "expand_words nk (Suc n) ws rcon =
     expand_words nk n (ws @ [next_word nk ws rcon]) (if length ws mod nk = 0 then xtime rcon else rcon)"

definition round_keys :: "byte list \<Rightarrow> byte list list" where
  "round_keys key =
     (let nk = length key div 4
      in chunks 16 (concat (expand_words nk (4 * (nk + 7) - nk) (chunks 4 key) 1)))"

definition aes_round :: "byte list \<Rightarrow> byte list \<Rightarrow> byte list" where
  "aes_round s k = add_round_key (mix_columns (shift_rows (map sub_byte s))) k"

definition encrypt_block :: "byte list \<Rightarrow> byte list \<Rightarrow> byte list" where
  "encrypt_block key block =
     (let ks = round_keys key
      in add_round_key
           (shift_rows (map sub_byte (foldl aes_round (add_round_key block (hd ks)) (butlast (tl ks)))))
           (last ks))"

lemma length_encrypt_block [simp]: "length (encrypt_block key block) = 16"
  by (simp add: encrypt_block_def add_round_key_def Let_def)

text \<open>Examples of the standard: a column through \<open>MixColumns\<close>, and the first word that the key of
  appendix A.1 expands to.\<close>

lemma mix_columns_example:
  "take 4 (mix_columns ([219, 19, 83, 69] @ replicate 12 0)) = [142, 77, 161, 188]"
  by code_simp

lemma next_word_example:
  "next_word 4 [[43, 126, 21, 22], [40, 174, 210, 166], [171, 247, 21, 136], [9, 207, 79, 60]] 1 = [160, 250, 254, 23]"
  by code_simp

subsection \<open>Counter mode\<close>

text \<open>Block \<open>i\<close> of the key stream is the encrypted counter; the counter starts at the \<open>iv\<close>, which is 0.\<close>

definition counter_block :: "nat \<Rightarrow> byte list" where
  "counter_block i = bytes_of_word (of_nat i :: 128 word) [120, 112, 104, 96, 88, 80, 72, 64, 56, 48, 40, 32, 24, 16, 8, 0]"

definition key_stream :: "byte list \<Rightarrow> nat \<Rightarrow> byte list" where
  "key_stream key n = concat (map (\<lambda>i. encrypt_block key (counter_block i)) [0..<(n + 15) div 16])"

text \<open>\<open>hex.DecodeString\<close>, whose error is dropped: the bytes before the first pair that is not hexadecimal.\<close>

fun hex_decode :: "string \<Rightarrow> byte list" where
  "hex_decode (a # b # cs) =
     (case (hex_val a, hex_val b) of
        (Some x, Some y) \<Rightarrow> of_nat (16 * x + y) # hex_decode cs
      | _ \<Rightarrow> [])"
| "hex_decode _ = []"

definition AESModeCTR :: "string \<Rightarrow> byte list \<Rightarrow> byte list outcome" where
  "AESModeCTR key_string plaintext =
     (let key = hex_decode key_string
      in if length key \<in> {16, 24, 32} then Ret (xors plaintext (key_stream key (length plaintext)))
         else Panic (Errorf ''crypto/aes: invalid key size %d'' [ArgS (itoa (int (length key)))]))"

subsection \<open>The handlers\<close>

definition plaintext_of :: "string \<Rightarrow> string \<Rightarrow> string" where
  "plaintext_of default_plaintext message =
     (if message = '''' \<or> message = ''world'' then default_plaintext else message)"

definition encryption_reply :: "string \<Rightarrow> string \<Rightarrow> string \<Rightarrow> string outcome" where
  "encryption_reply key_string plaintext platform =
     out_bind (AESModeCTR key_string (map of_char plaintext)) (\<lambda>ciphertext.
       Ret (''fn: AES | plaintext: '' @ plaintext @ '' | ciphertext: '' @ hex ciphertext @ '' | runtime: golang'' @ platform))"

definition ShowEncryption :: "string \<Rightarrow> string \<Rightarrow> string \<Rightarrow> string outcome" where
  "ShowEncryption key_string default_plaintext message =
     encryption_reply key_string (plaintext_of default_plaintext message) ''''"

definition aes_HandleRequest :: "string \<Rightarrow> string \<Rightarrow> (string \<Rightarrow> string option) \<Rightarrow> string outcome" where
  "aes_HandleRequest key_string default_plaintext query =
     encryption_reply key_string
       (plaintext_of default_plaintext (case query ''plaintext'' of Some t \<Rightarrow> t | None \<Rightarrow> ''''))
       '' | platform: AWS Lambda''"

text \<open>Which of the two serves is decided in \<open>main\<close>, by the environment.\<close>

definition is_lambda :: "environment \<Rightarrow> bool" where
  "is_lambda env =
     (case env ''IS_LAMBDA'' of None \<Rightarrow> False | Some v \<Rightarrow> to_lower v \<in> {''true'', ''yes'', ''1''})"

subsection \<open>What counter mode gives\<close>

lemma key_stream_length: "length (key_stream key n) = 16 * ((n + 15) div 16)"
  by (simp add: key_stream_def length_concat comp_def sum_list_triv)

lemma key_stream_enough: "n \<le> length (key_stream key n)"
  unfolding key_stream_length by linarith

lemma xors_involution: "length xs \<le> length ks \<Longrightarrow> xors (xors xs ks) ks = xs"
  by (induction xs ks rule: list_induct2') (simp_all add: xor.assoc)

lemma xors_cancel: "length xs = length ys \<Longrightarrow> xors (xors xs ks) (xors ys ks) = take (length ks) (xors xs ys)"
proof (induction xs ys arbitrary: ks rule: list_induct2)
  case (Cons x xs y ys)
  have "(x XOR k) XOR (y XOR k) = x XOR y" for k :: byte
    by (intro bit_word_eqI) (auto simp: bit_simps)
  with Cons.IH show ?case by (cases ks) simp_all
qed simp

text \<open>Encrypting once more decrypts, and a ciphertext is as long as its text.\<close>

lemma encryption_roundtrip:
  assumes "AESModeCTR key p = Ret c"
  shows "AESModeCTR key c = Ret p" and "length c = length p"
proof -
  from assms have c: "c = xors p (key_stream (hex_decode key) (length p))"
    by (simp add: AESModeCTR_def Let_def split: if_splits)
  with key_stream_enough [of "length p"] show "length c = length p" by simp
  then show "AESModeCTR key c = Ret p"
    using assms key_stream_enough [of "length p"] c
    by (simp add: AESModeCTR_def Let_def xors_involution split: if_splits)
qed

text \<open>The counter starts at 0 for every request, so the key stream repeats: two ciphertexts tell
  the difference of their texts without the key.\<close>

lemma key_stream_reused:
  assumes "AESModeCTR key p = Ret c" and "AESModeCTR key q = Ret d" and "length p = length q"
  shows "xors c d = xors p q"
proof -
  have "c = xors p (key_stream (hex_decode key) (length p))" "d = xors q (key_stream (hex_decode key) (length p))"
    using assms by (simp_all add: AESModeCTR_def Let_def split: if_splits)
  then show ?thesis
    using assms(3) key_stream_enough [of "length p"] by (simp add: xors_cancel)
qed

text \<open>A handler ends the process exactly when the key has no length that AES takes.\<close>

lemma ShowEncryption_panics:
  "(\<exists>e. ShowEncryption key d message = Panic e) \<longleftrightarrow> length (hex_decode key) \<notin> {16, 24, 32}"
  by (simp add: ShowEncryption_def encryption_reply_def AESModeCTR_def Let_def)

end
