(* ===== verification/EventPipeline.thy ===== *)
theory EventPipeline
  imports TimeseriesDB EventLog GoJson Goroutines
begin

text \<open>
  \<open>tools/knative-eventing-tutorial/cmd\<close>: temperatures are read (\<open>server\<close>), events of hot ones become
  overheat events (\<open>tempConsumer\<close>), and these alert the engineers (\<open>overheatConsumer\<close>). The CloudEvents
  client and the environment decoder are answered by the world; the data of an event is the JSON
  text of a struct with the one field \<open>celsius\<close>. The routing of events by their type is that of the
  triggers in \<open>config-kn.yaml\<close>.
\<close>

subsection \<open>The data of events (\<open>eventschemas.go\<close>)\<close>

definition celsius_json :: "int32 \<Rightarrow> json" where
  "celsius_json c = JObj [(''celsius'', JNum (itoa (sint c)))]"

definition SetData :: "int32 \<Rightarrow> string" where
  "SetData c = marshal (celsius_json c)"

text \<open>A number that does not fit 32 bits is an error.\<close>

definition json_int32 :: "int32 \<Rightarrow> json \<Rightarrow> int32 option" where
  "json_int32 x v =
     (case json_int (sint x) v of
        Some i \<Rightarrow> if - 2147483648 \<le> i \<and> i \<le> 2147483647 then Some (word_of_int i) else None
      | None \<Rightarrow> None)"

definition decode_celsius :: "json \<Rightarrow> int32 option" where
  "decode_celsius v = (case v of JNull \<Rightarrow> Some 0 | JObj ms \<Rightarrow> decode_field json_int32 0 ''celsius'' ms | _ \<Rightarrow> None)"

text \<open>An event without data leaves the struct as it is.\<close>

definition DataAs :: "string \<Rightarrow> int32 option" where
  "DataAs d = (if d = [] then Some 0 else Option.bind (parse_json d) decode_celsius)"

text \<open>The contract of the codec between the programs.\<close>

locale event_codec =
  fixes encode :: "int32 \<Rightarrow> string" and decode :: "string \<Rightarrow> int32 option"
  assumes decode_encode: "decode (encode c) = Some c"
begin

lemma encode_inject: "encode c = encode d \<longleftrightarrow> c = d"
  by (metis decode_encode option.inject)

end

subsection \<open>The three programs\<close>

record temp_reading =
  Celsius :: int32
  Provider :: string
  Zone :: string
  Machine :: string

record temp_response =
  Ok :: bool
  Reason :: string

datatype pipeline_event = Send cloud_event bool

text \<open>The source and the extensions of a reading's event.\<close>

definition reading_source :: "temp_reading \<Rightarrow> string" where
  "reading_source t = ''//node/'' @ Provider t @ ''/'' @ Zone t @ ''/'' @ Machine t"

definition reading_event :: "temp_reading \<Rightarrow> cloud_event" where
  "reading_event t =
     \<lparr>CeId = '''', CeSource = reading_source t, CeType = ''temp'',
      CeExtensions = AList.update ''providerZone'' (ExtString (''//provider-zone/'' @ Provider t @ ''/'' @ Zone t))
        (AList.update ''provider'' (ExtString (''//provider/'' @ Provider t)) []),
      CeData = SetData (Celsius t)\<rparr>"

text \<open>\<open>acked h e\<close>: whether the event was acknowledged. It is only logged if it was not.\<close>

definition ReadTemp :: "(pipeline_event list \<Rightarrow> cloud_event \<Rightarrow> bool) \<Rightarrow> temp_reading \<Rightarrow> (pipeline_event, temp_response) logged" where
  "ReadTemp acked t =
     (if sint (Celsius t) > 100 then
        State_Monad.return \<lparr>Ok = False, Reason = ''too hot, cannot be more than 100 degrees''\<rparr>
      else if sint (Celsius t) < 0 then
        State_Monad.return \<lparr>Ok = False, Reason = ''too col, cannot be less than 0 degrees''\<rparr>
      else
        State_Monad.bind (perform (\<lambda>h. acked h (reading_event t)) (Send (reading_event t)))
          (\<lambda>ack. State_Monad.return \<lparr>Ok = True, Reason = ''''\<rparr>))"

definition mustEmbedUnimplementedTempReaderServer :: "unit outcome" where
  "mustEmbedUnimplementedTempReaderServer = Panic (NewError ''not implemented'')"

text \<open>A callback answers with an event, or none, and a result; an extension that is missing is not
  set.\<close>

datatype ce_result = HTTPResult nat

definition copy_extension :: "cloud_event \<Rightarrow> string \<Rightarrow> (string \<times> ext_value) list \<Rightarrow> (string \<times> ext_value) list" where
  "copy_extension event k exts =
     (case map_of (CeExtensions event) k of Some v \<Rightarrow> AList.update k v exts | None \<Rightarrow> exts)"

definition temp_callback :: "string \<Rightarrow> cloud_event \<Rightarrow> cloud_event option \<times> ce_result option" where
  "temp_callback new_uuid event =
     (case DataAs (CeData event) of
        None \<Rightarrow> (None, Some (HTTPResult 400))
      | Some celsius \<Rightarrow>
          if sint celsius \<le> 80 then (None, None)
          else (Some \<lparr>CeId = new_uuid, CeSource = CeSource event, CeType = ''overheat'',
                      CeExtensions = copy_extension event ''providerZone'' (copy_extension event ''provider'' []),
                      CeData = SetData celsius\<rparr>, None))"

datatype alert = Alert string int32

definition overheat_callback :: "cloud_event \<Rightarrow> alert list \<times> ce_result option" where
  "overheat_callback event =
     (case DataAs (CeData event) of
        None \<Rightarrow> ([], Some (HTTPResult 400))
      | Some celsius \<Rightarrow> ([Alert (CeSource event) celsius], None))"

subsection \<open>Their \<open>main\<close> functions\<close>

datatype start_event =
    ProcessEnv "go_error + string"
  | NewHTTP "string option" "go_error option"
  | NewClient "go_error option"
  | ListenTcp string "go_error option"
  | ServeTempReader "go_error option"
  | StartReceiver "go_error option"
  | CloseListen

record start_world =
  process_env :: "go_error + string"
  new_http :: "string option \<Rightarrow> go_error option"
  new_client :: "go_error option"
  listen_tcp :: "string \<Rightarrow> go_error option"
  serve_grpc :: "go_error option"
  start_receiver :: "go_error option"

definition temp_server_main :: "start_world \<Rightarrow> (start_event, unit outcome) logged" where
  "temp_server_main w =
     obind (or_fatal ''Failed to process env var'' (perform (\<lambda>h. process_env w) ProcessEnv)) (\<lambda>sink.
     obind (or_fatal_err ''Failed to create CloudEvent protocol'' (perform (\<lambda>h. new_http w (Some sink)) (NewHTTP (Some sink)))) (\<lambda>_.
     obind (or_fatal_err ''Failed to create CloudEvent client'' (perform (\<lambda>h. new_client w) NewClient)) (\<lambda>_.
     obind (or_fatal_err ''Failed to listen'' (perform (\<lambda>h. listen_tcp w ''0.0.0.0:8080'') (ListenTcp ''0.0.0.0:8080''))) (\<lambda>_.
     obind (or_fatal_err ''Failed to serve'' (perform (\<lambda>h. serve_grpc w) ServeTempReader)) (\<lambda>_.
     ignore_result (record_event CloseListen))))))"

definition consumer_main :: "start_world \<Rightarrow> (start_event, unit outcome) logged" where
  "consumer_main w =
     obind (or_fatal_err ''Failed to create client'' (perform (\<lambda>h. new_http w None) (NewHTTP None))) (\<lambda>_.
     or_fatal_err ''Receiver failed'' (perform (\<lambda>h. start_receiver w) StartReceiver))"

definition temp_consumer_main :: "start_world \<Rightarrow> (start_event, unit outcome) logged" where
  "temp_consumer_main = consumer_main"

definition overheat_consumer_main :: "start_world \<Rightarrow> (start_event, unit outcome) logged" where
  "overheat_consumer_main = consumer_main"

subsection \<open>The pipeline\<close>

text \<open>The broker holds events in no order. A step is a reading that arrives at the server, or the delivery
  of one event to the consumer its type selects; an answer goes back to the broker. An event of
  another type has no consumer and is dropped.\<close>

record pipeline =
  Readings :: "temp_reading list"
  Broker :: "cloud_event list"
  Alerts :: "alert list"

definition sent_events :: "pipeline_event list \<Rightarrow> cloud_event list" where
  "sent_events h = concat (map (\<lambda>e. case e of Send ev ack \<Rightarrow> if ack then [ev] else []) h)"

definition read_step :: "(cloud_event \<Rightarrow> bool) \<Rightarrow> pipeline \<Rightarrow> pipeline option" where
  "read_step acked s =
     (case Readings s of
        [] \<Rightarrow> None
      | t # ts \<Rightarrow>
          Some (s\<lparr>Readings := ts, Broker := Broker s @ sent_events (snd (run_state (ReadTemp (\<lambda>h. acked) t) []))\<rparr>))"

definition without :: "nat \<Rightarrow> 'a list \<Rightarrow> 'a list" where
  "without i xs = take i xs @ drop (Suc i) xs"

definition deliver_step :: "string \<Rightarrow> nat \<Rightarrow> pipeline \<Rightarrow> pipeline" where
  "deliver_step new_uuid i s =
     (let e = Broker s ! i; rest = without i (Broker s)
      in if CeType e = ''temp'' then
           (case fst (temp_callback new_uuid e) of Some e' \<Rightarrow> s\<lparr>Broker := rest @ [e']\<rparr> | None \<Rightarrow> s\<lparr>Broker := rest\<rparr>)
         else if CeType e = ''overheat'' then s\<lparr>Broker := rest, Alerts := Alerts s @ fst (overheat_callback e)\<rparr>
         else s\<lparr>Broker := rest\<rparr>)"

inductive pipeline_step :: "(cloud_event \<Rightarrow> bool) \<Rightarrow> pipeline \<Rightarrow> pipeline \<Rightarrow> bool" for acked where
  reading: "read_step acked s = Some s' \<Longrightarrow> pipeline_step acked s s'"
| delivery: "i < length (Broker s) \<Longrightarrow> pipeline_step acked s (deliver_step new_uuid i s)"

definition pipeline_start :: "temp_reading list \<Rightarrow> pipeline" where
  "pipeline_start ts = \<lparr>Readings = ts, Broker = [], Alerts = []\<rparr>"

subsection \<open>The codec\<close>

lemma hd_nat_digits: "hd (nat_digits n) = CHR ''0'' \<Longrightarrow> nat_digits n = ''0''"
proof (induction n rule: nat_digits.induct)
  case (1 n)
  have d0: "digit_char 0 = CHR ''0''" by code_simp
  have zero: "m = 0" if "m < 10" "digit_char m = CHR ''0''" for m
    using digit_val_digit_char [OF that(1)] digit_val_digit_char [of 0] that(2) d0 by simp
  show ?case
  proof (cases "n < 10")
    case True
    then have eq: "nat_digits n = [digit_char n]" by (subst nat_digits.simps) simp
    then have "n = 0" using zero [OF True] "1.prems" by simp
    then show ?thesis using eq d0 by simp
  next
    case False
    then have eq: "nat_digits n = nat_digits (n div 10) @ [digit_char (n mod 10)]" by (subst nat_digits.simps) simp
    then have "hd (nat_digits (n div 10)) = CHR ''0''" using "1.prems" by (simp add: hd_append)
    then have "nat_digits (n div 10) = ''0''" by (rule "1.IH" [OF False])
    moreover have "nat_digits 0 = ''0''" by (simp add: nat_digits.simps [of 0] d0)
    ultimately have "n div 10 = 0" by (metis nat_digits_inject)
    with False show ?thesis by simp
  qed
qed

lemma valid_number_itoa: "valid_number (itoa i) \<and> list_all number_char (itoa i)"
proof -
  have all: "\<forall>c\<in>set (nat_digits n). is_digit c" for n using nat_digits_all by blast
  have take: "takeWhile is_digit (nat_digits n) = nat_digits n" "dropWhile is_digit (nat_digits n) = []" for n
    using all [of n] by (simp_all add: takeWhile_eq_all_conv dropWhile_eq_Nil_conv)
  obtain c cs where ds: "nat_digits (nat i) = c # cs" by (cases "nat_digits (nat i)") simp_all
  have c: "c \<noteq> CHR ''-''" using all [of "nat i"] ds digit_not_sign by auto
  have "valid_number (itoa i)"
  proof (cases "i < 0")
    case True
    then show ?thesis using hd_nat_digits [of "nat (- i)"]
      by (simp add: valid_number_def itoa_def fraction_def Let_def take)
  next
    case False
    have "(case itoa i of c # cs \<Rightarrow> if c = CHR ''-'' then cs else itoa i | [] \<Rightarrow> []) = nat_digits (nat i)"
      using False c ds by (simp add: itoa_def)
    then show ?thesis using hd_nat_digits [of "nat i"]
      by (simp only: valid_number_def Let_def take) (simp add: fraction_def)
  qed
  moreover have "list_all number_char (itoa i)"
    using all by (auto simp: itoa_def list_all_iff number_char_def)
  ultimately show ?thesis ..
qed

lemma DataAs_SetData: "DataAs (SetData c) = Some c"
proof -
  have "printable (celsius_json c)" using valid_number_itoa by (simp add: celsius_json_def ascii_def)
  then have parse: "parse_json (SetData c) = Some (celsius_json c)" unfolding SetData_def by (rule parse_marshal)
  moreover have "parse_json [] = None" by (simp add: parse_json_def)
  then have "SetData c \<noteq> []" using parse by auto
  moreover have "parse_int64 (itoa (sint c)) = (sint c, None)" using sint32_bounds [of c] by (intro atoi_itoa) simp_all
  then have "json_int32 0 (JNum (itoa (sint c))) = Some c"
    using sint32_bounds [of c] by (simp add: json_int32_def json_int_def)
  ultimately show ?thesis
    by (simp add: DataAs_def decode_celsius_def celsius_json_def decode_field_def member_values_def fold_equal_def)
qed

interpretation celsius_codec: event_codec SetData DataAs
  by unfold_locales (rule DataAs_SetData)

subsection \<open>The invariant of the pipeline\<close>

text \<open>What a reading, and an event in the broker, will alert of.\<close>

definition alarming :: "(cloud_event \<Rightarrow> bool) \<Rightarrow> temp_reading \<Rightarrow> alert list" where
  "alarming acked t =
     (if 80 < sint (Celsius t) \<and> sint (Celsius t) \<le> 100 \<and> acked (reading_event t)
      then [Alert (reading_source t) (Celsius t)] else [])"

definition pending_alerts :: "cloud_event \<Rightarrow> alert list" where
  "pending_alerts e =
     (case DataAs (CeData e) of
        None \<Rightarrow> []
      | Some c \<Rightarrow> if CeType e = ''overheat'' \<or> CeType e = ''temp'' \<and> 80 < sint c then [Alert (CeSource e) c] else [])"

definition event_steps :: "cloud_event \<Rightarrow> nat" where
  "event_steps e = (if CeType e = ''temp'' then 2 else 1)"

definition pipeline_work :: "pipeline \<Rightarrow> nat" where
  "pipeline_work s = 3 * length (Readings s) + sum_list (map event_steps (Broker s))"

definition pipeline_ok :: "(cloud_event \<Rightarrow> bool) \<Rightarrow> temp_reading list \<Rightarrow> pipeline \<Rightarrow> bool" where
  "pipeline_ok acked ts s \<longleftrightarrow>
     mset (Alerts s) + mset (concat (map pending_alerts (Broker s))) + mset (concat (map (alarming acked) (Readings s))) =
       mset (concat (map (alarming acked) ts))"

lemma split_without: "i < length xs \<Longrightarrow> xs = take i xs @ xs ! i # drop (Suc i) xs"
  by (rule id_take_nth_drop)

lemma without_sums:
  assumes "i < length xs"
  shows "mset (concat (map f xs)) = mset (f (xs ! i)) + mset (concat (map f (without i xs)))"
    and "sum_list (map g xs) = (g (xs ! i) :: nat) + sum_list (map g (without i xs))"
  by (subst split_without [OF assms], simp add: without_def)+

lemma read_step_broker:
  "sent_events (snd (run_state (ReadTemp (\<lambda>h. acked) t) [])) =
     (if 0 \<le> sint (Celsius t) \<and> sint (Celsius t) \<le> 100 \<and> acked (reading_event t) then [reading_event t] else [])"
  by (simp add: ReadTemp_def sent_events_def run_state_bind run_state_return)

lemma pending_reading_event:
  "pending_alerts (reading_event t) = (if 80 < sint (Celsius t) then [Alert (reading_source t) (Celsius t)] else [])"
  by (simp add: pending_alerts_def reading_event_def celsius_codec.decode_encode)

lemma pipeline_ok_step:
  assumes ok: "pipeline_ok acked ts s" and step: "pipeline_step acked s s'"
  shows "pipeline_ok acked ts s'"
  using step
proof cases
  case reading
  then obtain t rest where t: "Readings s = t # rest"
    "s' = s\<lparr>Readings := rest, Broker := Broker s @ sent_events (snd (run_state (ReadTemp (\<lambda>h. acked) t) []))\<rparr>"
    by (auto simp: read_step_def split: list.splits)
  have "concat (map pending_alerts (sent_events (snd (run_state (ReadTemp (\<lambda>h. acked) t) [])))) = alarming acked t"
    unfolding read_step_broker by (simp add: pending_reading_event alarming_def)
  then show ?thesis using ok t by (simp add: pipeline_ok_def add.assoc)
next
  case (delivery i new_uuid)
  let ?e = "Broker s ! i"
  note sums = without_sums(1) [OF delivery(2), of pending_alerts]
  have reply: "case fst (temp_callback new_uuid ?e) of Some e' \<Rightarrow> pending_alerts e' = pending_alerts ?e
      | None \<Rightarrow> pending_alerts ?e = []" if "CeType ?e = ''temp''"
    using that by (auto simp: temp_callback_def pending_alerts_def celsius_codec.decode_encode split: option.splits)
  have alert: "fst (overheat_callback ?e) = pending_alerts ?e" if "CeType ?e = ''overheat''"
    using that by (simp add: overheat_callback_def pending_alerts_def split: option.split)
  have other: "pending_alerts ?e = []" if "CeType ?e \<noteq> ''temp''" "CeType ?e \<noteq> ''overheat''"
    using that by (simp add: pending_alerts_def split: option.split)
  consider (temp) "CeType ?e = ''temp''" | (overheat) "CeType ?e = ''overheat''"
    | (neither) "CeType ?e \<noteq> ''temp''" "CeType ?e \<noteq> ''overheat''" by blast
  then show ?thesis
  proof cases
    case temp
    then show ?thesis
      using ok sums reply unfolding delivery(1)
      by (auto simp: pipeline_ok_def deliver_step_def Let_def ac_simps split: option.splits)
  next
    case overheat
    then show ?thesis
      using ok sums alert unfolding delivery(1) by (simp add: pipeline_ok_def deliver_step_def Let_def ac_simps)
  next
    case neither
    then show ?thesis
      using ok sums other unfolding delivery(1) by (simp add: pipeline_ok_def deliver_step_def Let_def)
  qed
qed

lemma pipeline_work_step: "pipeline_step acked s s' \<Longrightarrow> pipeline_work s' < pipeline_work s"
proof (erule pipeline_step.cases)
  fix s0 s0'
  assume "s = s0" "s' = s0'" "read_step acked s0 = Some s0'"
  then show ?thesis
    by (auto simp: read_step_def read_step_broker pipeline_work_def event_steps_def split: list.splits if_splits)
next
  fix i s0 new_uuid
  assume d: "s = s0" "s' = deliver_step new_uuid i s0" "i < length (Broker s0)"
  have "fst (temp_callback new_uuid (Broker s ! i)) = Some e' \<Longrightarrow> event_steps e' = 1" for e'
    by (auto simp: temp_callback_def event_steps_def split: option.splits if_splits)
  then show ?thesis
    using d without_sums(2) [OF d(3), of event_steps]
    by (auto simp: deliver_step_def pipeline_work_def Let_def event_steps_def split: option.splits)
qed

lemma pipeline_progress: "\<not> (Readings s = [] \<and> Broker s = []) \<Longrightarrow> \<exists>s'. pipeline_step acked s s'"
proof (cases "Broker s")
  case (Cons e es)
  then show ?thesis using pipeline_step.delivery [of 0 s acked "''''"] by auto
next
  case Nil
  moreover assume "\<not> (Readings s = [] \<and> Broker s = [])"
  ultimately obtain s' where "read_step acked s = Some s'" by (cases "Readings s") (auto simp: read_step_def)
  then show ?thesis by (auto intro: pipeline_step.reading)
qed

lemma pipeline_ok_start: "pipeline_ok acked ts (pipeline_start ts)"
  by (simp add: pipeline_ok_def pipeline_start_def)

lemma pipeline_ok_alerts:
  "pipeline_ok acked ts s \<Longrightarrow> mset (Alerts s) \<subseteq># mset (concat (map (alarming acked) ts))"
  unfolding pipeline_ok_def by (metis add.assoc mset_subset_eq_add_left)

lemma pipeline_work_start: "pipeline_work (pipeline_start ts) = 3 * length ts"
  by (simp add: pipeline_work_def pipeline_start_def)

interpretation pipeline: computing_system "pipeline_step acked" "pipeline_start ts" "pipeline_ok acked ts" pipeline_work
    "\<lambda>s. Readings s = [] \<and> Broker s = []" "\<lambda>s. mset (Alerts s) = mset (concat (map (alarming acked) ts))"
  for acked ts
  by unfold_locales
    (blast intro: pipeline_ok_start pipeline_ok_step pipeline_work_step pipeline_progress | simp add: pipeline_ok_def)+

subsection \<open>Properties\<close>


definition demo_reading :: "int32 \<Rightarrow> temp_reading" where
  "demo_reading c = \<lparr>Celsius = c, Provider = ''aws'', Zone = ''us-east-1'', Machine = ''m1''\<rparr>"


end
